(* ===== verification/Switchml_Prelude.thy ===== *)
theory Switchml_Prelude
  imports Main "HOL-Library.Word"
begin

text \<open>
  Shared vocabulary of the development: the outcome type of code that may abort, the
  fixed-width arithmetic of C++ unsigned integers written on natural numbers, and the
  generic lemmas on rounded-up division and on lists that the components share.

  The two collections below gather the facts that the component proofs pass to the
  simplifier: \<open>u64_simps\<close> removes the wrap-around of an operation whose exact result fits in
  64 bits, \<open>outcome_simps\<close> runs code written with the sequencing operator.
\<close>

named_theorems u64_simps
named_theorems outcome_simps

section \<open>Outcomes\<close>

text \<open>
  \<open>Fatal\<close> stands for a glog \<open>LOG(FATAL)\<close> or a failed \<open>CHECK\<close>: the process aborts with a message.
  \<open>Crash\<close> stands for behaviour the C++ code does not control: an uncaught standard exception,
  a division by zero or an access outside the bounds of an object.
\<close>

datatype abort = Fatal string | Crash string

type_synonym 'a outcome = "abort + 'a"

definition bindE :: "'a outcome \<Rightarrow> ('a \<Rightarrow> 'b outcome) \<Rightarrow> 'b outcome" where
  "bindE m f = (case m of Inl e \<Rightarrow> Inl e | Inr x \<Rightarrow> f x)"

lemma bindE_Inl [simp, outcome_simps]: "bindE (Inl e) f = Inl e"
  by (simp add: bindE_def)

lemma bindE_Inr [simp, outcome_simps]: "bindE (Inr x) f = f x"
  by (simp add: bindE_def)

lemma bindE_eq_Inr: "bindE m f = Inr y \<longleftrightarrow> (\<exists>x. m = Inr x \<and> f x = Inr y)"
  by (cases m) auto

section \<open>Unsigned arithmetic\<close>

text \<open>
  Values of the types uint64_t, uint32_t and uint16_t are natural numbers; each operation
  writes its wrap-around out.
\<close>

definition u64 :: "nat \<Rightarrow> nat" where
  "u64 n = n mod 2 ^ 64"

definition u64_add :: "nat \<Rightarrow> nat \<Rightarrow> nat" where
  "u64_add a b = (a + b) mod 2 ^ 64"

definition u64_sub :: "nat \<Rightarrow> nat \<Rightarrow> nat" where
  "u64_sub a b = (a + (2 ^ 64 - b mod 2 ^ 64)) mod 2 ^ 64"

definition u64_mul :: "nat \<Rightarrow> nat \<Rightarrow> nat" where
  "u64_mul a b = (a * b) mod 2 ^ 64"

definition u32 :: "nat \<Rightarrow> nat" where
  "u32 n = n mod 2 ^ 32"

definition u16 :: "nat \<Rightarrow> nat" where
  "u16 n = n mod 2 ^ 16"

lemma u64_id [u64_simps]: "n < 2 ^ 64 \<Longrightarrow> u64 n = n"
  by (simp add: u64_def)

lemma u32_id [u64_simps]: "n < 2 ^ 32 \<Longrightarrow> u32 n = n"
  by (simp add: u32_def)

lemma u16_id [u64_simps]: "n < 2 ^ 16 \<Longrightarrow> u16 n = n"
  by (simp add: u16_def)

lemma u64_add_id [u64_simps]: "a + b < 2 ^ 64 \<Longrightarrow> u64_add a b = a + b"
  by (simp add: u64_add_def)

lemma u64_mul_id [u64_simps]: "a * b < 2 ^ 64 \<Longrightarrow> u64_mul a b = a * b"
  by (simp add: u64_mul_def)

lemma u64_sub_id [u64_simps]:
  assumes "b \<le> a" and "a < 2 ^ 64"
  shows "u64_sub a b = a - b"
proof -
  have b: "b mod 2 ^ 64 = b" using assms by simp
  have eq: "a + (2 ^ 64 - b) = (a - b) + 2 ^ 64" using assms by linarith
  have "u64_sub a b = (a - b) mod 2 ^ 64"
    unfolding u64_sub_def b eq by (rule mod_add_self2)
  then show ?thesis using assms by simp
qed

section \<open>Rounded-up division\<close>

lemma ceil_div_le:
  fixes n l :: nat
  assumes "0 < l"
  shows "n \<le> (n + l - 1) div l * l"
proof -
  have "n + l - 1 = (n + l - 1) div l * l + (n + l - 1) mod l" by simp
  moreover have "(n + l - 1) mod l < l" using assms by simp
  ultimately show ?thesis using assms by linarith
qed

lemma ceil_div_less:
  fixes n l k :: nat
  assumes "0 < l"
  shows "k < (n + l - 1) div l \<longleftrightarrow> k * l < n"
proof
  assume "k < (n + l - 1) div l"
  then have "Suc k \<le> (n + l - 1) div l" by simp
  then have "Suc k * l \<le> n + l - 1" using assms by (simp add: less_eq_div_iff_mult_less_eq)
  then show "k * l < n" using assms by simp
next
  assume "k * l < n"
  then have "Suc k * l \<le> n + l - 1" using assms by simp
  then have "Suc k \<le> (n + l - 1) div l" using assms by (simp add: less_eq_div_iff_mult_less_eq)
  then show "k < (n + l - 1) div l" by simp
qed

lemma ceil_div_zero [simp]:
  fixes l :: nat
  assumes "0 < l"
  shows "(l - Suc 0) div l = 0"
  using assms by simp

section \<open>Lists\<close>

lemma nth_list_update_split:
  "i < length xs \<Longrightarrow> xs[i := x] ! j = (if i = j then x else xs ! j)"
  by (auto simp: nth_list_update)

lemma filter_neq_notin: "i \<notin> set xs \<Longrightarrow> filter (\<lambda>j. j \<noteq> i) xs = xs"
  by (induction xs) auto

lemma filter_neq_split:
  assumes "distinct (as @ i # bs)"
  shows "filter (\<lambda>j. j \<noteq> i) (as @ i # bs) = as @ bs"
  using assms by (simp add: filter_neq_notin)

section \<open>Counting threads\<close>

text \<open>How many of the threads \<open>0, \<dots>, n - 1\<close> satisfy a predicate of their local state.\<close>

definition count_upto :: "nat \<Rightarrow> ('s \<Rightarrow> bool) \<Rightarrow> (nat \<Rightarrow> 's) \<Rightarrow> nat" where
  "count_upto n P f = (\<Sum>i < n. of_bool (P (f i)))"

lemma count_upto_update:
  assumes "i < n"
  shows "count_upto n P (f(i := x)) + of_bool (P (f i)) = count_upto n P f + of_bool (P x)"
proof -
  let ?g = "\<lambda>h j. of_bool (P (h j)) :: nat"
  have split: "sum (?g h) {..<n} = ?g h i + sum (?g h) ({..<n} - {i})" for h
    using assms by (intro sum.remove) auto
  have "sum (?g (f(i := x))) ({..<n} - {i}) = sum (?g f) ({..<n} - {i})"
    by (rule sum.cong) auto
  then show ?thesis
    unfolding count_upto_def split[of f] split[of "f(i := x)"] by simp
qed

lemma count_upto_le: "count_upto n P f \<le> n"
proof -
  have "(\<Sum>i < n. of_bool (P (f i)) :: nat) \<le> (\<Sum>i < n. 1)" by (rule sum_mono) simp
  then show ?thesis by (simp add: count_upto_def)
qed

lemma count_upto_0_iff: "count_upto n P f = 0 \<longleftrightarrow> (\<forall>i < n. \<not> P (f i))"
  by (auto simp: count_upto_def)

lemma count_upto_all: "(\<forall>i < n. P (f i)) \<Longrightarrow> count_upto n P f = n"
  by (simp add: count_upto_def)

lemma count_upto_not: "count_upto n (\<lambda>s. \<not> P s) f + count_upto n P f = n"
proof -
  have "(\<Sum>i < n. of_bool (\<not> P (f i)) + of_bool (P (f i)) :: nat) = (\<Sum>i < n. 1)"
    by (rule sum.cong) auto
  then show ?thesis by (simp add: count_upto_def sum.distrib)
qed

lemma count_upto_full_iff: "count_upto n P f = n \<longleftrightarrow> (\<forall>i < n. P (f i))"
  using count_upto_not[of n P f] count_upto_0_iff[of n "\<lambda>s. \<not> P s" f] by auto

lemma count_upto_disj:
  assumes "\<And>s. \<not> (P s \<and> Q s)"
  shows "count_upto n (\<lambda>s. P s \<or> Q s) f = count_upto n P f + count_upto n Q f"
proof -
  have "(\<Sum>i < n. of_bool (P (f i) \<or> Q (f i)) :: nat) = (\<Sum>i < n. of_bool (P (f i)) + of_bool (Q (f i)))"
    using assms by (intro sum.cong) auto
  then show ?thesis by (simp add: count_upto_def sum.distrib)
qed

lemma count_upto_cong:
  "(\<And>i. i < n \<Longrightarrow> P (f i) = Q (g i)) \<Longrightarrow> count_upto n P f = count_upto n Q g"
  by (simp add: count_upto_def)

section \<open>Loops that may fail\<close>

fun for_each :: "nat list \<Rightarrow> (nat \<Rightarrow> 's \<Rightarrow> 's outcome) \<Rightarrow> 's \<Rightarrow> 's outcome" where
  "for_each [] f s = Inr s"
| "for_each (i # is) f s = bindE (f i s) (for_each is f)"


lemma for_each_inv:
  assumes step: "\<And>i s. i < n \<Longrightarrow> P i s \<Longrightarrow> \<exists>s'. f i s = Inr s' \<and> P (Suc i) s'" and "P 0 s"
  shows "\<exists>s'. for_each [0..<n] f s = Inr s' \<and> P n s'"
proof -
  have "k \<le> n \<Longrightarrow> P k s \<Longrightarrow> \<exists>s'. for_each [k..<n] f s = Inr s' \<and> P n s'" for k s
  proof (induction "n - k" arbitrary: k s)
    case 0
    then show ?case by simp
  next
    case (Suc d)
    then have "k < n" by simp
    then obtain s1 where "f k s = Inr s1" "P (Suc k) s1" using step Suc.prems(2) by blast
    then show ?case using Suc.hyps(1)[of "Suc k" s1] Suc.hyps(2) \<open>k < n\<close> by (simp add: upt_conv_Cons)
  qed
  then show ?thesis using assms(2) by blast
qed

text \<open>A list whose first \<open>i\<close> entries have been replaced.\<close>

definition fill :: "nat \<Rightarrow> (nat \<Rightarrow> 'a) \<Rightarrow> (nat \<Rightarrow> 'a) \<Rightarrow> nat \<Rightarrow> 'a list" where
  "fill n g h i = map g [0..<i] @ map h [i..<n]"

lemma fill_simps [simp]:
  "fill n g h 0 = map h [0..<n]" "fill n g h n = map g [0..<n]" "i \<le> n \<Longrightarrow> length (fill n g h i) = n"
  "i < n \<Longrightarrow> fill n g h i ! i = h i"
  by (simp_all add: fill_def nth_append)

lemma fill_update [simp]: "i < n \<Longrightarrow> x = g i \<Longrightarrow> (fill n g h i)[i := x] = fill n g h (Suc i)"
  by (simp add: fill_def list_update_append upt_conv_Cons)

lemma for_each_fill:
  assumes step: "\<And>i. i < n \<Longrightarrow> f i (st i) = Inr (st (Suc i))"
  shows "for_each [0..<n] f (st 0) = Inr (st n)"
  using for_each_inv[of n "\<lambda>i s. s = st i" f "st 0"] step by blast

end
