(* ===== verification/Timeout_Queue.thy ===== *)
theory Timeout_Queue
  imports Switchml_Prelude
begin

text \<open>
  The RDMA backend's retransmission timer (client_lib/src/backends/rdma/rdma_timeout_queue.h
  and .cc): a doubly-linked list threaded through a vector of entries, one entry per queue
  pair. Links are C++ ints with -1 for "none"; time points are nanoseconds of the steady clock
  and the timeout is in milliseconds, both as integers. The representation predicate
  \<open>tq_rep\<close> relates the links to the list of queued indices, newest first, and the operations
  are shown to refine the obvious list operations, which the locale \<open>timer_list\<close> states as the
  contract its client (the RDMA worker thread) relies on.
\<close>

section \<open>The data structure\<close>

record tq_entry =
  tqe_valid :: bool
  tqe_next :: int
  tqe_previous :: int
  tqe_timestamp :: int

record timeout_queue =
  tq_entries :: "tq_entry list"
  tq_head :: int
  tq_tail :: int
  tq_timeout :: int
  tq_counter :: "32 word"
  tq_threshold :: "32 word"
  tq_increment :: "32 word"

definition TQEntry :: tq_entry where
  "TQEntry = \<lparr>tqe_valid = False, tqe_next = -1, tqe_previous = -1, tqe_timestamp = 0\<rparr>"

definition TimeoutQueue :: "nat \<Rightarrow> int \<Rightarrow> 32 word \<Rightarrow> 32 word \<Rightarrow> timeout_queue" where
  "TimeoutQueue num_entries timeout threshold increment =
     \<lparr>tq_entries = replicate num_entries TQEntry, tq_head = -1, tq_tail = -1,
      tq_timeout = timeout, tq_counter = 0, tq_threshold = threshold, tq_increment = increment\<rparr>"

text \<open>Vector accesses: an index outside the vector is an out-of-bounds access.\<close>

definition tq_get :: "timeout_queue \<Rightarrow> int \<Rightarrow> tq_entry outcome" where
  "tq_get q i = (if 0 \<le> i \<and> nat i < length (tq_entries q) then Inr (tq_entries q ! nat i)
                 else Inl (Crash ''entries_[index]''))"

definition tq_set :: "timeout_queue \<Rightarrow> int \<Rightarrow> (tq_entry \<Rightarrow> tq_entry) \<Rightarrow> timeout_queue outcome" where
  "tq_set q i f = bindE (tq_get q i) (\<lambda>e. Inr (q\<lparr>tq_entries := (tq_entries q)[nat i := f e]\<rparr>))"

definition tq_remove :: "timeout_queue \<Rightarrow> int \<Rightarrow> timeout_queue outcome" where
  "tq_remove q index =
     bindE (tq_get q index) (\<lambda>e.
     if \<not> tqe_valid e then Inr q
     else
       bindE (if tqe_previous e \<noteq> -1
              then tq_set q (tqe_previous e) (\<lambda>p. p\<lparr>tqe_next := tqe_next e\<rparr>) else Inr q) (\<lambda>q1.
       bindE (tq_get q1 index) (\<lambda>e1.
       bindE (if tqe_next e1 \<noteq> -1
              then tq_set q1 (tqe_next e1) (\<lambda>n. n\<lparr>tqe_previous := tqe_previous e1\<rparr>) else Inr q1) (\<lambda>q2.
       bindE (tq_get q2 index) (\<lambda>e2.
         let q3 = (if tq_head q2 = index then q2\<lparr>tq_head := tqe_next e2\<rparr> else q2);
             q4 = (if tq_tail q3 = index then q3\<lparr>tq_tail := tqe_previous e2\<rparr> else q3)
         in tq_set q4 index (\<lambda>x. x\<lparr>tqe_next := -1, tqe_previous := -1, tqe_valid := False\<rparr>))))))"

definition tq_push :: "timeout_queue \<Rightarrow> int \<Rightarrow> int \<Rightarrow> timeout_queue outcome" where
  "tq_push q index timestamp =
     bindE (if tq_head q \<noteq> -1
            then bindE (tq_get q (tq_head q)) (\<lambda>h. Inr (timestamp < tqe_timestamp h))
            else Inr False) (\<lambda>out_of_order.
     if out_of_order then Inl (Fatal ''Inserting out-of-order timestamp'')
     else
       bindE (tq_remove q index) (\<lambda>q1.
       bindE (tq_set q1 index (\<lambda>e. e\<lparr>tqe_valid := True, tqe_previous := -1,
                tqe_next := tq_head q1, tqe_timestamp := timestamp\<rparr>)) (\<lambda>q2.
       bindE (if tq_head q2 \<noteq> -1
              then tq_set q2 (tq_head q2) (\<lambda>h. h\<lparr>tqe_previous := index\<rparr>) else Inr q2) (\<lambda>q3.
         let q4 = q3\<lparr>tq_head := index\<rparr>
         in Inr (if tq_tail q4 = -1 then q4\<lparr>tq_tail := index\<rparr> else q4)))))"

text \<open>duration_cast to milliseconds truncates toward zero.\<close>

definition ms_of_ns :: "int \<Rightarrow> int" where
  "ms_of_ns d = sgn d * (\<bar>d\<bar> div 1000000)"

definition tq_count_timeout :: "timeout_queue \<Rightarrow> timeout_queue" where
  "tq_count_timeout q =
     (let q1 = q\<lparr>tq_counter := tq_counter q + 1\<rparr>
      in if tq_counter q1 > tq_threshold q1
         then q1\<lparr>tq_counter := 0, tq_timeout := tq_timeout q1 * 2,
                 tq_threshold := tq_threshold q1 + tq_increment q1\<rparr>
         else q1)"

definition tq_check :: "timeout_queue \<Rightarrow> int \<Rightarrow> (int \<times> timeout_queue) outcome" where
  "tq_check q timestamp =
     (if tq_tail q \<noteq> -1 then
        bindE (tq_get q (tq_tail q)) (\<lambda>t.
        if ms_of_ns (timestamp - tqe_timestamp t) > tq_timeout q
        then Inr (tq_tail (tq_count_timeout q), tq_count_timeout q)
        else Inr (-1, q))
      else Inr (-1, q))"

section \<open>Doubly-linked segments\<close>

text \<open>
  \<open>seg es p xs n\<close>: the entries of \<open>xs\<close> are valid and chained in this order, the first one's
  previous link is \<open>p\<close> and the last one's next link is \<open>n\<close>.
\<close>

fun seg :: "tq_entry list \<Rightarrow> int \<Rightarrow> nat list \<Rightarrow> int \<Rightarrow> bool" where
  "seg es p [] n = True"
| "seg es p (x # xs) n =
     (x < length es \<and> tqe_valid (es ! x) \<and> tqe_previous (es ! x) = p \<and>
      tqe_next (es ! x) = (case xs of [] \<Rightarrow> n | y # _ \<Rightarrow> int y) \<and>
      seg es (int x) xs n)"

definition first_link :: "nat list \<Rightarrow> int \<Rightarrow> int" where
  "first_link xs d = (case xs of [] \<Rightarrow> d | x # _ \<Rightarrow> int x)"

definition last_link :: "nat list \<Rightarrow> int \<Rightarrow> int" where
  "last_link xs d = (if xs = [] then d else int (last xs))"

lemma link_simps [simp]:
  "first_link [] d = d" "first_link (x # xs) d = int x"
  "last_link [] d = d" "last_link (xs @ [x]) d = int x"
  "last_link [x] d = int x"
  "last_link (x # y # xs) d = last_link (y # xs) d"
  by (simp_all add: first_link_def last_link_def)

lemma last_link_append [simp]:
  "last_link (xs @ y # ys) d = last_link (y # ys) d"
  by (simp add: last_link_def)

lemma last_link_Cons_any: "last_link (x # xs) d = last_link xs (int x)"
  by (cases xs rule: rev_cases) (auto simp: last_link_def)

lemma seg_append:
  "seg es p (as @ bs) n \<longleftrightarrow> seg es p as (first_link bs n) \<and> seg es (last_link as p) bs n"
  by (induction as arbitrary: p) (auto simp: last_link_Cons_any first_link_def split: list.splits)

lemma seg_bound: "seg es p xs n \<Longrightarrow> x \<in> set xs \<Longrightarrow> x < length es \<and> tqe_valid (es ! x)"
  by (induction xs arbitrary: p) auto

lemma seg_frame: "i \<notin> set xs \<Longrightarrow> seg (es[i := e]) p xs n = seg es p xs n"
  by (induction xs arbitrary: p) auto

lemma seg_set_last:
  assumes "seg es p xs n" and "xs \<noteq> []" and "distinct xs"
  shows "seg (es[last xs := (es ! last xs)\<lparr>tqe_next := m\<rparr>]) p xs m"
proof -
  obtain as x where xs: "xs = as @ [x]" using assms(2) by (cases xs rule: rev_cases) auto
  show ?thesis using assms(1,3) by (auto simp: xs seg_append seg_frame)
qed

lemma seg_set_first:
  assumes "seg es p xs n" and "xs \<noteq> []" and "distinct xs"
  shows "seg (es[hd xs := (es ! hd xs)\<lparr>tqe_previous := m\<rparr>]) m xs n"
  using assms by (cases xs) (auto simp: seg_frame split: list.splits)

section \<open>Representation\<close>

definition tq_rep :: "timeout_queue \<Rightarrow> nat list \<Rightarrow> bool" where
  "tq_rep q xs \<longleftrightarrow>
     distinct xs \<and>
     tq_head q = first_link xs (-1) \<and> tq_tail q = last_link xs (-1) \<and>
     seg (tq_entries q) (-1) xs (-1) \<and>
     (\<forall>i < length (tq_entries q). tqe_valid (tq_entries q ! i) \<longleftrightarrow> i \<in> set xs)"

definition tq_stamp :: "timeout_queue \<Rightarrow> nat \<Rightarrow> int" where
  "tq_stamp q i = tqe_timestamp (tq_entries q ! i)"

text \<open>The queue as a list of (index, timestamp), newest first, read off by following the links.\<close>

fun tq_walk :: "nat \<Rightarrow> timeout_queue \<Rightarrow> int \<Rightarrow> (nat \<times> int) list" where
  "tq_walk 0 q i = []"
| "tq_walk (Suc n) q i =
     (if i = -1 then [] else (nat i, tq_stamp q (nat i)) # tq_walk n q (tqe_next (tq_entries q ! nat i)))"

definition tq_list :: "timeout_queue \<Rightarrow> (nat \<times> int) list" where
  "tq_list q = tq_walk (length (tq_entries q)) q (tq_head q)"

definition tq_capacity :: "timeout_queue \<Rightarrow> nat" where
  "tq_capacity q = length (tq_entries q)"

definition tq_wf :: "timeout_queue \<Rightarrow> bool" where
  "tq_wf q \<longleftrightarrow> tq_rep q (map fst (tq_list q)) \<and> sorted_wrt (\<lambda>a b. snd b \<le> snd a) (tq_list q)"

lemma tq_walk_seg:
  assumes "seg (tq_entries q) p xs (-1)" and "length xs \<le> n"
  shows "tq_walk n q (first_link xs (-1)) = map (\<lambda>i. (i, tq_stamp q i)) xs"
  using assms
proof (induction xs arbitrary: p n)
  case Nil
  then show ?case by (cases n) auto
next
  case (Cons x xs)
  then obtain m where n: "n = Suc m" by (cases n) auto
  have "seg (tq_entries q) (int x) xs (-1)" and nx: "tqe_next (tq_entries q ! x) = first_link xs (-1)"
    using Cons.prems by (auto simp: first_link_def)
  then have "tq_walk m q (first_link xs (-1)) = map (\<lambda>i. (i, tq_stamp q i)) xs"
    using Cons n by auto
  then show ?case by (simp add: n nx)
qed

lemma distinct_bounded_length: "distinct xs \<Longrightarrow> (\<forall>x \<in> set xs. x < n) \<Longrightarrow> length xs \<le> (n::nat)"
proof -
  assume d: "distinct xs" and "\<forall>x \<in> set xs. x < n"
  then have "set xs \<subseteq> {..<n}" by auto
  then have "card (set xs) \<le> n" using card_mono[of "{..<n}" "set xs"] by simp
  then show ?thesis using d by (simp add: distinct_card)
qed

lemma tq_rep_list: "tq_rep q xs \<Longrightarrow> tq_list q = map (\<lambda>i. (i, tq_stamp q i)) xs"
  unfolding tq_list_def tq_rep_def
  by (metis distinct_bounded_length seg_bound tq_walk_seg)

lemma tq_wf_iff:
  "tq_wf q \<longleftrightarrow> (\<exists>xs. tq_rep q xs \<and> sorted_wrt (\<lambda>i j. tq_stamp q j \<le> tq_stamp q i) xs)"
proof
  assume w: "tq_wf q"
  then have rep: "tq_rep q (map fst (tq_list q))" by (simp add: tq_wf_def)
  define xs where "xs = map fst (tq_list q)"
  have "tq_list q = map (\<lambda>i. (i, tq_stamp q i)) xs"
    using tq_rep_list[OF rep] by (simp add: xs_def)
  then have "sorted_wrt (\<lambda>i j. tq_stamp q j \<le> tq_stamp q i) xs"
    using w by (simp add: tq_wf_def sorted_wrt_map)
  then show "\<exists>xs. tq_rep q xs \<and> sorted_wrt (\<lambda>i j. tq_stamp q j \<le> tq_stamp q i) xs"
    using rep xs_def by blast
next
  assume "\<exists>xs. tq_rep q xs \<and> sorted_wrt (\<lambda>i j. tq_stamp q j \<le> tq_stamp q i) xs"
  then show "tq_wf q"
    by (auto simp: tq_wf_def tq_rep_list sorted_wrt_map comp_def)
qed

section \<open>The operations refine list operations\<close>

text \<open>
  Unlinking index \<open>i\<close> from between \<open>as\<close> and \<open>bs\<close> on the bare entries, the three writes of
  \<open>tq_remove\<close> in order.
\<close>

definition unlink :: "tq_entry list \<Rightarrow> nat list \<Rightarrow> nat \<Rightarrow> nat list \<Rightarrow> tq_entry list" where
  "unlink es as i bs =
     (let es1 = (if as = [] then es
                 else es[last as := (es ! last as)\<lparr>tqe_next := first_link bs (-1)\<rparr>]);
          es2 = (if bs = [] then es1
                 else es1[hd bs := (es1 ! hd bs)\<lparr>tqe_previous := last_link as (-1)\<rparr>])
      in es2[i := (es2 ! i)\<lparr>tqe_next := -1, tqe_previous := -1, tqe_valid := False\<rparr>])"

lemma tq_get_nat [outcome_simps]:
  "i < length (tq_entries q) \<Longrightarrow> tq_get q (int i) = Inr (tq_entries q ! i)"
  by (simp add: tq_get_def)

lemma tq_set_nat [outcome_simps]:
  "i < length (tq_entries q) \<Longrightarrow>
   tq_set q (int i) f = Inr (q\<lparr>tq_entries := (tq_entries q)[i := f (tq_entries q ! i)]\<rparr>)"
  by (simp add: tq_set_def tq_get_nat)

lemma last_link_last: "xs \<noteq> [] \<Longrightarrow> last_link xs d = int (last xs)"
  by (simp add: last_link_def)

lemma first_link_hd: "xs \<noteq> [] \<Longrightarrow> first_link xs d = int (hd xs)"
  by (cases xs) (simp_all add: first_link_def)

lemma link_minus1 [simp]:
  "first_link xs (-1) = -1 \<longleftrightarrow> xs = []" "last_link xs (-1) = -1 \<longleftrightarrow> xs = []"
  by (auto simp: first_link_def last_link_def split: list.splits)

lemma seg_middle:
  assumes "seg es p (as @ i # bs) n"
  shows "i < length es" "tqe_valid (es ! i)" "tqe_previous (es ! i) = last_link as p"
    "tqe_next (es ! i) = first_link bs n" "seg es p as (int i)" "seg es (int i) bs n"
  using assms by (auto simp: seg_append first_link_def)

lemma tq_remove_unlink:
  assumes rep: "tq_rep q (as @ i # bs)"
  shows "tq_remove q (int i) =
     Inr (q\<lparr>tq_entries := unlink (tq_entries q) as i bs,
            tq_head := first_link (as @ bs) (-1), tq_tail := last_link (as @ bs) (-1)\<rparr>)"
proof -
  have sg: "seg (tq_entries q) (-1) (as @ i # bs) (-1)" and d: "distinct (as @ i # bs)"
    and hd: "tq_head q = first_link (as @ i # bs) (-1)"
    and tl: "tq_tail q = last_link (as @ i # bs) (-1)"
    using rep by (auto simp: tq_rep_def)
  note mid = seg_middle[OF sg]
  have la: "as \<noteq> [] \<Longrightarrow> last as < length (tq_entries q) \<and> last as \<noteq> i"
    using seg_bound[OF mid(5)] d by auto
  have hb: "bs \<noteq> [] \<Longrightarrow> hd bs < length (tq_entries q) \<and> hd bs \<noteq> i"
    using seg_bound[OF mid(6)] d by auto
  have h: "tq_head q = int i \<longleftrightarrow> as = []"
    using hd d by (cases as) (auto simp: first_link_def)
  have t: "tq_tail q = int i \<longleftrightarrow> bs = []"
    using tl d by (cases bs rule: rev_cases) (auto simp: last_link_def)
  have h': "as \<noteq> [] \<Longrightarrow> tq_head q = first_link (as @ bs) (-1)"
    using hd by (cases as) simp_all
  have t': "bs \<noteq> [] \<Longrightarrow> tq_tail q = last_link (as @ bs) (-1)"
    using tl by (simp add: last_link_def)
  show ?thesis
    using mid la hb h t h' t'
    by (cases "as = []"; cases "bs = []")
      (auto simp: tq_remove_def unlink_def Let_def outcome_simps first_link_hd last_link_last)
qed

lemma unlink_length [simp]: "length (unlink es as i bs) = length es"
  by (simp add: unlink_def Let_def)

lemma entry_update_frame:
  assumes "j < length es"
  shows "tqe_valid (es[k := (es ! k)\<lparr>tqe_next := m\<rparr>] ! j) = tqe_valid (es ! j)"
    and "tqe_valid (es[k := (es ! k)\<lparr>tqe_previous := m\<rparr>] ! j) = tqe_valid (es ! j)"
    and "tqe_timestamp (es[k := (es ! k)\<lparr>tqe_next := m\<rparr>] ! j) = tqe_timestamp (es ! j)"
    and "tqe_timestamp (es[k := (es ! k)\<lparr>tqe_previous := m\<rparr>] ! j) = tqe_timestamp (es ! j)"
  using assms by (cases "k = j"; simp)+

lemma unlink_nth_valid:
  assumes "seg es p (as @ i # bs) n" and "distinct (as @ i # bs)" and "j < length es"
  shows "tqe_valid (unlink es as i bs ! j) \<longleftrightarrow> j \<noteq> i \<and> tqe_valid (es ! j)"
    and "tqe_timestamp (unlink es as i bs ! j) = tqe_timestamp (es ! j)"
proof -
  have i: "i < length es" using seg_middle(1)[OF assms(1)] .
  show "tqe_valid (unlink es as i bs ! j) \<longleftrightarrow> j \<noteq> i \<and> tqe_valid (es ! j)"
    using assms(3) i
    by (cases "j = i") (simp_all add: unlink_def Let_def entry_update_frame)
  show "tqe_timestamp (unlink es as i bs ! j) = tqe_timestamp (es ! j)"
    using assms(3) i
    by (cases "j = i") (simp_all add: unlink_def Let_def entry_update_frame)
qed

lemma unlink_seg:
  assumes sg: "seg es (-1) (as @ i # bs) (-1)" and d: "distinct (as @ i # bs)"
  shows "seg (unlink es as i bs) (-1) (as @ bs) (-1)"
proof -
  define es1 where "es1 = (if as = [] then es
                 else es[last as := (es ! last as)\<lparr>tqe_next := first_link bs (-1)\<rparr>])"
  define es2 where "es2 = (if bs = [] then es1
                 else es1[hd bs := (es1 ! hd bs)\<lparr>tqe_previous := last_link as (-1)\<rparr>])"
  note mid = seg_middle[OF sg]
  have a1: "seg es1 (-1) as (first_link bs (-1))"
    using seg_set_last[OF mid(5)] d by (cases "as = []") (auto simp: es1_def)
  have "last as \<notin> set bs" if "as \<noteq> []" using d that last_in_set by fastforce
  then have b1: "seg es1 (int i) bs (-1)"
    using mid(6) by (auto simp: es1_def seg_frame)
  have "hd bs \<notin> set as" if "bs \<noteq> []" using d that hd_in_set by fastforce
  then have a2: "seg es2 (-1) as (first_link bs (-1))"
    using a1 by (auto simp: es2_def seg_frame)
  have b2: "seg es2 (last_link as (-1)) bs (-1)"
    using seg_set_first[OF b1] d by (cases "bs = []") (auto simp: es2_def)
  have "seg es2 (-1) (as @ bs) (-1)" using a2 b2 by (simp add: seg_append)
  moreover have "unlink es as i bs =
     es2[i := (es2 ! i)\<lparr>tqe_next := -1, tqe_previous := -1, tqe_valid := False\<rparr>]"
    by (simp add: unlink_def es1_def es2_def Let_def)
  ultimately show ?thesis using d by (simp add: seg_frame)
qed

text \<open>The fields that only \<open>tq_check\<close> writes.\<close>

definition tq_backoff :: "timeout_queue \<Rightarrow> int \<times> 32 word \<times> 32 word \<times> 32 word" where
  "tq_backoff q = (tq_timeout q, tq_counter q, tq_threshold q, tq_increment q)"

lemma tq_remove_rep:
  assumes rep: "tq_rep q xs" and i: "i < length (tq_entries q)"
  shows "\<exists>q'. tq_remove q (int i) = Inr q' \<and> tq_rep q' (filter (\<lambda>j. j \<noteq> i) xs) \<and>
     length (tq_entries q') = length (tq_entries q) \<and>
     (\<forall>j < length (tq_entries q). tq_stamp q' j = tq_stamp q j) \<and> tq_backoff q' = tq_backoff q"
proof (cases "i \<in> set xs")
  case False
  then have "\<not> tqe_valid (tq_entries q ! i)" using rep i by (simp add: tq_rep_def)
  then have "tq_remove q (int i) = Inr q" using i by (simp add: tq_remove_def outcome_simps)
  then show ?thesis using rep False by (simp add: filter_neq_notin)
next
  case True
  then obtain as bs where xs: "xs = as @ i # bs" by (meson split_list)
  have sg: "seg (tq_entries q) (-1) (as @ i # bs) (-1)" and d: "distinct (as @ i # bs)"
    and v: "\<forall>j < length (tq_entries q). tqe_valid (tq_entries q ! j) \<longleftrightarrow> j \<in> set xs"
    using rep xs by (auto simp: tq_rep_def)
  define q' where "q' = q\<lparr>tq_entries := unlink (tq_entries q) as i bs,
            tq_head := first_link (as @ bs) (-1), tq_tail := last_link (as @ bs) (-1)\<rparr>"
  have "tq_remove q (int i) = Inr q'" using tq_remove_unlink rep xs by (simp add: q'_def)
  moreover have "tq_rep q' (as @ bs)"
    using unlink_seg[OF sg d] unlink_nth_valid(1)[OF sg d] v d
    by (auto simp: tq_rep_def q'_def xs)
  moreover have "\<forall>j < length (tq_entries q). tq_stamp q' j = tq_stamp q j"
    using unlink_nth_valid(2)[OF sg d] by (simp add: tq_stamp_def q'_def)
  ultimately show ?thesis
    using filter_neq_split[OF d] by (auto simp: xs q'_def tq_backoff_def)
qed

lemma tq_push_rep:
  assumes rep: "tq_rep q xs" and i: "i < length (tq_entries q)"
    and t: "xs \<noteq> [] \<Longrightarrow> tq_stamp q (hd xs) \<le> t"
  shows "\<exists>q'. tq_push q (int i) t = Inr q' \<and> tq_rep q' (i # filter (\<lambda>j. j \<noteq> i) xs) \<and>
     length (tq_entries q') = length (tq_entries q) \<and> tq_stamp q' i = t \<and>
     (\<forall>j < length (tq_entries q). j \<noteq> i \<longrightarrow> tq_stamp q' j = tq_stamp q j) \<and>
     tq_backoff q' = tq_backoff q"
proof -
  define ys where "ys = filter (\<lambda>j. j \<noteq> i) xs"
  obtain q1 where rm: "tq_remove q (int i) = Inr q1" and rep1: "tq_rep q1 ys"
    and len: "length (tq_entries q1) = length (tq_entries q)"
    and st: "\<forall>j < length (tq_entries q). tq_stamp q1 j = tq_stamp q j"
    and bo: "tq_backoff q1 = tq_backoff q"
    using tq_remove_rep[OF rep i] ys_def by blast
  have hx: "xs \<noteq> [] \<Longrightarrow> hd xs < length (tq_entries q)"
    using rep seg_bound by (fastforce simp: tq_rep_def)
  have ny: "i \<notin> set ys" by (simp add: ys_def)
  have hy: "ys \<noteq> [] \<Longrightarrow> hd ys < length (tq_entries q) \<and> hd ys \<noteq> i"
    using rep1 len seg_bound ny hd_in_set by (metis tq_rep_def)
  define e where "e = (tq_entries q1 ! i)\<lparr>tqe_valid := True, tqe_previous := -1,
                tqe_next := tq_head q1, tqe_timestamp := t\<rparr>"
  define es2 where "es2 = (tq_entries q1)[i := e]"
  define es3 where "es3 = (if ys = [] then es2
                           else es2[hd ys := (es2 ! hd ys)\<lparr>tqe_previous := int i\<rparr>])"
  define q' where "q' = q1\<lparr>tq_entries := es3, tq_head := int i,
                            tq_tail := (if ys = [] then int i else tq_tail q1)\<rparr>"
  have head1: "tq_head q1 = first_link ys (-1)" and tail1: "tq_tail q1 = last_link ys (-1)"
    using rep1 by (auto simp: tq_rep_def)
  have ooo: "(if tq_head q \<noteq> -1
            then bindE (tq_get q (tq_head q)) (\<lambda>h. Inr (t < tqe_timestamp h))
            else Inr False) = Inr False"
    using rep t hx by (cases xs) (auto simp: tq_rep_def tq_stamp_def outcome_simps)
  have len2: "length es2 = length (tq_entries q)" using len by (simp add: es2_def)
  then have valid3: "\<forall>j < length (tq_entries q). tqe_valid (es3 ! j) = tqe_valid (es2 ! j)"
    and stamp3: "\<forall>j < length (tq_entries q). tqe_timestamp (es3 ! j) = tqe_timestamp (es2 ! j)"
    by (simp_all add: es3_def entry_update_frame)
  have "tq_push q (int i) t = Inr q'"
    using rm ooo i len hy head1 tail1
    by (auto simp: tq_push_def Let_def outcome_simps q'_def es3_def es2_def e_def first_link_hd)
  moreover have "seg es3 (-1) (i # ys) (-1)"
  proof (cases ys)
    case Nil
    then show ?thesis using i len head1 by (simp add: es3_def es2_def e_def)
  next
    case (Cons y zs)
    have "seg (tq_entries q1) (-1) ys (-1)" using rep1 by (simp add: tq_rep_def)
    then have "seg es2 (-1) ys (-1)" using ny by (simp add: es2_def seg_frame)
    then have "seg es3 (int i) ys (-1)"
      using seg_set_first[of es2 "-1" ys "-1" "int i"] rep1 Cons
      by (simp add: es3_def tq_rep_def)
    moreover have "es3 ! i = e" using hy Cons i len by (auto simp: es3_def es2_def)
    moreover have "i < length es3" using i len by (simp add: es3_def es2_def)
    ultimately show ?thesis using head1 Cons by (simp add: e_def)
  qed
  moreover have "\<forall>j < length (tq_entries q). tqe_valid (es3 ! j) \<longleftrightarrow> j \<in> set (i # ys)"
    using rep1 len i valid3 by (auto simp: tq_rep_def es2_def e_def nth_list_update)
  moreover have "\<forall>j < length (tq_entries q). tqe_timestamp (es3 ! j) =
      (if j = i then t else tq_stamp q1 j)"
    using len i stamp3 by (auto simp: es2_def e_def nth_list_update tq_stamp_def)
  moreover have "length es3 = length (tq_entries q)"
    using len by (simp add: es3_def es2_def)
  moreover have "distinct (i # ys)" using rep1 ny by (simp add: tq_rep_def)
  moreover have "tq_tail q' = last_link (i # ys) (-1)"
    using tail1 by (cases ys) (auto simp: q'_def last_link_def)
  ultimately show ?thesis
    using st i bo by (auto simp: tq_rep_def q'_def tq_stamp_def ys_def tq_backoff_def)
qed

lemma tq_count_timeout_frame [simp]:
  "tq_entries (tq_count_timeout q) = tq_entries q" "tq_head (tq_count_timeout q) = tq_head q"
  "tq_tail (tq_count_timeout q) = tq_tail q" "tq_increment (tq_count_timeout q) = tq_increment q"
  by (simp_all add: tq_count_timeout_def Let_def)

lemma tq_rep_count_timeout [simp]: "tq_rep (tq_count_timeout q) xs = tq_rep q xs"
  by (simp add: tq_rep_def)

definition timed_out :: "timeout_queue \<Rightarrow> nat list \<Rightarrow> int \<Rightarrow> bool" where
  "timed_out q xs t \<longleftrightarrow> xs \<noteq> [] \<and> tq_timeout q < ms_of_ns (t - tq_stamp q (last xs))"

lemma tq_check_result:
  assumes rep: "tq_rep q xs"
  shows "tq_check q t =
     Inr (if timed_out q xs t then (int (last xs), tq_count_timeout q) else (-1, q))"
proof (cases "xs = []")
  case True
  then show ?thesis using rep by (simp add: tq_check_def tq_rep_def timed_out_def)
next
  case False
  then have l: "last xs < length (tq_entries q)"
    using rep seg_bound last_in_set by (metis tq_rep_def)
  have "tq_tail q = int (last xs)" using rep False by (simp add: tq_rep_def last_link_last)
  then show ?thesis
    using False l by (simp add: tq_check_def outcome_simps tq_stamp_def timed_out_def)
qed

section \<open>The contract of a timer list\<close>

text \<open>
  What the RDMA worker thread needs of its timers: an abstract list of (index, time) pairs,
  newest first, that posting a message puts at the front (replacing an older entry of the same
  index), that an acknowledgement removes from, and that polling only reads.
\<close>

definition without :: "nat \<Rightarrow> (nat \<times> int) list \<Rightarrow> (nat \<times> int) list" where
  "without i l = filter (\<lambda>p. fst p \<noteq> i) l"

datatype timer_event = Post nat int | Ack nat | Poll int

fun timer_spec :: "(nat \<times> int) list \<Rightarrow> timer_event \<Rightarrow> (nat \<times> int) list" where
  "timer_spec l (Post i t) = (i, t) # without i l"
| "timer_spec l (Ack i) = without i l"
| "timer_spec l (Poll t) = l"

fun event_time :: "timer_event \<Rightarrow> int list" where
  "event_time (Post i t) = [t]"
| "event_time (Ack i) = []"
| "event_time (Poll t) = [t]"

fun event_index :: "timer_event \<Rightarrow> nat list" where
  "event_index (Post i t) = [i]"
| "event_index (Ack i) = [i]"
| "event_index (Poll t) = []"

fun timer_run ::
  "('q \<Rightarrow> nat \<Rightarrow> int \<Rightarrow> 'q outcome) \<Rightarrow> ('q \<Rightarrow> nat \<Rightarrow> 'q outcome) \<Rightarrow> ('q \<Rightarrow> int \<Rightarrow> (int \<times> 'q) outcome) \<Rightarrow>
   'q \<Rightarrow> timer_event list \<Rightarrow> 'q outcome" where
  "timer_run push remove check q [] = Inr q"
| "timer_run push remove check q (e # es) =
     bindE (case e of Post i t \<Rightarrow> push q i t | Ack i \<Rightarrow> remove q i
                    | Poll t \<Rightarrow> bindE (check q t) (\<lambda>rq. Inr (snd rq)))
       (\<lambda>q'. timer_run push remove check q' es)"

lemma set_without: "set (without i l) \<subseteq> set l"
  by (auto simp: without_def)

locale timer_list =
  fixes push :: "'q \<Rightarrow> nat \<Rightarrow> int \<Rightarrow> 'q outcome"
    and remove :: "'q \<Rightarrow> nat \<Rightarrow> 'q outcome"
    and check :: "'q \<Rightarrow> int \<Rightarrow> (int \<times> 'q) outcome"
    and contents :: "'q \<Rightarrow> (nat \<times> int) list"
    and cap :: "'q \<Rightarrow> nat"
    and invar :: "'q \<Rightarrow> bool"
  assumes push_ok: "invar q \<Longrightarrow> i < cap q \<Longrightarrow> (\<forall>p \<in> set (contents q). snd p \<le> t) \<Longrightarrow>
      \<exists>q'. push q i t = Inr q' \<and> invar q' \<and> cap q' = cap q \<and>
           contents q' = (i, t) # without i (contents q)"
    and remove_ok: "invar q \<Longrightarrow> i < cap q \<Longrightarrow>
      \<exists>q'. remove q i = Inr q' \<and> invar q' \<and> cap q' = cap q \<and> contents q' = without i (contents q)"
    and check_ok: "invar q \<Longrightarrow>
      \<exists>r q'. check q t = Inr (r, q') \<and> invar q' \<and> cap q' = cap q \<and> contents q' = contents q"
begin

lemma step_refines:
  assumes "invar q" and "\<forall>i \<in> set (event_index e). i < cap q"
    and "\<forall>t \<in> set (event_time e). \<forall>p \<in> set (contents q). snd p \<le> t"
  shows "\<exists>q'. timer_run push remove check q [e] = Inr q' \<and> invar q' \<and> cap q' = cap q \<and>
     contents q' = timer_spec (contents q) e"
proof (cases e)
  case (Post i t)
  then show ?thesis using assms push_ok[of q i t] by auto
next
  case (Ack i)
  then show ?thesis using assms remove_ok[of q i] by auto
next
  case (Poll t)
  then show ?thesis using assms check_ok[of q t] by auto
qed

lemma run_refines:
  assumes "invar q" and "\<forall>e \<in> set es. \<forall>i \<in> set (event_index e). i < cap q"
    and "sorted (concat (map event_time es))"
    and "\<forall>t \<in> set (concat (map event_time es)). \<forall>p \<in> set (contents q). snd p \<le> t"
  shows "\<exists>q'. timer_run push remove check q es = Inr q' \<and> invar q' \<and> cap q' = cap q \<and>
     contents q' = foldl timer_spec (contents q) es"
  using assms
proof (induction es arbitrary: q)
  case Nil
  then show ?case by simp
next
  case (Cons e es)
  have "\<exists>q1. timer_run push remove check q [e] = Inr q1 \<and> invar q1 \<and> cap q1 = cap q \<and>
     contents q1 = timer_spec (contents q) e"
    using Cons.prems by (intro step_refines) auto
  then obtain q1 where q1: "timer_run push remove check q [e] = Inr q1" "invar q1" "cap q1 = cap q"
    "contents q1 = timer_spec (contents q) e" by blast
  have "\<forall>t \<in> set (concat (map event_time es)). \<forall>p \<in> set (contents q1). snd p \<le> t"
    using Cons.prems(3,4) q1(4) set_without
    by (cases e) (fastforce simp: sorted_append)+
  then obtain q2 where "timer_run push remove check q1 es = Inr q2" "invar q2" "cap q2 = cap q"
    "contents q2 = foldl timer_spec (contents q1) es"
    using Cons.IH[OF q1(2)] Cons.prems(2,3) q1(3) by (auto simp: sorted_append)
  then show ?case using q1 by (auto simp: bindE_eq_Inr split: timer_event.splits)
qed

end

section \<open>The linked list provides the contract\<close>

lemma tq_list_set: "tq_wf q \<Longrightarrow> tq_rep q xs \<Longrightarrow> set (tq_list q) = (\<lambda>i. (i, tq_stamp q i)) ` set xs"
  by (simp add: tq_rep_list)

lemma without_map:
  "without i (map (\<lambda>j. (j, f j)) xs) = map (\<lambda>j. (j, f j)) (filter (\<lambda>j. j \<noteq> i) xs)"
  by (simp add: without_def filter_map comp_def)

lemma tq_rep_bound: "tq_rep q xs \<Longrightarrow> j \<in> set xs \<Longrightarrow> j < length (tq_entries q)"
  using seg_bound by (auto simp: tq_rep_def)

lemma tq_remove_list:
  assumes "tq_wf q" and i: "i < tq_capacity q"
  shows "\<exists>q'. tq_remove q (int i) = Inr q' \<and> tq_wf q' \<and> tq_capacity q' = tq_capacity q \<and>
     tq_list q' = without i (tq_list q) \<and> tq_backoff q' = tq_backoff q"
proof -
  obtain xs where rep: "tq_rep q xs" and so: "sorted_wrt (\<lambda>i j. tq_stamp q j \<le> tq_stamp q i) xs"
    using assms(1) tq_wf_iff by blast
  define ys where "ys = filter (\<lambda>j. j \<noteq> i) xs"
  obtain q' where q': "tq_remove q (int i) = Inr q'" "tq_rep q' ys"
    "length (tq_entries q') = length (tq_entries q)" "tq_backoff q' = tq_backoff q"
    "\<forall>j < length (tq_entries q). tq_stamp q' j = tq_stamp q j"
    using tq_remove_rep[OF rep] i ys_def by (auto simp: tq_capacity_def)
  have st: "j \<in> set ys \<Longrightarrow> tq_stamp q' j = tq_stamp q j" for j
    using q'(5) tq_rep_bound[OF rep] by (simp add: ys_def)
  have "sorted_wrt (\<lambda>i j. tq_stamp q j \<le> tq_stamp q i) ys"
    using so by (simp add: ys_def sorted_wrt_filter)
  then have "sorted_wrt (\<lambda>i j. tq_stamp q' j \<le> tq_stamp q' i) ys"
    by (rule sorted_wrt_mono_rel[rotated]) (simp add: st)
  then have "tq_wf q'" using q'(2) tq_wf_iff by blast
  moreover have "tq_list q' = without i (tq_list q)"
    using st by (simp add: tq_rep_list[OF q'(2)] tq_rep_list[OF rep] without_map ys_def)
  ultimately show ?thesis using q' by (simp add: tq_capacity_def)
qed

lemma tq_push_list:
  assumes "tq_wf q" and i: "i < tq_capacity q" and t: "\<forall>p \<in> set (tq_list q). snd p \<le> t"
  shows "\<exists>q'. tq_push q (int i) t = Inr q' \<and> tq_wf q' \<and> tq_capacity q' = tq_capacity q \<and>
     tq_list q' = (i, t) # without i (tq_list q) \<and> tq_backoff q' = tq_backoff q"
proof -
  obtain xs where rep: "tq_rep q xs" and so: "sorted_wrt (\<lambda>i j. tq_stamp q j \<le> tq_stamp q i) xs"
    using assms(1) tq_wf_iff by blast
  have le: "j \<in> set xs \<Longrightarrow> tq_stamp q j \<le> t" for j
    using t by (auto simp: tq_rep_list[OF rep])
  define ys where "ys = filter (\<lambda>j. j \<noteq> i) xs"
  obtain q' where q': "tq_push q (int i) t = Inr q'" "tq_rep q' (i # ys)"
    "length (tq_entries q') = length (tq_entries q)" "tq_backoff q' = tq_backoff q"
    "tq_stamp q' i = t" "\<forall>j < length (tq_entries q). j \<noteq> i \<longrightarrow> tq_stamp q' j = tq_stamp q j"
    using tq_push_rep[OF rep, of i t] i le ys_def by (auto simp: tq_capacity_def)
  have st: "j \<in> set ys \<Longrightarrow> tq_stamp q' j = tq_stamp q j" for j
    using q'(6) tq_rep_bound[OF rep] by (simp add: ys_def)
  have "sorted_wrt (\<lambda>i j. tq_stamp q j \<le> tq_stamp q i) ys"
    using so by (simp add: ys_def sorted_wrt_filter)
  then have "sorted_wrt (\<lambda>i j. tq_stamp q' j \<le> tq_stamp q' i) ys"
    by (rule sorted_wrt_mono_rel[rotated]) (simp add: st)
  then have "sorted_wrt (\<lambda>i j. tq_stamp q' j \<le> tq_stamp q' i) (i # ys)"
    using st le q'(5) by (simp add: ys_def)
  then have "tq_wf q'" using q'(2) tq_wf_iff by blast
  moreover have "tq_list q' = (i, t) # without i (tq_list q)"
    using st q'(5) by (simp add: tq_rep_list[OF q'(2)] tq_rep_list[OF rep] without_map ys_def)
  ultimately show ?thesis using q' by (simp add: tq_capacity_def)
qed

lemma tq_stamp_count_timeout [simp]: "tq_stamp (tq_count_timeout q) = tq_stamp q"
  by (rule ext) (simp add: tq_stamp_def)

lemma tq_list_count_timeout: "tq_rep q xs \<Longrightarrow> tq_list (tq_count_timeout q) = tq_list q"
  by (simp add: tq_rep_list)

lemma tq_check_list:
  assumes "tq_wf q"
  shows "\<exists>r q'. tq_check q t = Inr (r, q') \<and> tq_wf q' \<and> tq_capacity q' = tq_capacity q \<and>
     tq_list q' = tq_list q"
proof -
  obtain xs where rep: "tq_rep q xs" and so: "sorted_wrt (\<lambda>i j. tq_stamp q j \<le> tq_stamp q i) xs"
    using assms tq_wf_iff by blast
  have "tq_wf (tq_count_timeout q)" using rep so tq_wf_iff by auto
  then show ?thesis
    using assms tq_check_result[OF rep, of t] tq_list_count_timeout[OF rep]
    by (cases "timed_out q xs t") (auto simp: tq_capacity_def)
qed

lemma tq_check_index:
  assumes "tq_wf q" and "tq_check q t = Inr (r, q')"
  shows "r = -1 \<or> (0 \<le> r \<and> nat r \<in> fst ` set (tq_list q))"
proof -
  obtain xs where rep: "tq_rep q xs" using assms(1) tq_wf_iff by blast
  then show ?thesis
    using assms(2) tq_check_result[OF rep, of t]
    by (auto simp: tq_rep_list[OF rep] timed_out_def image_image split: if_splits)
qed

interpretation tql: timer_list
  "\<lambda>q i t. tq_push q (int i) t" "\<lambda>q i. tq_remove q (int i)" tq_check tq_list tq_capacity tq_wf
proof unfold_locales
  fix q i t
  assume "tq_wf q" and "i < tq_capacity q" and "\<forall>p \<in> set (tq_list q). snd p \<le> t"
  then show "\<exists>q'. tq_push q (int i) t = Inr q' \<and> tq_wf q' \<and> tq_capacity q' = tq_capacity q \<and>
      tq_list q' = (i, t) # without i (tq_list q)"
    using tq_push_list by blast
next
  fix q i
  assume "tq_wf q" and "i < tq_capacity q"
  then show "\<exists>q'. tq_remove q (int i) = Inr q' \<and> tq_wf q' \<and> tq_capacity q' = tq_capacity q \<and>
      tq_list q' = without i (tq_list q)"
    using tq_remove_list by blast
next
  fix q t
  assume "tq_wf q"
  then show "\<exists>r q'. tq_check q t = Inr (r, q') \<and> tq_wf q' \<and> tq_capacity q' = tq_capacity q \<and>
      tq_list q' = tq_list q"
    by (rule tq_check_list)
qed

section \<open>Properties\<close>

lemma tq_rep_new: "tq_rep (TimeoutQueue n timeout th inc) []"
  by (simp add: tq_rep_def TimeoutQueue_def TQEntry_def)

lemma tq_new_list [simp]: "tq_list (TimeoutQueue n timeout th inc) = []"
  by (simp add: tq_rep_list[OF tq_rep_new])

lemma tq_new_capacity [simp]: "tq_capacity (TimeoutQueue n timeout th inc) = n"
  by (simp add: TimeoutQueue_def tq_capacity_def)

lemma tq_new_fields [simp]:
  "tq_timeout (TimeoutQueue n timeout th inc) = timeout"
  "tq_counter (TimeoutQueue n timeout th inc) = 0"
  "tq_threshold (TimeoutQueue n timeout th inc) = th"
  "tq_increment (TimeoutQueue n timeout th inc) = inc"
  by (simp_all add: TimeoutQueue_def)

lemma tq_wf_new [simp]: "tq_wf (TimeoutQueue n timeout th inc)"
  using tq_rep_new tq_wf_iff by fastforce

text \<open>C4: Any sequence of posts, removals and polls on a well-formed timeout queue, with indices
  inside the vector and non-decreasing time stamps, runs without touching memory outside the
  vector and without the out-of-order abort, keeps the links consistent, and leaves exactly the
  list that the abstract specification computes: newest first, one entry per index.\<close>
theorem timeout_queue_run:
  assumes "tq_wf q" and "\<forall>e \<in> set es. \<forall>i \<in> set (event_index e). i < tq_capacity q"
    and "sorted (concat (map event_time es))"
    and "\<forall>t \<in> set (concat (map event_time es)). \<forall>p \<in> set (tq_list q). snd p \<le> t"
  shows "\<exists>q'. timer_run (\<lambda>q i t. tq_push q (int i) t) (\<lambda>q i. tq_remove q (int i)) tq_check q es = Inr q' \<and>
     tq_wf q' \<and> tq_capacity q' = tq_capacity q \<and> tq_list q' = foldl timer_spec (tq_list q) es"
  by (rule tql.run_refines[OF assms])

theorem timeout_queue_run_witness:
  "\<exists>q'. timer_run (\<lambda>q i t. tq_push q (int i) t) (\<lambda>q i. tq_remove q (int i)) tq_check
      (TimeoutQueue 4 10 100 100) [Post 0 5, Post 2 7, Post 0 8, Poll 9, Ack 2, Post 1 9] = Inr q' \<and>
     tq_wf q' \<and> tq_list q' = [(1, 9), (0, 8)]"
  using timeout_queue_run[of "TimeoutQueue 4 10 100 100"
      "[Post 0 5, Post 2 7, Post 0 8, Poll 9, Ack 2, Post 1 9]"]
  by (auto simp: without_def)

lemma ms_of_ns_mono: "a \<le> b \<Longrightarrow> ms_of_ns a \<le> ms_of_ns b"
proof -
  have alt: "ms_of_ns d = (if 0 \<le> d then d div 1000000 else - ((- d) div 1000000))" for d
    by (simp add: ms_of_ns_def sgn_if)
  assume "a \<le> b"
  then show ?thesis
    by (auto simp: alt intro: zdiv_mono1 order_trans[of _ 0] simp: pos_imp_zdiv_nonneg_iff)
qed

text \<open>Polling the queue reports no timeout exactly when no queued message has been waiting
  longer than the timeout, and otherwise reports the message that has been waiting longest; it
  never changes which messages are queued.\<close>
theorem tq_check_oldest:
  assumes "tq_wf q"
  shows "\<exists>r q'. tq_check q t = Inr (r, q') \<and> tq_list q' = tq_list q \<and>
     (r = -1 \<longleftrightarrow> (\<forall>p \<in> set (tq_list q). ms_of_ns (t - snd p) \<le> tq_timeout q)) \<and>
     (r \<noteq> -1 \<longrightarrow> (\<exists>s. (nat r, s) \<in> set (tq_list q) \<and> tq_timeout q < ms_of_ns (t - s) \<and>
                    (\<forall>p \<in> set (tq_list q). s \<le> snd p)))"
proof -
  obtain xs where rep: "tq_rep q xs" and so: "sorted_wrt (\<lambda>i j. tq_stamp q j \<le> tq_stamp q i) xs"
    using assms tq_wf_iff by blast
  have old: "tq_stamp q (last xs) \<le> tq_stamp q j" if "j \<in> set xs" for j
  proof -
    from that have "xs \<noteq> []" by auto
    then obtain as x where "xs = as @ [x]" by (cases xs rule: rev_cases) auto
    then show ?thesis using so that by (auto simp: sorted_wrt_append)
  qed
  have to: "timed_out q xs t \<longleftrightarrow> \<not> (\<forall>j \<in> set xs. ms_of_ns (t - tq_stamp q j) \<le> tq_timeout q)"
  proof
    assume "timed_out q xs t"
    then show "\<not> (\<forall>j \<in> set xs. ms_of_ns (t - tq_stamp q j) \<le> tq_timeout q)"
      by (auto simp: timed_out_def intro!: bexI[of _ "last xs"])
  next
    assume "\<not> (\<forall>j \<in> set xs. ms_of_ns (t - tq_stamp q j) \<le> tq_timeout q)"
    then obtain j where j: "j \<in> set xs" "tq_timeout q < ms_of_ns (t - tq_stamp q j)" by auto
    have "ms_of_ns (t - tq_stamp q j) \<le> ms_of_ns (t - tq_stamp q (last xs))"
      using old[OF j(1)] by (intro ms_of_ns_mono) simp
    then show "timed_out q xs t" using j by (auto simp: timed_out_def)
  qed
  show ?thesis
  proof (cases "timed_out q xs t")
    case True
    then have "xs \<noteq> []" and "tq_timeout q < ms_of_ns (t - tq_stamp q (last xs))"
      by (auto simp: timed_out_def)
    then show ?thesis
      using True to old tq_check_result[OF rep, of t] tq_list_count_timeout[OF rep]
      by (auto simp: tq_rep_list[OF rep] intro!: exI[of _ "tq_stamp q (last xs)"])
  next
    case False
    then show ?thesis
      using to tq_check_result[OF rep, of t] by (auto simp: tq_rep_list[OF rep])
  qed
qed

theorem tq_check_oldest_witness:
  "\<exists>q q'. tq_push (TimeoutQueue 4 10 100 100) 2 0 = Inr q \<and> tq_check q 20000000 = Inr (2, q')"
proof -
  obtain q where q: "tq_push (TimeoutQueue 4 10 100 100) 2 0 = Inr q" "tq_wf q"
    "tq_list q = [(2, 0)]" "tq_timeout q = 10"
    using tq_push_list[of "TimeoutQueue 4 10 100 100" 2 0]
    by (auto simp: without_def tq_backoff_def)
  obtain r q' where r: "tq_check q 20000000 = Inr (r, q')" "r \<noteq> -1" "nat r = 2"
    using tq_check_oldest[OF q(2), of 20000000] q(3,4) by (auto simp: ms_of_ns_def)
  then have "r = 2" by simp
  then show ?thesis using q(1) r(1) by blast
qed

lemma count_timeout_below:
  assumes "tq_counter q = 0" and "n \<le> unat (tq_threshold q)" and "unat (tq_threshold q) < 2 ^ 32 - 1"
  shows "(tq_count_timeout ^^ n) q = q\<lparr>tq_counter := word_of_nat n\<rparr>"
  using assms(2)
proof (induction n)
  case 0
  then show ?case using assms(1) by simp
next
  case (Suc n)
  have "(word_of_nat n :: 32 word) + 1 = word_of_nat (Suc n)" by simp
  moreover have "\<not> tq_threshold q < (word_of_nat (Suc n) :: 32 word)"
    using Suc.prems assms(3) by (simp add: word_less_nat_alt unat_of_nat del: of_nat_Suc)
  ultimately show ?case
    using Suc by (simp add: tq_count_timeout_def Let_def add.commute)
qed

text \<open>The timeout backs off as configured: starting from a cleared counter, the first
  \<open>threshold\<close> timeouts leave the timeout unchanged, and the next one doubles it, clears the
  counter and raises the threshold by the configured increment.\<close>
theorem tq_backoff_schedule:
  assumes "tq_counter q = 0" and "unat (tq_threshold q) < 2 ^ 32 - 1"
  shows "(\<forall>n \<le> unat (tq_threshold q). tq_timeout ((tq_count_timeout ^^ n) q) = tq_timeout q) \<and>
    (tq_count_timeout ^^ Suc (unat (tq_threshold q))) q =
         q\<lparr>tq_timeout := 2 * tq_timeout q, tq_threshold := tq_threshold q + tq_increment q\<rparr>"
proof
  show "\<forall>n \<le> unat (tq_threshold q). tq_timeout ((tq_count_timeout ^^ n) q) = tq_timeout q"
    using count_timeout_below assms by simp
  have "tq_threshold q < tq_threshold q + 1"
    using assms(2) by (simp add: word_less_nat_alt unat_word_ariths)
  then show "(tq_count_timeout ^^ Suc (unat (tq_threshold q))) q =
         q\<lparr>tq_timeout := 2 * tq_timeout q, tq_threshold := tq_threshold q + tq_increment q\<rparr>"
    using count_timeout_below[OF assms(1) order_refl assms(2)] assms(1)
    by (simp add: tq_count_timeout_def Let_def)
qed

theorem tq_backoff_schedule_witness:
  "(tq_count_timeout ^^ 3) (TimeoutQueue 4 10 2 5) =
     (TimeoutQueue 4 10 2 5)\<lparr>tq_timeout := 20, tq_threshold := 7\<rparr>"
  using tq_backoff_schedule[of "TimeoutQueue 4 10 2 5"]
  by (simp add: TimeoutQueue_def)

end
