(* ===== verification/Client_Config.thy ===== *)
theory Client_Config
  imports Complex_Main Switchml_Prelude
begin

text \<open>
  The configuration of the client library (client_lib/src/config.h, config.cc), for a build with
  all three backends and with timeouts. The option parser (boost) and the file system are
  parameters of \<open>LoadFromFile\<close>; floating point options are only stored here and are kept as
  rational numbers.
\<close>

section \<open>The configuration records\<close>

record GeneralConfig =
  gc_rank :: nat
  gc_num_workers :: nat
  gc_num_worker_threads :: nat
  gc_max_outstanding_packets :: nat
  gc_packet_numel :: nat
  gc_backend :: string
  gc_scheduler :: string
  gc_prepostprocessor :: string
  gc_instant_job_completion :: bool
  gc_controller_ip_str :: string
  gc_controller_port :: nat
  gc_timeout :: rat
  gc_timeout_threshold :: nat
  gc_timeout_threshold_increment :: nat

record DpdkBackendConfig =
  dpdk_worker_port :: nat
  dpdk_worker_ip_str :: string
  dpdk_cores_str :: string
  dpdk_extra_eal_options :: string
  dpdk_port_id :: nat
  dpdk_pool_size :: nat
  dpdk_pool_cache_size :: nat
  dpdk_burst_rx :: nat
  dpdk_burst_tx :: nat
  dpdk_bulk_drain_tx_us :: nat

record RdmaBackendConfig =
  rdma_msg_numel :: nat
  rdma_device_name :: string
  rdma_device_port_id :: nat
  rdma_gid_index :: nat

record DummyBackendConfig =
  dummy_bandwidth :: rat
  dummy_process_packets :: bool

record BackendConfig =
  bc_dpdk :: DpdkBackendConfig
  bc_rdma :: RdmaBackendConfig
  bc_dummy :: DummyBackendConfig

record Config =
  general :: GeneralConfig
  backend_cfg :: BackendConfig

text \<open>The values that fit the integer types of the fields that Validate computes with.\<close>

definition config_wf :: "Config \<Rightarrow> bool" where
  "config_wf c \<longleftrightarrow>
     gc_num_worker_threads (general c) < 2 ^ 16 \<and> gc_max_outstanding_packets (general c) < 2 ^ 32 \<and>
     gc_packet_numel (general c) < 2 ^ 64 \<and> rdma_msg_numel (bc_rdma (backend_cfg c)) < 2 ^ 32"

section \<open>Loading\<close>

definition default_GeneralConfig :: GeneralConfig where
  "default_GeneralConfig =
     \<lparr>gc_rank = 0, gc_num_workers = 1, gc_num_worker_threads = 4, gc_max_outstanding_packets = 256,
      gc_packet_numel = 1024, gc_backend = ''dummy'', gc_scheduler = ''fifo'',
      gc_prepostprocessor = ''cpu_exponent_quantizer'', gc_instant_job_completion = False,
      gc_controller_ip_str = ''127.0.0.1'', gc_controller_port = 50099, gc_timeout = 10,
      gc_timeout_threshold = 100, gc_timeout_threshold_increment = 100\<rparr>"

definition default_DummyBackendConfig :: DummyBackendConfig where
  "default_DummyBackendConfig = \<lparr>dummy_bandwidth = 1000, dummy_process_packets = True\<rparr>"

definition default_DpdkBackendConfig :: DpdkBackendConfig where
  "default_DpdkBackendConfig =
     \<lparr>dpdk_worker_port = 4000, dpdk_worker_ip_str = ''10.0.0.1'', dpdk_cores_str = ''0-3'',
      dpdk_extra_eal_options = '''', dpdk_port_id = 0, dpdk_pool_size = 8192 * 32,
      dpdk_pool_cache_size = 256 * 2, dpdk_burst_rx = 64, dpdk_burst_tx = 64,
      dpdk_bulk_drain_tx_us = 100\<rparr>"

definition default_RdmaBackendConfig :: RdmaBackendConfig where
  "default_RdmaBackendConfig =
     \<lparr>rdma_msg_numel = 1024, rdma_device_name = ''mlx5_0'', rdma_device_port_id = 1, rdma_gid_index = 3\<rparr>"

definition default_Config :: Config where
  "default_Config =
     \<lparr>general = default_GeneralConfig,
      backend_cfg = \<lparr>bc_dpdk = default_DpdkBackendConfig, bc_rdma = default_RdmaBackendConfig,
                     bc_dummy = default_DummyBackendConfig\<rparr>\<rparr>"

text \<open>
  The file that is opened: the given path, or else the first default path that can be opened.
  \<open>None\<close> is the value false of the code.
\<close>

definition config_path :: "(string \<Rightarrow> bool) \<Rightarrow> string option \<Rightarrow> string \<Rightarrow> string option outcome" where
  "config_path good hostname path =
     (if path \<noteq> '''' then Inr (if good path then Some path else None)
      else if good ''/etc/switchml.cfg'' then Inr (Some ''/etc/switchml.cfg'')
      else if good ''switchml.cfg'' then Inr (Some ''switchml.cfg'')
      else (case hostname of
          None \<Rightarrow> Inl (Fatal ''gethostname failed'')
        | Some h \<Rightarrow>
            (let default_path3 = ''switchml-'' @ h @ ''.cfg''
             in Inr (if good default_path3 then Some default_path3 else None))))"

text \<open>\<open>parse p c\<close> overwrites the options of \<open>c\<close> that the file \<open>p\<close> assigns, or throws.\<close>

definition LoadFromFile ::
  "(string \<Rightarrow> bool) \<Rightarrow> string option \<Rightarrow> (string \<Rightarrow> Config \<Rightarrow> Config outcome) \<Rightarrow> string \<Rightarrow> Config \<Rightarrow>
   (bool \<times> Config) outcome"
where
  "LoadFromFile good hostname parse path c =
     bindE (config_path good hostname path) (\<lambda>p.
       case p of None \<Rightarrow> Inr (False, c)
       | Some f \<Rightarrow> bindE (parse f default_Config) (\<lambda>c'. Inr (True, c')))"

section \<open>Validation\<close>

text \<open>
  The multiple of \<open>d\<close> that replaces \<open>mop\<close>: \<open>per\<close> times \<open>d\<close>, or one multiple more where that is
  nearer. The result is computed in 64 bits and stored into a 32-bit field.
\<close>

definition choose_mop :: "nat \<Rightarrow> nat \<Rightarrow> nat \<Rightarrow> nat" where
  "choose_mop mop per d =
     (let new_mop = u64_mul per d;
          new_mop2 = u64_mul (u64_add per 1) d
      in if new_mop < mop \<and> u64_sub mop new_mop > u64_sub new_mop2 mop then new_mop2 else new_mop)"

definition set_mop :: "nat \<Rightarrow> Config \<Rightarrow> Config" where
  "set_mop n c = c\<lparr>general := (general c)\<lparr>gc_max_outstanding_packets := u32 n\<rparr>\<rparr>"

definition set_msg_numel :: "nat \<Rightarrow> Config \<Rightarrow> Config" where
  "set_msg_numel n c = c\<lparr>backend_cfg := (backend_cfg c)\<lparr>bc_rdma :=
     (bc_rdma (backend_cfg c))\<lparr>rdma_msg_numel := u32 n\<rparr>\<rparr>\<rparr>"

definition Validate_general :: "Config \<Rightarrow> Config outcome" where
  "Validate_general c =
     (let mop = gc_max_outstanding_packets (general c); nwt = gc_num_worker_threads (general c)
      in if nwt = 0 then Inl (Crash ''division by zero'')
      else if mop div nwt = 0 then Inl (Fatal ''max_outstanding_packets < num_worker_threads'')
      else Inr (if mop mod nwt \<noteq> 0 then set_mop (choose_mop mop (mop div nwt) nwt) c else c))"

definition Validate_dpdk :: "Config \<Rightarrow> Config outcome" where
  "Validate_dpdk c =
     (if gc_backend (general c) = ''dpdk'' \<and>
         gc_packet_numel (general c) \<noteq> 256 \<and> gc_packet_numel (general c) \<noteq> 64
      then Inl (Fatal ''The DPDK backend only supports 256 or 64 elements per packet'')
      else Inr c)"

definition Validate_rdma :: "Config \<Rightarrow> Config outcome" where
  "Validate_rdma c =
     (if gc_backend (general c) \<noteq> ''rdma'' then Inr c
      else
        let packet_numel = gc_packet_numel (general c);
            msg_numel = rdma_msg_numel (bc_rdma (backend_cfg c))
        in if packet_numel \<noteq> 256 \<and> packet_numel \<noteq> 64
           then Inl (Fatal ''The RDMA backend only supports 256 or 64 elements per packet'')
           else if msg_numel < packet_numel
           then Inl (Fatal ''rdma.msg_numel cannot be less than general.packet_numel'')
           else
             let num_pkts_per_msg = msg_numel div packet_numel;
                 c1 = (if msg_numel mod packet_numel \<noteq> 0
                       then set_msg_numel (u64_mul num_pkts_per_msg packet_numel) c else c);
                 mop = gc_max_outstanding_packets (general c1);
                 d = u64_mul (gc_num_worker_threads (general c1)) num_pkts_per_msg
             in if d = 0 then Inl (Crash ''division by zero'')
                else let outstanding_msgs_per_wt = max 1 (mop div d)
                     in Inr (if mop mod d \<noteq> 0 then set_mop (choose_mop mop outstanding_msgs_per_wt d) c1
                             else c1))"

definition Validate :: "Config \<Rightarrow> Config outcome" where
  "Validate c = bindE (Validate_general c) (\<lambda>c1. bindE (Validate_dpdk c1) Validate_rdma)"

text \<open>The derived values that PrintConfig logs, or the division by zero it runs into.\<close>

definition PrintConfig :: "Config \<Rightarrow> nat list outcome" where
  "PrintConfig c =
     (let g = general c; mop = gc_max_outstanding_packets g; nwt = gc_num_worker_threads g;
          msg_numel = rdma_msg_numel (bc_rdma (backend_cfg c))
      in if nwt = 0 then Inl (Crash ''division by zero'')
      else if gc_backend g = ''rdma'' then
        (if gc_packet_numel g = 0 then Inl (Crash ''division by zero'')
         else let num_pkts_per_msg = msg_numel div gc_packet_numel g
              in if num_pkts_per_msg = 0 then Inl (Crash ''division by zero'')
                 else let outstanding_msgs = mop div num_pkts_per_msg
                      in Inr [mop div nwt, num_pkts_per_msg, outstanding_msgs, outstanding_msgs div nwt])
      else Inr [mop div nwt])"

text \<open>
  In the code the operator precedence of \<open>per * num_worker_threads * num_pkts_per_msg\<close> multiplies
  from the left; modulo 2 ^ 64 this is the product with \<open>num_worker_threads * num_pkts_per_msg\<close>
  that \<open>choose_mop\<close> takes.
\<close>

lemma u64_mul_assoc: "u64_mul (u64_mul a b) c = u64_mul a (u64_mul b c)"
  by (simp add: u64_mul_def mod_mult_left_eq mod_mult_right_eq mult.assoc)

section \<open>Correctness of the validation\<close>

text \<open>The chosen value is a positive multiple of \<open>d\<close>, at most \<open>d\<close> away, and as near as possible.\<close>

lemma choose_mop_exact:
  assumes "0 < d" and "mop + 2 * d < 2 ^ 64" and per: "per = max 1 (mop div d)"
  shows "choose_mop mop per d =
     (if d \<le> mop \<and> d < 2 * (mop mod d) then mop - mop mod d + d else max d (mop - mop mod d))"
proof -
  have m: "mop = mop div d * d + mop mod d" by simp
  have lt: "mop mod d < d" using assms(1) by simp
  have perd: "per * d = max d (mop - mop mod d)"
  proof (cases "d \<le> mop")
    case True
    then have "1 \<le> mop div d" using assms(1) by (simp add: div_greater_zero_iff Suc_le_eq)
    then have "per * d = mop div d * d" and "d \<le> mop div d * d" using per by simp_all
    then show ?thesis using m by linarith
  next
    case False
    then show ?thesis using per by simp
  qed
  have dl: "d \<le> mop \<Longrightarrow> d \<le> mop - mop mod d"
    using assms(1) by (simp add: minus_mod_eq_mult_div div_greater_zero_iff Suc_le_eq)
  have bound: "per * d + d \<le> mop + 2 * d" unfolding perd by simp
  have e1: "u64_mul per d = per * d" using bound assms(2) by (intro u64_mul_id) linarith
  have "per \<le> per * d" using assms(1) by simp
  then have "per + 1 < 2 ^ 64" using bound assms(1,2) by linarith
  then have e2: "u64_mul (u64_add per 1) d = per * d + d"
    using bound assms(2) by (simp add: u64_add_id u64_mul_id)
  show ?thesis
  proof (cases "per * d < mop")
    case True
    then have dm: "d \<le> mop" "per * d = mop - mop mod d"
      using perd dl by (auto simp: max_def split: if_splits)
    have a: "u64_sub mop (per * d) = mop mod d"
    proof -
      have "u64_sub mop (per * d) = mop - per * d" using True assms(2) by (intro u64_sub_id) linarith+
      then show ?thesis using dm by simp
    qed
    have b: "u64_sub (per * d + d) mop = d - mop mod d"
    proof -
      have "u64_sub (per * d + d) mop = per * d + d - mop"
        using bound assms(2) lt dm by (intro u64_sub_id) linarith+
      then show ?thesis using dm m lt by simp
    qed
    have "d - mop mod d < mop mod d \<longleftrightarrow> d < 2 * (mop mod d)" using lt by linarith
    then have "choose_mop mop per d = (if d < 2 * (mop mod d) then per * d + d else per * d)"
      using True unfolding choose_mop_def Let_def e1 e2 a b by simp
    then show ?thesis using dm perd by simp
  next
    case False
    then have "d \<le> mop \<Longrightarrow> mop mod d = 0" using perd lt by (simp add: max_def split: if_splits)
    moreover have "choose_mop mop per d = per * d"
      using False unfolding choose_mop_def Let_def e1 by simp
    ultimately show ?thesis using perd by auto
  qed
qed

lemma choose_mop_nearest:
  assumes "0 < d" and "mop + 2 * d < 2 ^ 64" and "per = max 1 (mop div d)"
  defines "r \<equiv> choose_mop mop per d"
  shows "d dvd r" and "d \<le> r" and "0 < k \<Longrightarrow> \<bar>int r - int mop\<bar> \<le> \<bar>int (k * d) - int mop\<bar>"
    and "r \<le> mop + d"
proof -
  have r: "r = (if d \<le> mop \<and> d < 2 * (mop mod d) then mop - mop mod d + d else max d (mop - mop mod d))"
    unfolding r_def by (rule choose_mop_exact) fact+
  have dv: "d dvd mop - mop mod d" by (simp add: minus_mod_eq_mult_div)
  have lt: "mop mod d < d" using assms(1) by simp
  show "d dvd r" unfolding r using dv dvd_add[OF dv dvd_refl] by (auto simp: max_def)
  show "d \<le> r"
    unfolding r by (split if_split) (intro conjI impI le_add2 max.cobounded1)
  show "r \<le> mop + d"
    unfolding r using diff_le_self[of mop "mop mod d"] by (split if_split) auto
  assume k: "0 < k"
  have m: "mop = mop div d * d + mop mod d" by simp
  have small: "mop < d \<Longrightarrow> r = d" by (simp add: r)
  show "\<bar>int r - int mop\<bar> \<le> \<bar>int (k * d) - int mop\<bar>"
  proof (cases "mop < d")
    case True
    have "d \<le> k * d" using k by simp
    then have "int d \<le> int (k * d)" by (simp only: of_nat_le_iff)
    then show ?thesis using small[OF True] True by linarith
  next
    case False
    then have "d \<le> mop div d * d" using assms(1) by (simp add: div_greater_zero_iff Suc_le_eq)
    then have q: "r = (if d < 2 * (mop mod d) then mop div d * d + d else mop div d * d)"
      unfolding r minus_mod_eq_div_mult using False by (simp add: max_def)
    define A B where AB: "A = mop div d * d" "B = k * d"
    have "B \<le> A \<or> A + d \<le> B"
    proof (cases "k \<le> mop div d")
      case False
      then have "Suc (mop div d) * d \<le> k * d" by (intro mult_le_mono1) simp
      then show ?thesis by (simp add: AB)
    qed (simp add: AB)
    moreover have "mop = A + mop mod d" by (simp add: AB)
    ultimately have "\<bar>int r - int mop\<bar> \<le> \<bar>int B - int mop\<bar>"
      using q[folded AB] lt by (auto split: if_splits)
    then show ?thesis by (simp only: AB)
  qed
qed

lemma Validate_general_Inr:
  "Validate_general c = Inr c1 \<longleftrightarrow>
     0 < gc_num_worker_threads (general c) \<and>
     gc_num_worker_threads (general c) \<le> gc_max_outstanding_packets (general c) \<and>
     c1 = (if gc_num_worker_threads (general c) dvd gc_max_outstanding_packets (general c) then c
           else set_mop (choose_mop (gc_max_outstanding_packets (general c))
              (gc_max_outstanding_packets (general c) div gc_num_worker_threads (general c))
              (gc_num_worker_threads (general c))) c)"
  by (auto simp: Validate_general_def Let_def dvd_eq_mod_eq_0 div_eq_0_iff not_less)

lemma Validate_dpdk_Inr:
  "Validate_dpdk c = Inr c1 \<longleftrightarrow>
     c1 = c \<and> (gc_backend (general c) = ''dpdk'' \<longrightarrow> gc_packet_numel (general c) \<in> {64, 256})"
  by (auto simp: Validate_dpdk_def)

text \<open>The general part rounds to a multiple of the number of worker threads.\<close>

lemma Validate_general_mop:
  assumes "config_wf c" and "Validate_general c = Inr c1"
    and fits: "gc_max_outstanding_packets (general c) + gc_num_worker_threads (general c) < 2 ^ 32"
  defines "mop1 \<equiv> gc_max_outstanding_packets (general c1)"
    and "nwt \<equiv> gc_num_worker_threads (general c)"
  shows "c1 = set_mop mop1 c" and "nwt dvd mop1" and "nwt \<le> mop1"
    and "mop1 \<le> gc_max_outstanding_packets (general c) + nwt"
    and "0 < k \<Longrightarrow> \<bar>int mop1 - int (gc_max_outstanding_packets (general c))\<bar> \<le>
           \<bar>int (k * nwt) - int (gc_max_outstanding_packets (general c))\<bar>"
proof -
  define mop where "mop = gc_max_outstanding_packets (general c)"
  have v: "0 < nwt" "nwt \<le> mop"
    and c1: "c1 = (if nwt dvd mop then c else set_mop (choose_mop mop (mop div nwt) nwt) c)"
    using assms(2) by (simp_all add: Validate_general_Inr nwt_def mop_def)
  have f: "mop + nwt < 2 ^ 32" using fits by (simp add: mop_def nwt_def)
  then have "mop + 2 * nwt < 2 ^ 64" using v(2) by simp
  moreover have "mop div nwt = max 1 (mop div nwt)"
    using v by (simp add: max_def div_greater_zero_iff Suc_le_eq)
  ultimately have n: "nwt dvd choose_mop mop (mop div nwt) nwt" "nwt \<le> choose_mop mop (mop div nwt) nwt"
      "choose_mop mop (mop div nwt) nwt \<le> mop + nwt"
      "\<And>k. 0 < k \<Longrightarrow> \<bar>int (choose_mop mop (mop div nwt) nwt) - int mop\<bar> \<le> \<bar>int (k * nwt) - int mop\<bar>"
    using choose_mop_nearest[OF v(1), of mop "mop div nwt"] by blast+
  have m1: "mop1 = (if nwt dvd mop then mop else choose_mop mop (mop div nwt) nwt)"
    using n(3) f by (simp add: mop1_def c1 mop_def set_mop_def u32_id)
  show "c1 = set_mop mop1 c"
  proof (cases "nwt dvd mop")
    case True
    then show ?thesis using c1 m1 f by (simp add: set_mop_def u32_id mop_def)
  next
    case False
    then show ?thesis using c1 m1 by simp
  qed
  show "nwt dvd mop1" "nwt \<le> mop1" using n v m1 by simp_all
  show "mop1 \<le> gc_max_outstanding_packets (general c) + nwt" using n m1 by (simp add: mop_def)
  show "0 < k \<Longrightarrow> \<bar>int mop1 - int (gc_max_outstanding_packets (general c))\<bar> \<le>
           \<bar>int (k * nwt) - int (gc_max_outstanding_packets (general c))\<bar>"
    using n(4)[of k] m1 by (simp add: mop_def)
qed

text \<open>Packets per message, and the number of packets that one message of every thread needs.\<close>

definition pkts_per_msg :: "Config \<Rightarrow> nat" where
  "pkts_per_msg c =
     (if gc_backend (general c) = ''rdma''
      then rdma_msg_numel (bc_rdma (backend_cfg c)) div gc_packet_numel (general c) else 1)"

definition outstanding_unit :: "Config \<Rightarrow> nat" where
  "outstanding_unit c = gc_num_worker_threads (general c) * pkts_per_msg c"

lemma set_mop_simps [simp]:
  "gc_max_outstanding_packets (general (set_mop n c)) = u32 n"
  "gc_num_worker_threads (general (set_mop n c)) = gc_num_worker_threads (general c)"
  "gc_packet_numel (general (set_mop n c)) = gc_packet_numel (general c)"
  "gc_backend (general (set_mop n c)) = gc_backend (general c)"
  "backend_cfg (set_mop n c) = backend_cfg c"
  "set_mop n (set_mop k c) = set_mop n c"
  by (simp_all add: set_mop_def)

lemma set_msg_numel_simps [simp]:
  "rdma_msg_numel (bc_rdma (backend_cfg (set_msg_numel n c))) = u32 n"
  "general (set_msg_numel n c) = general c"
  "set_msg_numel n (set_mop k c) = set_mop k (set_msg_numel n c)"
  by (simp_all add: set_msg_numel_def set_mop_def)

lemma Validate_rdma_other:
  "gc_backend (general c) \<noteq> ''rdma'' \<Longrightarrow> Validate_rdma c = Inr c"
  by (simp add: Validate_rdma_def)

text \<open>The RDMA part: what it accepts, and the configuration it returns.\<close>

lemma Validate_rdma_Inr:
  assumes rdma: "gc_backend (general c) = ''rdma''" and wf: "config_wf c"
    and nwt: "0 < gc_num_worker_threads (general c)"
  defines "msg \<equiv> rdma_msg_numel (bc_rdma (backend_cfg c))" and "pkt \<equiv> gc_packet_numel (general c)"
  shows "Validate_rdma c = Inr c' \<longleftrightarrow>
     pkt \<in> {64, 256} \<and> pkt \<le> msg \<and>
     (let c1 = set_msg_numel (msg - msg mod pkt) c; mop = gc_max_outstanding_packets (general c);
          d = outstanding_unit c
      in 0 < d \<and> c' = (if d dvd mop then c1 else set_mop (choose_mop mop (max 1 (mop div d)) d) c1))"
proof (cases "pkt \<in> {64, 256} \<and> pkt \<le> msg")
  case True
  then have p: "0 < pkt" "pkt \<le> msg" "64 \<le> pkt" by auto
  have msgb: "msg < 2 ^ 32" using wf by (simp add: config_wf_def msg_def)
  have q: "0 < msg div pkt" using p by (simp add: div_greater_zero_iff)
  have "msg div pkt * pkt < 2 ^ 64"
    using msgb by (intro le_less_trans[OF div_times_less_eq_dividend]) simp
  then have e1: "u64_mul (msg div pkt) pkt = msg - msg mod pkt"
    by (simp add: u64_mul_id minus_mod_eq_div_mult)
  have c1: "(if msg mod pkt \<noteq> 0 then set_msg_numel (u64_mul (msg div pkt) pkt) c else c) =
      set_msg_numel (msg - msg mod pkt) c"
    unfolding e1 using msgb by (simp add: set_msg_numel_def u32_id msg_def)
  have "gc_num_worker_threads (general c) * (msg div pkt) \<le> 2 ^ 16 * 2 ^ 32"
    using wf msgb by (intro mult_le_mono) (auto simp: config_wf_def intro: order_trans[OF div_le_dividend])
  then have "gc_num_worker_threads (general c) * (msg div pkt) < 2 ^ 64" by simp
  then have e2: "u64_mul (gc_num_worker_threads (general c)) (msg div pkt) = outstanding_unit c"
    using rdma by (simp add: u64_mul_id outstanding_unit_def pkts_per_msg_def msg_def pkt_def)
  have d: "0 < outstanding_unit c"
    using nwt q rdma by (simp add: outstanding_unit_def pkts_per_msg_def msg_def pkt_def)
  have "Validate_rdma c = Inr (let c1 = set_msg_numel (msg - msg mod pkt) c;
      mop = gc_max_outstanding_packets (general c); d = outstanding_unit c
    in if mop mod d \<noteq> 0 then set_mop (choose_mop mop (max 1 (mop div d)) d) c1 else c1)"
    using True rdma p d unfolding Validate_rdma_def Let_def msg_def[symmetric] pkt_def[symmetric] c1
    by (auto simp: e2 not_less)
  then show ?thesis using True d by (auto simp: Let_def dvd_eq_mod_eq_0)
next
  case False
  then have "\<exists>e. Validate_rdma c = Inl e"
    using rdma by (auto simp: Validate_rdma_def Let_def msg_def pkt_def)
  then show ?thesis using False by auto
qed

lemma Validate_rdma_errors:
  assumes rdma: "gc_backend (general c) = ''rdma''" and wf: "config_wf c"
    and nwt: "0 < gc_num_worker_threads (general c)"
  shows "\<not> (\<exists>s. Validate_rdma c = Inl (Crash s))"
    and "(\<exists>s. Validate_rdma c = Inl (Fatal s)) \<longleftrightarrow> gc_packet_numel (general c) \<notin> {64, 256} \<or>
          rdma_msg_numel (bc_rdma (backend_cfg c)) < gc_packet_numel (general c)"
proof -
  let ?ok = "gc_packet_numel (general c) \<in> {64, 256} \<and>
     gc_packet_numel (general c) \<le> rdma_msg_numel (bc_rdma (backend_cfg c))"
  have "0 < outstanding_unit c" if ?ok
    using that nwt rdma by (auto simp: outstanding_unit_def pkts_per_msg_def div_greater_zero_iff)
  then have "\<exists>c'. Validate_rdma c = Inr c'" if ?ok
    using that Validate_rdma_Inr[OF assms] by (simp add: Let_def)
  moreover have "\<exists>s. Validate_rdma c = Inl (Fatal s)" if "\<not> ?ok"
    using that rdma by (auto simp: Validate_rdma_def Let_def)
  ultimately show "\<not> (\<exists>s. Validate_rdma c = Inl (Crash s))"
    and "(\<exists>s. Validate_rdma c = Inl (Fatal s)) \<longleftrightarrow> gc_packet_numel (general c) \<notin> {64, 256} \<or>
          rdma_msg_numel (bc_rdma (backend_cfg c)) < gc_packet_numel (general c)"
    by (metis Inl_Inr_False abort.distinct(1) not_less sum.inject(1))+
qed

text \<open>What a validated configuration satisfies; validating it again changes nothing.\<close>

definition config_valid :: "Config \<Rightarrow> bool" where
  "config_valid c \<longleftrightarrow>
     config_wf c \<and> 0 < outstanding_unit c \<and> outstanding_unit c \<le> gc_max_outstanding_packets (general c) \<and>
     outstanding_unit c dvd gc_max_outstanding_packets (general c) \<and>
     (gc_backend (general c) \<in> {''dpdk'', ''rdma''} \<longrightarrow> gc_packet_numel (general c) \<in> {64, 256}) \<and>
     (gc_backend (general c) = ''rdma'' \<longrightarrow>
        gc_packet_numel (general c) \<le> rdma_msg_numel (bc_rdma (backend_cfg c)) \<and>
        gc_packet_numel (general c) dvd rdma_msg_numel (bc_rdma (backend_cfg c)))"

lemma config_valid_Validate:
  assumes "config_valid c"
  shows "Validate c = Inr c"
proof -
  let ?mop = "gc_max_outstanding_packets (general c)" and ?nwt = "gc_num_worker_threads (general c)"
  have u: "0 < outstanding_unit c" "outstanding_unit c \<le> ?mop" "outstanding_unit c dvd ?mop"
    and wf: "config_wf c" using assms by (simp_all add: config_valid_def)
  have n: "0 < ?nwt" "?nwt dvd outstanding_unit c" using u(1) by (simp_all add: outstanding_unit_def)
  then have "?nwt \<le> ?mop" "?nwt dvd ?mop" using u by (auto intro: dvd_imp_le dvd_trans order_trans)
  then have g: "Validate_general c = Inr c" using n by (simp add: Validate_general_Inr)
  have d: "Validate_dpdk c = Inr c" using assms by (auto simp: Validate_dpdk_Inr config_valid_def)
  have "Validate_rdma c = Inr c"
  proof (cases "gc_backend (general c) = ''rdma''")
    case True
    have "set_msg_numel (rdma_msg_numel (bc_rdma (backend_cfg c))) c = c"
      using wf by (simp add: set_msg_numel_def u32_id config_wf_def)
    then show ?thesis
      using True assms u Validate_rdma_Inr[OF True wf n(1), of c]
      by (auto simp: config_valid_def Let_def dvd_eq_mod_eq_0)
  qed (rule Validate_rdma_other)
  then show ?thesis using g d by (simp add: Validate_def)
qed

lemma config_valid_PrintConfig:
  assumes "config_valid c"
  shows "\<exists>ds. PrintConfig c = Inr ds \<and> (\<forall>d \<in> set ds. 0 < d)"
proof -
  let ?mop = "gc_max_outstanding_packets (general c)" and ?nwt = "gc_num_worker_threads (general c)"
  have u: "0 < ?nwt * pkts_per_msg c" "?nwt * pkts_per_msg c \<le> ?mop"
    using assms by (simp_all add: config_valid_def outstanding_unit_def)
  have nwt: "0 < ?nwt" using u(1) by simp
  have "?nwt * 1 \<le> ?nwt * pkts_per_msg c" using u(1) by (intro mult_le_mono) auto
  then have "?nwt \<le> ?mop" using u(2) by linarith
  then have "0 < ?mop div ?nwt" using u(1) by (simp add: div_greater_zero_iff)
  moreover have le: "?nwt \<le> ?mop div pkts_per_msg c"
    using u by (simp add: less_eq_div_iff_mult_less_eq)
  have "0 < ?mop div pkts_per_msg c div ?nwt" using nwt le by (simp only: div_greater_zero_iff)
  moreover have "0 < ?mop div pkts_per_msg c" using nwt le by linarith
  moreover have "gc_packet_numel (general c) \<noteq> 0" if "gc_backend (general c) = ''rdma''"
    using that assms by (auto simp: config_valid_def)
  ultimately show ?thesis using u(1) by (auto simp: PrintConfig_def Let_def pkts_per_msg_def)
qed

lemma Validate_establishes:
  assumes wf: "config_wf c" and v: "Validate c = Inr c'"
    and fits: "gc_max_outstanding_packets (general c) + gc_num_worker_threads (general c) +
               outstanding_unit c < 2 ^ 32"
  shows "config_valid c' \<and> outstanding_unit c' = outstanding_unit c \<and>
     (\<exists>n k. c' = set_mop n (set_msg_numel k c))"
proof -
  let ?mop = "gc_max_outstanding_packets (general c)" and ?nwt = "gc_num_worker_threads (general c)"
  let ?pkt = "gc_packet_numel (general c)" and ?msg = "rdma_msg_numel (bc_rdma (backend_cfg c))"
  obtain c1 where g: "Validate_general c = Inr c1" and d: "Validate_dpdk c1 = Inr c1"
    and r: "Validate_rdma c1 = Inr c'"
    using v by (auto simp: Validate_def bindE_eq_Inr Validate_dpdk_Inr)
  define mop1 where "mop1 = gc_max_outstanding_packets (general c1)"
  have f: "?mop + ?nwt < 2 ^ 32" using fits by simp
  have c1: "c1 = set_mop mop1 c" and m1: "?nwt dvd mop1" "?nwt \<le> mop1" "mop1 \<le> ?mop + ?nwt"
    using Validate_general_mop(1-4)[OF wf g f] unfolding mop1_def by simp_all
  have nwt: "0 < ?nwt" using g by (simp add: Validate_general_Inr)
  have b1: "mop1 < 2 ^ 32" using m1 f by simp
  have wf1: "config_wf c1" using wf b1 by (simp add: c1 config_wf_def u32_id)
  have un: "outstanding_unit c1 = outstanding_unit c"
    by (simp add: c1 outstanding_unit_def pkts_per_msg_def)
  show ?thesis
  proof (cases "gc_backend (general c) = ''rdma''")
    case False
    then have "c' = c1" using r by (simp add: c1 Validate_rdma_other)
    moreover have "outstanding_unit c1 = ?nwt"
      unfolding un using False by (simp add: outstanding_unit_def pkts_per_msg_def)
    moreover have "c1 = set_mop mop1 (set_msg_numel ?msg c)"
      using wf by (simp add: c1 set_mop_def set_msg_numel_def u32_id config_wf_def)
    ultimately show ?thesis
      using False d wf1 m1 nwt un b1 by (auto simp: config_valid_def Validate_dpdk_Inr u32_id)
  next
    case True
    then have R: "gc_backend (general c1) = ''rdma''" by (simp add: c1)
    define D where "D = outstanding_unit c"
    define new where "new = (if D dvd mop1 then mop1 else choose_mop mop1 (max 1 (mop1 div D)) D)"
    have p: "?pkt \<in> {64, 256}" "?pkt \<le> ?msg" "0 < D"
      and c': "c' = (let c2 = set_msg_numel (?msg - ?msg mod ?pkt) c1
                in if D dvd mop1 then c2 else set_mop (choose_mop mop1 (max 1 (mop1 div D)) D) c2)"
      using iffD1[OF Validate_rdma_Inr[OF R wf1, of c'] r] nwt b1
      by (simp_all add: c1 Let_def un[unfolded c1] D_def u32_id)
    have Db: "mop1 + D < 2 ^ 32" using m1 fits by (simp add: D_def)
    then have "mop1 + 2 * D < 2 ^ 64" by simp
    from choose_mop_nearest[OF p(3) this refl]
    have n: "D dvd new" "D \<le> new" "new \<le> mop1 + D"
      using m1(2) nwt by (auto simp: new_def intro: dvd_imp_le)
    have c2: "c' = set_mop new (set_msg_numel (?msg - ?msg mod ?pkt) c)"
      using b1 by (auto simp: c' c1 new_def Let_def)
    have msgb: "?msg - ?msg mod ?pkt < 2 ^ 32" using wf by (auto simp: config_wf_def intro: less_imp_diff_less)
    have newb: "new < 2 ^ 32" using n Db by simp
    have dm: "?pkt dvd ?msg - ?msg mod ?pkt" by (simp add: minus_mod_eq_mult_div)
    have q: "(?msg - ?msg mod ?pkt) div ?pkt = ?msg div ?pkt"
      using p by (auto simp: minus_mod_eq_mult_div)
    have le: "?pkt \<le> ?msg - ?msg mod ?pkt"
      using p by (intro dvd_imp_le dm) (metis diff_is_0_eq' gr0I leD mod_less_divisor insertE
        singletonD zero_less_numeral zero_less_diff order_less_le_trans)
    have u': "outstanding_unit c' = D"
      using True msgb by (simp add: c2 D_def outstanding_unit_def pkts_per_msg_def u32_id q)
    then have "config_valid c'"
      using True wf p n le dm msgb newb u' by (simp add: c2 config_valid_def config_wf_def u32_id D_def)
    then show ?thesis using u' c2 by (auto simp: D_def)
  qed
qed

text \<open>For evaluating the validation of a concrete configuration.\<close>

lemmas config_eval = Validate_def Validate_general_def Validate_dpdk_def Validate_rdma_def
  choose_mop_def set_mop_def set_msg_numel_def u64_add_def u64_sub_def u64_mul_def u32_def
  default_Config_def default_GeneralConfig_def default_RdmaBackendConfig_def

section \<open>Properties\<close>



text \<open>For the other backends the new value of max_outstanding_packets is the multiple of the
  number of worker threads nearest to the requested one.\<close>
theorem Validate_nearest:
  assumes "config_wf c" and "Validate c = Inr c'" and "gc_backend (general c) \<noteq> ''rdma''"
    and "gc_max_outstanding_packets (general c) + gc_num_worker_threads (general c) < 2 ^ 32"
    and "0 < k"
  shows "\<bar>int (gc_max_outstanding_packets (general c')) - int (gc_max_outstanding_packets (general c))\<bar>
     \<le> \<bar>int (k * gc_num_worker_threads (general c)) - int (gc_max_outstanding_packets (general c))\<bar>"
proof -
  obtain c1 where g: "Validate_general c = Inr c1" and r: "Validate_rdma c1 = Inr c'"
    using assms(2) by (auto simp: Validate_def bindE_eq_Inr Validate_dpdk_Inr)
  have "gc_backend (general c1) = gc_backend (general c)"
    using g by (auto simp: Validate_general_Inr)
  then have "c' = c1" using r assms(3) by (simp add: Validate_rdma_other)
  then show ?thesis using Validate_general_mop(5)[OF assms(1) g assms(4,5)] by simp
qed

theorem Validate_nearest_witness:
  "Validate (set_mop 103 default_Config) = Inr (set_mop 104 default_Config) \<and> \<bar>104 - 103\<bar> \<le> \<bar>100 - 103 :: int\<bar>"
proof -
  have v: "Validate (set_mop 103 default_Config) = Inr (set_mop 104 default_Config)"
    by (simp add: config_eval)
  have "config_wf (set_mop 103 default_Config)" "gc_backend (general (set_mop 103 default_Config)) \<noteq> ''rdma''"
     "gc_max_outstanding_packets (general (set_mop 103 default_Config)) +
      gc_num_worker_threads (general (set_mop 103 default_Config)) < 2 ^ 32"
    by (simp_all add: config_eval config_wf_def)
  from Validate_nearest[OF this(1) v this(2,3), of 25] v show ?thesis
    by (simp add: u32_def default_Config_def default_GeneralConfig_def)
qed

text \<open>C7: Validate rejects a configuration exactly for one of these reasons, each with the outcome
  the code has: no worker threads (a division by zero), fewer outstanding packets than worker
  threads, a packet size the selected backend does not support, or an RDMA message smaller than a
  packet.\<close>
theorem Validate_rejects:
  assumes "config_wf c"
  shows "((\<exists>s. Validate c = Inl (Crash s)) = (gc_num_worker_threads (general c) = 0)) \<and>
    ((\<exists>s. Validate c = Inl (Fatal s)) =
      (gc_num_worker_threads (general c) \<noteq> 0 \<and>
       (gc_max_outstanding_packets (general c) < gc_num_worker_threads (general c) \<or>
        gc_backend (general c) \<in> {''dpdk'', ''rdma''} \<and> gc_packet_numel (general c) \<notin> {64, 256} \<or>
        gc_backend (general c) = ''rdma'' \<and>
          rdma_msg_numel (bc_rdma (backend_cfg c)) < gc_packet_numel (general c))))"
proof (cases "0 < gc_num_worker_threads (general c) \<and>
    gc_num_worker_threads (general c) \<le> gc_max_outstanding_packets (general c)")
  case False
  then show ?thesis by (auto simp: Validate_def Validate_general_def Let_def div_eq_0_iff)
next
  case True
  obtain c1 where g: "Validate_general c = Inr c1" using True by (simp add: Validate_general_Inr)
  then have c1: "c1 = c \<or> (\<exists>n. c1 = set_mop n c)" by (simp add: Validate_general_Inr) metis
  have wf1: "config_wf c1" using assms c1 by (auto simp: config_wf_def u32_def)
  have same: "gc_backend (general c1) = gc_backend (general c)"
     "gc_packet_numel (general c1) = gc_packet_numel (general c)"
     "gc_num_worker_threads (general c1) = gc_num_worker_threads (general c)"
     "backend_cfg c1 = backend_cfg c" using c1 by auto
  consider "gc_backend (general c) = ''dpdk''" | "gc_backend (general c) = ''rdma''"
    | "gc_backend (general c) \<notin> {''dpdk'', ''rdma''}" by blast
  then show ?thesis
  proof cases
    case 2
    then show ?thesis
      using Validate_rdma_errors[of c1] wf1 True g same by (simp add: Validate_def Validate_dpdk_def)
  qed (use True g same in \<open>auto simp: Validate_def Validate_dpdk_def Validate_rdma_other\<close>)
qed

theorem Validate_rejects_witness:
  "config_wf (set_mop 3 default_Config) \<and> (\<exists>s. Validate (set_mop 3 default_Config) = Inl (Fatal s))"
proof -
  have "config_wf (set_mop 3 default_Config)" by (simp add: config_eval config_wf_def)
  then show ?thesis using Validate_rejects[of "set_mop 3 default_Config"] by (simp add: config_eval)
qed

text \<open>Near the upper end of its range the rounded max_outstanding_packets no longer fits its 32
  bits: Validate accepts a configuration with 13 worker threads and leaves room for only 4
  outstanding packets, fewer than the one per thread that its own first check demands.\<close>
theorem Validate_truncates:
  "\<exists>c c'. config_wf c \<and> Validate c = Inr c' \<and>
     gc_max_outstanding_packets (general c') < gc_num_worker_threads (general c')"
proof -
  let ?c = "set_mop (2 ^ 32 - 1) (default_Config\<lparr>general := default_GeneralConfig\<lparr>gc_num_worker_threads := 13\<rparr>\<rparr>)"
  have "Validate ?c = Inr (set_mop 4 ?c)" "config_wf ?c"
    by (simp_all add: config_eval config_wf_def)
  moreover have "gc_max_outstanding_packets (general (set_mop 4 ?c)) <
      gc_num_worker_threads (general (set_mop 4 ?c))" by (simp add: config_eval)
  ultimately show ?thesis by blast
qed

text \<open>Without an explicit path the configuration comes from the first of the three default
  files that can be opened; with one, only that file is tried. When no file can be opened the
  function reports failure and leaves the configuration untouched, and otherwise options the file
  does not set have their default values.\<close>
theorem LoadFromFile_sources:
  "case LoadFromFile good (Some h) parse path c of
     Inr (ok, c') \<Rightarrow>
       (let cands = (if path = [] then [''/etc/switchml.cfg'', ''switchml.cfg'', ''switchml-'' @ h @ ''.cfg'']
                     else [path])
        in if ok then (\<exists>p. find good cands = Some p \<and> parse p default_Config = Inr c')
           else find good cands = None \<and> c' = c)
   | Inl e \<Rightarrow> (\<exists>p. parse p default_Config = Inl e)"
  by (auto simp: LoadFromFile_def config_path_def Let_def bindE_def split: sum.splits option.splits)

end
