(* ===== verification/Client_Stats.thy ===== *)
theory Client_Stats
  imports Switchml_Prelude "HOL-Library.Multiset"
begin

text \<open>
  The statistics object (client_lib/src/stats.h, stats.cc). The per-thread arrays are null before
  InitStats, which is why they are options here; a freshly allocated array has arbitrary contents,
  a parameter of \<open>InitStats\<close>. The text that LogStats prints, and the floating point standard
  deviation in it, are not modelled.
\<close>

record Stats =
  st_num_worker_threads :: nat
  jobs_submitted_num :: nat
  jobs_submitted_numel :: "nat list"
  jobs_finished_num :: nat
  total_pkts_sent :: "nat list option"
  wrong_pkts_received :: "nat list option"
  correct_pkts_received :: "nat list option"
  timeouts_num :: "nat list option"

definition new_Stats :: Stats where
  "new_Stats =
     \<lparr>st_num_worker_threads = 0, jobs_submitted_num = 0, jobs_submitted_numel = [], jobs_finished_num = 0,
      total_pkts_sent = None, wrong_pkts_received = None, correct_pkts_received = None, timeouts_num = None\<rparr>"

text \<open>Zeroing the first \<open>n\<close> elements of an array.\<close>

fun clear_upto :: "nat \<Rightarrow> nat list \<Rightarrow> nat list" where
  "clear_upto 0 xs = xs"
| "clear_upto (Suc i) xs = (clear_upto i xs)[i := 0]"

definition ResetStats :: "Stats \<Rightarrow> Stats" where
  "ResetStats s =
     (let clear = map_option (clear_upto (st_num_worker_threads s))
      in s\<lparr>jobs_submitted_num := 0, jobs_submitted_numel := [], jobs_finished_num := 0,
           total_pkts_sent := clear (total_pkts_sent s),
           wrong_pkts_received := clear (wrong_pkts_received s),
           correct_pkts_received := clear (correct_pkts_received s),
           timeouts_num := clear (timeouts_num s)\<rparr>)"

text \<open>The argument is a signed 16-bit integer: larger thread counts become negative sizes.\<close>

definition InitStats :: "(nat \<Rightarrow> nat) \<Rightarrow> nat \<Rightarrow> Stats \<Rightarrow> Stats outcome" where
  "InitStats garbage n s =
     (if total_pkts_sent s \<noteq> None then Inl (Fatal ''Trying to initialize stats twice'')
      else if 2 ^ 15 \<le> n then Inl (Crash ''bad_array_new_length'')
      else let arr = Some (map garbage [0..<n])
           in Inr (ResetStats (s\<lparr>st_num_worker_threads := n, total_pkts_sent := arr,
                wrong_pkts_received := arr, correct_pkts_received := arr, timeouts_num := arr\<rparr>)))"

definition add_at :: "nat \<Rightarrow> nat \<Rightarrow> nat list option \<Rightarrow> nat list option outcome" where
  "add_at wtid k arr =
     (case arr of
        None \<Rightarrow> Inl (Crash ''null array'')
      | Some xs \<Rightarrow> if wtid < length xs then Inr (Some (xs[wtid := u64_add (xs ! wtid) k]))
                   else Inl (Crash ''array index out of bounds''))"

definition AddTotalPktsSent :: "nat \<Rightarrow> nat \<Rightarrow> Stats \<Rightarrow> Stats outcome" where
  "AddTotalPktsSent w k s = bindE (add_at w k (total_pkts_sent s)) (\<lambda>a. Inr (s\<lparr>total_pkts_sent := a\<rparr>))"

definition AddCorrectPktsReceived :: "nat \<Rightarrow> nat \<Rightarrow> Stats \<Rightarrow> Stats outcome" where
  "AddCorrectPktsReceived w k s =
     bindE (add_at w k (correct_pkts_received s)) (\<lambda>a. Inr (s\<lparr>correct_pkts_received := a\<rparr>))"

definition AddWrongPktsReceived :: "nat \<Rightarrow> nat \<Rightarrow> Stats \<Rightarrow> Stats outcome" where
  "AddWrongPktsReceived w k s =
     bindE (add_at w k (wrong_pkts_received s)) (\<lambda>a. Inr (s\<lparr>wrong_pkts_received := a\<rparr>))"

definition AddTimeouts :: "nat \<Rightarrow> nat \<Rightarrow> Stats \<Rightarrow> Stats outcome" where
  "AddTimeouts w k s = bindE (add_at w k (timeouts_num s)) (\<lambda>a. Inr (s\<lparr>timeouts_num := a\<rparr>))"

definition IncJobsSubmittedNum :: "Stats \<Rightarrow> Stats" where
  "IncJobsSubmittedNum s = s\<lparr>jobs_submitted_num := u64_add (jobs_submitted_num s) 1\<rparr>"

definition AppendJobSubmittedNumel :: "nat \<Rightarrow> Stats \<Rightarrow> Stats" where
  "AppendJobSubmittedNumel n s = s\<lparr>jobs_submitted_numel := jobs_submitted_numel s @ [n]\<rparr>"

definition IncJobsFinishedNum :: "Stats \<Rightarrow> Stats" where
  "IncJobsFinishedNum s = s\<lparr>jobs_finished_num := u64_add (jobs_finished_num s) 1\<rparr>"

section \<open>Describing a list\<close>

record int_list_description =
  d_sum :: nat
  d_mean :: nat
  d_max :: nat
  d_min :: nat
  d_median :: nat

text \<open>
  The mean is an integer division before it becomes a double. nth_element leaves at the median
  index the element that sorting would put there.
\<close>

definition DescribeIntList :: "nat list \<Rightarrow> int_list_description option" where
  "DescribeIntList xs =
     (if xs = [] then None
      else let s = foldl u64_add 0 xs
           in Some \<lparr>d_sum = s, d_mean = s div length xs, d_max = Max (set xs), d_min = Min (set xs),
                    d_median = sort xs ! (length xs div 2)\<rparr>)"

section \<open>Properties\<close>

lemma clear_upto_replicate: "length xs = n \<Longrightarrow> clear_upto n xs = replicate n 0"
proof -
  have "length (clear_upto k xs) = length xs" for k by (induction k) simp_all
  moreover have "k \<le> length xs \<Longrightarrow> \<forall>i < k. clear_upto k xs ! i = 0" for k
    by (induction k) (auto simp: nth_list_update_split \<open>\<And>k. length (clear_upto k xs) = length xs\<close> less_Suc_eq)
  ultimately show "length xs = n \<Longrightarrow> ?thesis" by (auto intro!: nth_equalityI)
qed

text \<open>The four counters a worker thread updates, and a log of updates.\<close>

datatype counter = TotalSent | CorrectReceived | WrongReceived | Timeouts

fun counter_of :: "counter \<Rightarrow> Stats \<Rightarrow> nat list option" where
  "counter_of TotalSent s = total_pkts_sent s"
| "counter_of CorrectReceived s = correct_pkts_received s"
| "counter_of WrongReceived s = wrong_pkts_received s"
| "counter_of Timeouts s = timeouts_num s"

fun add_counter :: "counter \<Rightarrow> nat \<Rightarrow> nat \<Rightarrow> Stats \<Rightarrow> Stats outcome" where
  "add_counter TotalSent = AddTotalPktsSent"
| "add_counter CorrectReceived = AddCorrectPktsReceived"
| "add_counter WrongReceived = AddWrongPktsReceived"
| "add_counter Timeouts = AddTimeouts"

fun add_all :: "(counter \<times> nat \<times> nat) list \<Rightarrow> Stats \<Rightarrow> Stats outcome" where
  "add_all [] s = Inr s"
| "add_all ((c, w, k) # es) s = bindE (add_counter c w k s) (add_all es)"

definition logged :: "(counter \<times> nat \<times> nat) list \<Rightarrow> counter \<Rightarrow> nat \<Rightarrow> nat" where
  "logged es c w = sum_list (map (\<lambda>(c', w', k). if c' = c \<and> w' = w then k else 0) es)"

lemma add_counter_Inr:
  assumes "counter_of c s = Some xs" and "w < length xs"
  shows "\<exists>s'. add_counter c w k s = Inr s' \<and> counter_of c s' = Some (xs[w := u64_add (xs ! w) k]) \<and>
     (\<forall>c'. c' \<noteq> c \<longrightarrow> counter_of c' s' = counter_of c' s) \<and>
     jobs_submitted_num s' = jobs_submitted_num s \<and> jobs_submitted_numel s' = jobs_submitted_numel s \<and>
     jobs_finished_num s' = jobs_finished_num s"
proof -
  have all: "(\<forall>c'. P c') = (P TotalSent \<and> P CorrectReceived \<and> P WrongReceived \<and> P Timeouts)" for P
    by (metis counter.exhaust)
  show ?thesis
    using assms by (cases c) (simp_all add: all add_at_def AddTotalPktsSent_def AddCorrectPktsReceived_def
      AddWrongPktsReceived_def AddTimeouts_def)
qed

lemma add_all_counters:
  assumes "\<forall>c. \<exists>xs. counter_of c s = Some xs \<and> length xs = n \<and> (\<forall>w < n. xs ! w < 2 ^ 64)" and "\<forall>(c, w, k) \<in> set es. w < n"
  shows "\<exists>s'. add_all es s = Inr s' \<and>
     (\<forall>c. \<exists>xs ys. counter_of c s = Some xs \<and> counter_of c s' = Some ys \<and> length ys = n \<and>
        (\<forall>w < n. ys ! w = (xs ! w + logged es c w) mod 2 ^ 64))"
  using assms
proof (induction es arbitrary: s)
  case Nil
  then show ?case by (fastforce simp: logged_def)
next
  case (Cons e es)
  obtain c w k where e: "e = (c, w, k)" by (cases e)
  have w: "w < n" using Cons.prems(2) e by simp
  obtain xs where xs: "counter_of c s = Some xs" "length xs = n" "\<forall>w < n. xs ! w < 2 ^ 64" using Cons.prems(1) by blast
  obtain s1 where s1: "add_counter c w k s = Inr s1"
      "counter_of c s1 = Some (xs[w := u64_add (xs ! w) k])"
      "\<forall>c'. c' \<noteq> c \<longrightarrow> counter_of c' s1 = counter_of c' s"
    using add_counter_Inr[OF xs(1), of w k] w xs(2) by blast
  have "\<exists>xs. counter_of c' s1 = Some xs \<and> length xs = n \<and> (\<forall>w < n. xs ! w < 2 ^ 64)" for c'
    using s1(2,3) xs w Cons.prems(1) by (cases "c' = c") (auto simp: nth_list_update_split u64_add_def)
  then obtain s' where s': "add_all es s1 = Inr s'"
    and ih: "\<And>c. \<exists>xs ys. counter_of c s1 = Some xs \<and> counter_of c s' = Some ys \<and> length ys = n \<and>
        (\<forall>w < n. ys ! w = (xs ! w + logged es c w) mod 2 ^ 64)"
    using Cons.IH[of s1] Cons.prems(2) by auto
  have "\<exists>xs ys. counter_of d s = Some xs \<and> counter_of d s' = Some ys \<and> length ys = n \<and>
        (\<forall>v < n. ys ! v = (xs ! v + logged (e # es) d v) mod 2 ^ 64)" for d
  proof (cases "d = c")
    case True
    then show ?thesis
      using ih[of d] s1(2) xs w
      by (auto simp: e logged_def nth_list_update_split u64_add_def mod_add_left_eq add.assoc)
  next
    case False
    then show ?thesis using ih[of d] s1(3) by (auto simp: e logged_def)
  qed
  then show ?case using s1(1) s' by (auto simp: e)
qed

text \<open>After InitStats, whatever the allocated arrays contained, any sequence of updates by the
  worker threads runs without touching memory outside the arrays and leaves in each thread's
  counter exactly the sum of the updates made for that counter and thread (no counter picks up
  another one's or another thread's updates), as long as the sum fits 64 bits.\<close>
theorem stats_counters:
  assumes "n < 2 ^ 15" and "InitStats garbage n new_Stats = Inr s0"
    and "\<forall>(c, w, k) \<in> set es. w < n" and "\<forall>c. \<forall>w < n. logged es c w < 2 ^ 64"
  shows "\<exists>s. add_all es s0 = Inr s \<and>
     (\<forall>c. counter_of c s = Some (map (\<lambda>w. logged es c w) [0..<n]))"
proof -
  have s0: "counter_of c s0 = Some (replicate n 0)" for c
    using assms(1,2)
    by (cases c) (auto simp: InitStats_def ResetStats_def new_Stats_def Let_def clear_upto_replicate)
  then have "\<forall>c. \<exists>xs. counter_of c s0 = Some xs \<and> length xs = n \<and> (\<forall>w < n. xs ! w < 2 ^ 64)" by simp
  from add_all_counters[OF this assms(3)] obtain s where s: "add_all es s0 = Inr s"
    and c: "\<And>c. \<exists>ys. counter_of c s = Some ys \<and> length ys = n \<and> (\<forall>w < n. ys ! w = logged es c w mod 2 ^ 64)"
    using s0 by auto
  have "counter_of c s = Some (map (\<lambda>w. logged es c w) [0..<n])" for c
  proof -
    obtain ys where ys: "counter_of c s = Some ys" "length ys = n" "\<forall>w < n. ys ! w = logged es c w mod 2 ^ 64"
      using c by blast
    then have "ys = map (\<lambda>w. logged es c w) [0..<n]"
      using assms(4) by (intro nth_equalityI) simp_all
    then show ?thesis using ys by simp
  qed
  then show ?thesis using s by blast
qed

theorem stats_counters_witness:
  "\<exists>s0 s. InitStats (\<lambda>i. 7) 2 new_Stats = Inr s0 \<and>
     add_all [(TotalSent, 1, 5), (Timeouts, 0, 2), (TotalSent, 1, 3)] s0 = Inr s \<and>
     total_pkts_sent s = Some [0, 8] \<and> timeouts_num s = Some [2, 0]"
proof -
  let ?es = "[(TotalSent, 1, 5), (Timeouts, 0, 2), (TotalSent, 1, 3)] :: (counter \<times> nat \<times> nat) list"
  obtain s0 where s0: "InitStats (\<lambda>i. 7) 2 new_Stats = Inr s0"
    by (simp add: InitStats_def new_Stats_def Let_def)
  have "\<forall>c. \<forall>w < 2. logged ?es c w < 2 ^ 64" by (simp add: logged_def)
  then obtain s where s: "add_all ?es s0 = Inr s"
      "\<And>c. counter_of c s = Some (map (\<lambda>w. logged ?es c w) [0..<2])"
    using stats_counters[of 2 "\<lambda>i. 7" s0 ?es] s0 by auto
  have "total_pkts_sent s = Some [0, 8]" "timeouts_num s = Some [2, 0]"
    using s(2)[of TotalSent] s(2)[of Timeouts] by (simp_all add: logged_def upt_rec)
  then show ?thesis using s0 s(1) by blast
qed

lemma foldl_u64_add: "foldl u64_add a xs = (if xs = [] then a else (a + sum_list xs) mod 2 ^ 64)"
proof (induction xs arbitrary: a)
  case (Cons x xs)
  then show ?case by (auto simp: u64_add_def mod_add_left_eq add.assoc)
qed simp

lemma sum_list_bounds:
  fixes xs :: "nat list"
  shows "(\<forall>x \<in> set xs. lo \<le> x \<and> x \<le> hi) \<Longrightarrow> length xs * lo \<le> sum_list xs \<and> sum_list xs \<le> length xs * hi"
  by (induction xs) (auto simp: add_mono)

text \<open>The description of a list of sizes is consistent: minimum, mean and median lie between
  the minimum and the maximum, the mean is the sum divided by the length rounded down, and at most
  half of the elements are smaller than the median and at most half are larger.\<close>
theorem DescribeIntList_correct:
  assumes "xs \<noteq> []" and "sum_list xs < 2 ^ 64"
  shows "\<exists>d. DescribeIntList xs = Some d \<and>
     d_sum d = sum_list xs \<and> d_mean d = sum_list xs div length xs \<and>
     d_min d \<le> d_mean d \<and> d_mean d \<le> d_max d \<and> d_min d \<le> d_median d \<and> d_median d \<le> d_max d \<and>
     d_median d \<in> set xs \<and>
     2 * length (filter (\<lambda>x. x < d_median d) xs) \<le> length xs \<and>
     2 * length (filter (\<lambda>x. d_median d < x) xs) \<le> length xs"
proof -
  let ?n = "length xs" and ?m = "sort xs ! (length xs div 2)"
  have n: "0 < ?n" using assms(1) by simp
  then have k: "?n div 2 < length (sort xs)" by simp
  then have mem: "?m \<in> set xs" by (metis nth_mem set_sort)
  have b: "\<forall>x \<in> set xs. Min (set xs) \<le> x \<and> x \<le> Max (set xs)" by simp
  have mean: "Min (set xs) \<le> sum_list xs div ?n" "sum_list xs div ?n \<le> Max (set xs)"
    using sum_list_bounds[OF b] n div_le_mono[of "sum_list xs" "?n * Max (set xs)" ?n]
    by (simp_all add: less_eq_div_iff_mult_less_eq mult.commute)
  have cnt: "length (filter P xs) = length (filter P (sort xs))" for P
    by (metis mset_filter mset_sort size_mset)
  have "length (filter (\<lambda>x. x < ?m) (sort xs)) \<le> ?n div 2"
  proof -
    have "filter (\<lambda>x. x < ?m) (drop (?n div 2) (sort xs)) = []"
      using k by (auto simp: filter_empty_conv in_set_conv_nth not_less intro!: sorted_nth_mono[OF sorted_sort])
    then have "filter (\<lambda>x. x < ?m) (sort xs) = filter (\<lambda>x. x < ?m) (take (?n div 2) (sort xs))"
      by (metis append.right_neutral append_take_drop_id filter_append)
    then show ?thesis by (metis length_filter_le length_take min.cobounded2 order_trans length_sort)
  qed
  moreover have "length (filter (\<lambda>x. ?m < x) (sort xs)) \<le> ?n - Suc (?n div 2)"
  proof -
    have "filter (\<lambda>x. ?m < x) (take (Suc (?n div 2)) (sort xs)) = []"
      using k by (auto simp: filter_empty_conv in_set_conv_nth not_less intro!: sorted_nth_mono[OF sorted_sort])
    then have "filter (\<lambda>x. ?m < x) (sort xs) = filter (\<lambda>x. ?m < x) (drop (Suc (?n div 2)) (sort xs))"
      by (metis append.left_neutral append_take_drop_id filter_append)
    then show ?thesis by (metis length_filter_le length_drop length_sort)
  qed
  ultimately show ?thesis
    using assms mem mean b
    by (auto simp: DescribeIntList_def foldl_u64_add cnt Let_def)
qed

theorem DescribeIntList_correct_witness:
  "\<exists>d. DescribeIntList [5, 1, 4, 1] = Some d \<and> d_mean d = 2 \<and> d_median d = 4 \<and> d_min d \<le> d_mean d"
  using DescribeIntList_correct[of "[5, 1, 4, 1]"]
  by (auto simp: DescribeIntList_def u64_add_def)

end
