(* ===== verification/Common_Types.thy ===== *)
theory Common_Types
  imports Switchml_Prelude
begin

text \<open>
  The types every part of the client library shares (client_lib/src/common.h) and the job
  object (client_lib/src/job.h, job.cc). A pointer into client memory is a byte address; the
  tensor memory itself is a map from the byte address of a 4-byte element to its 32 bits, which
  is how FLOAT32 and INT32 tensors are laid out.
\<close>

section \<open>Tensors\<close>

datatype DataType = FLOAT32 | INT32

definition DataTypeSize :: "DataType \<Rightarrow> nat" where
  "DataTypeSize type = (if type = FLOAT32 \<or> type = INT32 then 4 else 0)"

lemma DataTypeSize_4 [simp]: "DataTypeSize d = 4"
  by (cases d) (simp_all add: DataTypeSize_def)

type_synonym ptr = nat

type_synonym memory = "ptr \<Rightarrow> 32 word"

record Tensor =
  in_ptr :: ptr
  out_ptr :: ptr
  numel :: nat
  data_type :: DataType

definition OffsetPtrs :: "nat \<Rightarrow> Tensor \<Rightarrow> Tensor" where
  "OffsetPtrs n t =
     (case data_type t of
        FLOAT32 \<Rightarrow> t\<lparr>in_ptr := in_ptr t + 4 * n, out_ptr := out_ptr t + 4 * n\<rparr>
      | INT32 \<Rightarrow> t\<lparr>in_ptr := in_ptr t + 4 * n, out_ptr := out_ptr t + 4 * n\<rparr>)"

lemma OffsetPtrs_simps [simp]:
  "in_ptr (OffsetPtrs n t) = in_ptr t + 4 * n" "out_ptr (OffsetPtrs n t) = out_ptr t + 4 * n"
  "numel (OffsetPtrs n t) = numel t" "data_type (OffsetPtrs n t) = data_type t"
  by (simp_all add: OffsetPtrs_def split: DataType.split)

text \<open>Element \<open>i\<close> of the input and of the output of a tensor.\<close>

definition in_elem :: "memory \<Rightarrow> Tensor \<Rightarrow> nat \<Rightarrow> 32 word" where
  "in_elem m t i = m (in_ptr t + 4 * i)"

definition out_elem :: "memory \<Rightarrow> Tensor \<Rightarrow> nat \<Rightarrow> 32 word" where
  "out_elem m t i = m (out_ptr t + 4 * i)"

text \<open>Copying the elements from one memory to another.\<close>

fun copy_elements :: "memory \<Rightarrow> ptr \<Rightarrow> ptr \<Rightarrow> nat \<Rightarrow> memory \<Rightarrow> memory" where
  "copy_elements from src dst 0 m = m"
| "copy_elements from src dst (Suc i) m = (copy_elements from src dst i m)(dst + 4 * i := from (src + 4 * i))"

lemma copy_elements_at:
  "copy_elements from src dst n m a = (if \<exists>i < n. a = dst + 4 * i then from (src + (a - dst)) else m a)"
  by (induction n) (auto simp: less_Suc_eq)

section \<open>Jobs\<close>

type_synonym JobId = nat

datatype JobType = ALLREDUCE | BROADCAST

datatype AllReduceOperation = OP_SUM

text \<open>A union: the constructor says which member was written.\<close>

datatype ExtraJobInfo = allreduce_operation AllReduceOperation | broadcast_root_rank "32 word"

datatype JobStatus = INIT | QUEUED | RUNNING | FINISHED | FAILED

text \<open>The enumeration is ordered by its underlying integer.\<close>

fun job_status_code :: "JobStatus \<Rightarrow> nat" where
  "job_status_code INIT = 0"
| "job_status_code QUEUED = 1"
| "job_status_code RUNNING = 2"
| "job_status_code FINISHED = 3"
| "job_status_code FAILED = 4"

lemma job_status_code_inj: "job_status_code a = job_status_code b \<Longrightarrow> a = b"
  by (cases a; cases b) auto

instantiation JobStatus :: linorder
begin

definition less_eq_JobStatus :: "JobStatus \<Rightarrow> JobStatus \<Rightarrow> bool" where
  "a \<le> b \<longleftrightarrow> job_status_code a \<le> job_status_code b"

definition less_JobStatus :: "JobStatus \<Rightarrow> JobStatus \<Rightarrow> bool" where
  "a < b \<longleftrightarrow> job_status_code a < job_status_code b"

instance
  by intro_classes
    (auto simp: less_eq_JobStatus_def less_JobStatus_def intro: job_status_code_inj)

end

record Job =
  job_id :: JobId
  job_tensor :: Tensor
  job_type :: JobType
  job_extra :: ExtraJobInfo
  job_status :: JobStatus

text \<open>The constructor reads the static counter and increments it.\<close>

definition new_Job :: "JobId \<Rightarrow> Tensor \<Rightarrow> JobType \<Rightarrow> ExtraJobInfo \<Rightarrow> Job \<times> JobId" where
  "new_Job next_id tensor type extra =
     (\<lparr>job_id = next_id, job_tensor = tensor, job_type = type, job_extra = extra, job_status = INIT\<rparr>,
      u64_add next_id 1)"

text \<open>The predicate that WaitToComplete blocks on.\<close>

definition WaitToComplete_done :: "Job \<Rightarrow> bool" where
  "WaitToComplete_done j \<longleftrightarrow> job_status j = FAILED \<or> job_status j = FINISHED"

definition GetJobStatus :: "Job \<Rightarrow> JobStatus" where
  "GetJobStatus j = job_status j"

text \<open>The boolean says whether waiting threads are notified.\<close>

definition SetJobStatus :: "JobStatus \<Rightarrow> Job \<Rightarrow> (Job \<times> bool) outcome" where
  "SetJobStatus s j =
     (if s < job_status j then Inl (Fatal ''Illegal change of job status'')
      else let j' = j\<lparr>job_status := s\<rparr>
           in Inr (j', job_status j' = FAILED \<or> job_status j' = FINISHED))"

record JobSlice =
  slice_job :: JobId
  slice :: Tensor

lemma SetJobStatus_Inr:
  "SetJobStatus s j = Inr (j', w) \<longleftrightarrow>
     job_status j \<le> s \<and> j' = j\<lparr>job_status := s\<rparr> \<and> w = WaitToComplete_done j'"
  by (auto simp: SetJobStatus_def WaitToComplete_done_def Let_def not_less)

lemma JobStatus_le_simps [simp]:
  "INIT \<le> s" "s \<le> FAILED" "QUEUED \<le> s \<longleftrightarrow> s \<noteq> INIT" "FAILED \<le> s \<longleftrightarrow> s = FAILED"
  "RUNNING \<le> s \<longleftrightarrow> s \<notin> {INIT, QUEUED}" "FINISHED \<le> s \<longleftrightarrow> s = FINISHED \<or> s = FAILED"
  by (cases s; simp add: less_eq_JobStatus_def)+

text \<open>A sequence of status changes, stopping at the first one the code refuses.\<close>

fun set_statuses :: "JobStatus list \<Rightarrow> Job \<Rightarrow> Job outcome" where
  "set_statuses [] j = Inr j"
| "set_statuses (s # ss) j = bindE (SetJobStatus s j) (\<lambda>(j', _). set_statuses ss j')"

text \<open>A job's status only moves forward: a sequence of status updates is accepted exactly when
  it never goes below the status reached so far, otherwise the process aborts; the job's identity
  and tensor never change.\<close>
theorem job_status_monotone:
  "(case set_statuses ss j of
      Inr j' \<Rightarrow> sorted (job_status j # ss) \<and> j' = j\<lparr>job_status := last (job_status j # ss)\<rparr>
    | Inl e \<Rightarrow> \<not> sorted (job_status j # ss) \<and> e = Fatal ''Illegal change of job status'')"
proof (induction ss arbitrary: j)
  case Nil
  then show ?case by simp
next
  case (Cons s ss)
  show ?case
  proof (cases "s < job_status j")
    case True
    then show ?thesis by (auto simp: SetJobStatus_def)
  next
    case False
    then have "set_statuses (s # ss) j = set_statuses ss (j\<lparr>job_status := s\<rparr>)"
      by (simp add: SetJobStatus_def Let_def)
    moreover have "sorted (job_status j # s # ss) = sorted (s # ss)"
      using False by (auto simp: not_less intro: order_trans)
    ultimately show ?thesis
      using Cons.IH[of "j\<lparr>job_status := s\<rparr>"] by (auto split: sum.splits)
  qed
qed

end
