(* ===== verification/Thread_Barrier.thy ===== *)
theory Thread_Barrier
  imports Switchml_Prelude
begin

text \<open>
  The reusable thread barrier (class Barrier of client_lib/src/utils.h, utils.cc), which the
  FIFO scheduler makes every worker thread pass before it takes its next job slice.
  \<open>Barrier_Wait\<close> is the part of \<open>Wait()\<close> under the mutex up to the condition wait, and
  \<open>Barrier_wake\<close> the predicate of that wait. The locale \<open>rendezvous\<close> states the barrier's
  contract over an abstract round counter; threads that call Wait in a loop are a step
  relation over any implementation of the contract.
\<close>

section \<open>The barrier object\<close>

record Barrier =
  num_participants :: int
  bar_count :: int
  bar_flag :: bool

definition new_Barrier :: "int \<Rightarrow> Barrier" where
  "new_Barrier n = \<lparr>num_participants = n, bar_count = n, bar_flag = False\<rparr>"

text \<open>
  Outcome of entering \<open>Wait()\<close>: the thread either blocks, remembering its copy of the flag, or
  passes because it was the last one to arrive.
\<close>

datatype 't arrival = Block 't | Pass

definition Barrier_Wait :: "Barrier \<Rightarrow> (Barrier \<times> bool arrival) outcome" where
  "Barrier_Wait b =
     (if bar_count b = -1 then Inl (Fatal ''Attempting to wait at barrier after it was destroyed'')
      else
        let flag_copy = bar_flag b;
            b1 = b\<lparr>bar_count := bar_count b - 1\<rparr>
        in if bar_count b1 > 0 then Inr (b1, Block flag_copy)
           else Inr (b1\<lparr>bar_flag := \<not> bar_flag b1, bar_count := num_participants b1\<rparr>, Pass))"

definition Barrier_wake :: "Barrier \<Rightarrow> bool \<Rightarrow> bool" where
  "Barrier_wake b flag_copy \<longleftrightarrow> bar_count b = -1 \<or> flag_copy \<noteq> bar_flag b"

definition Barrier_Destroy :: "Barrier \<Rightarrow> Barrier" where
  "Barrier_Destroy b = b\<lparr>bar_count := -1\<rparr>"

section \<open>Threads that wait in a loop\<close>

datatype 't thread_pc = Outside | Inside 't

record ('b, 't) bar_sys =
  bs_bar :: 'b
  bs_pc :: "nat \<Rightarrow> 't thread_pc"
  bs_done :: "nat \<Rightarrow> nat"

inductive bar_step ::
  "('b \<Rightarrow> ('b \<times> 't arrival) outcome) \<Rightarrow> ('b \<Rightarrow> 't \<Rightarrow> bool) \<Rightarrow> nat \<Rightarrow>
   ('b, 't) bar_sys \<Rightarrow> ('b, 't) bar_sys \<Rightarrow> bool"
  for enter :: "'b \<Rightarrow> ('b \<times> 't arrival) outcome" and can_wake :: "'b \<Rightarrow> 't \<Rightarrow> bool" and n :: nat
where
  arrive: "i < n \<Longrightarrow> bs_pc s i = Outside \<Longrightarrow> enter (bs_bar s) = Inr (b', Block f) \<Longrightarrow>
     bar_step enter can_wake n s (s\<lparr>bs_bar := b', bs_pc := (bs_pc s)(i := Inside f)\<rparr>)"
| pass: "i < n \<Longrightarrow> bs_pc s i = Outside \<Longrightarrow> enter (bs_bar s) = Inr (b', Pass) \<Longrightarrow>
     bar_step enter can_wake n s (s\<lparr>bs_bar := b', bs_done := (bs_done s)(i := Suc (bs_done s i))\<rparr>)"
| wake: "i < n \<Longrightarrow> bs_pc s i = Inside f \<Longrightarrow> can_wake (bs_bar s) f \<Longrightarrow>
     bar_step enter can_wake n s (s\<lparr>bs_pc := (bs_pc s)(i := Outside),
                                    bs_done := (bs_done s)(i := Suc (bs_done s i))\<rparr>)"

inductive bar_reachable ::
  "('b \<Rightarrow> ('b \<times> 't arrival) outcome) \<Rightarrow> ('b \<Rightarrow> 't \<Rightarrow> bool) \<Rightarrow> nat \<Rightarrow> 'b \<Rightarrow> ('b, 't) bar_sys \<Rightarrow> bool"
  for enter :: "'b \<Rightarrow> ('b \<times> 't arrival) outcome" and can_wake :: "'b \<Rightarrow> 't \<Rightarrow> bool" and n :: nat and b0 :: 'b
where
  start: "bar_reachable enter can_wake n b0 \<lparr>bs_bar = b0, bs_pc = (\<lambda>_. Outside), bs_done = (\<lambda>_. 0)\<rparr>"
| step: "bar_reachable enter can_wake n b0 s \<Longrightarrow> bar_step enter can_wake n s t \<Longrightarrow>
     bar_reachable enter can_wake n b0 t"

text \<open>How many waits a thread has begun.\<close>

definition bs_begun :: "('b, 't) bar_sys \<Rightarrow> nat \<Rightarrow> nat" where
  "bs_begun s i = bs_done s i + (if bs_pc s i = Outside then 0 else 1)"

section \<open>The contract\<close>

text \<open>
  \<open>rep b n k w\<close>: \<open>b\<close> is a barrier for \<open>n\<close> threads that has completed \<open>k\<close> rounds and at which
  \<open>w\<close> threads wait in the current round. A thread that blocks in round \<open>r\<close> holds \<open>token r\<close>; the
  tokens of the current and the previous round are told apart, which is all a reusable barrier
  has to guarantee.
\<close>

locale rendezvous =
  fixes enter :: "'b \<Rightarrow> ('b \<times> 't arrival) outcome"
    and can_wake :: "'b \<Rightarrow> 't \<Rightarrow> bool"
    and rep :: "'b \<Rightarrow> nat \<Rightarrow> nat \<Rightarrow> nat \<Rightarrow> bool"
    and token :: "nat \<Rightarrow> 't"
  assumes rep_less: "rep b n k w \<Longrightarrow> w < n"
    and enter_block: "rep b n k w \<Longrightarrow> Suc w < n \<Longrightarrow>
      \<exists>b'. enter b = Inr (b', Block (token k)) \<and> rep b' n k (Suc w)"
    and enter_pass: "rep b n k w \<Longrightarrow> Suc w = n \<Longrightarrow>
      \<exists>b'. enter b = Inr (b', Pass) \<and> rep b' n (Suc k) 0"
    and wake_iff: "rep b n k w \<Longrightarrow> r \<le> k \<Longrightarrow> k \<le> Suc r \<Longrightarrow> can_wake b (token r) \<longleftrightarrow> r < k"
begin

text \<open>The thread view of round \<open>k\<close>: who has finished it and who still waits in which round.\<close>

definition round_inv :: "nat \<Rightarrow> ('b, 't) bar_sys \<Rightarrow> nat \<Rightarrow> (nat \<Rightarrow> bool) \<Rightarrow> bool" where
  "round_inv n s k cur \<longleftrightarrow>
     rep (bs_bar s) n k (count_upto n (\<lambda>c. c) cur) \<and>
     (\<forall>i < n. (bs_pc s i = Outside \<and> bs_done s i = k \<and> \<not> cur i) \<or>
              (bs_pc s i = Inside (token k) \<and> bs_done s i = k \<and> cur i) \<or>
              (0 < k \<and> bs_pc s i = Inside (token (k - 1)) \<and> bs_done s i = k - 1 \<and> \<not> cur i))"

lemma round_inv_arrive:
  assumes inv: "round_inv n s k cur" and i: "i < n" and out: "bs_pc s i = Outside"
    and en: "enter (bs_bar s) = Inr (b', Block f)"
  shows "round_inv n (s\<lparr>bs_bar := b', bs_pc := (bs_pc s)(i := Inside f)\<rparr>) k (cur(i := True))"
proof -
  have r: "rep (bs_bar s) n k (count_upto n (\<lambda>c. c) cur)" using inv by (simp add: round_inv_def)
  have ci: "\<not> cur i" "bs_done s i = k" using inv i out by (auto simp: round_inv_def)
  have c: "count_upto n (\<lambda>c. c) (cur(i := True)) = Suc (count_upto n (\<lambda>c. c) cur)"
    using count_upto_update[OF i, of "\<lambda>c. c" cur True] ci by simp
  have lt: "Suc (count_upto n (\<lambda>c. c) cur) < n"
  proof (rule ccontr)
    assume "\<not> ?thesis"
    then have "Suc (count_upto n (\<lambda>c. c) cur) = n" using rep_less[OF r] by simp
    then show False using enter_pass[OF r] en by auto
  qed
  then have "f = token k" "rep b' n k (Suc (count_upto n (\<lambda>c. c) cur))"
    using enter_block[OF r lt] en by auto
  then show ?thesis using inv ci c by (auto simp: round_inv_def)
qed

lemma round_inv_pass:
  assumes inv: "round_inv n s k cur" and i: "i < n" and out: "bs_pc s i = Outside"
    and en: "enter (bs_bar s) = Inr (b', Pass)"
  shows "round_inv n (s\<lparr>bs_bar := b', bs_done := (bs_done s)(i := Suc (bs_done s i))\<rparr>) (Suc k) (\<lambda>_. False)"
proof -
  have r: "rep (bs_bar s) n k (count_upto n (\<lambda>c. c) cur)" using inv by (simp add: round_inv_def)
  have ci: "\<not> cur i" "bs_done s i = k" using inv i out by (auto simp: round_inv_def)
  have eq: "Suc (count_upto n (\<lambda>c. c) cur) = n"
  proof (rule ccontr)
    assume "\<not> ?thesis"
    then have "Suc (count_upto n (\<lambda>c. c) cur) < n" using rep_less[OF r] by simp
    then show False using enter_block[OF r] en by auto
  qed
  have "count_upto n (\<lambda>c. c) (cur(i := True)) = n"
    using count_upto_update[OF i, of "\<lambda>c. c" cur True] ci eq by simp
  then have all: "\<forall>j < n. j \<noteq> i \<longrightarrow> cur j"
    unfolding count_upto_full_iff by (metis fun_upd_other)
  have "rep b' n (Suc k) 0" using enter_pass[OF r eq] en by auto
  moreover have "count_upto n (\<lambda>c. c) (\<lambda>_. False) = 0" by (simp add: count_upto_0_iff)
  ultimately show ?thesis using inv ci out all by (auto simp: round_inv_def)
qed

lemma round_inv_wake:
  assumes inv: "round_inv n s k cur" and i: "i < n" and ins: "bs_pc s i = Inside f"
    and w: "can_wake (bs_bar s) f"
  shows "round_inv n (s\<lparr>bs_pc := (bs_pc s)(i := Outside),
                        bs_done := (bs_done s)(i := Suc (bs_done s i))\<rparr>) k cur"
proof -
  have r: "rep (bs_bar s) n k (count_upto n (\<lambda>c. c) cur)" using inv by (simp add: round_inv_def)
  have "\<not> can_wake (bs_bar s) (token k)" using wake_iff[OF r, of k] by simp
  then have "0 < k \<and> bs_done s i = k - 1 \<and> \<not> cur i"
    using inv i ins w by (auto simp: round_inv_def)
  then show ?thesis using inv by (auto simp: round_inv_def)
qed

lemma reachable_round_inv:
  assumes "bar_reachable enter can_wake n b0 s" and "rep b0 n 0 0"
  shows "\<exists>k cur. round_inv n s k cur"
  using assms
proof (induction rule: bar_reachable.induct)
  case start
  have "count_upto n (\<lambda>c. c) (\<lambda>_. False) = 0" by (simp add: count_upto_0_iff)
  then have "round_inv n \<lparr>bs_bar = b0, bs_pc = (\<lambda>_. Outside), bs_done = (\<lambda>_. 0)\<rparr> 0 (\<lambda>_. False)"
    using start by (simp add: round_inv_def)
  then show ?case by blast
next
  case (step s t)
  then obtain k cur where inv: "round_inv n s k cur" by blast
  from step.hyps(2) show ?case
    by (cases rule: bar_step.cases)
      (use round_inv_arrive[OF inv] round_inv_pass[OF inv] round_inv_wake[OF inv] in blast)+
qed

lemma sync:
  assumes "bar_reachable enter can_wake n b0 s" and "rep b0 n 0 0" and "i < n" and "j < n"
  shows "bs_done s i \<le> bs_begun s j"
proof -
  obtain k cur where inv: "round_inv n s k cur" using reachable_round_inv[OF assms(1,2)] by blast
  have "bs_done s i \<le> k" using inv assms(3) by (auto simp: round_inv_def)
  also have "k \<le> bs_begun s j" using inv assms(4) by (auto simp: round_inv_def bs_begun_def)
  finally show ?thesis .
qed

lemma progress:
  assumes "bar_reachable enter can_wake n b0 s" and "rep b0 n 0 0"
  shows "\<exists>t. bar_step enter can_wake n s t"
proof -
  obtain k cur where inv: "round_inv n s k cur" using reachable_round_inv[OF assms] by blast
  have r: "rep (bs_bar s) n k (count_upto n (\<lambda>c. c) cur)" using inv by (simp add: round_inv_def)
  have "count_upto n (\<lambda>c. c) cur \<noteq> n" using rep_less[OF r] by simp
  then obtain i where i: "i < n" "\<not> cur i" unfolding count_upto_full_iff by blast
  show ?thesis
  proof (cases "bs_pc s i = Outside")
    case True
    show ?thesis
    proof (cases "Suc (count_upto n (\<lambda>c. c) cur) = n")
      case eq: True
      then obtain b' where "enter (bs_bar s) = Inr (b', Pass)" using enter_pass[OF r] by auto
      from bar_step.pass[where enter = enter and s = s, OF i(1) True this] show ?thesis by (rule exI)
    next
      case False
      then have "Suc (count_upto n (\<lambda>c. c) cur) < n" using rep_less[OF r] by simp
      then obtain b' where "enter (bs_bar s) = Inr (b', Block (token k))"
        using enter_block[OF r] by auto
      from bar_step.arrive[where enter = enter and s = s, OF i(1) True this] show ?thesis by (rule exI)
    qed
  next
    case False
    then have "0 < k" "bs_pc s i = Inside (token (k - 1))" using inv i by (auto simp: round_inv_def)
    moreover have "can_wake (bs_bar s) (token (k - 1))"
      using wake_iff[OF r, of "k - 1"] \<open>0 < k\<close> by simp
    ultimately show ?thesis 
      using bar_step.wake[where s = s and can_wake = can_wake and enter = enter, OF i(1)] by blast
  qed
qed

end

section \<open>The barrier implements the contract\<close>

definition bar_rep :: "Barrier \<Rightarrow> nat \<Rightarrow> nat \<Rightarrow> nat \<Rightarrow> bool" where
  "bar_rep b n k w \<longleftrightarrow> w < n \<and> num_participants b = int n \<and> bar_count b = int n - int w \<and>
     bar_flag b = odd k"

interpretation bar: rendezvous Barrier_Wait Barrier_wake bar_rep "\<lambda>r. odd r"
proof unfold_locales
  fix b n k w
  assume r: "bar_rep b n k w"
  then show "w < n" by (simp add: bar_rep_def)
  show "\<exists>b'. Barrier_Wait b = Inr (b', Block (odd k)) \<and> bar_rep b' n k (Suc w)" if "Suc w < n"
    using r that by (auto simp: bar_rep_def Barrier_Wait_def Let_def)
  show "\<exists>b'. Barrier_Wait b = Inr (b', Pass) \<and> bar_rep b' n (Suc k) 0" if "Suc w = n"
    using r that by (auto simp: bar_rep_def Barrier_Wait_def Let_def)
  show "Barrier_wake b (odd r) \<longleftrightarrow> r < k" if "r \<le> k" and "k \<le> Suc r" for r
  proof -
    have "r = k \<or> k = Suc r" using that by auto
    then show ?thesis using r by (auto simp: bar_rep_def Barrier_wake_def)
  qed
qed

lemma bar_rep_new: "0 < n \<Longrightarrow> bar_rep (new_Barrier (int n)) n 0 0"
  by (simp add: bar_rep_def new_Barrier_def)

text \<open>C5: With \<open>n\<close> threads calling Wait in a loop on a barrier created for \<open>n\<close> participants, no
  thread returns from its k-th wait before every thread has begun its k-th wait, and the system
  never deadlocks: in every reachable state some thread can arrive or wake up.\<close>
theorem barrier_synchronises:
  assumes "0 < n" and "bar_reachable Barrier_Wait Barrier_wake n (new_Barrier (int n)) s"
  shows "(\<forall>i < n. \<forall>j < n. bs_done s i \<le> bs_begun s j) \<and>
     (\<exists>t. bar_step Barrier_Wait Barrier_wake n s t)"
  using bar.sync[OF assms(2) bar_rep_new[OF assms(1)]]
    bar.progress[OF assms(2) bar_rep_new[OF assms(1)]] by blast

theorem barrier_synchronises_witness:
  "\<exists>s. bar_reachable Barrier_Wait Barrier_wake 2 (new_Barrier 2) s \<and> bs_pc s 0 = Inside False \<and>
       bs_done s 1 \<le> bs_begun s 0"
proof -
  define s where "s = \<lparr>bs_bar = \<lparr>num_participants = 2, bar_count = 1, bar_flag = False\<rparr>,
     bs_pc = (\<lambda>_. Outside)(0 := Inside False), bs_done = (\<lambda>_. 0)\<rparr>"
  have "Barrier_Wait (new_Barrier 2) =
      Inr (\<lparr>num_participants = 2, bar_count = 1, bar_flag = False\<rparr>, Block False)"
    by (simp add: Barrier_Wait_def new_Barrier_def)
  then have r: "bar_reachable Barrier_Wait Barrier_wake 2 (new_Barrier 2) s"
    using bar_reachable.step[OF bar_reachable.start bar_step.arrive[of 0 2]] by (simp add: s_def)
  have "bs_done s 1 \<le> bs_begun s 0"
    using barrier_synchronises[of 2 s] r by simp
  then show ?thesis using r by (auto simp: s_def)
qed

text \<open>Destroying the barrier releases every waiting thread, whatever its copy of the flag, and
  makes every later call of Wait abort.\<close>
theorem barrier_destroyed:
  "Barrier_wake (Barrier_Destroy b) f \<and>
   Barrier_Wait (Barrier_Destroy b) = Inl (Fatal ''Attempting to wait at barrier after it was destroyed'')"
  by (simp add: Barrier_wake_def Barrier_Destroy_def Barrier_Wait_def)

end
