(* ===== verification/Fifo_Scheduler.thy ===== *)
theory Fifo_Scheduler
  imports Common_Types Thread_Barrier
begin

text \<open>
  The FIFO scheduler (client_lib/src/scheduler.h, scheduler.cc, schedulers/fifo_scheduler.h,
  schedulers/fifo_scheduler.cc). Jobs are shared objects: the state is the scheduler together with
  a store from job identifiers to jobs. GetJobSlice blocks twice, at the worker barrier and on the
  condition variable; it is therefore cut into the pieces that run under the scheduler's lock.
\<close>

section \<open>State\<close>

type_synonym job_store = "JobId \<rightharpoonup> Job"

text \<open>The field \<open>fs_num_worker_threads\<close> is the value read from the configuration.\<close>

record FifoScheduler =
  fs_queue :: "JobId list"
  finished_job_slices :: "JobId \<rightharpoonup> int"
  undispatched_job_slices :: "JobId \<rightharpoonup> int"
  fs_barrier :: Barrier
  fs_stopped :: bool
  fs_num_worker_threads :: nat

definition new_FifoScheduler :: "nat \<Rightarrow> FifoScheduler" where
  "new_FifoScheduler n =
     \<lparr>fs_queue = [], finished_job_slices = Map.empty, undispatched_job_slices = Map.empty,
      fs_barrier = new_Barrier (int n), fs_stopped = False, fs_num_worker_threads = n\<rparr>"

definition CreateScheduler :: "string \<Rightarrow> nat \<Rightarrow> FifoScheduler outcome" where
  "CreateScheduler name n =
     (if name = ''fifo'' then Inr (new_FifoScheduler n)
      else Inl (Fatal ''not a valid scheduler''))"

text \<open>Setting the status of the job behind a shared pointer.\<close>

definition set_job_status :: "JobStatus \<Rightarrow> JobId \<Rightarrow> job_store \<Rightarrow> job_store outcome" where
  "set_job_status st i js =
     (case js i of
        None \<Rightarrow> Inl (Crash ''dangling job pointer'')
      | Some j \<Rightarrow> bindE (SetJobStatus st j) (\<lambda>(j', _). Inr (js(i \<mapsto> j'))))"

section \<open>Operations\<close>

text \<open>Map insertion does not overwrite an existing key.\<close>

definition map_insert :: "'k \<Rightarrow> 'v \<Rightarrow> ('k \<rightharpoonup> 'v) \<Rightarrow> ('k \<rightharpoonup> 'v)" where
  "map_insert k v m = (case m k of None \<Rightarrow> m(k \<mapsto> v) | Some _ \<Rightarrow> m)"

definition EnqueueJob :: "JobId \<Rightarrow> FifoScheduler \<Rightarrow> job_store \<Rightarrow> (bool \<times> FifoScheduler \<times> job_store) outcome" where
  "EnqueueJob i s js =
     bindE (set_job_status QUEUED i js) (\<lambda>js'.
       Inr (True,
            s\<lparr>finished_job_slices := map_insert i 0 (finished_job_slices s),
              undispatched_job_slices :=
                map_insert i (int (fs_num_worker_threads s)) (undispatched_job_slices s),
              fs_queue := fs_queue s @ [i]\<rparr>,
            js'))"

text \<open>The first critical section of GetJobSlice: whether the worker goes on to the barrier.\<close>

definition GetJobSlice_enter :: "FifoScheduler \<Rightarrow> bool" where
  "GetJobSlice_enter s \<longleftrightarrow> \<not> fs_stopped s"

text \<open>The condition the worker blocks on after the barrier.\<close>

definition job_available :: "FifoScheduler \<Rightarrow> bool" where
  "job_available s \<longleftrightarrow> fs_stopped s \<or> fs_queue s \<noteq> []"

text \<open>The elements a worker thread gets: the number of elements and the offset of the first.\<close>

definition slice_numel :: "nat \<Rightarrow> nat \<Rightarrow> nat \<Rightarrow> nat" where
  "slice_numel n tid len =
     (let per = len div n; remainder = len mod n
      in if remainder > tid then u64_add per 1 else per)"

definition slice_offset :: "nat \<Rightarrow> nat \<Rightarrow> nat \<Rightarrow> nat" where
  "slice_offset n tid len =
     (let per = slice_numel n tid len; remainder = len mod n
      in if remainder > tid then u64_mul tid per else u64_add (u64_mul tid per) remainder)"

definition make_slice :: "nat \<Rightarrow> nat \<Rightarrow> Tensor \<Rightarrow> Tensor outcome" where
  "make_slice n tid t =
     (if n = 0 then Inl (Crash ''division by zero'')
      else Inr (OffsetPtrs (slice_offset n tid (numel t)) (t\<lparr>numel := slice_numel n tid (numel t)\<rparr>)))"

text \<open>Taking one slice off the bookkeeping of the front job.\<close>

definition count_dispatch :: "JobId \<Rightarrow> FifoScheduler \<Rightarrow> FifoScheduler outcome" where
  "count_dispatch i s =
     (case undispatched_job_slices s i of
        None \<Rightarrow> Inl (Crash ''out_of_range'')
      | Some left \<Rightarrow>
          Inr (if left - 1 = 0
               then s\<lparr>fs_queue := tl (fs_queue s), undispatched_job_slices := (undispatched_job_slices s)(i := None)\<rparr>
               else s\<lparr>undispatched_job_slices := (undispatched_job_slices s)(i \<mapsto> left - 1)\<rparr>))"

text \<open>The last critical section, run once \<open>job_available\<close> holds; \<open>None\<close> is the result false.\<close>

definition GetJobSlice_dispatch ::
  "nat \<Rightarrow> FifoScheduler \<Rightarrow> job_store \<Rightarrow> (JobSlice option \<times> FifoScheduler \<times> job_store) outcome"
where
  "GetJobSlice_dispatch tid s js =
     (if fs_stopped s then Inr (None, s, js)
      else case fs_queue s of
        [] \<Rightarrow> Inl (Crash ''front of an empty queue'')
      | i # _ \<Rightarrow>
          (case js i of
             None \<Rightarrow> Inl (Crash ''dangling job pointer'')
           | Some j \<Rightarrow>
               bindE (count_dispatch i s) (\<lambda>s'.
               bindE (make_slice (fs_num_worker_threads s) tid (job_tensor j)) (\<lambda>t.
               bindE (set_job_status RUNNING i js) (\<lambda>js'.
                 Inr (Some \<lparr>slice_job = i, slice = t\<rparr>, s', js'))))))"

definition NotifyJobSliceCompletion ::
  "JobSlice \<Rightarrow> FifoScheduler \<Rightarrow> job_store \<Rightarrow> (bool \<times> FifoScheduler \<times> job_store) outcome"
where
  "NotifyJobSliceCompletion sl s js =
     (if fs_stopped s then bindE (set_job_status FAILED (slice_job sl) js) (\<lambda>js'. Inr (False, s, js'))
      else case finished_job_slices s (slice_job sl) of
        None \<Rightarrow> Inl (Crash ''out_of_range'')
      | Some c \<Rightarrow>
          (let finished_job = (c + 1 = int (fs_num_worker_threads s))
           in Inr (finished_job,
                   s\<lparr>finished_job_slices :=
                       (finished_job_slices s)(slice_job sl := if finished_job then None else Some (c + 1))\<rparr>,
                   js)))"

text \<open>Stopping: the base class sets the flag, then every queued job fails.\<close>

definition Scheduler_Stop :: "FifoScheduler \<Rightarrow> FifoScheduler" where
  "Scheduler_Stop s = s\<lparr>fs_stopped := True\<rparr>"

fun fail_jobs :: "JobId list \<Rightarrow> job_store \<Rightarrow> job_store outcome" where
  "fail_jobs [] js = Inr js"
| "fail_jobs (i # is) js = bindE (set_job_status FAILED i js) (fail_jobs is)"

text \<open>The second critical section of Stop; another thread may run between the two.\<close>

definition FifoScheduler_Stop_clear :: "FifoScheduler \<Rightarrow> job_store \<Rightarrow> (FifoScheduler \<times> job_store) outcome" where
  "FifoScheduler_Stop_clear s js =
     bindE (fail_jobs (fs_queue s) js) (\<lambda>js'.
       Inr (s\<lparr>fs_barrier := Barrier_Destroy (fs_barrier s), fs_queue := [],
              undispatched_job_slices := Map.empty, finished_job_slices := Map.empty\<rparr>, js'))"

definition FifoScheduler_Stop :: "FifoScheduler \<Rightarrow> job_store \<Rightarrow> (FifoScheduler \<times> job_store) outcome" where
  "FifoScheduler_Stop s js = FifoScheduler_Stop_clear (Scheduler_Stop s) js"

section \<open>Slices\<close>

lemma slice_numel_exact:
  assumes "0 < n" and "len < 2 ^ 64"
  shows "slice_numel n tid len = len div n + of_bool (tid < len mod n)"
proof (cases "tid < len mod n")
  case True
  then have "1 < n" using mod_less_divisor[OF assms(1), of len] by linarith
  moreover have "len div n * n \<le> len" by simp
  ultimately have "len div n * 2 \<le> len"
    by (intro order_trans[OF mult_le_mono2[of 2 n] \<open>len div n * n \<le> len\<close>]) simp
  then have "len div n + 1 < 2 ^ 64" using assms(2) by (cases "len div n = 0") auto
  then show ?thesis using True by (simp add: slice_numel_def Let_def u64_add_id)
qed (simp add: slice_numel_def Let_def)

lemma slice_offset_exact:
  assumes "tid < n" and "len < 2 ^ 64"
  shows "slice_offset n tid len = tid * (len div n) + min tid (len mod n)"
proof -
  have n: "0 < n" using assms(1) by simp
  have m: "len = n * (len div n) + len mod n" by simp
  have le: "tid * (len div n) \<le> n * (len div n)" using assms(1) by simp
  show ?thesis
  proof (cases "tid < len mod n")
    case True
    have "tid * (len div n) + tid < 2 ^ 64" using m le True assms(2) by linarith
    then show ?thesis using True
      by (simp add: slice_offset_def Let_def slice_numel_exact[OF n assms(2)] u64_mul_id algebra_simps)
  next
    case False
    have "tid * (len div n) + len mod n < 2 ^ 64" using m le assms(2) by linarith
    then show ?thesis using False
      by (simp add: slice_offset_def Let_def slice_numel_exact[OF n assms(2)] u64_mul_id u64_add_id)
  qed
qed

text \<open>C3: The slices of a job partition its tensor: they are contiguous in the order of the worker
  threads, start at element 0, cover every element and differ in length by at most one, for any
  number of worker threads and any 64-bit number of elements.\<close>
theorem slices_partition:
  assumes "0 < n" and "len < 2 ^ 64"
  shows "slice_offset n 0 len = 0 \<and>
     (\<forall>tid. Suc tid < n \<longrightarrow> slice_offset n (Suc tid) len = slice_offset n tid len + slice_numel n tid len) \<and>
     slice_offset n (n - 1) len + slice_numel n (n - 1) len = len \<and>
     (\<forall>tid < n. \<forall>tid' < n. tid \<le> tid' \<longrightarrow>
        slice_numel n tid' len \<le> slice_numel n tid len \<and>
        slice_numel n tid len \<le> slice_numel n tid' len + 1)"
proof -
  have m: "n * (len div n) + len mod n = len" by simp
  have lt: "len mod n < n" using assms(1) by simp
  have s: "(n - 1) * (len div n) + len div n = n * (len div n)"
    using assms(1) by (cases n) simp_all
  have "slice_offset n (n - 1) len + slice_numel n (n - 1) len =
     n * (len div n) + (min (n - 1) (len mod n) + of_bool (n - 1 < len mod n))"
    using assms s by (simp add: slice_offset_exact slice_numel_exact)
  also have "min (n - 1) (len mod n) + of_bool (n - 1 < len mod n) = len mod n"
    using lt by simp
  finally have last: "slice_offset n (n - 1) len + slice_numel n (n - 1) len = len"
    using m by simp
  show ?thesis
    using assms last by (auto simp: slice_offset_exact slice_numel_exact min_def)
qed

theorem slices_partition_witness:
  "map (\<lambda>tid. (slice_offset 3 tid 8, slice_numel 3 tid 8)) [0, 1, 2] = [(0, 3), (3, 3), (6, 2)] \<and>
   slice_offset 3 2 8 + slice_numel 3 2 8 = 8"
  using slices_partition[of 3 8] by (simp add: slice_offset_def slice_numel_def u64_add_def u64_mul_def Let_def)

end
