(* ===== verification/Client_Context.thy ===== *)
theory Client_Context
  imports Client_Config Client_Stats Fifo_Scheduler
begin

text \<open>
  The context (client_lib/src/context.h, context.cc): the object the application submits jobs to
  and the worker threads take slices from. The parts of an operation that run under the context's
  mutex, and the points where it blocks, are separate definitions; \<open>Client_System\<close> puts them
  together with the threads. The worker threads that a backend starts and joins are not part of
  the context's own state.
\<close>

section \<open>State\<close>

datatype ContextState = CREATED | STARTING | CTX_RUNNING | STOPPING | STOPPED

text \<open>The two unique pointers are null before Start and after Stop.\<close>

record Context =
  ctx_scheduler :: "FifoScheduler option"
  ctx_backend :: "string option"
  ctx_config :: Config
  ctx_stats :: Stats
  context_state :: ContextState
  number_of_current_jobs :: int
  ctx_jobs :: job_store
  ctx_next_id :: JobId

definition new_Context :: "Config \<Rightarrow> Context" where
  "new_Context c =
     \<lparr>ctx_scheduler = None, ctx_backend = None, ctx_config = c, ctx_stats = new_Stats,
      context_state = CREATED, number_of_current_jobs = 0, ctx_jobs = Map.empty, ctx_next_id = 0\<rparr>"

section \<open>Starting\<close>

text \<open>Which backend object is created; \<open>compiled\<close> lists the backends of this build.\<close>

definition CreateBackend :: "string list \<Rightarrow> string \<Rightarrow> string outcome" where
  "CreateBackend compiled backend =
     (if backend = ''dummy'' \<or> backend = ''rdma'' \<or> backend = ''dpdk'' then
        (if backend \<in> set compiled then Inr backend
         else Inl (Fatal ''SwitchML was not compiled with this backend''))
      else Inl (Fatal ''not a valid backend''))"

text \<open>
  \<open>load\<close> is what LoadFromFile returns when no configuration is passed, \<open>garbage\<close> the contents of
  fresh arrays. Starting the worker threads is left to the backend.
\<close>

definition Context_Start ::
  "string list \<Rightarrow> (Config \<Rightarrow> (bool \<times> Config) outcome) \<Rightarrow> (nat \<Rightarrow> nat) \<Rightarrow> Config option \<Rightarrow> Context \<Rightarrow>
   (bool \<times> Context) outcome"
where
  "Context_Start compiled load garbage config ctx =
     (if context_state ctx \<noteq> CREATED then Inr (False, ctx)
      else
        bindE (case config of
            None \<Rightarrow> bindE (load (ctx_config ctx)) (\<lambda>(loaded, c).
                      if loaded then Inr c
                      else Inl (Fatal ''Could not start the context due to missing configuration''))
          | Some c \<Rightarrow> Inr c) (\<lambda>c0.
        bindE (Validate c0) (\<lambda>c1.
        bindE (PrintConfig c1) (\<lambda>_.
        bindE (InitStats garbage (gc_num_worker_threads (general c1)) (ctx_stats ctx)) (\<lambda>st.
        bindE (CreateScheduler (gc_scheduler (general c1)) (gc_num_worker_threads (general c1))) (\<lambda>s.
        bindE (CreateBackend compiled (gc_backend (general c1))) (\<lambda>b.
          Inr (True, ctx\<lparr>ctx_config := c1, ctx_stats := st, ctx_scheduler := Some s,
                          ctx_backend := Some b, context_state := CTX_RUNNING\<rparr>))))))))"

section \<open>Stopping\<close>

text \<open>
  Stop holds the context's mutex from \<open>Context_Stop_begin\<close> to \<open>Context_Stop_end\<close>; in between it
  runs the two critical sections of the scheduler's Stop and waits for the worker threads to exit.
\<close>

definition Context_Stop_begin :: "Context \<Rightarrow> Context outcome" where
  "Context_Stop_begin ctx =
     (if context_state ctx \<noteq> CTX_RUNNING
      then Inl (Fatal ''You cannot stop the context except when its in the running state'')
      else Inr (ctx\<lparr>context_state := STOPPING\<rparr>))"

definition on_scheduler :: "(FifoScheduler \<Rightarrow> 'a outcome) \<Rightarrow> Context \<Rightarrow> 'a outcome" where
  "on_scheduler f ctx =
     (case ctx_scheduler ctx of None \<Rightarrow> Inl (Crash ''null scheduler'') | Some s \<Rightarrow> f s)"

definition Context_Stop_flag :: "Context \<Rightarrow> Context outcome" where
  "Context_Stop_flag ctx = on_scheduler (\<lambda>s. Inr (ctx\<lparr>ctx_scheduler := Some (Scheduler_Stop s)\<rparr>)) ctx"

definition Context_Stop_clear :: "Context \<Rightarrow> Context outcome" where
  "Context_Stop_clear ctx =
     on_scheduler (\<lambda>s. bindE (FifoScheduler_Stop_clear s (ctx_jobs ctx)) (\<lambda>(s', js).
       Inr (ctx\<lparr>ctx_scheduler := Some s', ctx_jobs := js, number_of_current_jobs := 0\<rparr>))) ctx"

definition Context_Stop_end :: "Context \<Rightarrow> Context" where
  "Context_Stop_end ctx =
     ctx\<lparr>ctx_scheduler := None, ctx_backend := None, context_state := STOPPED\<rparr>"

text \<open>The whole of Stop when no other thread runs meanwhile.\<close>

definition Context_Stop :: "Context \<Rightarrow> Context outcome" where
  "Context_Stop ctx =
     bindE (Context_Stop_begin ctx) (\<lambda>c1.
     bindE (Context_Stop_flag c1) (\<lambda>c2.
     bindE (Context_Stop_clear c2) (\<lambda>c3. Inr (Context_Stop_end c3))))"

section \<open>Submitting jobs\<close>

text \<open>AllReduceAsync up to the release of the mutex: the new job and its place in the count.\<close>

definition AllReduceAsync_create ::
  "ptr \<Rightarrow> ptr \<Rightarrow> nat \<Rightarrow> DataType \<Rightarrow> AllReduceOperation \<Rightarrow> Context \<Rightarrow> (JobId \<times> Context) outcome"
where
  "AllReduceAsync_create inp outp n dt op ctx =
     (if context_state ctx \<noteq> CTX_RUNNING
      then Inl (Fatal ''You cannot submit a job to the context unless it is in the running state'')
      else let (job, next) = new_Job (ctx_next_id ctx)
                 \<lparr>in_ptr = inp, out_ptr = outp, numel = n, data_type = dt\<rparr> ALLREDUCE (allreduce_operation op)
           in Inr (job_id job,
                   ctx\<lparr>ctx_jobs := (ctx_jobs ctx)(job_id job \<mapsto> job), ctx_next_id := next,
                       number_of_current_jobs := number_of_current_jobs ctx + 1\<rparr>))"

text \<open>The rest of AllReduceAsync.\<close>

definition AllReduceAsync_enqueue :: "JobId \<Rightarrow> nat \<Rightarrow> Context \<Rightarrow> Context outcome" where
  "AllReduceAsync_enqueue i n ctx =
     on_scheduler (\<lambda>s. bindE (EnqueueJob i s (ctx_jobs ctx)) (\<lambda>(_, s', js).
       Inr (ctx\<lparr>ctx_scheduler := Some s', ctx_jobs := js,
                ctx_stats := AppendJobSubmittedNumel n (IncJobsSubmittedNum (ctx_stats ctx))\<rparr>))) ctx"

definition AllReduceAsync ::
  "ptr \<Rightarrow> ptr \<Rightarrow> nat \<Rightarrow> DataType \<Rightarrow> AllReduceOperation \<Rightarrow> Context \<Rightarrow> (JobId \<times> Context) outcome"
where
  "AllReduceAsync inp outp n dt op ctx =
     bindE (AllReduceAsync_create inp outp n dt op ctx) (\<lambda>(i, c1).
     bindE (AllReduceAsync_enqueue i n c1) (\<lambda>c2. Inr (i, c2)))"

text \<open>The conditions that AllReduce, after submitting job \<open>i\<close>, and WaitForAllJobs block on.\<close>

definition AllReduce_done :: "JobId \<Rightarrow> Context \<Rightarrow> bool" where
  "AllReduce_done i ctx = (case ctx_jobs ctx i of None \<Rightarrow> False | Some j \<Rightarrow> WaitToComplete_done j)"

definition WaitForAllJobs :: "Context \<Rightarrow> bool outcome" where
  "WaitForAllJobs ctx =
     (if context_state ctx \<noteq> CTX_RUNNING
      then Inl (Fatal ''You cannot wait for all jobs unless the context is in the running state'')
      else Inr (number_of_current_jobs ctx = 0))"

section \<open>The worker interface\<close>

text \<open>GetJobSlice up to the barrier: whether the worker goes on to wait there.\<close>

definition Context_GetJobSlice_enter :: "Context \<Rightarrow> bool outcome" where
  "Context_GetJobSlice_enter ctx =
     (if context_state ctx \<noteq> CTX_RUNNING then Inr False
      else on_scheduler (\<lambda>s. Inr (GetJobSlice_enter s)) ctx)"

definition Context_GetJobSlice_dispatch :: "nat \<Rightarrow> Context \<Rightarrow> (JobSlice option \<times> Context) outcome" where
  "Context_GetJobSlice_dispatch tid ctx =
     on_scheduler (\<lambda>s. bindE (GetJobSlice_dispatch tid s (ctx_jobs ctx)) (\<lambda>(r, s', js).
       Inr (r, ctx\<lparr>ctx_scheduler := Some s', ctx_jobs := js\<rparr>))) ctx"

text \<open>NotifyJobSliceCompletion: the scheduler's part, the status change, and the counting.\<close>

definition Context_Notify :: "JobSlice \<Rightarrow> Context \<Rightarrow> (bool \<times> Context) outcome" where
  "Context_Notify sl ctx =
     on_scheduler (\<lambda>s. bindE (NotifyJobSliceCompletion sl s (ctx_jobs ctx)) (\<lambda>(fin, s', js).
       Inr (fin, ctx\<lparr>ctx_scheduler := Some s', ctx_jobs := js\<rparr>))) ctx"

definition Context_job_finished :: "JobId \<Rightarrow> Context \<Rightarrow> Context outcome" where
  "Context_job_finished i ctx =
     bindE (set_job_status FINISHED i (ctx_jobs ctx)) (\<lambda>js. Inr (ctx\<lparr>ctx_jobs := js\<rparr>))"

text \<open>The result says whether threads waiting for all jobs are woken.\<close>

definition Context_count_finished :: "Context \<Rightarrow> bool \<times> Context" where
  "Context_count_finished ctx =
     (let n = number_of_current_jobs ctx - 1
      in (n = 0, ctx\<lparr>number_of_current_jobs := n, ctx_stats := IncJobsFinishedNum (ctx_stats ctx)\<rparr>))"

definition GetContextState :: "Context \<Rightarrow> ContextState" where
  "GetContextState ctx = context_state ctx"

definition GetConfig :: "Context \<Rightarrow> Config" where
  "GetConfig ctx = ctx_config ctx"

definition GetStats :: "Context \<Rightarrow> Stats" where
  "GetStats ctx = ctx_stats ctx"

text \<open>What a submission leaves behind.\<close>

lemma AllReduceAsync_job:
  assumes "AllReduceAsync inp outp n dt op c = Inr (i, c')"
  shows "\<exists>j. ctx_jobs c' i = Some j \<and> job_tensor j = \<lparr>in_ptr = inp, out_ptr = outp, numel = n, data_type = dt\<rparr> \<and> job_status j = QUEUED"
  using assms
  by (auto simp: AllReduceAsync_def AllReduceAsync_create_def AllReduceAsync_enqueue_def on_scheduler_def EnqueueJob_def
      set_job_status_def SetJobStatus_Inr new_Job_def Let_def bindE_eq_Inr split: if_splits option.splits)

end
