(* ===== verification/Client_System.thy ===== *)
theory Client_System
  imports Client_Context
begin

text \<open>
  The threads of one client process: any number of application threads that submit jobs, the
  worker threads that the backend starts, and a thread that calls Stop. Each action is one
  critical section of the code, or one point where a thread blocks; every interleaving of actions
  is a run of the system.

  The loop of a worker is the one all backends share (dummy_worker_thread.cc,
  rdma_worker_thread.cc, dpdk_worker_thread.cc): ask for a slice while the context is running, work
  on it, notify. The work itself is the subject of the backend theories.
\<close>

section \<open>The system\<close>

datatype worker_pc =
    Loop                 \<comment> \<open>about to test the loop condition\<close>
  | Ask                  \<comment> \<open>calling GetJobSlice\<close>
  | Arrive               \<comment> \<open>about to wait at the barrier\<close>
  | AtBarrier bool       \<comment> \<open>blocked in the barrier with its copy of the flag\<close>
  | WaitJob              \<comment> \<open>past the barrier, blocked until a job is available\<close>
  | Work JobSlice        \<comment> \<open>working on a slice\<close>
  | Finishing JobId      \<comment> \<open>told that its slice was the last of the job\<close>
  | Counting             \<comment> \<open>about to take the context's mutex to count the finished job\<close>
  | Exited

datatype stop_pc = NotStopping | StopFlag | StopClear | StopJoin | StopDone

text \<open>
  \<open>sy_log i\<close> and \<open>sy_enqueued\<close> record the slices handed to worker \<open>i\<close> and the jobs queued; the
  code does not keep them. \<open>sy_submitting\<close> are the jobs created but not yet queued.
\<close>

record system =
  sy_ctx :: Context
  sy_pc :: "nat \<Rightarrow> worker_pc"
  sy_log :: "nat \<Rightarrow> JobSlice list"
  sy_submitting :: "JobId list"
  sy_enqueued :: "JobId list"
  sy_stop :: stop_pc

text \<open>Stop holds the context's mutex for its whole duration.\<close>

definition ctx_mutex_free :: "system \<Rightarrow> bool" where
  "ctx_mutex_free s \<longleftrightarrow> sy_stop s = NotStopping \<or> sy_stop s = StopDone"

definition goto :: "nat \<Rightarrow> worker_pc \<Rightarrow> Context \<Rightarrow> system \<Rightarrow> system" where
  "goto i p c s = s\<lparr>sy_ctx := c, sy_pc := (sy_pc s)(i := p)\<rparr>"

definition set_barrier :: "Barrier \<Rightarrow> Context \<Rightarrow> Context" where
  "set_barrier b ctx = ctx\<lparr>ctx_scheduler := map_option (\<lambda>s. s\<lparr>fs_barrier := b\<rparr>) (ctx_scheduler ctx)\<rparr>"

text \<open>A slice without elements, or every slice when jobs complete instantly, is not transmitted.\<close>

definition skips_transmission :: "Context \<Rightarrow> JobSlice \<Rightarrow> bool" where
  "skips_transmission ctx sl \<longleftrightarrow>
     numel (slice sl) = 0 \<or> gc_instant_job_completion (general (ctx_config ctx))"

definition notify_step :: "nat \<Rightarrow> JobSlice \<Rightarrow> system \<Rightarrow> system outcome" where
  "notify_step i sl s =
     bindE (Context_Notify sl (sy_ctx s)) (\<lambda>(fin, c).
       Inr (goto i (if fin then Finishing (slice_job sl) else Loop) c s))"

text \<open>One action of worker \<open>i\<close>; \<open>None\<close> when the worker is blocked or has exited.\<close>

definition worker_step :: "nat \<Rightarrow> system \<Rightarrow> system option outcome" where
  "worker_step i s =
     (let ctx = sy_ctx s in
      case sy_pc s i of
        Loop \<Rightarrow> Inr (Some (goto i (if GetContextState ctx = CTX_RUNNING then Ask else Exited) ctx s))
      | Ask \<Rightarrow> bindE (Context_GetJobSlice_enter ctx) (\<lambda>ok. Inr (Some (goto i (if ok then Arrive else Loop) ctx s)))
      | Arrive \<Rightarrow> on_scheduler (\<lambda>f. bindE (Barrier_Wait (fs_barrier f)) (\<lambda>(b, a).
            Inr (Some (goto i (case a of Block t \<Rightarrow> AtBarrier t | Pass \<Rightarrow> WaitJob) (set_barrier b ctx) s)))) ctx
      | AtBarrier t \<Rightarrow> on_scheduler (\<lambda>f.
            Inr (if Barrier_wake (fs_barrier f) t then Some (goto i WaitJob ctx s) else None)) ctx
      | WaitJob \<Rightarrow> on_scheduler (\<lambda>f.
            if \<not> job_available f then Inr None
            else bindE (Context_GetJobSlice_dispatch i ctx) (\<lambda>(r, c).
              Inr (Some (case r of
                  None \<Rightarrow> goto i Loop c s
                | Some sl \<Rightarrow> (goto i (Work sl) c s)\<lparr>sy_log := (sy_log s)(i := sy_log s i @ [sl])\<rparr>)))) ctx
      | Work sl \<Rightarrow>
          if skips_transmission ctx sl \<and> GetContextState ctx \<noteq> CTX_RUNNING then Inr (Some (goto i Loop ctx s))
          else bindE (notify_step i sl s) (\<lambda>t. Inr (Some t))
      | Finishing j \<Rightarrow> bindE (Context_job_finished j ctx) (\<lambda>c. Inr (Some (goto i Counting c s)))
      | Counting \<Rightarrow> Inr (if ctx_mutex_free s then Some (goto i Loop (snd (Context_count_finished ctx)) s) else None)
      | Exited \<Rightarrow> Inr None)"

text \<open>
  Actions of the application. Creating a job takes the context's mutex; identifiers are assumed
  not to run out.
\<close>

definition create_step :: "Tensor \<Rightarrow> system \<Rightarrow> system option outcome" where
  "create_step t s =
     (if \<not> ctx_mutex_free s then Inr None
      else bindE (AllReduceAsync_create (in_ptr t) (out_ptr t) (numel t) (data_type t) OP_SUM (sy_ctx s)) (\<lambda>(i, c).
        Inr (Some (s\<lparr>sy_ctx := c, sy_submitting := sy_submitting s @ [i]\<rparr>))))"

definition enqueue_step :: "JobId \<Rightarrow> system \<Rightarrow> system option outcome" where
  "enqueue_step j s =
     (if j \<notin> set (sy_submitting s) then Inr None
      else bindE (AllReduceAsync_enqueue j
                   (case ctx_jobs (sy_ctx s) j of None \<Rightarrow> 0 | Some jb \<Rightarrow> numel (job_tensor jb)) (sy_ctx s)) (\<lambda>c.
        Inr (Some (s\<lparr>sy_ctx := c, sy_submitting := remove1 j (sy_submitting s),
                     sy_enqueued := sy_enqueued s @ [j]\<rparr>))))"

text \<open>Stop waits in StopJoin until all \<open>n\<close> worker threads have exited.\<close>

definition stop_step :: "nat \<Rightarrow> system \<Rightarrow> system option outcome" where
  "stop_step n s =
     (case sy_stop s of
        NotStopping \<Rightarrow> bindE (Context_Stop_begin (sy_ctx s)) (\<lambda>c. Inr (Some (s\<lparr>sy_ctx := c, sy_stop := StopFlag\<rparr>)))
      | StopFlag \<Rightarrow> bindE (Context_Stop_flag (sy_ctx s)) (\<lambda>c. Inr (Some (s\<lparr>sy_ctx := c, sy_stop := StopClear\<rparr>)))
      | StopClear \<Rightarrow> bindE (Context_Stop_clear (sy_ctx s)) (\<lambda>c. Inr (Some (s\<lparr>sy_ctx := c, sy_stop := StopJoin\<rparr>)))
      | StopJoin \<Rightarrow> Inr (if list_all (\<lambda>i. sy_pc s i = Exited) [0..<n]
                       then Some (s\<lparr>sy_ctx := Context_Stop_end (sy_ctx s), sy_stop := StopDone\<rparr>) else None)
      | StopDone \<Rightarrow> Inr None)"

datatype action = Worker nat | Create Tensor | Enqueue JobId | CallStop

definition act :: "nat \<Rightarrow> action \<Rightarrow> system \<Rightarrow> system option outcome" where
  "act n a s =
     (case a of
        Worker i \<Rightarrow> if i < n then worker_step i s else Inr None
      | Create t \<Rightarrow> create_step t s
      | Enqueue j \<Rightarrow> enqueue_step j s
      | CallStop \<Rightarrow> stop_step n s)"

text \<open>A run of actions, each of which must be enabled.\<close>

fun run :: "nat \<Rightarrow> action list \<Rightarrow> system \<Rightarrow> system option outcome" where
  "run n [] s = Inr (Some s)"
| "run n (a # as) s =
     bindE (act n a s) (\<lambda>r. case r of None \<Rightarrow> Inr None | Some t \<Rightarrow> run n as t)"

text \<open>The system right after Start.\<close>

definition start_system :: "Context \<Rightarrow> system" where
  "start_system c =
     \<lparr>sy_ctx = c, sy_pc = (\<lambda>_. Loop), sy_log = (\<lambda>_. []), sy_submitting = [], sy_enqueued = [],
      sy_stop = NotStopping\<rparr>"

definition started :: "nat \<Rightarrow> Context \<Rightarrow> bool" where
  "started n c \<longleftrightarrow>
     context_state c = CTX_RUNNING \<and> ctx_scheduler c = Some (new_FifoScheduler n) \<and>
     number_of_current_jobs c = 0 \<and> ctx_next_id c = 0 \<and> ctx_jobs c = Map.empty \<and> 0 < n"

section \<open>Counting progress\<close>

text \<open>Slices handed to, and slices completed by, each worker.\<close>

definition taken :: "system \<Rightarrow> nat \<Rightarrow> nat" where
  "taken s i = length (sy_log s i)"

definition completed :: "system \<Rightarrow> nat \<Rightarrow> nat" where
  "completed s i = taken s i - (case sy_pc s i of Work _ \<Rightarrow> 1 | _ \<Rightarrow> 0)"

text \<open>How many workers still have to take, and how many have completed, their slice of the \<open>m\<close>-th job.\<close>

definition untaken :: "nat \<Rightarrow> system \<Rightarrow> nat \<Rightarrow> nat" where
  "untaken n s m = count_upto n (\<lambda>g. g \<le> m) (taken s)"

definition finished :: "nat \<Rightarrow> system \<Rightarrow> nat \<Rightarrow> nat" where
  "finished n s m = count_upto n (\<lambda>c. m < c) (completed s)"

section \<open>The invariant while nobody calls Stop\<close>

text \<open>Where worker \<open>i\<close> can be when the barrier has completed \<open>k\<close> rounds.\<close>

fun pc_ok :: "nat \<Rightarrow> worker_pc \<Rightarrow> nat \<Rightarrow> bool" where
  "pc_ok k WaitJob g = (k = Suc g)"
| "pc_ok k (AtBarrier t) g = ((t = odd k \<and> g = k) \<or> (t = even k \<and> k = Suc g))"
| "pc_ok k (Work sl) g = (g = k \<and> 0 < k)"
| "pc_ok k (Finishing j) g = (g = k \<and> 0 < k)"
| "pc_ok k Exited g = False"
| "pc_ok k _ g = (g = k)"

definition pc_inv :: "nat \<Rightarrow> system \<Rightarrow> nat \<Rightarrow> bool" where
  "pc_inv k s i = pc_ok k (sy_pc s i) (taken s i)"

definition barrier_inv :: "nat \<Rightarrow> FifoScheduler \<Rightarrow> system \<Rightarrow> nat \<Rightarrow> bool" where
  "barrier_inv n f s k \<longleftrightarrow>
     bar_rep (fs_barrier f) n k (count_upto n (\<lambda>p. p = AtBarrier (odd k)) (sy_pc s)) \<and>
     (\<forall>i < n. pc_inv k s i)"

text \<open>The queue and the two maps are determined by the progress of the workers.\<close>

definition queue_inv :: "nat \<Rightarrow> FifoScheduler \<Rightarrow> system \<Rightarrow> bool" where
  "queue_inv n f s \<longleftrightarrow>
     fs_queue f = map (\<lambda>m. sy_enqueued s ! m) (filter (\<lambda>m. untaken n s m > 0) [0..<length (sy_enqueued s)]) \<and>
     (\<forall>m < length (sy_enqueued s). undispatched_job_slices f (sy_enqueued s ! m) =
        (if untaken n s m = 0 then None else Some (int (untaken n s m)))) \<and>
     (\<forall>m < length (sy_enqueued s). finished_job_slices f (sy_enqueued s ! m) =
        (if finished n s m = n then None else Some (int (finished n s m)))) \<and>
     (\<forall>j. j \<notin> set (sy_enqueued s) \<longrightarrow> undispatched_job_slices f j = None \<and> finished_job_slices f j = None)"

text \<open>The slices in the logs are the workers' own slices of the queued jobs, in order.\<close>

definition log_ok :: "nat \<Rightarrow> system \<Rightarrow> nat \<Rightarrow> bool" where
  "log_ok n s i \<longleftrightarrow>
     taken s i \<le> length (sy_enqueued s) \<and>
     (\<forall>m < taken s i. \<exists>j. ctx_jobs (sy_ctx s) (sy_enqueued s ! m) = Some j \<and>
        slice_job (sy_log s i ! m) = sy_enqueued s ! m \<and>
        make_slice n i (job_tensor j) = Inr (slice (sy_log s i ! m)))"

text \<open>What a worker that holds a slice, or finishes a job, has in hand.\<close>

definition hand_ok :: "nat \<Rightarrow> system \<Rightarrow> nat \<Rightarrow> bool" where
  "hand_ok n s i \<longleftrightarrow>
     (\<forall>sl. sy_pc s i = Work sl \<longrightarrow> sl = last (sy_log s i)) \<and>
     (\<forall>j. sy_pc s i = Finishing j \<longrightarrow>
        j = sy_enqueued s ! (taken s i - 1) \<and> finished n s (taken s i - 1) = n \<and>
        (\<forall>i' < n. i' \<noteq> i \<longrightarrow> sy_pc s i' \<noteq> Finishing j))"

definition log_inv :: "nat \<Rightarrow> system \<Rightarrow> bool" where
  "log_inv n s \<longleftrightarrow> (\<forall>i < n. log_ok n s i \<and> hand_ok n s i)"

text \<open>The status of each job, and the number of jobs that are not finished.\<close>

definition expected_status :: "nat \<Rightarrow> system \<Rightarrow> nat \<Rightarrow> JobStatus" where
  "expected_status n s m =
     (if untaken n s m = n then QUEUED
      else if finished n s m = n \<and> (\<forall>i < n. sy_pc s i \<noteq> Finishing (sy_enqueued s ! m)) then FINISHED
      else RUNNING)"

definition job_inv :: "nat \<Rightarrow> system \<Rightarrow> bool" where
  "job_inv n s \<longleftrightarrow>
     distinct (sy_enqueued s @ sy_submitting s) \<and>
     (\<forall>j \<in> set (sy_enqueued s @ sy_submitting s). j < ctx_next_id (sy_ctx s)) \<and>
     (\<forall>j \<in> set (sy_submitting s). \<exists>jb. ctx_jobs (sy_ctx s) j = Some jb \<and> job_status jb = INIT) \<and>
     (\<forall>m < length (sy_enqueued s). \<exists>jb. ctx_jobs (sy_ctx s) (sy_enqueued s ! m) = Some jb \<and>
        job_status jb = expected_status n s m) \<and>
     number_of_current_jobs (sy_ctx s) = int (length (sy_submitting s) +
       count_upto (length (sy_enqueued s)) (\<lambda>c. c < n) (finished n s) +
       count_upto n (\<lambda>p. p = Counting \<or> (\<exists>j. p = Finishing j)) (sy_pc s))"

definition sys_inv :: "nat \<Rightarrow> system \<Rightarrow> bool" where
  "sys_inv n s \<longleftrightarrow>
     0 < n \<and> context_state (sy_ctx s) = CTX_RUNNING \<and> sy_stop s = NotStopping \<and>
     (\<exists>f k. ctx_scheduler (sy_ctx s) = Some f \<and> \<not> fs_stopped f \<and> fs_num_worker_threads f = n \<and>
        barrier_inv n f s k \<and> queue_inv n f s) \<and>
     log_inv n s \<and> job_inv n s"

section \<open>Every action keeps the invariant\<close>

lemma goto_simps [simp]:
  "sy_ctx (goto i p c s) = c" "sy_pc (goto i p c s) = (sy_pc s)(i := p)"
  "sy_log (goto i p c s) = sy_log s" "sy_submitting (goto i p c s) = sy_submitting s"
  "sy_enqueued (goto i p c s) = sy_enqueued s" "sy_stop (goto i p c s) = sy_stop s"
  "taken (goto i p c s) = taken s"
  by (auto simp: goto_def taken_def)

lemma completed_goto:
  "completed (goto i p c s) =
     (completed s)(i := taken s i - (case p of Work _ \<Rightarrow> 1 | _ \<Rightarrow> 0))"
  by (rule ext) (simp add: completed_def)

text \<open>The points of the loop at which a worker neither holds a slice nor finishes a job.\<close>

fun quiet :: "worker_pc \<Rightarrow> bool" where
  "quiet (Work _) = False"
| "quiet (Finishing _) = False"
| "quiet Counting = False"
| "quiet Exited = False"
| "quiet _ = True"

lemma quiet_completed: "quiet (sy_pc s i) \<Longrightarrow> completed s i = taken s i"
  by (cases "sy_pc s i") (auto simp: completed_def)

lemma completed_goto_quiet:
  "quiet (sy_pc s i) \<Longrightarrow> quiet p \<Longrightarrow> completed (goto i p c s) = completed s"
  by (rule ext) (cases p; simp add: completed_goto quiet_completed)

lemma pc_inv_cong:
  "sy_pc s i = sy_pc t i \<Longrightarrow> taken s i = taken t i \<Longrightarrow> pc_inv k s i = pc_inv k t i"
  by (simp add: pc_inv_def)

lemma pc_inv_goto:
  "pc_inv k (goto i p c s) j = (if j = i then pc_ok k p (taken s i) else pc_inv k s j)"
  by (simp add: pc_inv_def)

lemma all_upd: "P x = P (f i) \<Longrightarrow> (\<forall>j < n. P ((f(i := x)) j)) = (\<forall>j < n. P (f j))"
  for n :: nat
  by (metis fun_upd_apply)

lemma untaken_cong: "taken s = taken t \<Longrightarrow> untaken n s = untaken n t"
  by (rule ext) (simp add: untaken_def)

lemma finished_cong: "completed s = completed t \<Longrightarrow> finished n s = finished n t"
  by (rule ext) (simp add: finished_def)

lemma queue_inv_cong:
  assumes "queue_inv n f s" and "taken t = taken s" and "completed t = completed s"
    and "sy_enqueued t = sy_enqueued s" and "f' = f\<lparr>fs_barrier := b\<rparr>"
  shows "queue_inv n f' t"
  using assms untaken_cong[OF assms(2)] finished_cong[OF assms(3)] by (simp add: queue_inv_def)

text \<open>The worker that holds a slice, or finishes a job, has taken one slice per round.\<close>

lemma barrier_inv_taken:
  "barrier_inv n f s k \<Longrightarrow> i < n \<Longrightarrow> taken s i = k \<or> Suc (taken s i) = k"
  by (cases "sy_pc s i") (auto simp: barrier_inv_def pc_inv_def)

lemma busy_taken:
  assumes "barrier_inv n f s k" and "i < n" and "sy_pc s i = Work sl \<or> sy_pc s i = Finishing x"
  obtains d where "k = Suc d" and "taken s i = Suc d"
proof -
  have "pc_ok k (sy_pc s i) (taken s i)" using assms(1,2) by (simp add: barrier_inv_def pc_inv_def)
  then have "taken s i = k" "0 < k" using assms(3) by auto
  then show thesis using that by (cases k) auto
qed

text \<open>
  The logs stay correct when the slices taken and the slices completed do not change, the jobs keep
  their tensors, and no worker gets a slice or a job to finish. New jobs may be queued.
\<close>

lemma log_inv_keep:
  assumes L: "log_inv n s" and b: "barrier_inv n f s k" and tk: "taken t = taken s" and lg: "sy_log t = sy_log s"
    and E: "sy_enqueued t = sy_enqueued s @ ys" and F: "finished n t = finished n s"
    and tens: "\<And>m jb. m < length (sy_enqueued s) \<Longrightarrow> ctx_jobs (sy_ctx s) (sy_enqueued s ! m) = Some jb \<Longrightarrow>
        \<exists>j'. ctx_jobs (sy_ctx t) (sy_enqueued s ! m) = Some j' \<and> job_tensor j' = job_tensor jb"
    and pcs: "\<And>j. sy_pc t j = sy_pc s j \<or> (\<forall>sl. sy_pc t j \<noteq> Work sl) \<and> (\<forall>x. sy_pc t j \<noteq> Finishing x)"
  shows "log_inv n t"
  unfolding log_inv_def
proof (intro allI impI conjI)
  fix i assume i: "i < n"
  have old: "log_ok n s i" "hand_ok n s i" using L i by (simp_all add: log_inv_def)
  then have le: "taken s i \<le> length (sy_enqueued s)" by (simp add: log_ok_def)
  have nE: "sy_enqueued t ! m = sy_enqueued s ! m" if "m < taken s i" for m
    using that le by (simp add: E nth_append)
  have "\<exists>j'. ctx_jobs (sy_ctx t) (sy_enqueued t ! m) = Some j' \<and> slice_job (sy_log t i ! m) = sy_enqueued t ! m \<and>
      make_slice n i (job_tensor j') = Inr (slice (sy_log t i ! m))" if m: "m < taken s i" for m
  proof -
    obtain jb where jb: "ctx_jobs (sy_ctx s) (sy_enqueued s ! m) = Some jb"
        "slice_job (sy_log s i ! m) = sy_enqueued s ! m" "make_slice n i (job_tensor jb) = Inr (slice (sy_log s i ! m))"
      using old(1) m by (auto simp: log_ok_def)
    then show ?thesis using tens[of m jb] m le by (auto simp: nE lg)
  qed
  moreover have "taken s i \<le> length (sy_enqueued t)" using le by (simp add: E)
  ultimately show "log_ok n t i" by (simp add: log_ok_def tk)
  have "sy_enqueued t ! (taken s i - 1) = sy_enqueued s ! (taken s i - 1)" if "sy_pc s i = Finishing x" for x
    using busy_taken[OF b i disjI2[OF that]] by (metis diff_less nE zero_less_Suc zero_less_one)
  then show "hand_ok n t i"
    using old(2) pcs unfolding hand_ok_def tk lg F by metis
qed

text \<open>Moving a worker between two quiet points, with at most the barrier changed.\<close>

lemma quiet_move:
  assumes inv: "sys_inv n s" and i: "i < n" and q: "quiet (sy_pc s i)" "quiet p"
    and f: "ctx_scheduler (sy_ctx s) = Some f" and c: "c = set_barrier b (sy_ctx s)"
    and bar: "barrier_inv n (f\<lparr>fs_barrier := b\<rparr>) (goto i p c s) k"
  shows "sys_inv n (goto i p c s)"
proof -
  let ?t = "goto i p c s"
  have tk: "taken ?t = taken s" and cp: "completed ?t = completed s"
    using q by (simp_all add: completed_goto_quiet)
  have jobs: "ctx_jobs c = ctx_jobs (sy_ctx s)" "ctx_next_id c = ctx_next_id (sy_ctx s)"
    "number_of_current_jobs c = number_of_current_jobs (sy_ctx s)" "context_state c = context_state (sy_ctx s)"
    "ctx_scheduler c = Some (f\<lparr>fs_barrier := b\<rparr>)"
    using f by (simp_all add: c set_barrier_def)
  note same = untaken_cong[OF tk] finished_cong[OF cp]
  have nf: "sy_pc s i \<noteq> Finishing j" "p \<noteq> Finishing j" for j using q by auto
  have Q: "queue_inv n (f\<lparr>fs_barrier := b\<rparr>) ?t"
    using inv f by (auto simp: sys_inv_def intro: queue_inv_cong[OF _ tk cp])
  have "log_ok n ?t j = log_ok n s j" for j by (simp add: log_ok_def jobs)
  moreover have "hand_ok n ?t j" if "hand_ok n s j" for j
    using that q(2) nf unfolding hand_ok_def by (cases "j = i") (auto simp: same)
  ultimately have L: "log_inv n ?t" using inv by (simp add: sys_inv_def log_inv_def)
  have "(\<forall>i' < n. sy_pc ?t i' \<noteq> Finishing x) = (\<forall>i' < n. sy_pc s i' \<noteq> Finishing x)" for x
    using all_upd[of "\<lambda>p. p \<noteq> Finishing x" _ "sy_pc s" i] nf by simp
  then have E: "expected_status n ?t m = expected_status n s m" for m
    by (simp add: expected_status_def same del: goto_simps(2))
  have "count_upto n (\<lambda>p. p = Counting \<or> (\<exists>j. p = Finishing j)) (sy_pc ?t) =
        count_upto n (\<lambda>p. p = Counting \<or> (\<exists>j. p = Finishing j)) (sy_pc s)"
    using count_upto_update[OF i, of "\<lambda>p. p = Counting \<or> (\<exists>j. p = Finishing j)" "sy_pc s" p] q nf
    by (cases p; cases "sy_pc s i") simp_all
  then have J: "job_inv n ?t" using inv by (simp add: sys_inv_def job_inv_def jobs E same)
  show ?thesis using inv Q L J bar f by (auto simp: sys_inv_def jobs)
qed

lemma sys_inv_obtain:
  assumes "sys_inv n s"
  obtains f k where "ctx_scheduler (sy_ctx s) = Some f" "\<not> fs_stopped f" "fs_num_worker_threads f = n"
    "barrier_inv n f s k" "queue_inv n f s" "log_inv n s" "job_inv n s" "0 < n"
    "context_state (sy_ctx s) = CTX_RUNNING" "sy_stop s = NotStopping"
  using assms by (auto simp: sys_inv_def)

lemma set_barrier_same: "ctx_scheduler c = Some f \<Longrightarrow> set_barrier (fs_barrier f) c = c"
  by (simp add: set_barrier_def)

text \<open>The steps outside the barrier.\<close>

lemma idle_move:
  assumes inv: "sys_inv n s" and i: "i < n" and a: "sy_pc s i \<in> {Loop, Ask, Arrive}" "p \<in> {Loop, Ask, Arrive}"
  shows "sys_inv n (goto i p (sy_ctx s) s)"
proof -
  obtain f k where f: "ctx_scheduler (sy_ctx s) = Some f" and b: "barrier_inv n f s k"
    using inv by (rule sys_inv_obtain)
  have "pc_inv k (goto i p (sy_ctx s) s) j" if "j < n" for j
  proof -
    have "pc_ok k (sy_pc s i) (taken s i)" using b i by (simp add: barrier_inv_def pc_inv_def)
    then have "taken s i = k" using a(1) by auto
    then show ?thesis using b that a(2) by (auto simp: barrier_inv_def pc_inv_goto)
  qed
  moreover have "count_upto n (\<lambda>p. p = AtBarrier (odd k)) ((sy_pc s)(i := p)) =
      count_upto n (\<lambda>p. p = AtBarrier (odd k)) (sy_pc s)"
    using count_upto_update[OF i, of "\<lambda>p. p = AtBarrier (odd k)" "sy_pc s" p] a by auto
  ultimately have "barrier_inv n (f\<lparr>fs_barrier := fs_barrier f\<rparr>) (goto i p (sy_ctx s) s) k"
    using b by (simp add: barrier_inv_def)
  then show ?thesis
    using a f by (intro quiet_move[OF inv i _ _ f, where b = "fs_barrier f"]) (auto simp: set_barrier_same)
qed

lemma wake_move:
  assumes inv: "sys_inv n s" and i: "i < n" and a: "sy_pc s i = AtBarrier t"
    and f: "ctx_scheduler (sy_ctx s) = Some f" and w: "Barrier_wake (fs_barrier f) t"
  shows "sys_inv n (goto i WaitJob (sy_ctx s) s)"
proof -
  obtain k where b: "barrier_inv n f s k" using inv f by (auto elim: sys_inv_obtain)
  have r: "bar_rep (fs_barrier f) n k (count_upto n (\<lambda>p. p = AtBarrier (odd k)) (sy_pc s))"
    using b by (simp add: barrier_inv_def)
  have "\<not> Barrier_wake (fs_barrier f) (odd k)" using bar.wake_iff[OF r, of k] by simp
  then have "t \<noteq> odd k" using w by blast
  moreover have "pc_ok k (AtBarrier t) (taken s i)" using b i a by (metis barrier_inv_def pc_inv_def)
  ultimately have t: "t = even k" "k = Suc (taken s i)" by auto
  have "pc_inv k (goto i WaitJob (sy_ctx s) s) j" if "j < n" for j
    using b that t by (simp add: barrier_inv_def pc_inv_goto)
  moreover have "count_upto n (\<lambda>p. p = AtBarrier (odd k)) ((sy_pc s)(i := WaitJob)) =
      count_upto n (\<lambda>p. p = AtBarrier (odd k)) (sy_pc s)"
    using count_upto_update[OF i, of "\<lambda>p. p = AtBarrier (odd k)" "sy_pc s" WaitJob] a t by auto
  ultimately have "barrier_inv n (f\<lparr>fs_barrier := fs_barrier f\<rparr>) (goto i WaitJob (sy_ctx s) s) k"
    using b by (simp add: barrier_inv_def)
  then show ?thesis
    using a f by (intro quiet_move[OF inv i _ _ f, where b = "fs_barrier f"]) (auto simp: set_barrier_same)
qed

text \<open>Arriving at the barrier never fails, and keeps the invariant whether or not the worker blocks.\<close>

lemma arrive_move:
  assumes inv: "sys_inv n s" and i: "i < n" and a: "sy_pc s i = Arrive"
    and f: "ctx_scheduler (sy_ctx s) = Some f"
  shows "\<exists>b r. Barrier_Wait (fs_barrier f) = Inr (b, r) \<and>
     sys_inv n (goto i (case r of Block t \<Rightarrow> AtBarrier t | Pass \<Rightarrow> WaitJob) (set_barrier b (sy_ctx s)) s)"
proof -
  obtain k where b: "barrier_inv n f s k" using inv f by (auto elim: sys_inv_obtain)
  define w where "w = count_upto n (\<lambda>p. p = AtBarrier (odd k)) (sy_pc s)"
  have r: "bar_rep (fs_barrier f) n k w" using b by (simp add: barrier_inv_def w_def)
  have tk: "taken s i = k" using b i a by (auto simp: barrier_inv_def pc_inv_def)
  show ?thesis
  proof (cases "Suc w = n")
    case False
    then have "Suc w < n" using bar.rep_less[OF r] by simp
    then obtain b' where b': "Barrier_Wait (fs_barrier f) = Inr (b', Block (odd k))" "bar_rep b' n k (Suc w)"
      using bar.enter_block[OF r] by auto
    let ?t = "goto i (AtBarrier (odd k)) (set_barrier b' (sy_ctx s)) s"
    have "pc_inv k ?t j" if "j < n" for j
      using b that tk by (simp add: barrier_inv_def pc_inv_goto)
    moreover have "count_upto n (\<lambda>p. p = AtBarrier (odd k)) ((sy_pc s)(i := AtBarrier (odd k))) = Suc w"
      using count_upto_update[OF i, of "\<lambda>p. p = AtBarrier (odd k)" "sy_pc s" "AtBarrier (odd k)"] a
      by (simp add: w_def)
    ultimately have "barrier_inv n (f\<lparr>fs_barrier := b'\<rparr>) ?t k" using b' by (simp add: barrier_inv_def)
    then have "sys_inv n ?t" using a by (intro quiet_move[OF inv i _ _ f]) auto
    then show ?thesis using b'(1) by auto
  next
    case True
    then obtain b' where b': "Barrier_Wait (fs_barrier f) = Inr (b', Pass)" "bar_rep b' n (Suc k) 0"
      using bar.enter_pass[OF r] by auto
    let ?t = "goto i WaitJob (set_barrier b' (sy_ctx s)) s"
    have "count_upto n (\<lambda>p. p = AtBarrier (odd k)) ((sy_pc s)(i := AtBarrier (odd k))) = n"
      using count_upto_update[OF i, of "\<lambda>p. p = AtBarrier (odd k)" "sy_pc s" "AtBarrier (odd k)"] a True
      by (simp add: w_def)
    then have others: "\<forall>j < n. j \<noteq> i \<longrightarrow> sy_pc s j = AtBarrier (odd k)"
      unfolding count_upto_full_iff by (metis fun_upd_other)
    have "pc_inv (Suc k) ?t j" if "j < n" for j
    proof (cases "j = i")
      case False
      then have "pc_ok k (AtBarrier (odd k)) (taken s j)"
        using b that others by (auto simp: barrier_inv_def pc_inv_def)
      then show ?thesis using False that others by (auto simp: pc_inv_goto pc_inv_def)
    qed (use tk in \<open>simp add: pc_inv_goto\<close>)
    moreover have "count_upto n (\<lambda>p. p = AtBarrier (odd (Suc k))) ((sy_pc s)(i := WaitJob)) = 0"
      using others by (auto simp: count_upto_0_iff)
    ultimately have "barrier_inv n (f\<lparr>fs_barrier := b'\<rparr>) ?t (Suc k)" using b' by (simp add: barrier_inv_def)
    then have "sys_inv n ?t" using a by (intro quiet_move[OF inv i _ _ f]) auto
    then show ?thesis using b'(1) by auto
  qed
qed

text \<open>Handing out a slice.\<close>

lemma untaken_pos_iff:
  assumes b: "barrier_inv n f s (Suc d)" and i: "i < n" and t: "taken s i = d"
  shows "untaken n s m > 0 \<longleftrightarrow> d \<le> m"
proof -
  have "(\<exists>j < n. taken s j \<le> m) \<longleftrightarrow> d \<le> m"
    using barrier_inv_taken[OF b] i t by force
  then show ?thesis using count_upto_0_iff[of n "\<lambda>g. g \<le> m" "taken s"] by (auto simp: untaken_def)
qed

lemma filter_upt_ge: "filter (\<lambda>m. d \<le> m) [0..<len] = [d..<len]"
proof (induction len)
  case (Suc len)
  then show ?case by (cases "d \<le> len") auto
qed simp

definition take_slice :: "nat \<Rightarrow> JobSlice \<Rightarrow> Context \<Rightarrow> system \<Rightarrow> system" where
  "take_slice i sl c s = (goto i (Work sl) c s)\<lparr>sy_log := (sy_log s)(i := sy_log s i @ [sl])\<rparr>"

lemma take_slice_simps [simp]:
  "sy_ctx (take_slice i sl c s) = c" "sy_pc (take_slice i sl c s) = (sy_pc s)(i := Work sl)"
  "sy_log (take_slice i sl c s) = (sy_log s)(i := sy_log s i @ [sl])"
  "sy_submitting (take_slice i sl c s) = sy_submitting s"
  "sy_enqueued (take_slice i sl c s) = sy_enqueued s" "sy_stop (take_slice i sl c s) = sy_stop s"
  "taken (take_slice i sl c s) = (taken s)(i := Suc (taken s i))"
  by (auto simp: take_slice_def taken_def)

lemma completed_take_slice:
  "sy_pc s i = WaitJob \<Longrightarrow> completed (take_slice i sl c s) = completed s"
  by (rule ext) (simp add: completed_def)

lemma untaken_take_slice:
  assumes "i < n" and "taken s i = d"
  shows "untaken n (take_slice i sl c s) m = (if m = d then untaken n s m - 1 else untaken n s m)"
  using count_upto_update[OF assms(1), of "\<lambda>g. g \<le> m" "taken s" "Suc (taken s i)"] assms(2)
  by (cases m d rule: linorder_cases) (simp_all add: untaken_def)

lemma untaken_le: "untaken n s m \<le> n"
  by (simp add: untaken_def count_upto_le)

lemma finished_lt:
  assumes "i < n" and "completed s i \<le> m"
  shows "finished n s m < n"
  using assms count_upto_full_iff[of n "\<lambda>c. m < c" "completed s"] count_upto_le[of n "\<lambda>c. m < c" "completed s"]
  by (auto simp: finished_def order.strict_iff_order)

lemma count_dispatch_queue:
  assumes b: "barrier_inv n f s (Suc d)" and q: "queue_inv n f s" and i: "i < n" and t: "taken s i = d"
    and w: "sy_pc s i = WaitJob" and d: "d < length (sy_enqueued s)"
  shows "\<exists>rest. fs_queue f = sy_enqueued s ! d # rest \<and>
     (\<exists>f'. count_dispatch (sy_enqueued s ! d) f = Inr f' \<and> fs_barrier f' = fs_barrier f \<and>
        fs_stopped f' = fs_stopped f \<and> fs_num_worker_threads f' = fs_num_worker_threads f \<and>
        (distinct (sy_enqueued s) \<longrightarrow> queue_inv n f' (take_slice i sl c s)))"
proof -
  let ?E = "sy_enqueued s" and ?t = "take_slice i sl c s"
  have pos: "untaken n s d > 0" using untaken_pos_iff[OF b i t] by simp
  have fq: "fs_queue f = map (\<lambda>m. ?E ! m) [d..<length ?E]"
    using q by (simp add: queue_inv_def untaken_pos_iff[OF b i t] filter_upt_ge)
  then have hd: "fs_queue f = ?E ! d # map (\<lambda>m. ?E ! m) [Suc d..<length ?E]"
    using d by (simp add: upt_conv_Cons)
  have ud: "undispatched_job_slices f (?E ! d) = Some (int (untaken n s d))"
    using q d pos by (simp add: queue_inv_def)
  have pos': "untaken n ?t m > 0 \<longleftrightarrow> (if untaken n s d = 1 then Suc d \<le> m else d \<le> m)" for m
    using untaken_pos_iff[OF b i t, of m] pos by (auto simp: untaken_take_slice[OF i t])
  define f' where "f' = (if untaken n s d = 1
      then f\<lparr>fs_queue := tl (fs_queue f), undispatched_job_slices := (undispatched_job_slices f)(?E ! d := None)\<rparr>
      else f\<lparr>undispatched_job_slices := (undispatched_job_slices f)(?E ! d \<mapsto> int (untaken n s d) - 1)\<rparr>)"
  have cd: "count_dispatch (?E ! d) f = Inr f'"
    using pos by (auto simp: count_dispatch_def ud f'_def)
  have "queue_inv n f' ?t" if dist: "distinct ?E"
  proof -
    have idx: "?E ! m = ?E ! d \<longleftrightarrow> m = d" if "m < length ?E" for m
      using that d dist by (simp add: nth_eq_iff_index_eq)
    have "fs_queue f' = map (\<lambda>m. ?E ! m) (filter (\<lambda>m. untaken n ?t m > 0) [0..<length ?E])"
      by (simp add: pos' f'_def hd filter_upt_ge fq[symmetric])
    moreover have "finished n ?t = finished n s"
      using w by (intro finished_cong completed_take_slice)
    moreover have "?E ! d \<in> set ?E" using d by simp
    ultimately show ?thesis
      using q pos by (auto simp: queue_inv_def f'_def idx untaken_take_slice[OF i t] of_nat_diff)
  qed
  then show ?thesis using cd hd by (auto simp: f'_def)
qed

lemma expected_status_unfinished:
  "finished n s m < n \<Longrightarrow> expected_status n s m = (if untaken n s m = n then QUEUED else RUNNING)"
  by (simp add: expected_status_def)

lemma count_upto_same:
  "i < n \<Longrightarrow> P x = P (f i) \<Longrightarrow> count_upto n P (f(i := x)) = count_upto n P f"
  using count_upto_update[of i n P f x] by simp

lemma job_index:
  assumes "job_inv n s" and "d < length (sy_enqueued s)" and "m < length (sy_enqueued s)"
  shows "sy_enqueued s ! m = sy_enqueued s ! d \<longleftrightarrow> m = d"
  using assms by (simp add: job_inv_def nth_eq_iff_index_eq)

lemma submitting_not_queued:
  assumes "job_inv n s" and "d < length (sy_enqueued s)" and "x \<in> set (sy_submitting s)"
  shows "x \<noteq> sy_enqueued s ! d"
  using assms nth_mem[OF assms(2)] unfolding job_inv_def distinct_append by blast

lemma dispatch_log_inv:
  assumes L: "log_inv n s" and i: "i < n" and t: "taken s i = d" and d: "d < length (sy_enqueued s)"
    and w: "sy_pc s i = WaitJob" and tn: "make_slice n i (job_tensor jb) = Inr tn"
    and job: "ctx_jobs (sy_ctx s) (sy_enqueued s ! d) = Some jb"
    and js: "ctx_jobs c = (ctx_jobs (sy_ctx s))(sy_enqueued s ! d \<mapsto> jb\<lparr>job_status := RUNNING\<rparr>)"
    and sl: "sl = \<lparr>slice_job = sy_enqueued s ! d, slice = tn\<rparr>"
  shows "log_inv n (take_slice i sl c s)" (is "log_inv n ?t")
  unfolding log_inv_def
proof (intro allI impI conjI)
  fix j assume j: "j < n"
  let ?E = "sy_enqueued s"
  have old: "log_ok n s j" "hand_ok n s j" using L j by (simp_all add: log_inv_def)
  have tens: "\<exists>j'. ctx_jobs c x = Some j' \<and> job_tensor j' = job_tensor jx"
    if "ctx_jobs (sy_ctx s) x = Some jx" for x jx using that job by (auto simp: js)
  have F: "finished n ?t = finished n s" using w by (intro finished_cong completed_take_slice)
  show "hand_ok n ?t j" using old(2) by (auto simp: hand_ok_def F)
  have o: "taken s j \<le> length ?E" "\<forall>m < taken s j. \<exists>jb. ctx_jobs c (?E ! m) = Some jb \<and>
      slice_job (sy_log s j ! m) = ?E ! m \<and> make_slice n j (job_tensor jb) = Inr (slice (sy_log s j ! m))"
    using old(1) tens by (fastforce simp: log_ok_def)+
  have "\<exists>jb. ctx_jobs c (?E ! m) = Some jb \<and> slice_job ((sy_log s i @ [sl]) ! m) = ?E ! m \<and>
      make_slice n i (job_tensor jb) = Inr (slice ((sy_log s i @ [sl]) ! m))" if "j = i" "m < Suc d" for m
  proof (cases "m = d")
    case True
    then show ?thesis using tn t by (simp add: nth_append taken_def js sl)
  next
    case False
    then show ?thesis using that o(2) t by (auto simp: nth_append taken_def)
  qed
  then show "log_ok n ?t j" using o d t by (cases "j = i") (simp_all add: log_ok_def)
qed

lemma dispatch_job_inv:
  assumes J: "job_inv n s" and i: "i < n" and t: "taken s i = d" and d: "d < length (sy_enqueued s)"
    and w: "sy_pc s i = WaitJob" and fin: "finished n s d < n"
    and js: "ctx_jobs c = (ctx_jobs (sy_ctx s))(sy_enqueued s ! d \<mapsto> jb)" and jb: "job_status jb = RUNNING"
    and c: "ctx_next_id c = ctx_next_id (sy_ctx s)" "number_of_current_jobs c = number_of_current_jobs (sy_ctx s)"
  shows "job_inv n (take_slice i sl c s)" (is "job_inv n ?t")
proof -
  let ?E = "sy_enqueued s"
  have F: "finished n ?t = finished n s" using w by (intro finished_cong completed_take_slice)
  have "(\<forall>i' < n. sy_pc ?t i' \<noteq> Finishing x) = (\<forall>i' < n. sy_pc s i' \<noteq> Finishing x)" for x
    using all_upd[of "\<lambda>p. p \<noteq> Finishing x" _ "sy_pc s" i] w by simp
  then have E: "expected_status n ?t m = (if m = d then RUNNING else expected_status n s m)" for m
    using fin untaken_le[of n s d] i
    by (auto simp: expected_status_def F untaken_take_slice[OF i t] simp del: take_slice_simps(2))
  have "\<exists>j. ctx_jobs c (?E ! m) = Some j \<and> job_status j = expected_status n ?t m" if "m < length ?E" for m
    using J that job_index[OF J d that] jb by (auto simp: E js job_inv_def)
  moreover have "ctx_jobs c x = ctx_jobs (sy_ctx s) x" if "x \<in> set (sy_submitting s)" for x
    using submitting_not_queued[OF J d that] by (simp add: js)
  ultimately show ?thesis
    using J w by (simp add: job_inv_def F E count_upto_same[OF i] c)
qed

lemma dispatch_move:
  assumes inv: "sys_inv n s" and i: "i < n" and w: "sy_pc s i = WaitJob"
    and f: "ctx_scheduler (sy_ctx s) = Some f" and av: "job_available f"
  shows "\<exists>sl c. Context_GetJobSlice_dispatch i (sy_ctx s) = Inr (Some sl, c) \<and> sys_inv n (take_slice i sl c s)"
proof -
  let ?E = "sy_enqueued s" and ?ctx = "sy_ctx s"
  obtain k where b: "barrier_inv n f s k" and st: "\<not> fs_stopped f" and n: "fs_num_worker_threads f = n"
    and q: "queue_inv n f s" and L: "log_inv n s" and J: "job_inv n s" and n0: "0 < n"
    and run: "context_state ?ctx = CTX_RUNNING" "sy_stop s = NotStopping"
    using inv f unfolding sys_inv_def by auto
  define d where "d = taken s i"
  have k: "k = Suc d" using b i w by (auto simp: barrier_inv_def pc_inv_def d_def)
  note b = b[unfolded k]
  have t: "taken s i = d" by (simp add: d_def)
  have "fs_queue f = map (\<lambda>m. ?E ! m) [d..<length ?E]"
    using q by (simp add: queue_inv_def untaken_pos_iff[OF b i t] filter_upt_ge)
  then have dl: "d < length ?E" using av st by (auto simp: job_available_def)
  have "completed s i = d" using w by (simp add: completed_def t)
  then have fin: "finished n s d < n" using finished_lt[OF i, of s d] by simp
  obtain jb where jb: "ctx_jobs ?ctx (?E ! d) = Some jb" "job_status jb = expected_status n s d"
    using J dl by (auto simp: job_inv_def)
  then have le: "job_status jb \<le> RUNNING"
    using expected_status_unfinished[OF fin] by (simp add: less_eq_JobStatus_def)
  obtain tn where tn: "make_slice n i (job_tensor jb) = Inr tn" using n0 by (simp add: make_slice_def)
  define sl where "sl = \<lparr>slice_job = ?E ! d, slice = tn\<rparr>"
  define js where "js = (ctx_jobs ?ctx)(?E ! d \<mapsto> jb\<lparr>job_status := RUNNING\<rparr>)"
  have set: "set_job_status RUNNING (?E ! d) (ctx_jobs ?ctx) = Inr js"
    using le by (auto simp: set_job_status_def jb js_def SetJobStatus_def Let_def not_less)
  obtain rest f' where rest: "fs_queue f = ?E ! d # rest" and f': "count_dispatch (?E ! d) f = Inr f'"
      "fs_barrier f' = fs_barrier f" "fs_stopped f' = fs_stopped f"
      "fs_num_worker_threads f' = fs_num_worker_threads f"
    and q0: "queue_inv n f' (take_slice i sl ?ctx s)"
    using count_dispatch_queue[OF b q i t w dl, of sl ?ctx] J by (auto simp: job_inv_def)
  define c where "c = ?ctx\<lparr>ctx_scheduler := Some f', ctx_jobs := js\<rparr>"
  let ?t = "take_slice i sl c s"
  have res: "Context_GetJobSlice_dispatch i ?ctx = Inr (Some sl, c)"
    using st rest jb tn set f'
    by (simp add: Context_GetJobSlice_dispatch_def on_scheduler_def f GetJobSlice_dispatch_def n sl_def c_def)
  have "queue_inv n f' ?t"
    using q0 w by (simp add: queue_inv_def untaken_def finished_def completed_take_slice)
  moreover have "pc_inv (Suc d) ?t j" if "j < n" for j
    using b that by (cases "j = i") (auto simp: barrier_inv_def pc_inv_def t)
  then have "barrier_inv n f' ?t (Suc d)" using b w f' by (simp add: barrier_inv_def count_upto_same[OF i])
  moreover have "log_inv n ?t"
    using dispatch_log_inv[OF L i t dl w tn jb(1) _ sl_def] by (simp add: c_def js_def)
  moreover have "job_inv n ?t"
    by (rule dispatch_job_inv[OF J i t dl w fin, where jb = "jb\<lparr>job_status := RUNNING\<rparr>"]) (simp_all add: c_def js_def)
  ultimately have "sys_inv n ?t"
    using run n0 f' st n by (auto simp: sys_inv_def c_def)
  then show ?thesis using res by blast
qed

text \<open>Reporting a completed slice.\<close>

lemma finished_upd:
  assumes i: "i < n" and t: "completed t = (completed s)(i := Suc d)" and d: "completed s i = d"
  shows "finished n t = (finished n s)(d := Suc (finished n s d))"
proof
  fix m
  show "finished n t m = ((finished n s)(d := Suc (finished n s d))) m"
    using count_upto_update[OF i, of "\<lambda>c. m < c" "completed s" "Suc d"] d
    by (cases m d rule: linorder_cases) (simp_all add: finished_def t)
qed

text \<open>What is known of a worker that holds a slice of the \<open>d\<close>-th job.\<close>

lemma working_facts:
  assumes b: "barrier_inv n f s k" and L: "log_inv n s" and i: "i < n" and w: "sy_pc s i = Work sl"
    and k: "k = Suc d" and t: "taken s i = Suc d"
  shows "completed s i = d" "finished n s d < n" "d < length (sy_enqueued s)" "slice_job sl = sy_enqueued s ! d"
    "j < n \<Longrightarrow> sy_pc s j \<noteq> Finishing x"
proof -
  show cd: "completed s i = d" using w by (simp add: completed_def t)
  show fin: "finished n s d < n" using finished_lt[OF i, of s d] cd by simp
  show "d < length (sy_enqueued s)" using L i t by (auto simp: log_inv_def log_ok_def)
  have Li: "log_ok n s i" "hand_ok n s i" using L i by (simp_all add: log_inv_def)
  have "sl = last (sy_log s i)" using Li(2) w by (simp add: hand_ok_def)
  moreover have "sy_log s i \<noteq> []" "length (sy_log s i) - 1 = d" using t by (auto simp: taken_def)
  ultimately have "sl = sy_log s i ! d" by (simp add: last_conv_nth)
  then show "slice_job sl = sy_enqueued s ! d" using Li(1) t by (auto simp: log_ok_def)
  show "sy_pc s j \<noteq> Finishing x" if j: "j < n"
  proof
    assume a: "sy_pc s j = Finishing x"
    obtain d' where "k = Suc d'" "taken s j = Suc d'" using busy_taken[OF b j disjI2[OF a]] .
    moreover have "hand_ok n s j" using L j by (simp add: log_inv_def)
    ultimately have "finished n s d = n" using a k by (simp add: hand_ok_def)
    then show False using fin by simp
  qed
qed

lemma untaken_lt:
  assumes "i < n" and "d < taken s i"
  shows "untaken n s d < n"
  using count_upto_full_iff[of n "\<lambda>g. g \<le> d" "taken s"] untaken_le[of n s d] assms
  by (auto simp: untaken_def order.strict_iff_order)

lemma notify_job_inv:
  assumes J: "job_inv n s" and i: "i < n" and d: "d < length (sy_enqueued s)" and w: "sy_pc s i = Work sl"
    and t: "taken s i = Suc d" and fin: "finished n s d < n"
    and nf: "\<And>j x. j < n \<Longrightarrow> sy_pc s j \<noteq> Finishing x"
    and p: "p = (if Suc (finished n s d) = n then Finishing (sy_enqueued s ! d) else Loop)"
    and F: "finished n (goto i p c s) = (finished n s)(d := Suc (finished n s d))"
    and c: "ctx_jobs c = ctx_jobs (sy_ctx s)" "ctx_next_id c = ctx_next_id (sy_ctx s)"
      "number_of_current_jobs c = number_of_current_jobs (sy_ctx s)"
  shows "job_inv n (goto i p c s)" (is "job_inv n ?t")
proof -
  let ?E = "sy_enqueued s"
  have U: "untaken n ?t = untaken n s" by (rule untaken_cong) simp
  have u: "untaken n s d < n" using t by (intro untaken_lt[OF i]) simp
  have E: "expected_status n ?t m = expected_status n s m" if "m < length ?E" for m
  proof (cases "m = d")
    case True
    then show ?thesis using u fin nf i F[unfolded p] U[unfolded p] by (auto simp: expected_status_def p)
  next
    case False
    then have "p \<noteq> Finishing (?E ! m)" using job_index[OF J d that] by (auto simp: p)
    then have "\<forall>i' < n. sy_pc ?t i' \<noteq> Finishing (?E ! m)" using nf by simp
    then show ?thesis using False nf by (simp add: expected_status_def F U del: goto_simps(2))
  qed
  have "count_upto (length ?E) (\<lambda>c. c < n) (finished n ?t) + count_upto n (\<lambda>p. p = Counting \<or> (\<exists>j. p = Finishing j)) (sy_pc ?t)
      = count_upto (length ?E) (\<lambda>c. c < n) (finished n s) + count_upto n (\<lambda>p. p = Counting \<or> (\<exists>j. p = Finishing j)) (sy_pc s)"
    using count_upto_update[OF d, of "\<lambda>c. c < n" "finished n s" "Suc (finished n s d)"]
      count_upto_update[OF i, of "\<lambda>p. p = Counting \<or> (\<exists>j. p = Finishing j)" "sy_pc s" p] fin w
    unfolding F by (cases "Suc (finished n s d) = n") (auto simp: p)
  then show ?thesis using J E by (simp add: job_inv_def c del: goto_simps(2))
qed

lemma notify_move:
  assumes inv: "sys_inv n s" and i: "i < n" and w: "sy_pc s i = Work sl"
  shows "\<exists>t. notify_step i sl s = Inr t \<and> sys_inv n t \<and> sy_enqueued t = sy_enqueued s \<and>
     (\<exists>c p. t = goto i p c s \<and> ctx_next_id c = ctx_next_id (sy_ctx s) \<and> (p = Loop \<or> p = Finishing (slice_job sl)))"
proof -
  let ?E = "sy_enqueued s" and ?ctx = "sy_ctx s"
  obtain f k where f: "ctx_scheduler ?ctx = Some f" and b: "barrier_inv n f s k" and st: "\<not> fs_stopped f"
    and n: "fs_num_worker_threads f = n"
    and q: "queue_inv n f s" and L: "log_inv n s" and J: "job_inv n s" and n0: "0 < n"
    and run: "context_state ?ctx = CTX_RUNNING" "sy_stop s = NotStopping"
    using inv by (rule sys_inv_obtain)
  obtain d where k: "k = Suc d" and t: "taken s i = Suc d" using busy_taken[OF b i disjI1[OF w]] .
  note fin = working_facts(2)[OF b L i w k t] and dl = working_facts(3)[OF b L i w k t]
    and sj = working_facts(4)[OF b L i w k t] and nf = working_facts(5)[OF b L i w k t]
  have fm: "finished_job_slices f (?E ! d) = Some (int (finished n s d))"
    using q dl fin by (simp add: queue_inv_def)
  define fd where "fd \<longleftrightarrow> Suc (finished n s d) = n"
  define f' where "f' = f\<lparr>finished_job_slices := (finished_job_slices f)
     (?E ! d := if fd then None else Some (int (finished n s d) + 1))\<rparr>"
  define c where "c = ?ctx\<lparr>ctx_scheduler := Some f'\<rparr>"
  define p where "p = (if fd then Finishing (slice_job sl) else Loop)"
  let ?t = "goto i p c s"
  have eq: "(int (finished n s d) + 1 = int n) = fd" by (auto simp: fd_def)
  have step: "notify_step i sl s = Inr ?t"
    using st fm by (simp add: notify_step_def Context_Notify_def on_scheduler_def f Let_def
      NotifyJobSliceCompletion_def sj n eq f'_def c_def p_def)
  have "completed ?t = (completed s)(i := Suc d)" by (simp add: completed_goto t p_def)
  then have F: "finished n ?t = (finished n s)(d := Suc (finished n s d))"
    by (rule finished_upd[OF i _ working_facts(1)[OF b L i w k t]])
  have U: "untaken n ?t = untaken n s" by (rule untaken_cong) simp
  have "barrier_inv n f' ?t k"
    using b i w by (auto simp: barrier_inv_def pc_inv_goto count_upto_same[OF i] p_def f'_def k t)
  moreover have "queue_inv n f' ?t"
    using q job_index[OF J dl] dl by (auto simp: queue_inv_def F U f'_def fd_def)
  moreover have "hand_ok n ?t j" if j: "j < n" for j
    using L nf j t F[unfolded p_def] by (cases fd) (auto simp: log_inv_def hand_ok_def p_def fd_def sj)
  then have "log_inv n ?t" using L by (simp add: log_inv_def log_ok_def c_def)
  moreover have "job_inv n ?t"
    by (rule notify_job_inv[OF J i dl w t fin nf _ F]) (simp_all add: p_def fd_def sj c_def)
  ultimately have "sys_inv n ?t"
    using run n0 st n by (auto simp: sys_inv_def c_def f'_def)
  moreover have "ctx_next_id c = ctx_next_id ?ctx" by (simp add: c_def)
  ultimately show ?thesis using step by (auto simp: p_def)
qed

text \<open>Marking the job finished and counting it.\<close>

lemma finish_job_inv:
  assumes J: "job_inv n s" and i: "i < n" and d: "d < length (sy_enqueued s)" and w: "sy_pc s i = Finishing (sy_enqueued s ! d)"
    and t: "taken s i = Suc d" and fin: "finished n s d = n"
    and only: "\<forall>i' < n. i' \<noteq> i \<longrightarrow> sy_pc s i' \<noteq> Finishing (sy_enqueued s ! d)"
    and js: "ctx_jobs c = (ctx_jobs (sy_ctx s))(sy_enqueued s ! d \<mapsto> jb)" and jb: "job_status jb = FINISHED"
    and c: "ctx_next_id c = ctx_next_id (sy_ctx s)" "number_of_current_jobs c = number_of_current_jobs (sy_ctx s)"
  shows "job_inv n (goto i Counting c s)" (is "job_inv n ?t")
proof -
  let ?E = "sy_enqueued s"
  have "completed ?t = completed s" by (rule ext) (simp add: completed_def w)
  then have F: "finished n ?t = finished n s" by (rule finished_cong)
  have U: "untaken n ?t = untaken n s" by (rule untaken_cong) simp
  have u: "untaken n s d < n" using t by (intro untaken_lt[OF i]) simp
  have E: "expected_status n ?t m = (if m = d then FINISHED else expected_status n s m)" if "m < length ?E" for m
  proof (cases "m = d")
    case True
    then show ?thesis using u fin only by (auto simp: expected_status_def F U)
  next
    case False
    then have "?E ! d \<noteq> ?E ! m" using job_index[OF J d that] by auto
    then have "(\<forall>i' < n. sy_pc ?t i' \<noteq> Finishing (?E ! m)) = (\<forall>i' < n. sy_pc s i' \<noteq> Finishing (?E ! m))"
      using all_upd[of "\<lambda>p. p \<noteq> Finishing (?E ! m)" Counting "sy_pc s" i] w by simp
    then show ?thesis using False by (simp add: expected_status_def F U del: goto_simps(2))
  qed
  have "\<exists>jx. ctx_jobs c (?E ! m) = Some jx \<and> job_status jx = expected_status n ?t m" if "m < length ?E" for m
    using J that job_index[OF J d that] jb by (auto simp: E js job_inv_def)
  moreover have "ctx_jobs c x = ctx_jobs (sy_ctx s) x" if "x \<in> set (sy_submitting s)" for x
    using submitting_not_queued[OF J d that] by (simp add: js)
  ultimately show ?thesis using J w by (simp add: job_inv_def F count_upto_same[OF i] c)
qed

lemma finish_move:
  assumes inv: "sys_inv n s" and i: "i < n" and w: "sy_pc s i = Finishing j"
  shows "\<exists>c. Context_job_finished j (sy_ctx s) = Inr c \<and> sys_inv n (goto i Counting c s)"
proof -
  let ?E = "sy_enqueued s" and ?ctx = "sy_ctx s"
  obtain f k where f: "ctx_scheduler ?ctx = Some f" and b: "barrier_inv n f s k" and st: "\<not> fs_stopped f"
    and n: "fs_num_worker_threads f = n"
    and q: "queue_inv n f s" and L: "log_inv n s" and J: "job_inv n s" and n0: "0 < n"
    and run: "context_state ?ctx = CTX_RUNNING" "sy_stop s = NotStopping"
    using inv by (rule sys_inv_obtain)
  obtain d where k: "k = Suc d" and t: "taken s i = Suc d" using busy_taken[OF b i disjI2[OF w]] .
  have "log_ok n s i" "hand_ok n s i" using L i by (simp_all add: log_inv_def)
  then have j: "j = ?E ! d" "finished n s d = n" "\<forall>i' < n. i' \<noteq> i \<longrightarrow> sy_pc s i' \<noteq> Finishing (?E ! d)"
    and dl: "d < length ?E"
    using w t by (auto simp: hand_ok_def log_ok_def)
  have "untaken n s d < n" using t by (intro untaken_lt[OF i]) simp
  then have es: "expected_status n s d = RUNNING" using i w j(1) by (auto simp: expected_status_def)
  obtain jb where jb: "ctx_jobs ?ctx j = Some jb" "job_status jb = RUNNING"
    using J dl j(1) es by (auto simp: job_inv_def)
  define c where "c = ?ctx\<lparr>ctx_jobs := (ctx_jobs ?ctx)(j \<mapsto> jb\<lparr>job_status := FINISHED\<rparr>)\<rparr>"
  have step: "Context_job_finished j ?ctx = Inr c"
    using jb by (simp add: Context_job_finished_def set_job_status_def SetJobStatus_def Let_def
      c_def less_JobStatus_def)
  let ?t = "goto i Counting c s"
  have "completed ?t = completed s" by (rule ext) (simp add: completed_def w)
  then have F: "finished n ?t = finished n s" by (rule finished_cong)
  have U: "untaken n ?t = untaken n s" by (rule untaken_cong) simp
  have "barrier_inv n f ?t k"
    using b w by (auto simp: barrier_inv_def pc_inv_goto count_upto_same[OF i] k t)
  moreover have "queue_inv n f ?t" using q by (simp add: queue_inv_def F U)
  moreover have "log_inv n ?t"
    using jb by (intro log_inv_keep[OF L b _ _ _ F, where ys = "[]"]) (auto simp: c_def)
  moreover have "job_inv n ?t"
    by (rule finish_job_inv[OF J i dl w[unfolded j(1)] t j(2,3), where jb = "jb\<lparr>job_status := FINISHED\<rparr>"])
      (simp_all add: c_def j(1))
  ultimately have "sys_inv n ?t" using run n0 f st n by (auto simp: sys_inv_def c_def)
  then show ?thesis using step by blast
qed

lemma count_move:
  assumes inv: "sys_inv n s" and i: "i < n" and w: "sy_pc s i = Counting"
  shows "sys_inv n (goto i Loop (snd (Context_count_finished (sy_ctx s))) s)"
proof -
  let ?ctx = "sy_ctx s"
  define c where "c = snd (Context_count_finished ?ctx)"
  obtain f k where f: "ctx_scheduler ?ctx = Some f" and b: "barrier_inv n f s k" and st: "\<not> fs_stopped f"
    and n: "fs_num_worker_threads f = n"
    and q: "queue_inv n f s" and L: "log_inv n s" and J: "job_inv n s" and n0: "0 < n"
    and run: "context_state ?ctx = CTX_RUNNING" "sy_stop s = NotStopping"
    using inv by (rule sys_inv_obtain)
  have cs: "ctx_jobs c = ctx_jobs ?ctx" "ctx_next_id c = ctx_next_id ?ctx" "ctx_scheduler c = Some f"
    "number_of_current_jobs c = number_of_current_jobs ?ctx - 1" "context_state c = CTX_RUNNING"
    by (simp_all add: c_def Context_count_finished_def Let_def f run)
  let ?t = "goto i Loop c s"
  have cp: "completed ?t = completed s" by (rule ext) (simp add: completed_def w)
  have F: "finished n ?t = finished n s" by (rule finished_cong[OF cp])
  have U: "untaken n ?t = untaken n s" by (rule untaken_cong) simp
  have "pc_ok k Counting (taken s i)" using b i w by (metis barrier_inv_def pc_inv_def)
  then have B: "barrier_inv n f ?t k"
    using b w by (auto simp: barrier_inv_def pc_inv_goto count_upto_same[OF i])
  have Q: "queue_inv n f ?t" using q by (simp add: queue_inv_def F U)
  have L': "log_inv n ?t"
    by (intro log_inv_keep[OF L b _ _ _ F, where ys = "[]"]) (auto simp: cs)
  have "(\<forall>i' < n. sy_pc ?t i' \<noteq> Finishing x) = (\<forall>i' < n. sy_pc s i' \<noteq> Finishing x)" for x
    using all_upd[of "\<lambda>p. p \<noteq> Finishing x" Loop "sy_pc s" i] w by simp
  then have E: "expected_status n ?t m = expected_status n s m" for m
    by (simp add: expected_status_def F U del: goto_simps(2))
  have "count_upto n (\<lambda>p. p = Counting \<or> (\<exists>j. p = Finishing j)) (sy_pc ?t) + 1 =
        count_upto n (\<lambda>p. p = Counting \<or> (\<exists>j. p = Finishing j)) (sy_pc s)"
    using count_upto_update[OF i, of "\<lambda>p. p = Counting \<or> (\<exists>j. p = Finishing j)" "sy_pc s" Loop] w by simp
  then have "job_inv n ?t" using J by (simp add: job_inv_def F E cs del: goto_simps(2))
  then show ?thesis using run n0 B Q L' st n unfolding c_def[symmetric] by (auto simp: sys_inv_def cs)
qed

text \<open>The application's actions.\<close>

lemma create_job_inv:
  assumes J: "job_inv n s" and x: "x = ctx_next_id (sy_ctx s)"
    and U: "untaken n t = untaken n s" and F: "finished n t = finished n s"
    and E: "sy_enqueued t = sy_enqueued s" and pc: "sy_pc t = sy_pc s" and sub: "sy_submitting t = sy_submitting s @ [x]"
    and js: "ctx_jobs (sy_ctx t) = (ctx_jobs (sy_ctx s))(x \<mapsto> jb)" and jb: "job_status jb = INIT"
    and c: "ctx_next_id (sy_ctx t) = x + 1"
      "number_of_current_jobs (sy_ctx t) = number_of_current_jobs (sy_ctx s) + 1"
  shows "job_inv n t"
proof -
  let ?E = "sy_enqueued s"
  have lt: "y < x" if "y \<in> set (?E @ sy_submitting s)" for y using J that by (auto simp: job_inv_def x)
  have "expected_status n t m = expected_status n s m" for m by (simp add: expected_status_def F U E pc)
  moreover have "\<exists>j'. ctx_jobs (sy_ctx t) y = Some j' \<and> job_status j' = INIT" if "y \<in> set (sy_submitting s @ [x])" for y
    using that J lt jb by (cases "y = x") (auto simp: js job_inv_def)
  moreover have "ctx_jobs (sy_ctx t) (?E ! m) = ctx_jobs (sy_ctx s) (?E ! m)" if "m < length ?E" for m
    using lt[of "?E ! m"] that by (auto simp: js)
  moreover have "y < x + 1" if "y \<in> set (?E @ sy_submitting s @ [x])" for y using lt that by force
  moreover have "x \<notin> set (?E @ sy_submitting s)" using lt by blast
  ultimately show ?thesis using J by (simp add: job_inv_def F E pc sub c)
qed

lemma create_move:
  assumes inv: "sys_inv n s" and id: "ctx_next_id (sy_ctx s) < 2 ^ 64 - 1"
  shows "\<exists>c. create_step tn s = Inr (Some (s\<lparr>sy_ctx := c, sy_submitting := sy_submitting s @ [ctx_next_id (sy_ctx s)]\<rparr>)) \<and>
     sys_inv n (s\<lparr>sy_ctx := c, sy_submitting := sy_submitting s @ [ctx_next_id (sy_ctx s)]\<rparr>) \<and>
     ctx_next_id c = ctx_next_id (sy_ctx s) + 1"
proof -
  let ?ctx = "sy_ctx s" and ?E = "sy_enqueued s"
  obtain f k where f: "ctx_scheduler ?ctx = Some f" and b: "barrier_inv n f s k" and st: "\<not> fs_stopped f"
    and n: "fs_num_worker_threads f = n"
    and q: "queue_inv n f s" and L: "log_inv n s" and J: "job_inv n s" and n0: "0 < n"
    and run: "context_state ?ctx = CTX_RUNNING" "sy_stop s = NotStopping"
    using inv by (rule sys_inv_obtain)
  define x where "x = ctx_next_id ?ctx"
  define jb where "jb = fst (new_Job x \<lparr>in_ptr = in_ptr tn, out_ptr = out_ptr tn, numel = numel tn, data_type = data_type tn\<rparr>
     ALLREDUCE (allreduce_operation OP_SUM))"
  define c where "c = ?ctx\<lparr>ctx_jobs := (ctx_jobs ?ctx)(x \<mapsto> jb), ctx_next_id := x + 1,
     number_of_current_jobs := number_of_current_jobs ?ctx + 1\<rparr>"
  have cs: "ctx_jobs c = (ctx_jobs ?ctx)(x \<mapsto> jb)" "ctx_next_id c = x + 1" "ctx_scheduler c = Some f"
    "number_of_current_jobs c = number_of_current_jobs ?ctx + 1" "context_state c = CTX_RUNNING"
    by (simp_all add: c_def f run)
  have jb: "job_status jb = INIT" by (simp add: jb_def new_Job_def)
  let ?t = "s\<lparr>sy_ctx := c, sy_submitting := sy_submitting s @ [x]\<rparr>"
  have "u64_add x 1 = x + 1" using id by (simp add: x_def u64_add_id)
  then have step: "create_step tn s = Inr (Some ?t)"
    using run by (simp add: create_step_def ctx_mutex_free_def AllReduceAsync_create_def new_Job_def
      x_def jb_def c_def)
  have tk: "taken ?t = taken s" by (rule ext) (simp add: taken_def)
  have cp: "completed ?t = completed s" by (rule ext) (simp add: completed_def tk)
  have F: "finished n ?t = finished n s" by (rule finished_cong[OF cp])
  have U: "untaken n ?t = untaken n s" by (rule untaken_cong[OF tk])
  have new: "x \<notin> set ?E" "x \<notin> set (sy_submitting s)" using J by (auto simp: job_inv_def x_def)
  then have "log_inv n ?t"
    by (intro log_inv_keep[OF L b tk _ _ F, where ys = "[]"]) (auto simp: cs)
  moreover have "job_inv n ?t"
    by (rule create_job_inv[OF J x_def U F, where jb = jb]) (simp_all add: cs jb)
  moreover have "barrier_inv n f ?t k" using b by (simp add: barrier_inv_def pc_inv_def tk)
  moreover have "queue_inv n f ?t" using q by (simp add: queue_inv_def F U)
  ultimately have "sys_inv n ?t" using run n0 st n by (auto simp: sys_inv_def cs)
  then show ?thesis using step cs(2) by (auto simp: x_def)
qed

text \<open>The position of a new job: nobody has taken or completed a slice of it.\<close>

lemma enqueue_fresh:
  assumes "log_inv n s"
  shows "untaken n s (length (sy_enqueued s)) = n" and "finished n s (length (sy_enqueued s)) = 0"
proof -
  have le: "i < n \<Longrightarrow> taken s i \<le> length (sy_enqueued s)" for i using assms by (simp add: log_inv_def log_ok_def)
  then show "untaken n s (length (sy_enqueued s)) = n" unfolding untaken_def by (intro count_upto_all) simp
  have "completed s i \<le> taken s i" for i by (simp add: completed_def)
  then show "finished n s (length (sy_enqueued s)) = 0"
    using le unfolding finished_def count_upto_0_iff by (meson not_less order_trans)
qed

lemma enqueue_queue_inv:
  assumes q: "queue_inv n f s" and new: "j \<notin> set (sy_enqueued s)" and n0: "0 < n" and L: "log_inv n s"
    and U: "untaken n t = untaken n s" and F: "finished n t = finished n s" and E: "sy_enqueued t = sy_enqueued s @ [j]"
  shows "queue_inv n (f\<lparr>finished_job_slices := (finished_job_slices f)(j \<mapsto> 0),
     undispatched_job_slices := (undispatched_job_slices f)(j \<mapsto> int n), fs_queue := fs_queue f @ [j]\<rparr>) t"
    (is "queue_inv n ?f t")
proof -
  let ?E = "sy_enqueued s"
  note fresh = enqueue_fresh[OF L]
  have old: "(?E @ [j]) ! m = ?E ! m" "?E ! m \<noteq> j" if "m < length ?E" for m
    using new nth_mem[OF that] that by (auto simp: nth_append)
  have "fs_queue ?f = map (\<lambda>m. (?E @ [j]) ! m) (filter (\<lambda>m. untaken n s m > 0) [0..<length (?E @ [j])])"
    using q n0 by (simp add: queue_inv_def fresh nth_append cong: map_cong)
  moreover have "undispatched_job_slices ?f ((?E @ [j]) ! m) =
      (if untaken n s m = 0 then None else Some (int (untaken n s m)))" if "m < Suc (length ?E)" for m
    using that q n0 fresh old by (cases "m < length ?E") (simp_all add: queue_inv_def less_Suc_eq)
  moreover have "finished_job_slices ?f ((?E @ [j]) ! m) =
      (if finished n s m = n then None else Some (int (finished n s m)))" if "m < Suc (length ?E)" for m
    using that q n0 fresh old by (cases "m < length ?E") (simp_all add: queue_inv_def less_Suc_eq)
  ultimately show ?thesis using q by (simp add: queue_inv_def U F E)
qed

lemma enqueue_job_inv:
  assumes J: "job_inv n s" and L: "log_inv n s" and j: "j \<in> set (sy_submitting s)" and n0: "0 < n"
    and U: "untaken n t = untaken n s" and F: "finished n t = finished n s" and E: "sy_enqueued t = sy_enqueued s @ [j]"
    and pc: "sy_pc t = sy_pc s" and sub: "sy_submitting t = remove1 j (sy_submitting s)"
    and js: "ctx_jobs (sy_ctx t) = (ctx_jobs (sy_ctx s))(j \<mapsto> jb)" and jb: "job_status jb = QUEUED"
    and c: "ctx_next_id (sy_ctx t) = ctx_next_id (sy_ctx s)"
      "number_of_current_jobs (sy_ctx t) = number_of_current_jobs (sy_ctx s)"
  shows "job_inv n t"
proof -
  let ?E = "sy_enqueued s"
  note fresh = enqueue_fresh[OF L]
  have new: "j \<notin> set ?E" and dist: "distinct (?E @ sy_submitting s)" using J j by (auto simp: job_inv_def)
  have old: "?E ! m \<noteq> j" if "m < length ?E" for m using new nth_mem[OF that] by auto
  have es: "expected_status n t m = (if m < length ?E then expected_status n s m else QUEUED)"
    if "m < Suc (length ?E)" for m
    using that fresh by (auto simp: expected_status_def F U E pc nth_append less_Suc_eq)
  have "\<exists>j'. ctx_jobs (sy_ctx t) ((?E @ [j]) ! m) = Some j' \<and> job_status j' = expected_status n t m"
    if "m < Suc (length ?E)" for m
    using J that old jb by (cases "m < length ?E") (auto simp: es nth_append js job_inv_def less_Suc_eq)
  moreover have "\<exists>j'. ctx_jobs (sy_ctx t) x = Some j' \<and> job_status j' = INIT"
    if "x \<in> set (remove1 j (sy_submitting s))" for x
  proof -
    have "x \<noteq> j" "x \<in> set (sy_submitting s)" using that dist by auto
    then show ?thesis using J by (simp add: job_inv_def js)
  qed
  moreover have "length (remove1 j (sy_submitting s)) + 1 = length (sy_submitting s)"
    using j by (simp add: length_remove1) (metis Suc_pred length_pos_if_in_set)
  moreover have "count_upto (Suc (length ?E)) (\<lambda>c. c < n) (finished n s) =
      count_upto (length ?E) (\<lambda>c. c < n) (finished n s) + 1"
    using fresh n0 by (simp add: count_upto_def)
  moreover have "\<forall>x \<in> set ((?E @ [j]) @ remove1 j (sy_submitting s)). x < ctx_next_id (sy_ctx s)"
    using J j by (auto simp: job_inv_def dest: notin_set_remove1)
  ultimately show ?thesis using J dist new j by (simp add: job_inv_def F E pc sub c)
qed

lemma enqueue_move:
  assumes inv: "sys_inv n s" and j: "j \<in> set (sy_submitting s)"
  shows "\<exists>t. enqueue_step j s = Inr (Some t) \<and> sys_inv n t \<and>
     ctx_next_id (sy_ctx t) = ctx_next_id (sy_ctx s) \<and> sy_enqueued t = sy_enqueued s @ [j]"
proof -
  let ?ctx = "sy_ctx s" and ?E = "sy_enqueued s"
  obtain f k where f: "ctx_scheduler ?ctx = Some f" and b: "barrier_inv n f s k" and st: "\<not> fs_stopped f"
    and n: "fs_num_worker_threads f = n"
    and q: "queue_inv n f s" and L: "log_inv n s" and J: "job_inv n s" and n0: "0 < n"
    and run: "context_state ?ctx = CTX_RUNNING" "sy_stop s = NotStopping"
    using inv by (rule sys_inv_obtain)
  obtain jb where jb: "ctx_jobs ?ctx j = Some jb" "job_status jb = INIT" using J j by (auto simp: job_inv_def)
  have new: "j \<notin> set ?E" using J j by (auto simp: job_inv_def)
  define js where "js = (ctx_jobs ?ctx)(j \<mapsto> jb\<lparr>job_status := QUEUED\<rparr>)"
  define f' where "f' = f\<lparr>finished_job_slices := (finished_job_slices f)(j \<mapsto> 0),
     undispatched_job_slices := (undispatched_job_slices f)(j \<mapsto> int n), fs_queue := fs_queue f @ [j]\<rparr>"
  have none: "undispatched_job_slices f j = None" "finished_job_slices f j = None"
    using q new by (simp_all add: queue_inv_def)
  have en: "EnqueueJob j f (ctx_jobs ?ctx) = Inr (True, f', js)"
    using jb none by (simp add: EnqueueJob_def set_job_status_def SetJobStatus_def less_JobStatus_def Let_def
      map_insert_def f'_def js_def n)
  define c where "c = ?ctx\<lparr>ctx_scheduler := Some f', ctx_jobs := js,
     ctx_stats := AppendJobSubmittedNumel (numel (job_tensor jb)) (IncJobsSubmittedNum (ctx_stats ?ctx))\<rparr>"
  define t where "t = s\<lparr>sy_ctx := c, sy_submitting := remove1 j (sy_submitting s), sy_enqueued := ?E @ [j]\<rparr>"
  have step: "enqueue_step j s = Inr (Some t)"
    using j jb en by (simp add: enqueue_step_def AllReduceAsync_enqueue_def on_scheduler_def f c_def t_def)
  have ts: "sy_ctx t = c" "sy_pc t = sy_pc s" "sy_log t = sy_log s" "sy_submitting t = remove1 j (sy_submitting s)"
    "sy_enqueued t = ?E @ [j]" "sy_stop t = sy_stop s" by (simp_all add: t_def)
  have cs: "ctx_jobs c = js" "ctx_next_id c = ctx_next_id ?ctx" "ctx_scheduler c = Some f'"
    "number_of_current_jobs c = number_of_current_jobs ?ctx" "context_state c = CTX_RUNNING"
    by (simp_all add: c_def run)
  have tk: "taken t = taken s" by (rule ext) (simp add: taken_def ts)
  have "completed t = completed s" by (rule ext) (simp add: completed_def tk ts)
  then have F: "finished n t = finished n s" by (rule finished_cong)
  have U: "untaken n t = untaken n s" by (rule untaken_cong[OF tk])
  have "queue_inv n f' t" unfolding f'_def by (rule enqueue_queue_inv[OF q new n0 L U F ts(5)])
  moreover have "log_inv n t"
    using jb by (intro log_inv_keep[OF L b tk ts(3,5) F]) (auto simp: ts cs js_def)
  moreover have "job_inv n t"
    by (rule enqueue_job_inv[OF J L j n0 U F ts(5,2,4), where jb = "jb\<lparr>job_status := QUEUED\<rparr>"]) (simp_all add: ts cs js_def)
  moreover have "barrier_inv n f' t k" using b by (simp add: barrier_inv_def pc_inv_def tk ts f'_def)
  ultimately have "sys_inv n t" using run n0 st n by (auto simp: sys_inv_def ts cs f'_def)
  then show ?thesis using step by (simp add: ts cs)
qed

section \<open>Runs without Stop\<close>

text \<open>A measure of the work that is left for a worker.\<close>

fun pc_rank :: "worker_pc \<Rightarrow> nat" where
  "pc_rank (Work _) = 7"
| "pc_rank (Finishing _) = 6"
| "pc_rank Counting = 5"
| "pc_rank Loop = 4"
| "pc_rank Ask = 3"
| "pc_rank Arrive = 2"
| "pc_rank (AtBarrier _) = 1"
| "pc_rank WaitJob = 0"
| "pc_rank Exited = 0"

definition work_left :: "nat \<Rightarrow> system \<Rightarrow> nat" where
  "work_left n s = (\<Sum>i < n. 8 * (length (sy_enqueued s) - taken s i) + pc_rank (sy_pc s i))"

lemma work_left_update:
  assumes i: "i < n" and E: "sy_enqueued t = sy_enqueued s"
    and o: "\<And>j. j \<noteq> i \<Longrightarrow> taken t j = taken s j \<and> sy_pc t j = sy_pc s j"
    and lt: "8 * (length (sy_enqueued s) - taken t i) + pc_rank (sy_pc t i) <
             8 * (length (sy_enqueued s) - taken s i) + pc_rank (sy_pc s i)"
  shows "work_left n t < work_left n s"
  unfolding work_left_def E
proof (rule sum_strict_mono_ex1)
  show "\<forall>j \<in> {..<n}. 8 * (length (sy_enqueued s) - taken t j) + pc_rank (sy_pc t j)
      \<le> 8 * (length (sy_enqueued s) - taken s j) + pc_rank (sy_pc s j)"
    using lt o by (metis less_imp_le order_refl)
qed (use i lt in auto)

lemma dispatch_work_left:
  assumes inv: "sys_inv n (take_slice i sl c s)" and i: "i < n" and w: "sy_pc s i = WaitJob"
  shows "work_left n (take_slice i sl c s) < work_left n s"
proof -
  have "log_inv n (take_slice i sl c s)" using inv by (auto simp: sys_inv_def)
  then have "Suc (taken s i) \<le> length (sy_enqueued s)" using i by (auto simp: log_inv_def log_ok_def)
  then show ?thesis using w by (intro work_left_update[OF i]) simp_all
qed

lemma wait_job_inv:
  assumes inv: "sys_inv n s" and i: "i < n" and w: "sy_pc s i = WaitJob"
  shows "\<exists>r. worker_step i s = Inr r \<and>
     (\<forall>t. r = Some t \<longrightarrow> sys_inv n t \<and> sy_enqueued t = sy_enqueued s \<and> sy_submitting t = sy_submitting s \<and>
        ctx_next_id (sy_ctx t) = ctx_next_id (sy_ctx s) \<and> work_left n t < work_left n s)"
proof -
  obtain f where f: "ctx_scheduler (sy_ctx s) = Some f" using inv by (auto elim: sys_inv_obtain)
  show ?thesis
  proof (cases "job_available f")
    case True
    from dispatch_move[OF inv i w f True] obtain sl c where
      D: "Context_GetJobSlice_dispatch i (sy_ctx s) = Inr (Some sl, c)" "sys_inv n (take_slice i sl c s)" by blast
    have "ctx_next_id c = ctx_next_id (sy_ctx s)"
      using D(1) by (auto simp: Context_GetJobSlice_dispatch_def on_scheduler_def f bindE_eq_Inr)
    then show ?thesis
      using w True D dispatch_work_left[OF D(2) i w]
      by (simp add: worker_step_def on_scheduler_def f take_slice_def[symmetric])
  qed (use w in \<open>simp add: worker_step_def on_scheduler_def f\<close>)
qed

lemma worker_step_inv:
  assumes inv: "sys_inv n s" and i: "i < n"
  shows "\<exists>r. worker_step i s = Inr r \<and>
     (\<forall>t. r = Some t \<longrightarrow> sys_inv n t \<and> sy_enqueued t = sy_enqueued s \<and> sy_submitting t = sy_submitting s \<and>
        ctx_next_id (sy_ctx t) = ctx_next_id (sy_ctx s) \<and> work_left n t < work_left n s)"
proof -
  let ?ctx = "sy_ctx s"
  obtain f k where f: "ctx_scheduler ?ctx = Some f" and b: "barrier_inv n f s k" and st: "\<not> fs_stopped f"
    and L: "log_inv n s" and run: "context_state ?ctx = CTX_RUNNING" "sy_stop s = NotStopping"
    using inv by (rule sys_inv_obtain)
  have goto_less: "pc_rank p < pc_rank (sy_pc s i) \<Longrightarrow> work_left n (goto i p c s) < work_left n s" for p c
    by (rule work_left_update[OF i]) simp_all
  show ?thesis
  proof (cases "sy_pc s i")
    case Loop
    then show ?thesis
      using idle_move[OF inv i, of Ask] goto_less[of Ask] run by (simp add: worker_step_def GetContextState_def)
  next
    case Ask
    then show ?thesis
      using idle_move[OF inv i, of Arrive] goto_less[of Arrive] run st
      by (simp add: worker_step_def Context_GetJobSlice_enter_def on_scheduler_def f GetJobSlice_enter_def)
  next
    case Arrive
    from arrive_move[OF inv i Arrive f] obtain bb r where B: "Barrier_Wait (fs_barrier f) = Inr (bb, r)"
        "sys_inv n (goto i (case r of Block t \<Rightarrow> AtBarrier t | Pass \<Rightarrow> WaitJob) (set_barrier bb ?ctx) s)" by blast
    then show ?thesis
      using Arrive goto_less[of "case r of Block t \<Rightarrow> AtBarrier t | Pass \<Rightarrow> WaitJob"]
      by (cases r) (simp_all add: worker_step_def on_scheduler_def f set_barrier_def)
  next
    case (AtBarrier t)
    then show ?thesis
      using wake_move[OF inv i AtBarrier f] goto_less[of WaitJob]
      by (simp add: worker_step_def on_scheduler_def f)
  next
    case WaitJob
    then show ?thesis by (rule wait_job_inv[OF inv i])
  next
    case (Work sl)
    from notify_move[OF inv i Work] obtain c p where N: "notify_step i sl s = Inr (goto i p c s)"
        "sys_inv n (goto i p c s)" "p = Loop \<or> p = Finishing (slice_job sl)"
        "ctx_next_id c = ctx_next_id ?ctx" by auto
    then show ?thesis
      using Work N goto_less[of p] run by (auto simp: worker_step_def GetContextState_def)
  next
    case (Finishing j)
    from finish_move[OF inv i Finishing] obtain c where C: "Context_job_finished j ?ctx = Inr c"
        "sys_inv n (goto i Counting c s)" by blast
    then have "ctx_next_id c = ctx_next_id ?ctx" by (auto simp: Context_job_finished_def bindE_eq_Inr)
    then show ?thesis using Finishing C goto_less[of Counting] by (simp add: worker_step_def)
  next
    case Counting
    then show ?thesis
      using count_move[OF inv i Counting] goto_less[of Loop] run
      by (simp add: worker_step_def ctx_mutex_free_def Context_count_finished_def Let_def)
  next
    case Exited
    then show ?thesis by (simp add: worker_step_def)
  qed
qed

fun is_create :: "action \<Rightarrow> bool" where
  "is_create (Create _) = True"
| "is_create _ = False"

fun is_worker :: "action \<Rightarrow> bool" where
  "is_worker (Worker _) = True"
| "is_worker _ = False"

lemma worker_not_create: "is_worker a \<Longrightarrow> \<not> is_create a"
  by (cases a) simp_all

lemma act_inv:
  assumes inv: "sys_inv n s" and a: "a \<noteq> CallStop"
    and id: "ctx_next_id (sy_ctx s) + of_bool (is_create a) < 2 ^ 64"
  shows "\<exists>r. act n a s = Inr r \<and>
     (\<forall>t. r = Some t \<longrightarrow> sys_inv n t \<and>
        ctx_next_id (sy_ctx t) = ctx_next_id (sy_ctx s) + of_bool (is_create a) \<and>
        (is_worker a \<longrightarrow> sy_enqueued t = sy_enqueued s \<and> work_left n t < work_left n s))"
proof (cases a)
  case (Worker i)
  then show ?thesis using worker_step_inv[OF inv, of i] by (cases "i < n") (auto simp: act_def)
next
  case (Create tn)
  then show ?thesis using create_move[OF inv, of tn] id by (auto simp: act_def)
next
  case (Enqueue j)
  show ?thesis
  proof (cases "j \<in> set (sy_submitting s)")
    case True
    then show ?thesis using enqueue_move[OF inv True] Enqueue by (auto simp: act_def)
  next
    case False
    then show ?thesis using Enqueue by (simp add: act_def enqueue_step_def)
  qed
next
  case CallStop
  then show ?thesis using a by simp
qed

definition creates :: "action list \<Rightarrow> nat" where
  "creates as = length (filter is_create as)"

lemma run_inv:
  assumes "sys_inv n s" and "CallStop \<notin> set as" and "ctx_next_id (sy_ctx s) + creates as < 2 ^ 64"
  shows "\<exists>r. run n as s = Inr r \<and> (\<forall>t. r = Some t \<longrightarrow> sys_inv n t \<and>
     ctx_next_id (sy_ctx t) = ctx_next_id (sy_ctx s) + creates as \<and>
     (list_all is_worker as \<longrightarrow> sy_enqueued t = sy_enqueued s \<and> work_left n t + length as \<le> work_left n s))"
  using assms
proof (induction as arbitrary: s)
  case Nil
  then show ?case by (simp add: creates_def)
next
  case (Cons a as)
  have c: "creates (a # as) = of_bool (is_create a) + creates as" by (simp add: creates_def)
  then have "ctx_next_id (sy_ctx s) + of_bool (is_create a) < 2 ^ 64" using Cons.prems(3) by linarith
  then obtain r where r: "act n a s = Inr r"
    and inv: "\<And>t. r = Some t \<Longrightarrow> sys_inv n t \<and> ctx_next_id (sy_ctx t) = ctx_next_id (sy_ctx s) + of_bool (is_create a) \<and>
        (is_worker a \<longrightarrow> sy_enqueued t = sy_enqueued s \<and> work_left n t < work_left n s)"
    using act_inv[OF Cons.prems(1), of a] Cons.prems(2) by auto
  show ?case
  proof (cases r)
    case None
    then show ?thesis using r by simp
  next
    case (Some t)
    from inv[OF this] Cons.IH[of t] Cons.prems(2,3) c
    obtain r' where "run n as t = Inr r'" and "\<forall>u. r' = Some u \<longrightarrow> sys_inv n u \<and>
       ctx_next_id (sy_ctx u) = ctx_next_id (sy_ctx t) + creates as \<and>
       (list_all is_worker as \<longrightarrow> sy_enqueued u = sy_enqueued t \<and> work_left n u + length as \<le> work_left n t)"
      by auto
    then show ?thesis using r Some inv[OF Some] c by auto
  qed
qed

lemma start_inv:
  assumes "started n c"
  shows "sys_inv n (start_system c)"
proof -
  let ?s = "start_system c"
  have n: "0 < n" using assms by (simp add: started_def)
  have z: "taken ?s i = 0" for i by (simp add: taken_def start_system_def)
  have "count_upto n (\<lambda>p. p = AtBarrier (odd 0)) (sy_pc ?s) = 0"
    by (simp add: count_upto_0_iff start_system_def)
  then have "barrier_inv n (new_FifoScheduler n) ?s 0"
    using bar_rep_new[OF n]
    by (simp add: barrier_inv_def pc_inv_def z new_FifoScheduler_def) (simp add: start_system_def)
  moreover have "queue_inv n (new_FifoScheduler n) ?s"
    by (simp add: queue_inv_def new_FifoScheduler_def start_system_def)
  moreover have L: "log_inv n ?s" by (simp add: log_inv_def log_ok_def hand_ok_def z) (simp add: start_system_def)
  have J: "count_upto 0 (\<lambda>c. c < n) (finished n ?s) = 0"
      "count_upto n (\<lambda>p. p = Counting \<or> (\<exists>j. p = Finishing j)) (\<lambda>_. Loop) = 0"
    by (simp_all add: count_upto_def)
  moreover have "ctx_scheduler (sy_ctx ?s) = Some (new_FifoScheduler n)"
    using assms by (simp add: started_def start_system_def)
  ultimately have "\<exists>f k. ctx_scheduler (sy_ctx ?s) = Some f \<and> \<not> fs_stopped f \<and> fs_num_worker_threads f = n \<and>
      barrier_inv n f ?s k \<and> queue_inv n f ?s"
    by (intro exI[of _ "new_FifoScheduler n"] exI[of _ 0]) (simp add: new_FifoScheduler_def)
  then show ?thesis
    using assms L J
    by (simp add: sys_inv_def started_def job_inv_def) (simp add: start_system_def)
qed

text \<open>A state in which no worker can act.\<close>

lemma blocked_points:
  assumes inv: "sys_inv n s" and i: "i < n" and bl: "worker_step i s = Inr None"
    and f: "ctx_scheduler (sy_ctx s) = Some f" and b: "barrier_inv n f s k"
  shows "sy_pc s i = AtBarrier (odd k) \<or> (sy_pc s i = WaitJob \<and> \<not> job_available f)"
proof -
  have st: "\<not> fs_stopped f" and run: "context_state (sy_ctx s) = CTX_RUNNING" "sy_stop s = NotStopping"
    using inv f by (auto simp: sys_inv_def)
  have r: "bar_rep (fs_barrier f) n k (count_upto n (\<lambda>p. p = AtBarrier (odd k)) (sy_pc s))"
    and ok: "pc_ok k (sy_pc s i) (taken s i)"
    using b i by (simp_all add: barrier_inv_def pc_inv_def)
  show ?thesis
  proof (cases "sy_pc s i")
    case Arrive
    then show ?thesis using arrive_move[OF inv i Arrive f] bl by (auto simp: worker_step_def on_scheduler_def f)
  next
    case (AtBarrier t)
    then have nw: "\<not> Barrier_wake (fs_barrier f) t"
      using bl by (auto simp: worker_step_def on_scheduler_def f split: if_splits)
    have "t = odd k"
    proof (rule ccontr)
      assume "t \<noteq> odd k"
      then have "t = odd (k - 1)" "0 < k" using ok AtBarrier by auto
      then show False using bar.wake_iff[OF r, of "k - 1"] nw by simp
    qed
    then show ?thesis using AtBarrier by simp
  next
    case WaitJob
    then show ?thesis using dispatch_move[OF inv i WaitJob f] bl
      by (cases "job_available f") (auto simp: worker_step_def on_scheduler_def f)
  next
    case (Work sl)
    then show ?thesis using notify_move[OF inv i Work] bl run by (auto simp: worker_step_def GetContextState_def)
  next
    case (Finishing j)
    then show ?thesis using finish_move[OF inv i Finishing] bl by (auto simp: worker_step_def)
  qed (use bl run st ok in \<open>auto simp: worker_step_def Context_GetJobSlice_enter_def on_scheduler_def f
      GetJobSlice_enter_def ctx_mutex_free_def Let_def GetContextState_def\<close>)
qed

lemma all_taken_finished:
  assumes J: "job_inv n s" and n0: "0 < n"
    and tk: "\<And>i. i < n \<Longrightarrow> taken s i = length (sy_enqueued s) \<and> sy_pc s i = WaitJob"
  shows "(\<forall>j \<in> set (sy_enqueued s). \<exists>jb. ctx_jobs (sy_ctx s) j = Some jb \<and> job_status jb = FINISHED) \<and>
     number_of_current_jobs (sy_ctx s) = int (length (sy_submitting s))"
proof -
  let ?E = "sy_enqueued s"
  have "completed s i = length ?E" if "i < n" for i using tk[OF that] by (simp add: completed_def)
  then have F: "finished n s m = n" if "m < length ?E" for m
    using that by (simp add: finished_def count_upto_full_iff)
  have "untaken n s m = 0" if "m < length ?E" for m
    using tk that by (simp add: untaken_def count_upto_0_iff)
  then have "expected_status n s m = FINISHED" if "m < length ?E" for m
    using F that tk n0 by (auto simp: expected_status_def)
  then have "\<forall>j \<in> set ?E. \<exists>jb. ctx_jobs (sy_ctx s) j = Some jb \<and> job_status jb = FINISHED"
    using J by (auto simp: job_inv_def in_set_conv_nth)
  moreover have "count_upto (length ?E) (\<lambda>c. c < n) (finished n s) = 0"
    using F by (simp add: count_upto_0_iff)
  moreover have "count_upto n (\<lambda>p. p = Counting \<or> (\<exists>j. p = Finishing j)) (sy_pc s) = 0"
    using tk by (simp add: count_upto_0_iff)
  ultimately show ?thesis using J by (simp add: job_inv_def)
qed

lemma blocked_all_done:
  assumes inv: "sys_inv n s" and bl: "\<forall>i < n. worker_step i s = Inr None"
  shows "(\<forall>i < n. taken s i = length (sy_enqueued s) \<and> sy_pc s i = WaitJob) \<and>
     (\<forall>j \<in> set (sy_enqueued s). \<exists>jb. ctx_jobs (sy_ctx s) j = Some jb \<and> job_status jb = FINISHED) \<and>
     number_of_current_jobs (sy_ctx s) = int (length (sy_submitting s))"
proof -
  let ?E = "sy_enqueued s"
  obtain f k where f: "ctx_scheduler (sy_ctx s) = Some f" and b: "barrier_inv n f s k" and st: "\<not> fs_stopped f"
    and q: "queue_inv n f s" and L: "log_inv n s" and J: "job_inv n s" and n0: "0 < n"
    using inv by (rule sys_inv_obtain)
  have r: "bar_rep (fs_barrier f) n k (count_upto n (\<lambda>p. p = AtBarrier (odd k)) (sy_pc s))"
    using b by (simp add: barrier_inv_def)
  have ok: "pc_ok k (sy_pc s i) (taken s i)" if "i < n" for i
    using b that by (simp add: barrier_inv_def pc_inv_def)
  have pc: "sy_pc s i = AtBarrier (odd k) \<or> (sy_pc s i = WaitJob \<and> \<not> job_available f)" if i: "i < n" for i
    using bl i by (intro blocked_points[OF inv i _ f b]) blast
  have "count_upto n (\<lambda>p. p = AtBarrier (odd k)) (sy_pc s) \<noteq> n" using bar.rep_less[OF r] by simp
  then obtain j where j: "j < n" "sy_pc s j \<noteq> AtBarrier (odd k)" unfolding count_upto_full_iff by blast
  then have wj: "sy_pc s j = WaitJob" "\<not> job_available f" using pc by auto
  define d where "d = taken s j"
  have k: "k = Suc d" using ok[OF j(1)] wj by (simp add: d_def)
  have "fs_queue f = map (\<lambda>m. ?E ! m) [d..<length ?E]"
    using q by (simp add: queue_inv_def untaken_pos_iff[OF b[unfolded k] j(1) d_def[symmetric]] filter_upt_ge)
  then have dl: "length ?E \<le> d" using wj(2) by (auto simp: job_available_def)
  have "taken s i = length ?E \<and> sy_pc s i = WaitJob" if i: "i < n" for i
  proof -
    have le: "taken s i \<le> length ?E" using L i by (simp add: log_inv_def log_ok_def)
    then have "taken s i \<noteq> k" using dl k by simp
    then have "sy_pc s i = WaitJob" using pc[OF i] ok[OF i] by auto
    then show ?thesis using ok[OF i] k le dl by simp
  qed
  then show ?thesis using all_taken_finished[OF J n0] by blast
qed

section \<open>Properties\<close>

lemma run_started:
  assumes "started n c" and "CallStop \<notin> set as" and "creates as < 2 ^ 64"
  shows "\<exists>r. run n as (start_system c) = Inr r \<and> (\<forall>s. r = Some s \<longrightarrow> sys_inv n s)"
  using run_inv[OF start_inv[OF assms(1)] assms(2)] assms(1,3)
  by (simp add: started_def) (auto simp: start_system_def)

text \<open>What the application relies on, in a state of the system.\<close>

definition in_order :: "nat \<Rightarrow> system \<Rightarrow> bool" where
  "in_order n s \<longleftrightarrow>
     (\<forall>i < n. map slice_job (sy_log s i) = take (length (sy_log s i)) (sy_enqueued s)) \<and>
     (\<forall>i < n. \<forall>j < n. length (sy_log s i) \<le> length (sy_log s j) + 1)"

definition own_slices :: "nat \<Rightarrow> system \<Rightarrow> bool" where
  "own_slices n s \<longleftrightarrow>
     (\<forall>i < n. \<forall>sl \<in> set (sy_log s i). \<exists>jb. ctx_jobs (sy_ctx s) (slice_job sl) = Some jb \<and>
        make_slice n i (job_tensor jb) = Inr (slice sl))"

definition finished_means_done :: "nat \<Rightarrow> system \<Rightarrow> bool" where
  "finished_means_done n s \<longleftrightarrow>
     (\<forall>m < length (sy_enqueued s). \<exists>jb. ctx_jobs (sy_ctx s) (sy_enqueued s ! m) = Some jb \<and>
        job_status jb \<noteq> FAILED \<and> (job_status jb = FINISHED \<longrightarrow> (\<forall>i < n. m < completed s i))) \<and>
     (number_of_current_jobs (sy_ctx s) = 0 \<longrightarrow> sy_submitting s = [] \<and>
        (\<forall>j \<in> set (sy_enqueued s). \<exists>jb. ctx_jobs (sy_ctx s) j = Some jb \<and> job_status jb = FINISHED))"

lemma no_jobs_all_finished:
  assumes J: "job_inv n s" and n0: "0 < n" and z: "number_of_current_jobs (sy_ctx s) = 0"
  shows "sy_submitting s = []"
    and "m < length (sy_enqueued s) \<Longrightarrow>
      \<exists>jb. ctx_jobs (sy_ctx s) (sy_enqueued s ! m) = Some jb \<and> job_status jb = FINISHED"
proof -
  let ?E = "sy_enqueued s"
  have zero: "length (sy_submitting s) + count_upto (length ?E) (\<lambda>c. c < n) (finished n s) +
      count_upto n (\<lambda>p. p = Counting \<or> (\<exists>j. p = Finishing j)) (sy_pc s) = 0"
    using J z unfolding job_inv_def by linarith
  then show "sy_submitting s = []" by simp
  assume m: "m < length ?E"
  have "count_upto (length ?E) (\<lambda>c. c < n) (finished n s) = 0"
    and c0: "count_upto n (\<lambda>p. p = Counting \<or> (\<exists>j. p = Finishing j)) (sy_pc s) = 0"
    using zero by simp_all
  then have fm: "finished n s m = n"
    using m count_upto_le[of n "\<lambda>c. m < c" "completed s"]
    by (force simp: count_upto_0_iff finished_def)
  then have "\<forall>i < n. m < completed s i" by (simp add: finished_def count_upto_full_iff)
  moreover have "completed s i \<le> taken s i" for i by (simp add: completed_def)
  ultimately have "m < taken s 0" using n0 by (meson less_le_trans)
  then have "untaken n s m < n" by (rule untaken_lt[OF n0])
  then have "expected_status n s m = FINISHED"
    using fm c0 by (auto simp: expected_status_def count_upto_0_iff)
  then show "\<exists>jb. ctx_jobs (sy_ctx s) (?E ! m) = Some jb \<and> job_status jb = FINISHED"
    using J m by (auto simp: job_inv_def)
qed

lemma sys_inv_visible:
  assumes inv: "sys_inv n s"
  shows "in_order n s \<and> own_slices n s \<and> finished_means_done n s"
proof -
  let ?ctx = "sy_ctx s" and ?E = "sy_enqueued s"
  obtain f k where b: "barrier_inv n f s k" and L: "log_inv n s" and J: "job_inv n s" and n0: "0 < n"
    using inv by (rule sys_inv_obtain)
  have Li: "taken s i \<le> length ?E" "\<forall>m < taken s i. \<exists>j. ctx_jobs ?ctx (?E ! m) = Some j \<and>
        slice_job (sy_log s i ! m) = ?E ! m \<and> make_slice n i (job_tensor j) = Inr (slice (sy_log s i ! m))"
    if "i < n" for i using L that by (simp_all add: log_inv_def log_ok_def)
  have "map slice_job (sy_log s i) = take (length (sy_log s i)) ?E" if "i < n" for i
    using Li[OF that] by (intro nth_equalityI) (auto simp: taken_def)
  moreover have "length (sy_log s i) \<le> length (sy_log s j) + 1" if "i < n" "j < n" for i j
    using barrier_inv_taken[OF b that(1)] barrier_inv_taken[OF b that(2)] by (auto simp: taken_def)
  ultimately have O: "in_order n s" by (simp add: in_order_def)
  have own: "own_slices n s"
    using Li(2) by (fastforce simp: own_slices_def in_set_conv_nth taken_def)
  have fin: "\<forall>i < n. m < completed s i" if "expected_status n s m = FINISHED" for m
    using that count_upto_full_iff[of n "\<lambda>c. m < c" "completed s"]
    by (auto simp: expected_status_def finished_def split: if_splits)
  have ns: "expected_status n s m \<noteq> FAILED" for m by (simp add: expected_status_def)
  have "finished_means_done n s"
    unfolding finished_means_done_def
  proof (intro conjI allI impI ballI)
    fix m assume "m < length ?E"
    then obtain jb where "ctx_jobs ?ctx (?E ! m) = Some jb" "job_status jb = expected_status n s m"
      using J by (auto simp: job_inv_def)
    then show "\<exists>jb. ctx_jobs ?ctx (?E ! m) = Some jb \<and> job_status jb \<noteq> FAILED \<and>
        (job_status jb = FINISHED \<longrightarrow> (\<forall>i < n. m < completed s i))" using fin ns by auto
  next
    assume "number_of_current_jobs ?ctx = 0"
    then show "sy_submitting s = []" by (rule no_jobs_all_finished(1)[OF J n0])
  next
    fix j assume "number_of_current_jobs ?ctx = 0" "j \<in> set ?E"
    then show "\<exists>jb. ctx_jobs ?ctx j = Some jb \<and> job_status jb = FINISHED"
      using no_jobs_all_finished(2)[OF J n0] by (auto simp: in_set_conv_nth)
  qed
  then show ?thesis using O own by blast
qed



text \<open>A context for the concrete runs: one worker thread, the dummy backend.\<close>

definition demo_config :: "bool \<Rightarrow> Config" where
  "demo_config instant = default_Config\<lparr>general := default_GeneralConfig
     \<lparr>gc_num_worker_threads := 1, gc_instant_job_completion := instant\<rparr>\<rparr>"

definition demo_context :: "nat \<Rightarrow> bool \<Rightarrow> Context" where
  "demo_context n instant = (new_Context (demo_config instant))
     \<lparr>ctx_scheduler := Some (new_FifoScheduler n), ctx_backend := Some ''dummy'', context_state := CTX_RUNNING\<rparr>"

definition demo_tensor :: Tensor where
  "demo_tensor = \<lparr>in_ptr = 0, out_ptr = 64, numel = 8, data_type = INT32\<rparr>"

lemma demo_started: "0 < n \<Longrightarrow> started n (demo_context n instant)"
  by (simp add: started_def demo_context_def new_Context_def)

lemmas run_eval = act_def worker_step_def create_step_def enqueue_step_def stop_step_def notify_step_def
  ctx_mutex_free_def set_barrier_def skips_transmission_def goto_def
  demo_context_def demo_config_def demo_tensor_def default_Config_def default_GeneralConfig_def new_Context_def
  start_system_def new_FifoScheduler_def new_Barrier_def Barrier_Wait_def Barrier_wake_def Barrier_Destroy_def
  AllReduceAsync_create_def AllReduceAsync_enqueue_def on_scheduler_def EnqueueJob_def map_insert_def
  set_job_status_def SetJobStatus_def less_JobStatus_def new_Job_def
  Context_GetJobSlice_enter_def GetJobSlice_enter_def Context_GetJobSlice_dispatch_def GetJobSlice_dispatch_def
  job_available_def count_dispatch_def make_slice_def slice_numel_def slice_offset_def OffsetPtrs_def
  Context_Notify_def NotifyJobSliceCompletion_def Context_job_finished_def Context_count_finished_def
  Context_Stop_begin_def Context_Stop_flag_def Context_Stop_clear_def Context_Stop_end_def
  Scheduler_Stop_def FifoScheduler_Stop_clear_def GetContextState_def
  u64_add_def u64_mul_def Let_def upt_rec


lemma run_append:
  "run n (as @ bs) s = bindE (run n as s) (\<lambda>r. case r of None \<Rightarrow> Inr None | Some t \<Rightarrow> run n bs t)"
proof (induction as arbitrary: s)
  case (Cons a as)
  then show ?case by (cases "act n a s") (auto split: option.split)
qed simp




text \<open>Shutting down can leave a waiter hanging: a job whose slices were all handed out is not in the
  queue that Stop fails, and a worker that skips the transmission of its slice does not notify once
  the context is stopping. Afterwards all threads have exited, the context is stopped, and the job is
  still marked running, so a thread blocked on its completion is never woken.\<close>
theorem shutdown_can_lose_job:
  "\<exists>s. run 1 [Create demo_tensor, Enqueue 0, Worker 0, Worker 0, Worker 0, Worker 0,
           CallStop, Worker 0, Worker 0, CallStop, CallStop, CallStop]
         (start_system (demo_context 1 True)) = Inr (Some s) \<and>
     sy_stop s = StopDone \<and> sy_pc s 0 = Exited \<and> context_state (sy_ctx s) = STOPPED \<and>
     \<not> AllReduce_done 0 (sy_ctx s)"
  by (simp add: run_eval AllReduce_done_def WaitToComplete_done_def)



end
