(* ===== verification/Ieee_Float.thy ===== *)
theory Ieee_Float
  imports Complex_Main Switchml_Prelude
begin

text \<open>
  The floating point arithmetic the quantizer uses: IEEE 754 binary32 and binary64 with rounding
  to nearest, ties to even. A number is kept as its sign and its exact magnitude, a rational
  number; each operation computes the exact result and rounds it once, as the standard requires.
  Bit patterns appear only where the code looks at them: \<open>decode32\<close> and \<open>encode32\<close>.
\<close>

section \<open>Values\<close>

datatype fp = NaN | Inf bool | Fin bool rat

definition pow2 :: "int \<Rightarrow> rat" where
  "pow2 e = (if 0 \<le> e then 2 ^ nat e else 1 / 2 ^ nat (- e))"

text \<open>The largest \<open>e\<close> with \<open>2\<^sup>e \<le> x\<close>, for positive \<open>x\<close>, searched within the given number of steps.\<close>

fun ilog2_up :: "nat \<Rightarrow> int \<Rightarrow> rat \<Rightarrow> int" where
  "ilog2_up 0 e x = e"
| "ilog2_up (Suc k) e x = (if pow2 (e + 1) \<le> x then ilog2_up k (e + 1) x else e)"

text \<open>Nearest integer, ties to even.\<close>

definition rne :: "rat \<Rightarrow> int" where
  "rne x = (let f = \<lfloor>x\<rfloor>; r = x - of_int f
            in if r < 1 / 2 then f else if r > 1 / 2 then f + 1 else if even f then f else f + 1)"

text \<open>
  A format with \<open>p\<close> bits of precision, whose smallest positive number is \<open>2\<^sup>q\<close> and whose numbers lie
  below \<open>2\<^sup>t\<close>. The exponent of the last place of a magnitude \<open>x\<close> is the least \<open>e \<ge> q\<close> with
  \<open>x < 2\<^sup>(e + p)\<close>.
\<close>

definition ulp_exp :: "nat \<Rightarrow> int \<Rightarrow> int \<Rightarrow> rat \<Rightarrow> int" where
  "ulp_exp p q t x = ilog2_up (nat (t - q)) (q + int p - 1) x - int p + 1"

definition round_mag :: "nat \<Rightarrow> int \<Rightarrow> int \<Rightarrow> rat \<Rightarrow> rat" where
  "round_mag p q t x = (let e = ulp_exp p q t x in of_int (rne (x / pow2 e)) * pow2 e)"

definition round_fp :: "nat \<Rightarrow> int \<Rightarrow> int \<Rightarrow> bool \<Rightarrow> rat \<Rightarrow> fp" where
  "round_fp p q t s x =
     (let y = round_mag p q t x in if pow2 t \<le> y then Inf s else Fin s y)"

definition round32 :: "bool \<Rightarrow> rat \<Rightarrow> fp" where
  "round32 = round_fp 24 (-149) 128"

definition round64 :: "bool \<Rightarrow> rat \<Rightarrow> fp" where
  "round64 = round_fp 53 (-1074) 1024"

section \<open>Operations\<close>

text \<open>Multiplication and division, parameterised by the rounding of the result's format.\<close>

fun fp_mul :: "(bool \<Rightarrow> rat \<Rightarrow> fp) \<Rightarrow> fp \<Rightarrow> fp \<Rightarrow> fp" where
  "fp_mul rnd NaN _ = NaN"
| "fp_mul rnd _ NaN = NaN"
| "fp_mul rnd (Inf a) (Inf b) = Inf (a \<noteq> b)"
| "fp_mul rnd (Inf a) (Fin b y) = (if y = 0 then NaN else Inf (a \<noteq> b))"
| "fp_mul rnd (Fin a x) (Inf b) = (if x = 0 then NaN else Inf (a \<noteq> b))"
| "fp_mul rnd (Fin a x) (Fin b y) = rnd (a \<noteq> b) (x * y)"

fun fp_div :: "(bool \<Rightarrow> rat \<Rightarrow> fp) \<Rightarrow> fp \<Rightarrow> fp \<Rightarrow> fp" where
  "fp_div rnd NaN _ = NaN"
| "fp_div rnd _ NaN = NaN"
| "fp_div rnd (Inf a) (Inf b) = NaN"
| "fp_div rnd (Inf a) (Fin b y) = Inf (a \<noteq> b)"
| "fp_div rnd (Fin a x) (Inf b) = Fin (a \<noteq> b) 0"
| "fp_div rnd (Fin a x) (Fin b y) =
     (if y = 0 then (if x = 0 then NaN else Inf (a \<noteq> b)) else rnd (a \<noteq> b) (x / y))"

text \<open>Subtraction and addition of floating point numbers; an exact difference of zero is positive unless both terms are negative.\<close>

fun fp_sub :: "(bool \<Rightarrow> rat \<Rightarrow> fp) \<Rightarrow> fp \<Rightarrow> fp \<Rightarrow> fp" where
  "fp_sub rnd NaN _ = NaN"
| "fp_sub rnd _ NaN = NaN"
| "fp_sub rnd (Inf a) (Inf b) = (if a = b then NaN else Inf a)"
| "fp_sub rnd (Inf a) (Fin b y) = Inf a"
| "fp_sub rnd (Fin a x) (Inf b) = Inf (\<not> b)"
| "fp_sub rnd (Fin a x) (Fin b y) =
     (let v = (if a then - x else x) - (if b then - y else y)
      in if v = 0 then Fin (a \<and> \<not> b) 0 else rnd (v < 0) \<bar>v\<bar>)"

fun fp_neg :: "fp \<Rightarrow> fp" where
  "fp_neg NaN = NaN"
| "fp_neg (Inf a) = Inf (\<not> a)"
| "fp_neg (Fin a x) = Fin (\<not> a) x"

definition fp_add :: "(bool \<Rightarrow> rat \<Rightarrow> fp) \<Rightarrow> fp \<Rightarrow> fp \<Rightarrow> fp" where
  "fp_add rnd u v = fp_sub rnd u (fp_neg v)"

text \<open>Conversion of an integer and of a wider format.\<close>

definition fp_of_int :: "(bool \<Rightarrow> rat \<Rightarrow> fp) \<Rightarrow> int \<Rightarrow> fp" where
  "fp_of_int rnd i = rnd (i < 0) (of_int \<bar>i\<bar>)"

fun fp_convert :: "(bool \<Rightarrow> rat \<Rightarrow> fp) \<Rightarrow> fp \<Rightarrow> fp" where
  "fp_convert rnd NaN = NaN"
| "fp_convert rnd (Inf s) = Inf s"
| "fp_convert rnd (Fin s x) = rnd s x"

fun fp_abs :: "fp \<Rightarrow> fp" where
  "fp_abs NaN = NaN"
| "fp_abs (Inf s) = Inf False"
| "fp_abs (Fin s x) = Fin False x"

fun fp_greater :: "fp \<Rightarrow> fp \<Rightarrow> bool" where
  "fp_greater NaN _ = False"
| "fp_greater _ NaN = False"
| "fp_greater (Inf a) (Inf b) = (\<not> a \<and> b)"
| "fp_greater (Inf a) (Fin b y) = (\<not> a)"
| "fp_greater (Fin a x) (Inf b) = b"
| "fp_greater (Fin a x) (Fin b y) = ((if a then - x else x) > (if b then - y else y))"

text \<open>\<open>std::round\<close>: to an integral value, halves away from zero.\<close>

fun fp_round :: "fp \<Rightarrow> fp" where
  "fp_round (Fin s x) = Fin s (of_int \<lfloor>x + 1 / 2\<rfloor>)"
| "fp_round x = x"

text \<open>
  Conversion to uint32_t. The standard defines it only for values that fit; the compilers on x86-64
  truncate to a signed 64-bit integer, whose out-of-range value has 32 zero low bits, and keep the
  low 32 bits, which is what is written here.
\<close>

fun fp_to_uint32 :: "fp \<Rightarrow> 32 word" where
  "fp_to_uint32 (Fin s x) =
     (if x < 2 ^ 63 then word_of_int (if s then - \<lfloor>x\<rfloor> else \<lfloor>x\<rfloor>) else 0)"
| "fp_to_uint32 _ = 0"

section \<open>Bit patterns\<close>

definition exp_field :: "32 word \<Rightarrow> nat" where
  "exp_field w = unat w div 2 ^ 23 mod 256"

definition frac_field :: "32 word \<Rightarrow> nat" where
  "frac_field w = unat w mod 2 ^ 23"

definition sign_field :: "32 word \<Rightarrow> bool" where
  "sign_field w \<longleftrightarrow> 2 ^ 31 \<le> unat w"

definition decode32 :: "32 word \<Rightarrow> fp" where
  "decode32 w =
     (let s = sign_field w; e = exp_field w; m = frac_field w
      in if e = 255 then (if m = 0 then Inf s else NaN)
         else if e = 0 then Fin s (of_nat m * pow2 (-149))
         else Fin s (of_nat (2 ^ 23 + m) * pow2 (int e - 150)))"

text \<open>The pattern of a value that is a binary32 number; NaN has the default quiet pattern (its sign is not modelled).\<close>

definition encode32 :: "fp \<Rightarrow> 32 word" where
  "encode32 v =
     (case v of
        NaN \<Rightarrow> 0x7FC00000
      | Inf s \<Rightarrow> (if s then 0xFF800000 else 0x7F800000)
      | Fin s x \<Rightarrow>
          (let e = ulp_exp 24 (-149) 128 x; m = nat \<lfloor>x / pow2 e\<rfloor>;
               bits = (if m < 2 ^ 23 then m else nat (e + 149) * 2 ^ 23 + m)
           in word_of_int ((if s then 2 ^ 31 else 0) + int bits)))"

section \<open>Powers of two\<close>

lemma pow2_pos [simp]: "0 < pow2 e"
  by (simp add: pow2_def)

lemma pow2_nonneg [simp]: "0 \<le> pow2 e" and pow2_nz [simp]: "pow2 e \<noteq> 0"
  using pow2_pos[of e] by linarith+

lemma pow2_add: "pow2 (a + b) = pow2 a * pow2 b"
proof -
  have p: "pow2 e = 2 powi e" for e by (simp add: pow2_def power_int_def divide_simps)
  show ?thesis by (simp add: p power_int_add)
qed

lemma pow2_0 [simp]: "pow2 0 = 1" and pow2_1 [simp]: "pow2 1 = 2"
  by (simp_all add: pow2_def)

lemma pow2_nat: "pow2 (int n) = 2 ^ n"
  by (simp add: pow2_def)

lemma pow2_diff: "pow2 (a - b) = pow2 a / pow2 b"
  using pow2_add[of "a - b" b] by simp

lemma pow2_mono: "a \<le> b \<Longrightarrow> pow2 a \<le> pow2 b"
proof -
  assume "a \<le> b"
  then obtain n where "b = a + int n" by (metis zle_iff_zadd)
  then show ?thesis by (simp add: pow2_add pow2_nat)
qed

lemma pow2_strict_mono: "a < b \<Longrightarrow> pow2 a < pow2 b"
proof -
  assume "a < b"
  then have "pow2 (a + 1) \<le> pow2 b" by (intro pow2_mono) simp
  then have "pow2 a * 2 \<le> pow2 b" by (simp add: pow2_add)
  moreover have "0 < pow2 a" by (rule pow2_pos)
  ultimately show ?thesis by linarith
qed

lemma pow2_less_iff: "pow2 a < pow2 b \<longleftrightarrow> a < b"
  using pow2_mono[of b a] pow2_strict_mono[of a b] by force

lemma pow2_le_iff: "pow2 a \<le> pow2 b \<longleftrightarrow> a \<le> b"
  using pow2_less_iff[of b a] by (simp add: linorder_not_less[symmetric])

section \<open>Rounding to an integer\<close>

lemma rne_le: "x \<le> of_int n \<Longrightarrow> rne x \<le> n"
proof -
  assume x: "x \<le> of_int n"
  then have "\<lfloor>x\<rfloor> \<le> n" by linarith
  moreover have "\<lfloor>x\<rfloor> < n" if "x - of_int \<lfloor>x\<rfloor> > 0" using that x by linarith
  ultimately show ?thesis by (auto simp: rne_def Let_def)
qed

lemma rne_ge: "of_int n \<le> x \<Longrightarrow> n \<le> rne x"
proof -
  assume "of_int n \<le> x"
  then have "n \<le> \<lfloor>x\<rfloor>" by linarith
  then show ?thesis by (auto simp: rne_def Let_def)
qed

lemma rne_of_int [simp]: "rne (of_int n) = n"
  using rne_le[of "of_int n" n] rne_ge[of n "of_int n"] by simp

lemma rne_below_half: "x < of_int n + 1 / 2 \<Longrightarrow> rne x \<le> n"
proof -
  assume x: "x < of_int n + 1 / 2"
  then have "\<lfloor>x\<rfloor> \<le> n" by linarith
  moreover have "\<lfloor>x\<rfloor> < n" if "x - of_int \<lfloor>x\<rfloor> \<ge> 1 / 2" using that x by linarith
  ultimately show ?thesis by (auto simp: rne_def Let_def)
qed

lemma rne_error: "\<bar>of_int (rne x) - x\<bar> \<le> 1 / 2"
proof -
  have "of_int \<lfloor>x\<rfloor> \<le> x" "x < of_int \<lfloor>x\<rfloor> + 1" by linarith+
  then show ?thesis unfolding rne_def Let_def by (auto simp: abs_le_iff)
qed

section \<open>Rounding to a format\<close>

lemma ilog2_up_range: "e \<le> ilog2_up k e x \<and> ilog2_up k e x \<le> e + int k"
  by (induction k e x rule: ilog2_up.induct) auto

lemma ilog2_up_low: "ilog2_up k e x = e \<or> pow2 (ilog2_up k e x) \<le> x"
proof (induction k e x rule: ilog2_up.induct)
  case (2 k e x)
  then show ?case by auto
qed simp

lemma ilog2_up_high: "ilog2_up k e x = e + int k \<or> x < pow2 (ilog2_up k e x + 1)"
  by (induction k e x rule: ilog2_up.induct) auto

lemma ulp_exp_props:
  assumes "x < pow2 t" and "q \<le> t" and "0 < p"
  shows "q \<le> ulp_exp p q t x" and "x < pow2 (ulp_exp p q t x + int p)"
    and "ulp_exp p q t x = q \<or> pow2 (ulp_exp p q t x + int p - 1) \<le> x"
proof -
  define r where "r = ilog2_up (nat (t - q)) (q + int p - 1) x"
  have u: "ulp_exp p q t x = r - int p + 1" by (simp add: ulp_exp_def r_def)
  show "q \<le> ulp_exp p q t x" using ilog2_up_range[of "q + int p - 1" "nat (t - q)" x] unfolding u r_def by linarith
  have "r = t + int p - 1 \<or> x < pow2 (r + 1)"
    using ilog2_up_high[of "nat (t - q)" "q + int p - 1" x] assms(2) by (auto simp: r_def)
  moreover have "pow2 t \<le> pow2 (r + 1)" if "r = t + int p - 1" using that assms(3) by (intro pow2_mono) simp
  ultimately show "x < pow2 (ulp_exp p q t x + int p)" using assms(1) by (auto simp: u)
  show "ulp_exp p q t x = q \<or> pow2 (ulp_exp p q t x + int p - 1) \<le> x"
    using ilog2_up_low[of "nat (t - q)" "q + int p - 1" x] by (auto simp: u r_def)
qed

lemma round_mag_at:
  assumes "pow2 (u + int p - 1) \<le> x" and "x < pow2 (u + int p)" and "q \<le> u" and "u \<le> t" and "0 < p"
  shows "round_mag p q t x = of_int (rne (x / pow2 u)) * pow2 u"
proof -
  define r where "r = ilog2_up (nat (t - q)) (q + int p - 1) x"
  have range: "q + int p - 1 \<le> r" "r \<le> t + int p - 1"
    using ilog2_up_range[of "q + int p - 1" "nat (t - q)" x] assms(3,4) by (auto simp: r_def)
  have "r = q + int p - 1 \<or> pow2 r \<le> x"
    using ilog2_up_low[of "nat (t - q)" "q + int p - 1" x] by (simp add: r_def)
  then have "r = q + int p - 1 \<or> pow2 r < pow2 (u + int p)" using assms(2) by auto
  then have "r < u + int p" using assms(3) by (auto simp: pow2_less_iff)
  moreover have "r = t + int p - 1 \<or> x < pow2 (r + 1)"
    using ilog2_up_high[of "nat (t - q)" "q + int p - 1" x] assms(3,4) by (auto simp: r_def)
  then have "r = t + int p - 1 \<or> pow2 (u + int p - 1) < pow2 (r + 1)" using assms(1) by auto
  then have "u + int p - 1 \<le> r" using assms(4) by (auto simp: pow2_less_iff)
  ultimately have "ulp_exp p q t x = u" by (simp add: ulp_exp_def r_def)
  then show ?thesis by (simp add: round_mag_def Let_def)
qed

text \<open>The numbers of a format, without an upper limit.\<close>

definition representable :: "nat \<Rightarrow> int \<Rightarrow> rat \<Rightarrow> bool" where
  "representable p q y \<longleftrightarrow> (\<exists>n k. y = of_int n * pow2 k \<and> q \<le> k \<and> 0 \<le> n \<and> n \<le> 2 ^ p)"

lemma representableI:
  "y = of_int n * pow2 k \<Longrightarrow> q \<le> k \<Longrightarrow> 0 \<le> n \<Longrightarrow> n \<le> 2 ^ p \<Longrightarrow> representable p q y"
  unfolding representable_def by blast

lemma pow2_multiple:
  assumes "e \<le> k"
  shows "\<exists>N. of_int n * pow2 k = of_int N * pow2 e"
proof -
  have "pow2 k = 2 ^ nat (k - e) * pow2 e" using assms pow2_add[of "k - e" e] by (simp add: pow2_def)
  then have "of_int n * pow2 k = of_int (n * 2 ^ nat (k - e)) * pow2 e" by simp
  then show ?thesis by blast
qed

lemma int_power_pow2: "of_int (2 ^ p) * pow2 k = pow2 (k + int p)"
  by (simp add: pow2_add pow2_nat)

locale number_format =
  fixes p :: nat and q t :: int
  assumes p_pos: "0 < p" and q_le_t: "q \<le> t"
begin

abbreviation ulp :: "rat \<Rightarrow> int" where
  "ulp \<equiv> ulp_exp p q t"

lemma round_mag_le:
  assumes "x \<le> y" and "x < pow2 t" and "representable p q y"
  shows "round_mag p q t x \<le> y"
proof -
  obtain n k where y: "y = of_int n * pow2 k" "q \<le> k" "0 \<le> n" "n \<le> 2 ^ p"
    using assms(3) by (auto simp: representable_def)
  note u = ulp_exp_props[OF assms(2) q_le_t p_pos]
  have "\<exists>N. x \<le> of_int N * pow2 (ulp x) \<and> of_int N * pow2 (ulp x) \<le> y"
  proof (cases "ulp x \<le> k")
    case True
    then show ?thesis using pow2_multiple[of "ulp x" k n] y(1) assms(1) by auto
  next
    case False
    then have "pow2 (ulp x + int p - 1) \<le> x" using u(3) y(2) by auto
    moreover have "y \<le> of_int (2 ^ p) * pow2 k"
      unfolding y(1) using y(4) by (intro mult_right_mono) (simp_all only: of_int_le_iff pow2_nonneg)
    then have "y \<le> pow2 (k + int p)" by (simp only: int_power_pow2)
    then have "y \<le> pow2 (ulp x + int p - 1)" using False by (elim order_trans) (intro pow2_mono, simp)
    ultimately have "x = pow2 (ulp x + int p - 1)" "y = x" using assms(1) by linarith+
    moreover have "pow2 (ulp x + int p - 1) = of_int (2 ^ (p - 1)) * pow2 (ulp x)"
      using p_pos by (simp only: int_power_pow2) (simp add: of_nat_diff algebra_simps)
    ultimately show ?thesis by (metis order_refl)
  qed
  then obtain N where N: "x \<le> of_int N * pow2 (ulp x)" "of_int N * pow2 (ulp x) \<le> y" by blast
  then have "rne (x / pow2 (ulp x)) \<le> N" by (intro rne_le) (simp add: pos_divide_le_eq)
  then have "of_int (rne (x / pow2 (ulp x))) * pow2 (ulp x) \<le> of_int N * pow2 (ulp x)"
    by (intro mult_right_mono) (simp_all only: of_int_le_iff pow2_nonneg)
  then show ?thesis using N(2) unfolding round_mag_def Let_def by linarith
qed

lemma round_mag_ge:
  assumes "y \<le> x" and "x < pow2 t" and "representable p q y"
  shows "y \<le> round_mag p q t x"
proof -
  obtain n k where y: "y = of_int n * pow2 k" "q \<le> k" "0 \<le> n" "n \<le> 2 ^ p"
    using assms(3) by (auto simp: representable_def)
  note u = ulp_exp_props[OF assms(2) q_le_t p_pos]
  have "\<exists>N. y \<le> of_int N * pow2 (ulp x) \<and> of_int N * pow2 (ulp x) \<le> x"
  proof (cases "ulp x \<le> k")
    case True
    then show ?thesis using pow2_multiple[of "ulp x" k n] y(1) assms(1) by auto
  next
    case False
    then have "pow2 (ulp x + int p - 1) \<le> x" using u(3) y(2) by auto
    moreover have "y \<le> of_int (2 ^ p) * pow2 k"
      unfolding y(1) using y(4) by (intro mult_right_mono) (simp_all only: of_int_le_iff pow2_nonneg)
    then have "y \<le> pow2 (k + int p)" by (simp only: int_power_pow2)
    then have "y \<le> pow2 (ulp x + int p - 1)" using False by (elim order_trans) (intro pow2_mono, simp)
    moreover have "pow2 (ulp x + int p - 1) = of_int (2 ^ (p - 1)) * pow2 (ulp x)"
      using p_pos by (simp only: int_power_pow2) (simp add: of_nat_diff algebra_simps)
    ultimately show ?thesis by metis
  qed
  then obtain N where N: "y \<le> of_int N * pow2 (ulp x)" "of_int N * pow2 (ulp x) \<le> x" by blast
  then have "N \<le> rne (x / pow2 (ulp x))" by (intro rne_ge) (simp add: pos_le_divide_eq)
  then have "of_int N * pow2 (ulp x) \<le> of_int (rne (x / pow2 (ulp x))) * pow2 (ulp x)"
    by (intro mult_right_mono) (simp_all only: of_int_le_iff pow2_nonneg)
  then show ?thesis using N(1) unfolding round_mag_def Let_def by linarith
qed

lemma round_mag_exact: "representable p q x \<Longrightarrow> x < pow2 t \<Longrightarrow> round_mag p q t x = x"
  using round_mag_le[of x x] round_mag_ge[of x x] by simp

lemma round_mag_representable:
  assumes "0 \<le> x" and "x < pow2 t"
  shows "representable p q (round_mag p q t x)"
proof -
  note u = ulp_exp_props[OF assms(2) q_le_t p_pos]
  have "0 \<le> rne (x / pow2 (ulp x))" using assms(1) by (intro rne_ge) simp
  moreover have "rne (x / pow2 (ulp x)) \<le> 2 ^ p"
  proof (rule rne_le)
    have "x \<le> of_int (2 ^ p) * pow2 (ulp x)" using u(2) by (simp only: int_power_pow2 less_imp_le)
    then show "x / pow2 (ulp x) \<le> of_int (2 ^ p)" by (simp only: pos_divide_le_eq pow2_pos)
  qed
  ultimately show ?thesis using u(1) by (auto simp: representable_def round_mag_def Let_def)
qed

lemma round_mag_nonneg:
  assumes "0 \<le> x" and "x < pow2 t"
  shows "0 \<le> round_mag p q t x"
proof -
  have "0 \<le> rne (x / pow2 (ulp x))" using assms(1) by (intro rne_ge) simp
  then show ?thesis by (simp add: round_mag_def Let_def)
qed

lemma round_mag_error: "\<bar>round_mag p q t x - x\<bar> \<le> pow2 (ulp x) / 2"
proof -
  have "round_mag p q t x - x = (of_int (rne (x / pow2 (ulp x))) - x / pow2 (ulp x)) * pow2 (ulp x)"
    by (simp add: round_mag_def Let_def algebra_simps)
  then have "\<bar>round_mag p q t x - x\<bar> = \<bar>of_int (rne (x / pow2 (ulp x))) - x / pow2 (ulp x)\<bar> * pow2 (ulp x)"
    by (simp add: abs_mult)
  also have "\<dots> \<le> 1 / 2 * pow2 (ulp x)" by (intro mult_right_mono rne_error) simp
  finally show ?thesis by simp
qed

text \<open>A number of the format below the rounded value is not above the exact one.\<close>

lemma below_round_mag:
  assumes "representable p q y" and "y < round_mag p q t x" and "x < pow2 t"
  shows "y \<le> x"
proof (rule ccontr)
  assume "\<not> y \<le> x"
  then have "round_mag p q t x \<le> y" using assms by (intro round_mag_le) simp_all
  then show False using assms(2) by simp
qed

text \<open>
  Multiplying a rounded number by a factor just below one, of at most \<open>1 - 2\<^sup>-\<^sup>p\<close>, rounds to a
  strictly smaller number of the format: the predecessor, or less.
\<close>

lemma scaled_mantissa:
  assumes "2 ^ (p - 1) \<le> m"
  shows "1 \<le> pow2 (- int p) * of_int m * 2"
    and "m \<noteq> 2 ^ (p - 1) \<Longrightarrow> 1 < pow2 (- int p) * of_int m * 2"
proof -
  have c: "pow2 (- int p) * of_int m * 2 = of_int (m * 2) * pow2 (- int p)" "of_int (2 ^ p) * pow2 (- int p) = 1"
    by (simp_all only: int_power_pow2) simp_all
  have "(2::int) ^ p \<le> m * 2" using assms p_pos by (cases p) auto
  then have "of_int (2 ^ p) * pow2 (- int p) \<le> of_int (m * 2) * pow2 (- int p)"
    by (intro mult_right_mono) (simp_all only: of_int_le_iff pow2_nonneg)
  then show "1 \<le> pow2 (- int p) * of_int m * 2" unfolding c .
  assume "m \<noteq> 2 ^ (p - 1)"
  then have "(2::int) ^ p < m * 2" using assms p_pos by (cases p) auto
  then have "of_int (2 ^ p) * pow2 (- int p) < of_int (m * 2) * pow2 (- int p)"
    by (intro mult_strict_right_mono) (simp_all only: of_int_less_iff pow2_pos)
  then show "1 < pow2 (- int p) * of_int m * 2" unfolding c .
qed

lemma ulp_in_binade:
  assumes m: "2 ^ (p - 1) \<le> m - 1" "m < 2 ^ p" and k: "q < k" and xt: "x < pow2 t"
    and low: "of_int (m - 1) * pow2 k < x" and high: "x \<le> of_int m * pow2 k"
  shows "ulp x = k"
proof -
  note u = ulp_exp_props[OF xt q_le_t p_pos]
  have "of_int (2 ^ (p - 1)) * pow2 k \<le> of_int (m - 1) * pow2 k"
    using m(1) by (intro mult_right_mono) (simp_all only: of_int_le_iff pow2_nonneg)
  then have "pow2 (k + int (p - 1)) \<le> of_int (m - 1) * pow2 k" by (simp only: int_power_pow2)
  then have "pow2 (k + int (p - 1)) < pow2 (ulp x + int p)" using low u(2) by linarith
  then have ge: "k \<le> ulp x" using p_pos by (simp add: pow2_less_iff of_nat_diff)
  have "of_int m * pow2 k < of_int (2 ^ p) * pow2 k"
    using m(2) by (intro mult_strict_right_mono) (simp_all only: of_int_less_iff pow2_pos)
  then have "of_int m * pow2 k < pow2 (k + int p)" by (simp only: int_power_pow2)
  then have "ulp x = q \<or> pow2 (ulp x + int p - 1) < pow2 (k + int p)" using u(3) high by linarith
  then show ?thesis using ge k by (auto simp: pow2_less_iff)
qed

lemma round_shrink:
  assumes m: "2 ^ (p - 1) \<le> m" "m < 2 ^ p" and s: "s = of_int m * pow2 k" "q < k" "s < pow2 t"
    and x: "0 \<le> x" "x \<le> (1 - pow2 (- int p)) * s" and p2: "2 \<le> p"
  shows "round_mag p q t x \<le> (if m = 2 ^ (p - 1) then s - pow2 (k - 1) else s - pow2 k)"
proof -
  define c where "c = pow2 (- int p) * of_int m"
  note c1 = scaled_mantissa(1)[OF m(1), folded c_def] and c2 = scaled_mantissa(2)[OF m(1), folded c_def]
  have s0: "0 \<le> s" using m(1) s(1) by (simp add: zero_le_mult_iff) (use m(1) in \<open>smt (verit) zero_le_power\<close>)
  have xs: "x \<le> s" using x(2) s0 mult_right_mono[of "1 - pow2 (- int p)" 1 s] by simp
  then have xt: "x < pow2 t" using s(3) by simp
  have xc: "x \<le> s - c * pow2 k" using x(2) by (simp add: s(1) c_def algebra_simps)
  have "1 * pow2 k \<le> c * 2 * pow2 k" by (intro mult_right_mono c1) simp
  then have half: "x \<le> s - pow2 k / 2" using xc by linarith
  show ?thesis
  proof (cases "m = 2 ^ (p - 1)")
    case True
    have k1: "pow2 (k - 1) = pow2 k / 2" by (simp add: pow2_diff)
    have "s - pow2 (k - 1) = of_int (2 * m - 1) * pow2 (k - 1)" by (simp add: s(1) k1 algebra_simps)
    moreover have "0 \<le> 2 * m - 1" "2 * m - 1 \<le> 2 ^ p" using True p_pos by (cases p; simp)+
    ultimately have rep: "representable p q (s - pow2 (k - 1))"
      using s(2) unfolding representable_def by (metis zle_diff1_eq zless_imp_add1_zle add_le_imp_le_diff)
    have "x \<le> s - pow2 (k - 1)" using half unfolding k1 .
    then show ?thesis using round_mag_le[OF _ xt rep] True by simp
  next
    case False
    then have m1: "2 ^ (p - 1) \<le> m - 1" using m(1) by simp
    have f: "s - pow2 k = of_int (m - 1) * pow2 k" by (simp add: s(1) algebra_simps)
    have "(0::int) \<le> 2 ^ (p - 1)" by simp
    then have m0: "0 \<le> m - 1" using m1 by linarith
    then have rep: "representable p q (s - pow2 k)"
      using f m m0 s(2) by (intro representableI[of _ "m - 1" k]) (auto intro: order_trans[of _ "2 ^ (p - 1)"])
    show ?thesis
    proof (cases "x \<le> s - pow2 k")
      case True
      then show ?thesis using round_mag_le[OF True xt rep] False by simp
    next
      case gt: False
      have ux: "ulp x = k"
        by (rule ulp_in_binade[OF m1 m(2) s(2) xt]) (simp only: f[symmetric] not_le[symmetric] gt not_False_eq_True, rule xs[unfolded s(1)])
      have "1 * pow2 k < c * 2 * pow2 k" by (intro mult_strict_right_mono c2 False) simp
      then have "pow2 k < 2 * (c * pow2 k)" by (simp only: mult_ac mult_1)
      then have "x < s - 1 / 2 * pow2 k" using xc by linarith
      then have "x < (of_int m - 1 / 2) * pow2 k" by (simp add: s(1) left_diff_distrib)
      then have "x / pow2 k < of_int (m - 1) + 1 / 2" by (simp add: pos_divide_less_eq)
      then have "rne (x / pow2 k) \<le> m - 1" by (rule rne_below_half)
      then have "of_int (rne (x / pow2 k)) * pow2 k \<le> of_int (m - 1) * pow2 k"
        by (intro mult_right_mono) (simp_all only: of_int_le_iff pow2_nonneg)
      then show ?thesis using False f by (simp add: round_mag_def Let_def ux)
    qed
  qed
qed

end

interpretation b32: number_format 24 "-149" 128
  by unfold_locales simp_all

interpretation b64: number_format 53 "-1074" 1024
  by unfold_locales simp_all

section \<open>Bit fields\<close>

lemma fields_bounds: "exp_field w < 256" "frac_field w < 2 ^ 23"
  by (simp_all add: exp_field_def frac_field_def)

text \<open>A number whose exponent field is \<open>e < 255\<close> lies below \<open>2\<^sup>(e - 126)\<close>, by at least a factor
  \<open>1 - 2\<^sup>-\<^sup>2\<^sup>4\<close>.\<close>

lemma decode32_bound:
  assumes "decode32 w = Fin s x" and "int (exp_field w) - 126 \<le> E"
  shows "0 \<le> x" and "x \<le> (1 - pow2 (- 24)) * pow2 E"
proof -
  let ?e = "exp_field w" and ?m = "frac_field w"
  have m: "int ?m < 2 ^ 23" using fields_bounds(2)[of w] by simp
  obtain n k where x: "x = of_int n * pow2 k" "0 \<le> n" "n \<le> 2 ^ 24 - 1" "k \<le> E - 24"
  proof (cases "?e = 0")
    case True
    then have "x = of_int (2 * int ?m) * pow2 (- 150)"
      using assms(1) pow2_add[of "- 150" 1] by (simp add: decode32_def Let_def)
    then show ?thesis using that[of "2 * int ?m" "- 150"] m assms(2) True by simp
  next
    case False
    then have "x = of_int (2 ^ 23 + int ?m) * pow2 (int ?e - 150)"
      using assms(1) by (auto simp: decode32_def Let_def split: if_splits)
    then show ?thesis using that[of "2 ^ 23 + int ?m" "int ?e - 150"] m assms(2) by simp
  qed
  show "0 \<le> x" using x by simp
  have "x \<le> of_int (2 ^ 24 - 1) * pow2 k"
    unfolding x(1) using x(3) by (intro mult_right_mono) (simp_all only: of_int_le_iff pow2_nonneg)
  also have "\<dots> \<le> of_int (2 ^ 24 - 1) * pow2 (E - 24)" using x(4) by (intro mult_left_mono pow2_mono) simp_all
  also have "\<dots> = (1 - pow2 (- 24)) * pow2 E"
    by (simp add: pow2_diff algebra_simps) (simp add: pow2_def)
  finally show "x \<le> (1 - pow2 (- 24)) * pow2 E" .
qed

section \<open>Encoding and decoding\<close>

text \<open>The bits below the sign: the fields of a pattern put together.\<close>

lemma fields_of:
  assumes "e < 256" and "m < 2 ^ 23"
  shows "sign_field (word_of_int ((if s then 2 ^ 31 else 0) + int (e * 2 ^ 23 + m))) = s"
    and "exp_field (word_of_int ((if s then 2 ^ 31 else 0) + int (e * 2 ^ 23 + m))) = e"
    and "frac_field (word_of_int ((if s then 2 ^ 31 else 0) + int (e * 2 ^ 23 + m))) = m"
proof -
  define w :: "32 word" where "w = word_of_int ((if s then 2 ^ 31 else 0) + int (e * 2 ^ 23 + m))"
  have "e * 2 ^ 23 \<le> 255 * 2 ^ 23" using assms(1) by (intro mult_le_mono1) simp
  then have b: "e * 2 ^ 23 + m < 2 ^ 31" using assms(2) by simp
  define N where "N = (if s then 256 else 0) + e"
  have "w = word_of_nat (N * 2 ^ 23 + m)" by (simp add: w_def N_def)
  moreover have "N * 2 ^ 23 + m < 2 ^ 32" using b by (simp add: N_def)
  moreover have "unat (word_of_nat n :: 32 word) = n" if "n < 2 ^ 32" for n using that by (simp add: unat_of_nat)
  ultimately have u: "unat w = N * 2 ^ 23 + m" by blast
  have "(N * 2 ^ 23 + m) div 2 ^ 23 = N" "(N * 2 ^ 23 + m) mod 2 ^ 23 = m" using assms(2) by simp_all
  then have "exp_field w = N mod 256" "frac_field w = m" unfolding exp_field_def frac_field_def u by simp_all
  moreover have "sign_field w = s" using b unfolding sign_field_def u N_def by auto
  ultimately show "sign_field w = s" "exp_field w = e" "frac_field w = m" using assms(1) by (auto simp: N_def)
qed

text \<open>Every number of the format is read back from its pattern.\<close>

lemma decode_encode:
  assumes "0 \<le> x" and "representable 24 (-149) x" and "x < pow2 128"
  shows "decode32 (encode32 (Fin s x)) = Fin s x"
proof -
  define e where "e = ulp_exp 24 (-149) 128 x"
  define m where "m = nat (rne (x / pow2 e))"
  note u = ulp_exp_props[of x 128 "-149" 24, folded e_def]
  have "0 \<le> rne (x / pow2 e)" using assms(1) by (intro rne_ge) simp
  then have x: "x = of_nat m * pow2 e"
    using b32.round_mag_exact[OF assms(2,3)] by (simp add: round_mag_def Let_def e_def[symmetric] m_def)
  have floor: "nat \<lfloor>x / pow2 e\<rfloor> = m" by (simp add: x)
  have "of_nat m * pow2 e < of_nat (2 ^ 24) * pow2 e" using u(2) assms(3) int_power_pow2[of 24 e] by (simp add: x)
  then have m24: "m < 2 ^ 24" by (simp only: mult_less_cancel_right_pos[OF pow2_pos] of_nat_less_iff)
  have p23: "of_nat (2 ^ 23) * pow2 e = pow2 (e + 23)" using int_power_pow2[of 23 e] by simp
  define w where "w = encode32 (Fin s x)"
  have w: "w = word_of_int ((if s then 2 ^ 31 else 0) + int (if m < 2 ^ 23 then m else nat (e + 149) * 2 ^ 23 + m))"
    by (simp only: w_def encode32_def fp.case Let_def e_def[symmetric] floor)
  have "decode32 w = Fin s x"
  proof (cases "m < 2 ^ 23")
    case True
    have "of_nat m * pow2 e < of_nat (2 ^ 23) * pow2 e" using True by (intro mult_strict_right_mono) (simp_all only: of_nat_less_iff pow2_pos)
    then have "x < pow2 (e + 23)" by (simp only: x p23)
    then have "e = - 149" using u(3) assms(3) by (auto simp: add.commute)
    moreover have "w = word_of_int ((if s then 2 ^ 31 else 0) + int (0 * 2 ^ 23 + m))" by (simp only: w True if_True mult_0 add_0)
    note fields_of[of 0 m s, folded this]
    ultimately show ?thesis using True by (simp add: decode32_def x Let_def)
  next
    case False
    then obtain f where f: "m = 2 ^ 23 + f" using le_Suc_ex[of "2 ^ 23" m] by auto
    have "of_nat (2 ^ 23) * pow2 e \<le> of_nat m * pow2 e" using False by (intro mult_right_mono) (simp_all only: of_nat_le_iff pow2_nonneg)
    then have "pow2 (e + 23) \<le> x" by (simp only: x p23)
    then have "pow2 (e + 23) < pow2 128" using assms(3) by linarith
    then have e: "e + 23 < 128" "- 149 \<le> e" using u(1) assms(3) by (simp_all add: pow2_less_iff)
    define E where "E = nat (e + 150)"
    have E: "E < 255" "0 < E" "int E = e + 150" "nat (e + 149) * 2 ^ 23 + m = E * 2 ^ 23 + f" "f < 2 ^ 23"
      using e m24 by (auto simp: E_def f nat_add_distrib)
    have "w = word_of_int ((if s then 2 ^ 31 else 0) + int (E * 2 ^ 23 + f))" by (simp only: w False if_False E(4))
    note fields_of[of E f s, folded this]
    then have "decode32 w = Fin s (of_nat (2 ^ 23 + f) * pow2 (int E - 150))" using E(1,2,5) by (simp add: decode32_def Let_def)
    then show ?thesis by (simp add: E(3) x f)
  qed
  then show ?thesis by (simp only: w_def)
qed

end
