(* ===== verification/Prepostprocessor.thy ===== *)
theory Prepostprocessor
  imports Common_Types Ieee_Float
begin

unbundle bit_operations_syntax

text \<open>
  The prepostprocessors (client_lib/src/prepostprocessor.h, prepostprocessor.cc and
  prepostprocessors/): they move a logical transmission unit (LTU) between the application's tensor
  and the backend's buffers. The bypass moves nothing; the exponent quantizer turns floats into
  integers that the switch can add, with a scaling factor computed from the exponents the workers
  exchanged one batch earlier, and only converts the byte order of integers. The scalar loops are
  modelled (a build without the vector class library), on a little-endian host.
\<close>

section \<open>Memory\<close>

text \<open>
  Elements of 4 bytes, by address, and the bytes of the separately allocated extra information.
\<close>

record heap =
  words :: memory
  bytes :: "ptr \<Rightarrow> 8 word"

definition bswap32 :: "32 word \<Rightarrow> 32 word" where
  "bswap32 w = push_bit 24 (w AND 0xFF) OR push_bit 8 (w AND 0xFF00) OR
               drop_bit 8 (w AND 0xFF0000) OR drop_bit 24 (w AND 0xFF000000)"

definition htonl :: "32 word \<Rightarrow> 32 word" where
  "htonl w = bswap32 w"

definition ntohl :: "32 word \<Rightarrow> 32 word" where
  "ntohl w = bswap32 w"

text \<open>The loop \<open>for (i = 0; i < k; i++) dst[i] = f(src[i])\<close>.\<close>

fun transfer :: "(32 word \<Rightarrow> 32 word) \<Rightarrow> ptr \<Rightarrow> ptr \<Rightarrow> nat \<Rightarrow> memory \<Rightarrow> memory" where
  "transfer f src dst 0 m = m"
| "transfer f src dst (Suc k) m =
     (let m' = transfer f src dst k m in m'(dst + 4 * k := f (m' (src + 4 * k))))"

section \<open>The object\<close>

datatype ppp_kind = CpuExponentQuantizerPPP | BypassPPP

text \<open>\<open>ppp_num_workers\<close> is read from the configuration; the two pointers may be null.\<close>

record PrePostProcessor =
  ppp_kind :: ppp_kind
  ppp_num_workers :: nat
  ppp_worker_tid :: nat
  ppp_ltu_size :: nat
  ppp_batch_max_num_ltus :: nat
  ppp_job_slice :: "Tensor option"
  ppp_scaling_factors :: "fp list option"
  ppp_total_main_num_ltus :: nat
  ppp_batch_num_ltus :: nat

definition new_PPP :: "ppp_kind \<Rightarrow> nat \<Rightarrow> nat \<Rightarrow> nat \<Rightarrow> nat \<Rightarrow> PrePostProcessor" where
  "new_PPP k num_workers tid ltu_size batch =
     \<lparr>ppp_kind = k, ppp_num_workers = num_workers, ppp_worker_tid = tid, ppp_ltu_size = ltu_size,
      ppp_batch_max_num_ltus = batch, ppp_job_slice = None, ppp_scaling_factors = None,
      ppp_total_main_num_ltus = 0, ppp_batch_num_ltus = 0\<rparr>"

definition CreatePPP :: "string \<Rightarrow> nat \<Rightarrow> nat \<Rightarrow> nat \<Rightarrow> nat \<Rightarrow> PrePostProcessor outcome" where
  "CreatePPP ppp num_workers tid ltu_size batch =
     (if ppp = ''cpu_exponent_quantizer'' then Inr (new_PPP CpuExponentQuantizerPPP num_workers tid ltu_size batch)
      else if ppp = ''bypass'' then Inr (new_PPP BypassPPP num_workers tid ltu_size batch)
      else Inl (Fatal ''not a valid prepostprocessor''))"

text \<open>The rounded-up number of LTUs of a tensor; both classes compute it the same way.\<close>

definition num_ltus :: "nat \<Rightarrow> Tensor \<Rightarrow> nat outcome" where
  "num_ltus ltu_size t =
     (let tensor_size = u64_mul (numel t) (DataTypeSize (data_type t))
      in if ltu_size = 0 then Inl (Crash ''division by zero'')
         else Inr (u64_sub (u64_add tensor_size ltu_size) 1 div ltu_size))"

text \<open>\<open>garbage\<close> is what a freshly allocated array of floats contains.\<close>

definition SetupJobSlice :: "(nat \<Rightarrow> fp) \<Rightarrow> Tensor \<Rightarrow> PrePostProcessor \<Rightarrow> (nat \<times> PrePostProcessor) outcome" where
  "SetupJobSlice garbage t p =
     bindE (num_ltus (ppp_ltu_size p) t) (\<lambda>n.
       case ppp_kind p of
         BypassPPP \<Rightarrow> Inr (n, p)
       | CpuExponentQuantizerPPP \<Rightarrow>
           Inr (n, p\<lparr>ppp_job_slice := Some t, ppp_total_main_num_ltus := n,
                     ppp_batch_num_ltus := min n (ppp_batch_max_num_ltus p),
                     ppp_scaling_factors := (if data_type t = FLOAT32 then Some (map garbage [0..<n])
                                             else ppp_scaling_factors p)\<rparr>))"

definition NeedsExtraBatch :: "PrePostProcessor \<Rightarrow> bool outcome" where
  "NeedsExtraBatch p =
     (case ppp_kind p of
        BypassPPP \<Rightarrow> Inr False
      | CpuExponentQuantizerPPP \<Rightarrow>
          (case ppp_job_slice p of
             None \<Rightarrow> Inl (Crash ''null job slice'')
           | Some t \<Rightarrow> Inr (data_type t = FLOAT32)))"

definition CleanupJobSlice :: "PrePostProcessor \<Rightarrow> PrePostProcessor" where
  "CleanupJobSlice p =
     (case ppp_kind p of
        BypassPPP \<Rightarrow> p
      | CpuExponentQuantizerPPP \<Rightarrow> p\<lparr>ppp_scaling_factors := None\<rparr>)"

text \<open>The first element of an LTU, and how many elements of it lie inside the slice.\<close>

definition ltu_offset :: "PrePostProcessor \<Rightarrow> Tensor \<Rightarrow> nat \<Rightarrow> nat" where
  "ltu_offset p t ltu = u64_mul ltu (ppp_ltu_size p div DataTypeSize (data_type t))"

definition numel_to_process :: "PrePostProcessor \<Rightarrow> Tensor \<Rightarrow> nat \<Rightarrow> nat" where
  "numel_to_process p t ltu =
     min (ppp_ltu_size p div DataTypeSize (data_type t)) (u64_sub (numel t) (ltu_offset p t ltu))"

section \<open>Quantization\<close>

definition quantize :: "fp \<Rightarrow> 32 word \<Rightarrow> 32 word" where
  "quantize sf w = fp_to_uint32 (fp_round (fp_mul round32 (decode32 w) sf))"

definition dequantize :: "fp \<Rightarrow> 32 word \<Rightarrow> 32 word" where
  "dequantize sf w = encode32 (fp_div round32 (fp_of_int round32 (sint w)) sf)"

text \<open>The bits of the largest absolute value of \<open>k\<close> floats, found by a loop that starts at 0.\<close>

fun current_max :: "memory \<Rightarrow> ptr \<Rightarrow> nat \<Rightarrow> 32 word" where
  "current_max m src 0 = 0"
| "current_max m src (Suc k) =
     (let c = current_max m src k; v = m (src + 4 * k) AND 0x7FFFFFFF
      in if fp_greater (decode32 v) (decode32 c) then v else c)"

definition exponent_of :: "32 word \<Rightarrow> 8 word" where
  "exponent_of c = ucast (drop_bit 23 (c AND 0x7F800000) - 126)"

text \<open>
  \<open>double(INT32_MAX) / (num_workers * powf(2, exponent))\<close>, stored into a float: the power is exact,
  the product is rounded to a float, the quotient to a double and then to a float.
\<close>

definition scaling_factor :: "nat \<Rightarrow> 8 word \<Rightarrow> fp" where
  "scaling_factor num_workers e =
     fp_convert round32
       (fp_div round64 (fp_of_int round64 2147483647)
         (fp_convert round64 (fp_mul round32 (fp_of_int round32 (int num_workers)) (Fin False (pow2 (sint e))))))"

definition get_factor :: "PrePostProcessor \<Rightarrow> nat \<Rightarrow> fp outcome" where
  "get_factor p i =
     (case ppp_scaling_factors p of
        None \<Rightarrow> Inl (Crash ''null scaling factors'')
      | Some sfs \<Rightarrow> if i < length sfs then Inr (sfs ! i) else Inl (Crash ''scaling factor out of bounds''))"

definition set_factor :: "PrePostProcessor \<Rightarrow> nat \<Rightarrow> fp \<Rightarrow> PrePostProcessor outcome" where
  "set_factor p i v =
     (case ppp_scaling_factors p of
        None \<Rightarrow> Inl (Crash ''null scaling factors'')
      | Some sfs \<Rightarrow> if i < length sfs then Inr (p\<lparr>ppp_scaling_factors := Some (sfs[i := v])\<rparr>)
                    else Inl (Crash ''scaling factor out of bounds''))"

section \<open>Preprocessing\<close>

text \<open>The two halves of the float case, then the whole method.\<close>

definition quantize_ltu :: "nat \<Rightarrow> ptr \<Rightarrow> Tensor \<Rightarrow> PrePostProcessor \<Rightarrow> heap \<Rightarrow> heap outcome" where
  "quantize_ltu ltu entries t p h =
     bindE (get_factor p ltu) (\<lambda>sf.
       Inr (h\<lparr>words := transfer (\<lambda>w. htonl (quantize sf w)) (in_ptr t + 4 * ltu_offset p t ltu) entries
                         (numel_to_process p t ltu) (words h)\<rparr>))"

definition store_exponent :: "nat \<Rightarrow> ptr \<Rightarrow> Tensor \<Rightarrow> PrePostProcessor \<Rightarrow> heap \<Rightarrow> heap" where
  "store_exponent ltu extra t p h =
     h\<lparr>bytes := (bytes h)(extra := exponent_of
         (current_max (words h) (in_ptr t + 4 * ltu_offset p t ltu) (numel_to_process p t ltu)))\<rparr>"

definition PreprocessSingle :: "nat \<Rightarrow> ptr \<Rightarrow> ptr \<Rightarrow> PrePostProcessor \<Rightarrow> heap \<Rightarrow> heap outcome" where
  "PreprocessSingle ltu entries extra p h =
     (case ppp_kind p of
        BypassPPP \<Rightarrow> Inr h
      | CpuExponentQuantizerPPP \<Rightarrow>
          (case ppp_job_slice p of
             None \<Rightarrow> Inl (Crash ''null job slice'')
           | Some t \<Rightarrow>
               (case data_type t of
                  FLOAT32 \<Rightarrow>
                    bindE (if ltu \<ge> ppp_batch_num_ltus p
                           then quantize_ltu (ltu - ppp_batch_num_ltus p) entries t p h else Inr h) (\<lambda>h1.
                      Inr (if ltu < ppp_total_main_num_ltus p then store_exponent ltu extra t p h1 else h1))
                | INT32 \<Rightarrow>
                    Inr (h\<lparr>words := transfer htonl (in_ptr t + 4 * ltu_offset p t ltu) entries
                                      (numel_to_process p t ltu) (words h)\<rparr>))))"

section \<open>Postprocessing\<close>

definition dequantize_ltu :: "nat \<Rightarrow> ptr \<Rightarrow> Tensor \<Rightarrow> PrePostProcessor \<Rightarrow> heap \<Rightarrow> heap outcome" where
  "dequantize_ltu ltu entries t p h =
     bindE (get_factor p ltu) (\<lambda>sf.
       Inr (h\<lparr>words := transfer (\<lambda>w. dequantize sf (ntohl w)) entries (out_ptr t + 4 * ltu_offset p t ltu)
                         (numel_to_process p t ltu) (words h)\<rparr>))"

definition PostprocessSingle ::
  "nat \<Rightarrow> ptr \<Rightarrow> ptr \<Rightarrow> PrePostProcessor \<Rightarrow> heap \<Rightarrow> (PrePostProcessor \<times> heap) outcome"
where
  "PostprocessSingle ltu entries extra p h =
     (case ppp_kind p of
        BypassPPP \<Rightarrow> Inr (p, h)
      | CpuExponentQuantizerPPP \<Rightarrow>
          (case ppp_job_slice p of
             None \<Rightarrow> Inl (Crash ''null job slice'')
           | Some t \<Rightarrow>
               (case data_type t of
                  FLOAT32 \<Rightarrow>
                    bindE (if ltu \<ge> ppp_batch_num_ltus p
                           then dequantize_ltu (ltu - ppp_batch_num_ltus p) entries t p h else Inr h) (\<lambda>h1.
                    bindE (if ltu < ppp_total_main_num_ltus p
                           then set_factor p ltu (scaling_factor (ppp_num_workers p) (bytes h1 extra))
                           else Inr p) (\<lambda>p1. Inr (p1, h1)))
                | INT32 \<Rightarrow>
                    Inr (p, h\<lparr>words := transfer ntohl entries (out_ptr t + 4 * ltu_offset p t ltu)
                                         (numel_to_process p t ltu) (words h)\<rparr>))))"

section \<open>Byte order\<close>

lemma byte_masks: "(0xFF :: 32 word) = mask 8" "(0xFF00 :: 32 word) = push_bit 8 (mask 8)"
  "(0xFF0000 :: 32 word) = push_bit 16 (mask 8)" "(0xFF000000 :: 32 word) = push_bit 24 (mask 8)"
  by (simp_all add: mask_eq_exp_minus_1 push_bit_eq_mult)

lemma bit_bswap32:
  "bit (bswap32 w) n \<longleftrightarrow>
     (24 \<le> n \<and> n < 32 \<and> bit w (n - 24)) \<or> (16 \<le> n \<and> n < 24 \<and> bit w (n - 8)) \<or>
     (8 \<le> n \<and> n < 16 \<and> bit w (n + 8)) \<or> (n < 8 \<and> bit w (n + 24))"
proof (cases "n < 32")
  case True
  define k where "k = n mod 8"
  have "k < 8" "n = k \<or> n = 8 + k \<or> n = 16 + k \<or> n = 24 + k"
    using True unfolding k_def by presburger+
  then show ?thesis
    unfolding bswap32_def byte_masks bit_or_iff bit_and_iff bit_push_bit_iff bit_drop_bit_eq bit_mask_iff o_apply
      possible_bit_word
    by (elim disjE) (simp_all add: add.commute)
next
  case False
  then show ?thesis using impossible_bit[of n "bswap32 w"] by simp
qed

lemma bswap32_involution [simp]: "bswap32 (bswap32 w) = w"
proof (rule bit_word_eqI)
  fix n assume "n < LENGTH(32)"
  then have "n < 32" by simp
  then consider "n < 8" | "8 \<le> n \<and> n < 16" | "16 \<le> n \<and> n < 24" | "24 \<le> n \<and> n < 32" by linarith
  then show "bit (bswap32 (bswap32 w)) n = bit w n"
    by cases (auto simp: bit_bswap32)
qed
lemma ntohl_htonl [simp]: "ntohl (htonl w) = w" and htonl_ntohl [simp]: "htonl (ntohl w) = w"
  by (simp_all add: htonl_def ntohl_def)

section \<open>The copying loop\<close>

text \<open>No element is read after an earlier iteration has overwritten it.\<close>

definition no_clobber :: "ptr \<Rightarrow> ptr \<Rightarrow> nat \<Rightarrow> bool" where
  "no_clobber src dst k \<longleftrightarrow> (\<forall>i < k. \<forall>j < i. dst + 4 * j \<noteq> src + 4 * i)"

definition in_block :: "ptr \<Rightarrow> nat \<Rightarrow> ptr \<Rightarrow> bool" where
  "in_block base k a \<longleftrightarrow> (\<exists>i < k. a = base + 4 * i)"

lemma no_clobber_SucD: "no_clobber src dst (Suc k) \<Longrightarrow> no_clobber src dst k"
  by (simp add: no_clobber_def)

lemma transfer_other: "\<not> in_block dst k a \<Longrightarrow> transfer f src dst k m a = m a"
  by (induction k) (auto simp: in_block_def Let_def less_Suc_eq)

lemma transfer_block:
  "no_clobber src dst k \<Longrightarrow> i < k \<Longrightarrow> transfer f src dst k m (dst + 4 * i) = f (m (src + 4 * i))"
proof (induction k)
  case (Suc k)
  have nc: "no_clobber src dst k" by (rule no_clobber_SucD[OF Suc.prems(1)])
  show ?case
  proof (cases "i = k")
    case True
    have "dst + 4 * j \<noteq> src + 4 * k" if "j < k" for j
      using Suc.prems(1) that by (simp add: no_clobber_def)
    then have "\<not> in_block dst k (src + 4 * k)" by (metis in_block_def)
    then show ?thesis using True by (simp add: Let_def transfer_other)
  next
    case False
    then show ?thesis using Suc.IH[OF nc] Suc.prems(2) by (simp add: Let_def)
  qed
qed simp

section \<open>Exponents\<close>

lemma unat_and_mask31: "unat (w AND 0x7FFFFFFF) = unat w mod 2 ^ 31" for w :: "32 word"
proof -
  have "(0x7FFFFFFF :: 32 word) = mask 31" by (simp add: mask_eq_exp_minus_1)
  then have "w AND 0x7FFFFFFF = take_bit 31 w" by (simp add: take_bit_eq_mask)
  then show ?thesis by (simp only: unsigned_take_bit_eq) (simp add: take_bit_eq_mod)
qed

lemma abs_fields:
  "exp_field (w AND 0x7FFFFFFF) = exp_field w" "frac_field (w AND 0x7FFFFFFF) = frac_field w"
  "\<not> sign_field (w AND 0x7FFFFFFF)"
proof -
  have l: "unat w < 2 ^ 32" using unsigned_less[of w] by simp
  have "unat w mod (2 ^ 23 * 256) div 2 ^ 23 = unat w div 2 ^ 23 mod 256"
    unfolding mod_mult2_eq by simp
  then have "unat w mod 2 ^ 31 div 2 ^ 23 mod 256 = unat w div 2 ^ 23 mod 256" by simp
  then show "exp_field (w AND 0x7FFFFFFF) = exp_field w" by (simp add: exp_field_def unat_and_mask31)
  show "frac_field (w AND 0x7FFFFFFF) = frac_field w"
    by (simp add: frac_field_def unat_and_mask31 mod_mod_cancel)
  show "\<not> sign_field (w AND 0x7FFFFFFF)" by (simp add: sign_field_def unat_and_mask31 not_le)
qed

text \<open>Comparing finite magnitudes compares exponent fields.\<close>

lemma decode32_lower:
  assumes "decode32 w = Fin s x" and "0 < exp_field w"
  shows "pow2 (int (exp_field w) - 127) \<le> x"
proof -
  have "x = of_int (2 ^ 23 + int (frac_field w)) * pow2 (int (exp_field w) - 150)"
    using assms by (auto simp: decode32_def Let_def split: if_splits)
  moreover have "of_int (2 ^ 23) * pow2 (int (exp_field w) - 150) \<le>
      of_int (2 ^ 23 + int (frac_field w)) * pow2 (int (exp_field w) - 150)"
    by (intro mult_right_mono) (simp_all only: of_int_le_iff pow2_nonneg)
  ultimately show ?thesis by (simp only: int_power_pow2) simp
qed

lemma decode32_finite: "exp_field w < 255 \<Longrightarrow> \<exists>x. decode32 w = Fin (sign_field w) x"
  by (auto simp: decode32_def Let_def)

lemma exp_field_mono:
  assumes "decode32 a = Fin False x" and "decode32 b = Fin False y" and "x \<le> y"
  shows "exp_field a \<le> exp_field b"
proof (rule ccontr)
  assume "\<not> ?thesis"
  then have lt: "exp_field b < exp_field a" by simp
  then have "pow2 (int (exp_field a) - 127) \<le> x" using decode32_lower[OF assms(1)] by simp
  moreover have "y \<le> (1 - pow2 (- 24)) * pow2 (int (exp_field b) - 126)"
    using decode32_bound(2)[OF assms(2)] by simp
  moreover have "pow2 (int (exp_field b) - 126) \<le> pow2 (int (exp_field a) - 127)"
    using lt by (intro pow2_mono) simp
  moreover have "(1 - pow2 (- 24)) * pow2 (int (exp_field b) - 126) < pow2 (int (exp_field b) - 126)"
    using pow2_pos[of "int (exp_field b) - 126"] pow2_pos[of "- 24"] by (simp add: left_diff_distrib)
  ultimately show False using assms(3) by linarith
qed

text \<open>The exponent field of the maximum is at least that of every element.\<close>

lemma current_max_exponent:
  assumes "\<forall>i < k. exp_field (m (src + 4 * i)) < 255"
  shows "exp_field (current_max m src k) < 255 \<and> \<not> sign_field (current_max m src k) \<and>
     (\<forall>i < k. exp_field (m (src + 4 * i)) \<le> exp_field (current_max m src k))"
  using assms
proof (induction k)
  case 0
  then show ?case by (simp add: exp_field_def sign_field_def)
next
  case (Suc k)
  define c where "c = current_max m src k"
  define v where "v = m (src + 4 * k) AND 0x7FFFFFFF"
  have ih: "exp_field c < 255" "\<not> sign_field c" "\<forall>i < k. exp_field (m (src + 4 * i)) \<le> exp_field c"
    using Suc by (simp_all add: c_def)
  have ve: "exp_field v = exp_field (m (src + 4 * k))" "\<not> sign_field v" "exp_field v < 255"
    using Suc.prems by (simp_all add: v_def abs_fields)
  obtain x y where xy: "decode32 v = Fin False x" "decode32 c = Fin False y"
    using decode32_finite[of v] decode32_finite[of c] ve ih by auto
  have cm: "current_max m src (Suc k) = (if y < x then v else c)"
    by (simp add: Let_def c_def[symmetric] v_def[symmetric] xy)
  show ?case
  proof (cases "y < x")
    case True
    then have "exp_field c \<le> exp_field v" using exp_field_mono[OF xy(2,1)] by simp
    then have "\<forall>i < Suc k. exp_field (m (src + 4 * i)) \<le> exp_field v"
      using ih(3) ve(1) by (auto simp: less_Suc_eq intro: order_trans)
    then show ?thesis using ve cm True by simp
  next
    case False
    then have "exp_field v \<le> exp_field c" using exp_field_mono[OF xy] by simp
    then show ?thesis using ih ve(1) cm False by (auto simp: less_Suc_eq)
  qed
qed

lemma exponent_of_field: "exponent_of c = word_of_int (int (exp_field c) - 126)"
proof -
  have "drop_bit 23 (0x7F800000 :: 32 word) = mask 8" by (simp add: mask_eq_exp_minus_1)
  then have "drop_bit 23 (c AND 0x7F800000) = take_bit 8 (drop_bit 23 c)"
    by (simp only: drop_bit_and take_bit_eq_mask)
  then have "unat (drop_bit 23 (c AND 0x7F800000)) = exp_field c"
    by (simp only: unsigned_take_bit_eq unat_drop_bit_eq exp_field_def)
      (simp add: take_bit_eq_mod drop_bit_eq_div)
  then have "drop_bit 23 (c AND 0x7F800000) = of_int (int (exp_field c))"
    by (metis of_int_of_nat_eq of_nat_unat ucast_id)
  then have "exponent_of c = ucast (of_int (int (exp_field c) - 126) :: 32 word)"
    by (simp only: exponent_of_def) simp
  also have "\<dots> = of_int (int (exp_field c) - 126)"
    by (rule ucast_down_wi) (simp add: is_down_def target_size_def source_size_def)
  finally show ?thesis by simp
qed

lemma exponent_of_value:
  assumes "exp_field c < 254"
  shows "sint (exponent_of c) = int (exp_field c) - 126"
proof -
  have "sint (exponent_of c) = signed_take_bit 7 (int (exp_field c) - 126)"
    unfolding exponent_of_field by (simp only: sint_sbintrunc') simp
  also have "\<dots> = int (exp_field c) - 126" using assms by (intro signed_take_bit_int_eq_self) simp_all
  finally show ?thesis .
qed

section \<open>The scaling factor\<close>

text \<open>The divisor of the scaling factor, the number of workers times the power, is exact in both formats.\<close>

lemma divisor_bounds:
  fixes D :: rat
  assumes nw: "1 \<le> nw" "nw \<le> 255" and e: "- 96 \<le> e" "e \<le> 120" and D: "D = of_nat nw * pow2 e"
  shows "pow2 e \<le> D" "D < pow2 (e + 8)" "0 < D" "D < pow2 128" "D < pow2 1024"
    "representable 24 (-149) D" "representable 53 (-1074) D"
proof -
  have "(of_nat nw :: rat) < pow2 8" using nw(2) by (simp add: pow2_def)
  then have "D < pow2 8 * pow2 e" unfolding D by (intro mult_strict_right_mono) simp_all
  then show D8: "D < pow2 (e + 8)" by (simp only: pow2_add mult.commute)
  show De: "pow2 e \<le> D"
    using nw(1) mult_right_mono[of 1 "of_nat nw" "pow2 e"] by (simp add: D)
  show "0 < D" using De pow2_pos[of e] by linarith
  show D128: "D < pow2 128" using D8 pow2_mono[of "e + 8" 128] e(2) by linarith
  show "D < pow2 1024" using D128 pow2_mono[of 128 1024] by linarith
  show "representable 24 (-149) D" unfolding D using nw e by (intro representableI[of _ "int nw" e]) simp_all
  show "representable 53 (-1074) D" unfolding D using nw e by (intro representableI[of _ "int nw" e]) simp_all
qed

lemma round64_error:
  assumes low: "pow2 (- 98) \<le> X" and X: "X < pow2 1024"
  shows "\<bar>round_mag 53 (-1074) 1024 X - X\<bar> \<le> X / 2 ^ 53"
proof -
  note u = ulp_exp_props[OF X b64.q_le_t b64.p_pos]
  define u where "u = ulp_exp 53 (-1074) 1024 X"
  have "pow2 (u + 52) \<le> X"
  proof (rule ccontr)
    assume "\<not> ?thesis"
    then have "u = - 1074" using u(3) by (auto simp: u_def add.commute)
    then have "X < pow2 (- 1021)" using u(2) by (simp add: u_def)
    then show False using low pow2_mono[of "- 1021" "- 98"] by linarith
  qed
  then have "pow2 u * 2 ^ 52 \<le> X" by (simp add: pow2_add) (simp add: pow2_def)
  then have "pow2 u / 2 \<le> X / 2 ^ 53" by simp
  then show ?thesis using b64.round_mag_error[of X] unfolding u_def by linarith
qed

text \<open>The quotient of the largest integer and the divisor, rounded to a double.\<close>

lemma quotient_bounds:
  assumes D: "pow2 e \<le> D" "D < pow2 (e + 8)" "0 < D" and e: "- 96 \<le> e" "e \<le> 120"
  defines "Y \<equiv> round_mag 53 (-1074) 1024 (2147483647 / D)"
  shows "Y * D < 2 ^ 31" "2147483647 / D / 2 \<le> Y" "pow2 (- 99) \<le> Y" "Y < pow2 127"
proof -
  define X where "X = 2147483647 / D"
  have "pow2 (- 98) * D \<le> pow2 (- 98) * pow2 (e + 8)" using D(2) by (intro mult_left_mono) simp_all
  also have "\<dots> = pow2 (e - 90)" by (simp add: pow2_add[symmetric])
  also have "\<dots> \<le> pow2 30" using e(2) by (intro pow2_mono) simp
  also have "\<dots> \<le> 2147483647" by (simp add: pow2_def)
  finally have Xlow: "pow2 (- 98) \<le> X" using D(3) by (simp add: X_def pos_le_divide_eq)
  have "2147483647 < pow2 (127 + e)" using e(1) pow2_mono[of 31 "127 + e"] by (simp add: pow2_def)
  also have "\<dots> \<le> pow2 127 * D" unfolding pow2_add using D(1) by (intro mult_left_mono) simp_all
  finally have Xhigh: "X < pow2 127" using D(3) by (simp add: X_def pos_divide_less_eq)
  have Xpos: "0 < X" using Xlow pow2_pos[of "- 98"] by linarith
  have err: "\<bar>Y - X\<bar> \<le> X / 2 ^ 53"
    unfolding Y_def X_def[symmetric] using Xlow Xhigh pow2_mono[of 127 1024] by (intro round64_error) linarith+
  have "Y \<le> X + X / 2 ^ 53" using err by linarith
  then have "Y \<le> X * (1 + 1 / 2 ^ 53)" by (simp only: distrib_left mult_1_right times_divide_eq_right)
  then have "Y * D \<le> X * (1 + 1 / 2 ^ 53) * D" using D(3) by (intro mult_right_mono) simp_all
  also have "\<dots> = 2147483647 * (1 + 1 / 2 ^ 53)" using D(3) by (simp add: X_def)
  also have "\<dots> < 2 ^ 31" by simp
  finally show YD: "Y * D < 2 ^ 31" .
  have "X / 2 ^ 53 \<le> X / 2" using Xpos by simp
  then have half: "X / 2 \<le> Y" using err by linarith
  then show "2147483647 / D / 2 \<le> Y" by (simp only: X_def)
  have "pow2 (- 99) = pow2 (- 98) / 2" by (simp add: pow2_def)
  then show Ylow: "pow2 (- 99) \<le> Y" using Xlow half by linarith
  have "Y * pow2 e \<le> Y * D" using D(1) Ylow pow2_pos[of "- 99"] by (intro mult_left_mono) linarith+
  then have "Y * pow2 e < pow2 31" using YD by (simp add: pow2_def)
  also have "\<dots> \<le> pow2 (127 + e)" using e(1) by (intro pow2_mono) simp
  finally show "Y < pow2 127" by (simp add: pow2_add)
qed

text \<open>The chain of conversions of the code is one division rounded twice, to a double and to a float.\<close>

lemma scaling_factor_rounded:
  assumes nw: "1 \<le> nw" "nw \<le> 255" and e: "sint e8 = e" "- 96 \<le> e" "e \<le> 120"
  defines "Y \<equiv> round_mag 53 (-1074) 1024 (2147483647 / (of_nat nw * pow2 e))"
  shows "scaling_factor nw e8 = Fin False (round_mag 24 (-149) 128 Y)"
proof -
  define D :: rat where "D = of_nat nw * pow2 e"
  note D = divisor_bounds[OF nw e(2,3) D_def]
  note Q = quotient_bounds[OF D(1-3) e(2,3), folded Y_def[folded D_def]]
  have "representable 24 (-149) (of_nat nw)" using nw by (intro representableI[of _ "int nw" 0]) simp_all
  moreover have "(of_nat nw :: rat) \<le> 255" using nw(2) by (metis of_nat_le_iff of_nat_numeral)
  moreover have "(255 :: rat) < pow2 128" by (simp add: pow2_def)
  ultimately have r1: "fp_of_int round32 (int nw) = Fin False (of_nat nw)"
    by (simp add: fp_of_int_def round32_def round_fp_def Let_def b32.round_mag_exact order.strict_trans1 not_le)
  have r2: "fp_mul round32 (Fin False (of_nat nw)) (Fin False (pow2 (sint e8))) = Fin False D"
    using D by (simp add: e(1) round32_def round_fp_def Let_def b32.round_mag_exact D_def[symmetric] not_le)
  have r3: "fp_convert round64 (Fin False D) = Fin False D"
    using D by (simp add: round64_def round_fp_def Let_def b64.round_mag_exact not_le)
  have "representable 53 (-1074) 2147483647" by (intro representableI[of _ 2147483647 0]) simp_all
  moreover have "(2147483647 :: rat) < pow2 1024" using pow2_mono[of 31 1024] by (simp add: pow2_def)
  ultimately have r4: "fp_of_int round64 2147483647 = Fin False 2147483647"
    by (simp add: fp_of_int_def round64_def round_fp_def Let_def b64.round_mag_exact not_le)
  have "Y < pow2 1024" using Q(4) pow2_mono[of 127 1024] by linarith
  then have r5: "fp_div round64 (Fin False 2147483647) (Fin False D) = Fin False Y"
    using D(3) by (simp add: round64_def round_fp_def Let_def Y_def D_def[symmetric] not_le)
  have "round_mag 24 (-149) 128 Y \<le> pow2 127"
    using Q(4) pow2_mono[of 127 128] by (intro b32.round_mag_le) (simp_all add: representableI[of _ 1 127])
  then have "round_mag 24 (-149) 128 Y < pow2 128" using pow2_strict_mono[of 127 128] by linarith
  then have r6: "fp_convert round32 (Fin False Y) = Fin False (round_mag 24 (-149) 128 Y)"
    by (simp add: round32_def round_fp_def Let_def not_le)
  show ?thesis by (simp only: scaling_factor_def Let_def r1 r2 r3 r4 r5 r6)
qed

text \<open>A number of the normal range, rounded to a float, in normalised form.\<close>

lemma normal_float:
  assumes low: "pow2 (- 99) \<le> Y" and Y: "Y < pow2 128"
  shows "\<exists>m k. round_mag 24 (-149) 128 Y = of_int m * pow2 k \<and> 2 ^ 23 \<le> m \<and> m < 2 ^ 24 \<and>
    - 123 < k \<and> Y < pow2 (k + 24)"
proof -
  note u = ulp_exp_props[OF Y b32.q_le_t b32.p_pos]
  define u where "u = ulp_exp 24 (-149) 128 Y"
  define n where "n = rne (Y / pow2 u)"
  have S: "round_mag 24 (-149) 128 Y = of_int n * pow2 u" by (simp add: round_mag_def Let_def n_def u_def)
  have ub: "Y < pow2 (u + 24)" using u(2) by (simp add: u_def add.commute)
  then have "pow2 (- 99) < pow2 (u + 24)" using low by linarith
  then have u1: "- 123 < u" by (simp add: pow2_less_iff)
  have "pow2 (u + 23) \<le> Y" using u(3) u1 by (auto simp: u_def add.commute)
  then have "of_int (2 ^ 23) * pow2 u \<le> Y" by (simp only: int_power_pow2) simp
  then have n1: "2 ^ 23 \<le> n" unfolding n_def by (intro rne_ge) (simp only: pos_le_divide_eq pow2_pos)
  have "Y \<le> of_int (2 ^ 24) * pow2 u" using ub by (simp only: int_power_pow2) (simp add: add.commute)
  then have n2: "n \<le> 2 ^ 24" unfolding n_def by (intro rne_le) (simp only: pos_divide_le_eq pow2_pos)
  show ?thesis
  proof (cases "n = 2 ^ 24")
    case True
    then have "round_mag 24 (-149) 128 Y = of_int (2 ^ 23) * pow2 (u + 1)" using S by (simp add: pow2_add)
    moreover have "Y < pow2 (u + 1 + 24)" using ub pow2_strict_mono[of "u + 24" "u + 1 + 24"] by linarith
    ultimately show ?thesis using u1 by (intro exI[of _ "2 ^ 23"] exI[of _ "u + 1"]) simp
  next
    case False
    then show ?thesis using S n1 n2 u1 ub by (intro exI[of _ n] exI[of _ u]) simp
  qed
qed

text \<open>The float just below a normalised one is a float too.\<close>

lemma float_predecessor:
  assumes m: "2 ^ 23 \<le> m" "m < 2 ^ 24" and k: "- 123 < k"
  defines "g \<equiv> (if m = 2 ^ 23 then pow2 (k - 1) else pow2 k)"
  shows "representable 24 (-149) (of_int m * pow2 k - g)"
proof (cases "m = 2 ^ 23")
  case True
  then have "of_int m * pow2 k - g = of_int (2 * m - 1) * pow2 (k - 1)" by (simp add: g_def pow2_diff)
  then show ?thesis using True k by (intro representableI[of _ "2 * m - 1" "k - 1"]) simp_all
next
  case False
  then have "of_int m * pow2 k - g = of_int (m - 1) * pow2 k" by (simp add: g_def algebra_simps)
  then show ?thesis using m k by (intro representableI[of _ "m - 1" k]) simp_all
qed

text \<open>
  For 1 to 255 workers and exponents from -96 to 120 the factor is a normal float \<open>m * 2\<^sup>k\<close>, and the
  number of the format just below it, scaled back by \<open>2\<^sup>e\<close>, is less than \<open>2\<^sup>3\<^sup>1\<close> over the number of
  workers.
\<close>

lemma scaling_factor_shape:
  assumes nw: "1 \<le> nw" "nw \<le> 255" and e: "sint e8 = e" "- 96 \<le> e" "e \<le> 120"
  shows "\<exists>m k. scaling_factor nw e8 = Fin False (of_int m * pow2 k) \<and> 2 ^ 23 \<le> m \<and> m < 2 ^ 24 \<and>
     - 149 < k \<and> - 149 < k + e \<and> of_int m * pow2 (k + e) < pow2 128 \<and>
     (of_int m * pow2 k - (if m = 2 ^ 23 then pow2 (k - 1) else pow2 k)) * pow2 e * of_nat nw < 2 ^ 31"
proof -
  define D :: rat where "D = of_nat nw * pow2 e"
  define Y where "Y = round_mag 53 (-1074) 1024 (2147483647 / D)"
  define S where "S = round_mag 24 (-149) 128 Y"
  note D = divisor_bounds[OF nw e(2,3) D_def]
  note Q = quotient_bounds[OF D(1-3) e(2,3), folded Y_def]
  have sf: "scaling_factor nw e8 = Fin False S"
    using scaling_factor_rounded[OF nw e] by (simp only: S_def Y_def D_def)
  have Y128: "Y < pow2 128" using Q(4) pow2_mono[of 127 128] by linarith
  obtain m k where mk: "S = of_int m * pow2 k" "2 ^ 23 \<le> m" "m < 2 ^ 24" "- 123 < k" and ub: "Y < pow2 (k + 24)"
    using normal_float[OF Q(3) Y128] unfolding S_def by blast
  define g where "g = (if m = 2 ^ 23 then pow2 (k - 1) else pow2 k)"
  have gpos: "0 < g" by (simp add: g_def)
  have rep: "representable 24 (-149) (S - g)" unfolding g_def mk(1) using mk(2-4) by (rule float_predecessor)
  have "S - g \<le> Y" using rep gpos Y128 unfolding S_def by (intro b32.below_round_mag) (simp_all add: S_def[symmetric])
  then have "(S - g) * D \<le> Y * D" using D(3) by (intro mult_right_mono) simp_all
  then have "(S - g) * D < 2 ^ 31" using Q(1) by linarith
  then have fin: "(S - g) * pow2 e * of_nat nw < 2 ^ 31" by (simp only: D_def ac_simps)
  have "(of_nat nw :: rat) \<le> 255" using nw(2) by (metis of_nat_le_iff of_nat_numeral)
  then have "pow2 22 * (2 * of_nat nw) \<le> (2147483647 :: rat)" by (simp add: pow2_def)
  then have "pow2 22 * (2 * of_nat nw) * pow2 e \<le> 2147483647 * pow2 e" by (intro mult_right_mono) simp_all
  then have "pow2 22 * (2 * D) \<le> 2147483647 * pow2 e" by (simp only: D_def ac_simps)
  then have "pow2 22 \<le> 2147483647 * pow2 e / (2 * D)" using D(3) by (simp add: pos_le_divide_eq)
  then have "pow2 22 \<le> 2147483647 / D / 2 * pow2 e" by (simp add: mult.commute)
  moreover have "2147483647 / D / 2 * pow2 e \<le> Y * pow2 e" using Q(2) by (intro mult_right_mono) simp_all
  ultimately have "pow2 22 \<le> Y * pow2 e" by linarith
  also have "\<dots> < pow2 (k + 24) * pow2 e" using ub by simp
  finally have "pow2 22 < pow2 (k + 24 + e)" by (simp only: pow2_add)
  then have ke: "- 149 < k + e" by (simp add: pow2_less_iff)
  have two: "2 * pow2 k \<le> S" unfolding mk(1) using mk(2) by (intro mult_right_mono) simp_all
  have "g \<le> pow2 k" by (simp add: g_def pow2_le_iff)
  then have half: "S / 2 \<le> S - g" using two by linarith
  then have h: "S / 2 * pow2 e \<le> (S - g) * pow2 e" by (intro mult_right_mono) simp_all
  have "0 \<le> (S - g) * pow2 e" using half two pow2_pos[of k]
    by (intro mult_nonneg_nonneg) (linarith | simp)+
  then have "(S - g) * pow2 e * 1 \<le> (S - g) * pow2 e * of_nat nw"
    using nw(1) by (intro mult_left_mono) simp_all
  then have "S / 2 * pow2 e < 2 ^ 31" using h fin by linarith
  then have "S * pow2 e < pow2 32" by (simp add: pow2_def)
  then have "of_int m * pow2 (k + e) < pow2 32" by (simp only: mk(1) pow2_add mult.assoc)
  then have "of_int m * pow2 (k + e) < pow2 128" using pow2_mono[of 32 128] by linarith
  then show ?thesis using sf mk fin ke
    by - (rule exI[of _ m], rule exI[of _ k], simp add: g_def)
qed

section \<open>No overflow in the aggregation\<close>

lemma sint_word_of_int32: "- (2 ^ 31) \<le> i \<Longrightarrow> i < 2 ^ 31 \<Longrightarrow> sint (word_of_int i :: 32 word) = i"
  by (simp only: sint_sbintrunc') (simp add: signed_take_bit_int_eq_self)

lemma round_half_bound:
  assumes rep: "representable 24 (-149) r" and r: "0 \<le> r" "r * of_nat nw < 2 ^ 31" and nw: "nw \<le> 255"
  shows "\<lfloor>r + 1 / 2\<rfloor> * int nw < 2 ^ 31"
proof -
  obtain n k where nk: "r = of_int n * pow2 k" "0 \<le> n" "n \<le> 2 ^ 24"
    using rep by (auto simp: representable_def)
  show ?thesis
  proof (cases "0 \<le> k")
    case True
    then obtain N where N: "r = of_int N"
      using pow2_multiple[of 0 k n] nk(1) by auto
    then have "\<lfloor>r + 1 / 2\<rfloor> = N" by linarith
    moreover have "N * int nw < 2 ^ 31"
      using r(2) unfolding N by (metis of_int_less_iff of_int_mult of_int_numeral of_int_of_nat_eq of_int_power)
    ultimately show ?thesis by simp
  next
    case False
    have "r \<le> of_int (2 ^ 24) * pow2 (- 1)"
      unfolding nk(1) using False nk by (intro mult_mono pow2_mono) simp_all
    then have "r \<le> 2 ^ 23" by (simp add: pow2_def)
    then have "\<lfloor>r + 1 / 2\<rfloor> \<le> 2 ^ 23" by (simp add: floor_le_iff)
    then have "\<lfloor>r + 1 / 2\<rfloor> * int nw \<le> 2 ^ 23 * 255" using nw r(1) by (intro mult_mono) simp_all
    then show ?thesis by simp
  qed
qed

lemma quantize_bound:
  assumes nw: "1 \<le> nw" "nw \<le> 255" and e: "- 96 \<le> sint e8" "sint e8 \<le> 120"
    and w: "exp_field w < 255" "int (exp_field w) - 126 \<le> sint e8"
  shows "\<bar>sint (quantize (scaling_factor nw e8) w)\<bar> * int nw < 2 ^ 31"
proof -
  define e where "e = sint e8"
  obtain m k where sf: "scaling_factor nw e8 = Fin False (of_int m * pow2 k)" and m: "2 ^ 23 \<le> m" "m < 2 ^ 24"
    and k: "- 149 < k" "- 149 < k + e" and s: "of_int m * pow2 (k + e) < pow2 128"
    and fin: "(of_int m * pow2 k - (if m = 2 ^ 23 then pow2 (k - 1) else pow2 k)) * pow2 e * of_nat nw < 2 ^ 31"
    using scaling_factor_shape[OF nw, of e8 e] e by (auto simp: e_def)
  obtain x where x: "decode32 w = Fin (sign_field w) x" using decode32_finite[OF w(1)] by auto
  have xb: "0 \<le> x" "x \<le> (1 - pow2 (- 24)) * pow2 e" using decode32_bound[OF x, of e] w(2) by (simp_all add: e_def)
  define y where "y = x * (of_int m * pow2 k)"
  define r where "r = round_mag 24 (-149) 128 y"
  have mk: "(0 :: rat) \<le> of_int m * pow2 k" using m(1) by simp
  have y0: "0 \<le> y" using xb(1) mk by (simp add: y_def)
  have "y \<le> (1 - pow2 (- 24)) * pow2 e * (of_int m * pow2 k)"
    unfolding y_def by (rule mult_right_mono[OF xb(2) mk])
  also have "\<dots> = (1 - pow2 (- 24)) * (of_int m * pow2 (k + e))" by (simp only: pow2_add ac_simps)
  finally have ys: "y \<le> (1 - pow2 (- int 24)) * (of_int m * pow2 (k + e))" by simp
  have "(1 - pow2 (- 24)) * (of_int m * pow2 (k + e)) \<le> 1 * (of_int m * pow2 (k + e))"
    using m(1) by (intro mult_right_mono) simp_all
  then have y128: "y < pow2 128" using ys s by simp
  have "r \<le> (if m = 2 ^ (24 - 1) then of_int m * pow2 (k + e) - pow2 (k + e - 1)
             else of_int m * pow2 (k + e) - pow2 (k + e))"
    unfolding r_def using m k s y0 ys by (intro b32.round_shrink) simp_all
  also have "\<dots> = (of_int m * pow2 k - (if m = 2 ^ 23 then pow2 (k - 1) else pow2 k)) * pow2 e"
    by (simp add: pow2_add pow2_diff algebra_simps)
  finally have rb: "r * of_nat nw < 2 ^ 31"
    using fin by (meson le_less_trans mult_right_mono of_nat_0_le_iff)
  have r0: "0 \<le> r" unfolding r_def by (rule b32.round_mag_nonneg[OF y0 y128])
  have rrep: "representable 24 (-149) r" unfolding r_def by (rule b32.round_mag_representable[OF y0 y128])
  define N where "N = \<lfloor>r + 1 / 2\<rfloor>"
  have Nnw: "N * int nw < 2 ^ 31" unfolding N_def by (rule round_half_bound[OF rrep r0 rb nw(2)])
  have N0: "0 \<le> N" using r0 by (simp add: N_def)
  have "N * 1 \<le> N * int nw" using N0 nw(1) by (intro mult_left_mono) simp_all
  then have N31: "N < 2 ^ 31" using Nnw by linarith
  have r31: "r < 2 ^ 31 + 1" using N31 unfolding N_def floor_less_iff by simp
  then have "r < pow2 128" using pow2_mono[of 32 128] by (simp add: pow2_nat[of 32, simplified])
  then have q: "quantize (scaling_factor nw e8) w = word_of_int (if sign_field w then - N else N)"
    using N31 by (simp add: quantize_def x sf round32_def round_fp_def Let_def y_def[symmetric] r_def[symmetric] N_def[symmetric])
  have "sint (quantize (scaling_factor nw e8) w) = (if sign_field w then - N else N)"
    unfolding q using N31 N0 by (intro sint_word_of_int32) simp_all
  then show ?thesis using Nnw N0 by simp
qed

text \<open>Adding as many words as there are workers, each so bounded, never wraps.\<close>

lemma sint_sum_list:
  assumes "\<forall>v \<in> set vs. \<bar>sint v\<bar> * int n < 2 ^ 31" and "length vs \<le> n"
  shows "sint (sum_list vs :: 32 word) = sum_list (map sint vs)"
proof -
  have "\<bar>sum_list (map sint us)\<bar> * int n < 2 ^ 31 * int (length us) \<or> us = []"
    if "set us \<subseteq> set vs" for us :: "32 word list"
    using that
  proof (induction us)
    case (Cons u us)
    have u: "\<bar>sint u\<bar> * int n < 2 ^ 31" using assms(1) Cons.prems by simp
    have "\<bar>sint u + sum_list (map sint us)\<bar> * int n \<le> \<bar>sint u\<bar> * int n + \<bar>sum_list (map sint us)\<bar> * int n"
      unfolding distrib_right[symmetric] by (intro mult_right_mono abs_triangle_ineq) simp
    moreover have "\<bar>sum_list (map sint us)\<bar> * int n < 2 ^ 31 * int (length us) \<or> us = []"
      using Cons by simp
    ultimately show ?case using u by (auto simp: algebra_simps)
  qed simp
  from this[of vs] have b: "vs \<noteq> [] \<Longrightarrow> \<bar>sum_list (map sint vs)\<bar> * int n < 2 ^ 31 * int n"
    using assms(2) by (auto intro: less_le_trans)
  have "\<bar>sum_list (map sint vs)\<bar> < 2 ^ 31"
  proof (cases "vs = []")
    case False
    then have "\<bar>sum_list (map sint vs)\<bar> * int n < 2 ^ 31 * int n" by (rule b)
    then show ?thesis by (simp add: mult_less_cancel_right)
  qed simp
  moreover have "sum_list vs = word_of_int (sum_list (map sint vs))" by (induction vs) simp_all
  ultimately show ?thesis by (simp only: sint_word_of_int32 abs_less_iff) (simp add: sint_word_of_int32)
qed

text \<open>C11: With 1 to 255 workers and a shared exponent between -96 and 120, the integers that the workers
  make of finite floats whose own exponents do not exceed the shared one add up without wrapping: the
  32-bit sum the switch computes is the exact sum of the signed values.\<close>
theorem quantized_sum_exact:
  assumes "1 \<le> nw" and "nw \<le> 255" and "- 96 \<le> sint e8" and "sint e8 \<le> 120"
    and "length ws \<le> nw" and "\<forall>w \<in> set ws. exp_field w < 255 \<and> int (exp_field w) - 126 \<le> sint e8"
  shows "sint (sum_list (map (quantize (scaling_factor nw e8)) ws)) =
         sum_list (map (\<lambda>w. sint (quantize (scaling_factor nw e8) w)) ws)"
proof -
  have "\<forall>v \<in> set (map (quantize (scaling_factor nw e8)) ws). \<bar>sint v\<bar> * int nw < 2 ^ 31"
    using assms(6) quantize_bound[OF assms(1-4)] by simp
  from sint_sum_list[OF this] show ?thesis using assms(5) by (simp add: comp_def)
qed

text \<open>1.0 and -1.0 on two workers, with the exponent 1 that the code computes for them.\<close>

lemma quantized_sum_exact_witness:
  "exponent_of 0x3F800000 = 1 \<and>
   sint (sum_list (map (quantize (scaling_factor 2 1)) [0x3F800000, 0x3F800000])) =
   sum_list (map (\<lambda>w. sint (quantize (scaling_factor 2 1) w)) [0x3F800000, 0x3F800000])"
  by (rule conjI, code_simp, rule quantized_sum_exact) (simp_all, simp add: exp_field_def)

section \<open>Moving an LTU\<close>

lemma current_max_attained:
  assumes "0 < k" and "\<forall>i < k. exp_field (m (src + 4 * i)) < 255"
  shows "\<exists>i < k. exp_field (m (src + 4 * i)) = exp_field (current_max m src k)"
proof -
  have "current_max m src n = 0 \<or> (\<exists>i < n. exp_field (m (src + 4 * i)) = exp_field (current_max m src n))" for n
  proof (induction n)
    case (Suc n)
    then show ?case by (auto simp: Let_def less_Suc_eq abs_fields)
  qed simp
  from this[of k] show ?thesis
  proof
    assume z: "current_max m src k = 0"
    have "exp_field (m (src + 4 * 0)) \<le> exp_field (current_max m src k)"
      using current_max_exponent[OF assms(2)] assms(1) by blast
    then show ?thesis using z assms(1) by (auto simp: exp_field_def intro!: exI[of _ 0])
  qed
qed


definition sample_ppp :: "DataType \<Rightarrow> PrePostProcessor" where
  "sample_ppp d = (new_PPP CpuExponentQuantizerPPP 2 0 8 4)
     \<lparr>ppp_job_slice := Some (Tensor.make 0 400 3 d), ppp_total_main_num_ltus := 2, ppp_batch_num_ltus := 2\<rparr>"


text \<open>Integers make the round trip in network byte order: preprocessing puts every element of the LTU into
  the buffer with its bytes swapped, and postprocessing of whatever the buffer then holds puts each word,
  swapped back, into the output tensor, touching nothing else.\<close>
theorem int32_ltu_transfer:
  assumes "ppp_kind p = CpuExponentQuantizerPPP" and "ppp_job_slice p = Some t" and "data_type t = INT32"
    and "no_clobber (in_ptr t + 4 * ltu_offset p t ltu) entries (numel_to_process p t ltu)"
    and "no_clobber entries (out_ptr t + 4 * ltu_offset p t ltu) (numel_to_process p t ltu)"
  shows "(\<exists>h'. PreprocessSingle ltu entries extra p h = Inr h' \<and> bytes h' = bytes h \<and>
       (\<forall>i < numel_to_process p t ltu.
          ntohl (words h' (entries + 4 * i)) = words h (in_ptr t + 4 * ltu_offset p t ltu + 4 * i)) \<and>
       (\<forall>a. \<not> in_block entries (numel_to_process p t ltu) a \<longrightarrow> words h' a = words h a)) \<and>
     (\<exists>h'. PostprocessSingle ltu entries extra p h = Inr (p, h') \<and> bytes h' = bytes h \<and>
       (\<forall>i < numel_to_process p t ltu.
          words h' (out_ptr t + 4 * ltu_offset p t ltu + 4 * i) = ntohl (words h (entries + 4 * i))) \<and>
       (\<forall>a. \<not> in_block (out_ptr t + 4 * ltu_offset p t ltu) (numel_to_process p t ltu) a
          \<longrightarrow> words h' a = words h a))"
  using assms(1-3) transfer_block[OF assms(4)] transfer_block[OF assms(5)]
  by (auto simp: PreprocessSingle_def PostprocessSingle_def transfer_other)

lemma int32_ltu_transfer_witness:
  "\<exists>h'. PostprocessSingle 1 800 900 (sample_ppp INT32) \<lparr>words = (\<lambda>_. 0x01020304), bytes = (\<lambda>_. 0)\<rparr> =
      Inr (sample_ppp INT32, h') \<and> words h' 408 = ntohl 0x01020304"
  using int32_ltu_transfer[of "sample_ppp INT32" "Tensor.make 0 400 3 INT32" 1 800 900
      "\<lparr>words = (\<lambda>_. 0x01020304), bytes = (\<lambda>_. 0)\<rparr>"]
  by (auto simp: sample_ppp_def new_PPP_def Tensor.make_def numel_to_process_def ltu_offset_def u64_simps
      no_clobber_def)

lemma num_ltus_value:
  assumes "0 < n" and "4 * numel t + 4 * n < 2 ^ 64"
  shows "num_ltus (4 * n) t = Inr ((numel t + n - 1) div n)"
proof -
  have "k < (4 * numel t + 4 * n - 1) div (4 * n) \<longleftrightarrow> k < (numel t + n - 1) div n" for k
    using assms(1) ceil_div_less[of "4 * n" k "4 * numel t"] ceil_div_less[of n k "numel t"] by simp
  then have "(4 * numel t + 4 * n - 1) div (4 * n) = (numel t + n - 1) div n"
    by (metis less_irrefl linorder_less_linear)
  then show ?thesis using assms by (simp add: num_ltus_def u64_simps mult.commute)
qed

lemma ltu_values:
  assumes "ppp_ltu_size p = 4 * n" and "0 < n" and "4 * numel t + 4 * n < 2 ^ 64"
    and "q < (numel t + n - 1) div n"
  shows "ltu_offset p t q = q * n" and "numel_to_process p t q = min n (numel t - q * n)"
proof -
  have q: "q * n < numel t" using assms(4) unfolding ceil_div_less[OF assms(2)] .
  then have "q * n < 2 ^ 64" using assms(3) by linarith
  then show off: "ltu_offset p t q = q * n" using assms(1) by (simp add: ltu_offset_def u64_simps)
  show "numel_to_process p t q = min n (numel t - q * n)"
    using assms(1,3) q by (simp add: numel_to_process_def off u64_simps)
qed

text \<open>C13: The slices' LTUs cover the tensor: when the size of an LTU is a multiple of the element size, an
  element index \<open>i\<close> lies in LTU \<open>i div n\<close>, which is one of those counted by \<open>SetupJobSlice\<close>, at an offset
  that the loops process; and no LTU processes an element outside the tensor.\<close>
theorem ltus_cover_slice:
  assumes "ppp_ltu_size p = 4 * n" and "0 < n" and "4 * numel t + 4 * n < 2 ^ 64" and "i < numel t"
  shows "\<exists>k. num_ltus (ppp_ltu_size p) t = Inr k \<and> i div n < k \<and>
     i = ltu_offset p t (i div n) + i mod n \<and> i mod n < numel_to_process p t (i div n) \<and>
     (\<forall>ltu < k. ltu_offset p t ltu + numel_to_process p t ltu \<le> numel t)"
proof -
  define k where "k = (numel t + n - 1) div n"
  have k: "num_ltus (ppp_ltu_size p) t = Inr k" unfolding assms(1) k_def by (rule num_ltus_value[OF assms(2,3)])
  note v = ltu_values[OF assms(1-3), folded k_def]
  have "i div n * n < numel t" using assms(4) by (meson div_times_less_eq_dividend le_less_trans)
  then have ik: "i div n < k" unfolding k_def ceil_div_less[OF assms(2)] .
  have "i mod n < n" "i mod n < numel t - i div n * n"
    using assms(2,4) div_mult_mod_eq[of i n] by (simp, linarith)
  then have "i mod n < numel_to_process p t (i div n)" using v(2)[OF ik] by simp
  moreover have "i = ltu_offset p t (i div n) + i mod n" using v(1)[OF ik] by simp
  moreover have "\<forall>ltu < k. ltu_offset p t ltu + numel_to_process p t ltu \<le> numel t"
  proof (intro allI impI)
    fix l assume l: "l < k"
    then have "l * n < numel t" unfolding k_def ceil_div_less[OF assms(2)] .
    then show "ltu_offset p t l + numel_to_process p t l \<le> numel t" using v[OF l] by simp
  qed
  ultimately show ?thesis using k ik by blast
qed

lemma ltus_cover_slice_witness:
  "\<exists>k. num_ltus 8 (Tensor.make 0 400 3 INT32) = Inr k \<and> 1 < k"
  using ltus_cover_slice[of "sample_ppp INT32" 2 "Tensor.make 0 400 3 INT32" 2]
  by (auto simp: sample_ppp_def new_PPP_def Tensor.make_def)

section \<open>Where the quantizer leaves its range\<close>

lemma round_small_int:
  assumes "0 \<le> n" and "n \<le> 2 ^ 24"
  shows "round32 s (of_int n) = Fin s (of_int n)"
proof -
  have "representable 24 (-149) (of_int n)" using assms by (intro representableI[of _ n 0]) simp_all
  moreover have "(of_int n :: rat) \<le> of_int (2 ^ 24)" using assms(2) by (simp only: of_int_le_iff)
  then have "of_int n < pow2 128" using pow2_strict_mono[of 24 128] by (simp add: pow2_nat[of 24, simplified])
  ultimately show ?thesis by (simp add: round32_def round_fp_def Let_def b32.round_mag_exact not_le)
qed

lemma round64_exact:
  assumes "x = of_int n * pow2 k" and "- 1074 \<le> k" and "0 \<le> n" and "n \<le> 2 ^ 53" and "x < pow2 1024"
  shows "round64 s x = Fin s x"
proof -
  have "representable 53 (-1074) x" using assms by (intro representableI[of x n k]) simp_all
  then show ?thesis using assms(5) by (simp add: round64_def round_fp_def Let_def b64.round_mag_exact not_le)
qed

lemma int32_max_double: "fp_of_int round64 2147483647 = Fin False 2147483647"
  using round64_exact[of 2147483647 2147483647 0] pow2_mono[of 31 1024]
  by (simp add: fp_of_int_def pow2_nat[of 31, simplified])

lemma scaling_factor_256: "scaling_factor 256 1 = Fin False (2 ^ 22)"
proof -
  have r1: "fp_of_int round32 256 = Fin False 256" using round_small_int[of 256] by (simp add: fp_of_int_def)
  have r2: "fp_mul round32 (Fin False 256) (Fin False 2) = Fin False 512" using round_small_int[of 512] by simp
  have r3: "fp_convert round64 (Fin False 512) = Fin False 512"
    using round64_exact[of 512 512 0] pow2_mono[of 10 1024] by (simp add: pow2_nat[of 10, simplified])
  have "(2147483647 / 512 :: rat) = of_int 2147483647 * pow2 (- 9)" by (simp add: pow2_def)
  then have r4: "fp_div round64 (Fin False 2147483647) (Fin False 512) = Fin False (2147483647 / 512)"
    using round64_exact[of "2147483647 / 512" 2147483647 "- 9"] pow2_mono[of 31 1024]
    by (simp add: pow2_nat[of 31, simplified])
  have "round_mag 24 (-149) 128 (2147483647 / 512) = of_int (rne (2147483647 / 512 / pow2 (- 2))) * pow2 (- 2)"
    by (rule round_mag_at) (simp_all add: pow2_def)
  also have "rne (2147483647 / 512 / pow2 (- 2)) = 2 ^ 24"
  proof -
    have "\<lfloor>2147483647 / 128 :: rat\<rfloor> = 16777215" by (simp add: floor_eq_iff)
    then show ?thesis by (simp add: rne_def pow2_def)
  qed
  also have "of_int (2 ^ 24) * pow2 (- 2) = 2 ^ 22" by (simp add: pow2_def)
  finally have r5: "fp_convert round32 (Fin False (2147483647 / 512)) = Fin False (2 ^ 22)"
    using pow2_strict_mono[of 22 128] by (simp add: round32_def round_fp_def Let_def pow2_nat[of 22, simplified])
  have s1: "sint (1 :: 8 word) = 1" by simp
  show ?thesis by (simp only: scaling_factor_def int32_max_double s1 pow2_1 of_nat_numeral r1 r2 r3 r4 r5)
qed

lemma scaling_factor_2_127: "scaling_factor 2 127 = Fin False 0"
proof -
  have r1: "fp_of_int round32 (int 2) = Fin False 2" using round_small_int[of 2] by (simp add: fp_of_int_def)
  have "round_mag 24 (-149) 128 (pow2 128) = of_int (rne (pow2 128 / pow2 105)) * pow2 105"
    by (rule round_mag_at) (simp_all add: pow2_less_iff)
  also have "pow2 128 / pow2 105 = of_int (2 ^ 23)" by (simp add: pow2_diff[symmetric] pow2_nat[of 23, simplified])
  also have "of_int (rne (of_int (2 ^ 23))) * pow2 105 = pow2 128"
    by (simp only: rne_of_int int_power_pow2) simp
  finally have "round_mag 24 (-149) 128 (2 * pow2 127) = pow2 128" using pow2_add[of 1 127] by simp
  then have r2: "fp_mul round32 (Fin False 2) (Fin False (pow2 127)) = Inf False"
    by (simp add: round32_def round_fp_def Let_def)
  have s: "sint (127 :: 8 word) = 127" by simp
  have z: "round32 False 0 = Fin False 0" by (rule round_small_int[where n = 0, simplified])
  show ?thesis by (simp only: scaling_factor_def s r1 r2 int32_max_double fp_convert.simps fp_div.simps) (simp add: z)
qed

text \<open>The limit of 255 workers is sharp. With 256 workers that all hold the largest float below 2, whose
  exponent is 1, every worker sends 2^23 and the 256 words add up to the most negative integer.\<close>
theorem overflow_at_256_workers:
  "exponent_of 0x3FFFFFFF = 1 \<and> quantize (scaling_factor 256 1) 0x3FFFFFFF = 0x800000 \<and>
   sint (sum_list (map (quantize (scaling_factor 256 1)) (replicate 256 0x3FFFFFFF))) = - (2 ^ 31)"
proof -
  have d: "decode32 0x3FFFFFFF = Fin False (of_nat 16777215 * pow2 (- 23))"
    by (simp add: decode32_def sign_field_def exp_field_def frac_field_def Let_def)
  have rep: "representable 24 (-149) (of_nat 16777215 * pow2 (- 23) * 2 ^ 22)"
    by (rule representableI[of _ 16777215 "- 1"]) (simp_all add: pow2_def)
  have small: "of_nat 16777215 * pow2 (- 23) * 2 ^ 22 < pow2 128"
    using pow2_strict_mono[of 24 128] by (simp add: pow2_def)
  have "fp_mul round32 (decode32 0x3FFFFFFF) (scaling_factor 256 1) =
      Fin False (of_nat 16777215 * pow2 (- 23) * 2 ^ 22)"
    unfolding d scaling_factor_256 fp_mul.simps round32_def round_fp_def Let_def b32.round_mag_exact[OF rep small]
    using small by (simp only: not_le[symmetric] if_False) simp
  moreover have "\<lfloor>of_nat 16777215 * pow2 (- 23) * 2 ^ 22 + 1 / 2\<rfloor> = 8388608" by (simp add: pow2_def)
  ultimately have q: "quantize (scaling_factor 256 1) 0x3FFFFFFF = 0x800000"
    by (simp only: quantize_def fp_round.simps) simp
  have "exponent_of 0x3FFFFFFF = 1" by code_simp
  then show ?thesis using q by (simp add: sum_list_replicate)
qed



text \<open>Floats from 2^127 on: the exponent 128 is stored into a signed byte as -128, the smallest instead of
  the largest.\<close>
theorem exponent_wraps:
  assumes "exp_field c = 254"
  shows "sint (exponent_of c) = - 128"
  using assms by (simp add: exponent_of_field)

lemma exponent_wraps_witness: "sint (exponent_of 0x7F000000) = - 128"
  by (rule exponent_wraps) (simp add: exp_field_def)

end
