(* ===== verification/Packet_Protocol.thy ===== *)
theory Packet_Protocol
  imports Prepostprocessor "HOL-Library.Multiset"
begin

text \<open>
  The contract that all worker threads implement (the main loops of dummy_worker_thread.cc,
  rdma_worker_thread.cc and dpdk_worker_thread.cc): the packets of a job slice are numbered, packet
  \<open>q\<close> uses the buffer slot \<open>q mod B\<close> of a batch of \<open>B\<close> slots, and a received packet is
  replaced by packet \<open>q + B\<close> as long as that exists. First the bookkeeping of the packet numbers,
  then what the memory holds, for any processor of logical transmission units that keeps the laws of
  the locale below.
\<close>

section \<open>Outstanding and finished packets\<close>

definition pkt_inv :: "nat \<Rightarrow> nat \<Rightarrow> nat list \<Rightarrow> bool" where
  "pkt_inv B N qs \<longleftrightarrow> 0 < B \<and> (\<forall>q \<in> set qs. q < N) \<and> distinct (map (\<lambda>q. q mod B) qs)"

text \<open>A packet is finished when no outstanding packet of its slot precedes or equals it.\<close>

definition pkt_done :: "nat \<Rightarrow> nat \<Rightarrow> nat list \<Rightarrow> nat set" where
  "pkt_done B N qs = {p. p < N \<and> (\<forall>q \<in> set qs. p mod B = q mod B \<longrightarrow> p < q)}"

definition next_pkt :: "nat \<Rightarrow> nat \<Rightarrow> nat \<Rightarrow> nat list" where
  "next_pkt B N q = (if q + B < N then [q + B] else [])"

lemma pkt_inv_mset:
  assumes "mset qs = mset qs'"
  shows "pkt_inv B N qs = pkt_inv B N qs'"
proof -
  have "set qs = set qs'" using assms by (rule mset_eq_setD)
  moreover have "mset (map (\<lambda>q. q mod B) qs) = mset (map (\<lambda>q. q mod B) qs')" using assms by simp
  then have "distinct (map (\<lambda>q. q mod B) qs) = distinct (map (\<lambda>q. q mod B) qs')"
    by (rule mset_eq_imp_distinct_iff)
  ultimately show ?thesis by (simp add: pkt_inv_def)
qed

lemma pkt_done_set: "set qs = set qs' \<Longrightarrow> pkt_done B N qs = pkt_done B N qs'"
  by (simp add: pkt_done_def)

lemma pkt_done_finite [simp]: "finite (pkt_done B N qs)"
  by (simp add: pkt_done_def)

lemma pkt_start: "0 < B \<Longrightarrow> B \<le> N \<Longrightarrow> pkt_inv B N [0..<B] \<and> pkt_done B N [0..<B] = {}"
proof -
  assume B: "0 < B" "B \<le> N"
  have "map (\<lambda>q. q mod B) [0..<B] = [0..<B]" by (rule map_idI) simp
  moreover have "\<not> p < p mod B" for p by (simp add: not_less)
  then have "pkt_done B N [0..<B] = {}"
    unfolding pkt_done_def using B(1) by (auto intro!: bexI[of _ "_ mod B"])
  ultimately show ?thesis using B by (simp add: pkt_inv_def)
qed

lemma pkt_outstanding_not_done: "q \<in> set qs \<Longrightarrow> q \<notin> pkt_done B N qs"
  by (auto simp: pkt_done_def)

lemma same_slot_step:
  fixes p q B :: nat
  assumes "p mod B = q mod B" and "q < p" and "0 < B"
  shows "q + B \<le> p"
proof -
  have "(p - q) mod B = 0" using assms by (simp add: mod_eq_dvd_iff_nat dvd_imp_mod_0)
  then have "B dvd p - q" by auto
  then have "B \<le> p - q" using assms(2) by (intro dvd_imp_le) simp_all
  then show ?thesis using assms(2) by simp
qed

lemma pkt_receive:
  assumes "pkt_inv B N (q # qs)"
  shows "pkt_inv B N (next_pkt B N q @ qs)"
    and "pkt_done B N (next_pkt B N q @ qs) = insert q (pkt_done B N (q # qs))"
proof -
  have B: "0 < B" and q: "q < N" and other: "\<forall>q' \<in> set qs. q' mod B \<noteq> q mod B"
    using assms by (auto simp: pkt_inv_def image_iff)
  show "pkt_inv B N (next_pkt B N q @ qs)" using assms by (auto simp: pkt_inv_def next_pkt_def)
  have step: "p \<le> q" if "p mod B = q mod B" "p < q + B" for p
    using same_slot_step[OF that(1) _ B] that(2) by (meson not_le)
  show "pkt_done B N (next_pkt B N q @ qs) = insert q (pkt_done B N (q # qs))"
  proof (rule set_eqI)
    fix p
    show "p \<in> pkt_done B N (next_pkt B N q @ qs) \<longleftrightarrow> p \<in> insert q (pkt_done B N (q # qs))"
    proof (cases "p mod B = q mod B")
      case True
      have v: "\<forall>q' \<in> set qs. p mod B = q' mod B \<longrightarrow> p < q'" using other unfolding True by metis
      have le: "p < q + B \<longleftrightarrow> p \<le> q" using step[OF True] B by linarith
      have lt: "\<not> q + B < N \<Longrightarrow> p < N \<Longrightarrow> p \<le> q" using step[OF True] by linarith
      have "p \<in> pkt_done B N (next_pkt B N q @ qs) \<longleftrightarrow> p < N \<and> p \<le> q"
      proof (cases "q + B < N")
        case True
        then show ?thesis using v le \<open>p mod B = q mod B\<close> by (simp add: pkt_done_def next_pkt_def)
      next
        case False
        then show ?thesis using v lt by (auto simp: pkt_done_def next_pkt_def)
      qed
      moreover have "p \<in> pkt_done B N (q # qs) \<longleftrightarrow> p < N \<and> p < q"
        using v True by (simp add: pkt_done_def)
      ultimately show ?thesis using q by auto
    next
      case False
      then show ?thesis by (auto simp: pkt_done_def next_pkt_def)
    qed
  qed
qed

lemma pkt_all_done: "pkt_done B N [] = {..<N}"
  by (auto simp: pkt_done_def)

lemma pkt_done_card:
  assumes "pkt_inv B N qs"
  shows "card (pkt_done B N qs) \<le> N" and "card (pkt_done B N qs) = N \<longleftrightarrow> qs = []"
proof -
  have sub: "pkt_done B N qs \<subseteq> {..<N}" by (auto simp: pkt_done_def)
  then show "card (pkt_done B N qs) \<le> N" using card_mono[OF finite_lessThan sub] by simp
  show "card (pkt_done B N qs) = N \<longleftrightarrow> qs = []"
  proof
    assume "card (pkt_done B N qs) = N"
    then have all: "pkt_done B N qs = {..<N}" using card_subset_eq[OF finite_lessThan sub] by simp
    show "qs = []"
    proof (rule ccontr)
      assume "qs \<noteq> []"
      then obtain q where "q \<in> set qs" by (cases qs) auto
      then have "q \<notin> pkt_done B N qs" "q < N"
        using pkt_outstanding_not_done assms by (auto simp: pkt_inv_def)
      then show False using all by simp
    qed
  qed (simp add: pkt_all_done)
qed

lemma pkt_inv_length: "pkt_inv B N qs \<Longrightarrow> length qs \<le> B"
proof -
  assume inv: "pkt_inv B N qs"
  then have "set (map (\<lambda>q. q mod B) qs) \<subseteq> {..<B}" by (auto simp: pkt_inv_def)
  then have "card (set (map (\<lambda>q. q mod B) qs)) \<le> B" using card_mono[OF finite_lessThan] by fastforce
  then show ?thesis using inv distinct_card[of "map (\<lambda>q. q mod B) qs"] by (simp add: pkt_inv_def)
qed

section \<open>Where the data is\<close>

text \<open>
  A job slice of \<open>numel\<close> elements cut into units of \<open>n\<close> elements, and \<open>B\<close> buffer slots of \<open>n\<close> elements
  each, all as byte addresses of 4-byte elements.
\<close>

record layout =
  l_in :: ptr
  l_out :: ptr
  l_numel :: nat
  l_n :: nat
  l_buf :: ptr
  l_B :: nat

definition ltus :: "layout \<Rightarrow> nat" where
  "ltus L = (l_numel L + l_n L - 1) div l_n L"

definition cnt :: "layout \<Rightarrow> nat \<Rightarrow> nat" where
  "cnt L q = min (l_n L) (l_numel L - q * l_n L)"

definition slot :: "layout \<Rightarrow> nat \<Rightarrow> ptr" where
  "slot L q = l_buf L + 4 * (q mod l_B L * l_n L)"

definition src :: "layout \<Rightarrow> nat \<Rightarrow> ptr" where
  "src L q = l_in L + 4 * (q * l_n L)"

definition dst :: "layout \<Rightarrow> nat \<Rightarrow> ptr" where
  "dst L q = l_out L + 4 * (q * l_n L)"

text \<open>Two arrays of 4-byte elements that share no byte.\<close>

definition apart :: "ptr \<Rightarrow> nat \<Rightarrow> ptr \<Rightarrow> nat \<Rightarrow> bool" where
  "apart a k b l \<longleftrightarrow> a + 4 * k \<le> b \<or> b + 4 * l \<le> a"

text \<open>The reduction is in place or between disjoint tensors, and the buffers are elsewhere.\<close>

definition layout_ok :: "layout \<Rightarrow> bool" where
  "layout_ok L \<longleftrightarrow> 0 < l_n L \<and> 0 < l_B L \<and>
     (l_out L = l_in L \<or> apart (l_in L) (l_numel L) (l_out L) (l_numel L)) \<and>
     apart (l_buf L) (l_B L * l_n L) (l_in L) (l_numel L) \<and>
     apart (l_buf L) (l_B L * l_n L) (l_out L) (l_numel L)"

lemma apart_elem: "apart a k b l \<Longrightarrow> i < k \<Longrightarrow> j < l \<Longrightarrow> a + 4 * i \<noteq> b + 4 * j"
  by (auto simp: apart_def)

lemma unit_index_less:
  assumes "i < cnt L q"
  shows "q * l_n L + i < l_numel L"
  using assms by (auto simp: cnt_def)

lemma unit_index_inj:
  assumes "p * n + i = q * n + j" and "i < n" and "j < (n :: nat)"
  shows "p = q \<and> i = j"
proof -
  have "(p * n + i) div n = (q * n + j) div n" using assms(1) by simp
  then have "p = q" using assms(2,3) by simp
  then show ?thesis using assms(1) by simp
qed

lemma slot_index_less:
  assumes "layout_ok L" and "i < l_n L"
  shows "q mod l_B L * l_n L + i < l_B L * l_n L"
proof -
  have "Suc (q mod l_B L) \<le> l_B L" using assms(1) by (simp add: layout_ok_def Suc_le_eq)
  then have "Suc (q mod l_B L) * l_n L \<le> l_B L * l_n L" by (rule mult_le_mono1)
  then show ?thesis using assms(2) by simp
qed

lemma cnt_le: "i < cnt L q \<Longrightarrow> i < l_n L"
  by (simp add: cnt_def)

text \<open>Addresses as base plus index.\<close>

lemma unit_address:
  "src L q + 4 * i = l_in L + 4 * (q * l_n L + i)" "dst L q + 4 * i = l_out L + 4 * (q * l_n L + i)"
  "slot L q + 4 * i = l_buf L + 4 * (q mod l_B L * l_n L + i)"
  by (simp_all add: src_def dst_def slot_def)

lemma slot_apart:
  assumes "layout_ok L" and "j < cnt L p" and "i < l_n L"
  shows "src L p + 4 * j \<noteq> slot L q + 4 * i" and "dst L p + 4 * j \<noteq> slot L q + 4 * i"
proof -
  have ap: "apart (l_buf L) (l_B L * l_n L) (l_in L) (l_numel L)"
    "apart (l_buf L) (l_B L * l_n L) (l_out L) (l_numel L)" using assms(1) by (simp_all add: layout_ok_def)
  note idx = slot_index_less[OF assms(1,3), of q] unit_index_less[OF assms(2)]
  show "src L p + 4 * j \<noteq> slot L q + 4 * i" and "dst L p + 4 * j \<noteq> slot L q + 4 * i"
    unfolding unit_address using apart_elem[OF ap(1) idx] apart_elem[OF ap(2) idx] by metis+
qed

lemma slots_outside:
  assumes "layout_ok L" and "j < cnt L p" and "k \<le> l_n L"
  shows "\<not> in_block (slot L q) k (src L p + 4 * j)" and "\<not> in_block (slot L q) k (dst L p + 4 * j)"
  using slot_apart[OF assms(1,2)] assms(3) unfolding in_block_def by (meson less_le_trans)+

lemma slot_inj:
  assumes "layout_ok L" and "q mod l_B L \<noteq> p mod l_B L" and "i < l_n L" and "j < l_n L"
  shows "slot L q + 4 * i \<noteq> slot L p + 4 * j"
  using unit_index_inj[of "q mod l_B L" "l_n L" i "p mod l_B L" j] assms(2-4) unfolding unit_address by auto

lemma dst_inj:
  assumes "i < cnt L q" and "j < cnt L p" and "q \<noteq> p"
  shows "dst L q + 4 * i \<noteq> dst L p + 4 * j"
  using unit_index_inj[of q "l_n L" i p j] assms cnt_le unfolding unit_address by auto

lemma dst_src:
  assumes "layout_ok L" and "i < cnt L q" and "j < cnt L p" and "q \<noteq> p"
  shows "dst L q + 4 * i \<noteq> src L p + 4 * j"
proof (cases "l_out L = l_in L")
  case True
  then show ?thesis using unit_index_inj[of q "l_n L" i p j] assms cnt_le unfolding unit_address by auto
next
  case False
  then have "apart (l_in L) (l_numel L) (l_out L) (l_numel L)" using assms(1) by (simp add: layout_ok_def)
  from apart_elem[OF this unit_index_less[OF assms(3)] unit_index_less[OF assms(2)]]
  show ?thesis unfolding unit_address by metis
qed

text \<open>
  What the memory holds while the packets \<open>sent\<close> are on their way, \<open>recv\<close> have come back but
  are not yet written out, and \<open>D\<close> are finished: \<open>enc\<close> is the encoding of an element on the wire and \<open>f j\<close>
  what the reduction makes of the element of index \<open>j\<close>.
\<close>

definition slot_data ::
  "(32 word \<Rightarrow> 32 word) \<Rightarrow> (nat \<Rightarrow> 32 word \<Rightarrow> 32 word) \<Rightarrow> layout \<Rightarrow> memory \<Rightarrow> memory \<Rightarrow> nat set \<Rightarrow> nat set \<Rightarrow> nat set \<Rightarrow> bool"
where
  "slot_data enc f L m0 m sent recv D \<longleftrightarrow>
     (\<forall>q \<in> sent. \<forall>i < cnt L q. m (slot L q + 4 * i) = enc (m0 (src L q + 4 * i))) \<and>
     (\<forall>q \<in> recv. \<forall>i < cnt L q. m (slot L q + 4 * i) = enc (f (q * l_n L + i) (m0 (src L q + 4 * i)))) \<and>
     (\<forall>p \<in> D. \<forall>i < cnt L p. m (dst L p + 4 * i) = f (p * l_n L + i) (m0 (src L p + 4 * i))) \<and>
     (\<forall>p. p \<notin> D \<longrightarrow> (\<forall>i < cnt L p. m (src L p + 4 * i) = m0 (src L p + 4 * i))) \<and>
     (\<forall>a. \<not> in_block (l_buf L) (l_B L * l_n L) a \<and> \<not> in_block (l_out L) (l_numel L) a \<longrightarrow> m a = m0 a)"

lemma slot_data_start: "slot_data enc f L m m {} {} {}"
  by (simp add: slot_data_def)

lemma in_block_slot:
  assumes "layout_ok L" and "in_block (slot L q) k a" and "k \<le> l_n L"
  shows "in_block (l_buf L) (l_B L * l_n L) a"
proof -
  obtain i where i: "i < k" "a = slot L q + 4 * i" using assms(2) by (auto simp: in_block_def)
  then have "q mod l_B L * l_n L + i < l_B L * l_n L" using slot_index_less[OF assms(1)] assms(3) by simp
  then show ?thesis using i(2) unfolding unit_address in_block_def by blast
qed

lemma in_block_dst:
  assumes "in_block (dst L q) (cnt L q) a"
  shows "in_block (l_out L) (l_numel L) a"
proof -
  obtain i where i: "i < cnt L q" "a = dst L q + 4 * i" using assms by (auto simp: in_block_def)
  then show ?thesis using unit_index_less[OF i(1)] unfolding unit_address in_block_def by blast
qed

lemma cnt_le_n: "cnt L q \<le> l_n L"
  by (simp add: cnt_def)

lemma slots_disjoint:
  assumes "layout_ok L" and "p mod l_B L \<noteq> q mod l_B L" and "j < cnt L p" and "k \<le> l_n L"
  shows "\<not> in_block (slot L q) k (slot L p + 4 * j)"
  using slot_inj[OF assms(1,2) cnt_le[OF assms(3)]] assms(4) unfolding in_block_def by (meson less_le_trans)

text \<open>The network replaces the contents of a slot and touches nothing else.\<close>

lemma slot_data_network:
  assumes L: "layout_ok L" and D: "slot_data enc f L m0 m sent recv D"
    and q: "q \<in> sent" "\<forall>q' \<in> sent - {q} \<union> recv. q' mod l_B L \<noteq> q mod l_B L"
    and new: "\<forall>i < cnt L q. m' (slot L q + 4 * i) = agg (q * l_n L + i) (m (slot L q + 4 * i))"
    and frame: "\<forall>a. \<not> in_block (slot L q) (l_n L) a \<longrightarrow> m' a = m a"
    and agg: "\<And>j w. agg j (enc w) = enc (f j w)"
  shows "slot_data enc f L m0 m' (sent - {q}) (insert q recv) D"
proof -
  have other: "m' (slot L p + 4 * i) = m (slot L p + 4 * i)" if "p mod l_B L \<noteq> q mod l_B L" "i < cnt L p" for p i
    by (rule frame[rule_format], rule slots_disjoint[OF L that]) simp
  have tensors: "m' (src L p + 4 * i) = m (src L p + 4 * i)" "m' (dst L p + 4 * i) = m (dst L p + 4 * i)"
    if "i < cnt L p" for p i
    by (rule frame[rule_format], rule slots_outside[OF L that], simp)+
  have out: "m' a = m a" if "\<not> in_block (l_buf L) (l_B L * l_n L) a" for a
    using that in_block_slot[OF L, of q "l_n L" a] by (intro frame[rule_format]) auto
  show ?thesis unfolding slot_data_def
  proof (intro conjI ballI allI impI)
    fix p i assume "p \<in> sent - {q}" "i < cnt L p"
    then show "m' (slot L p + 4 * i) = enc (m0 (src L p + 4 * i))"
      using D q(2) other by (simp add: slot_data_def)
  next
    fix p i assume "p \<in> insert q recv" "i < cnt L p"
    then show "m' (slot L p + 4 * i) = enc (f (p * l_n L + i) (m0 (src L p + 4 * i)))"
      using D q new agg other by (cases "p = q") (simp_all add: slot_data_def)
  qed (use D in \<open>simp_all add: slot_data_def tensors out\<close>)
qed

text \<open>The same for several packets at once, none of which had come back before.\<close>

lemma slot_data_network_set:
  assumes L: "layout_ok L" and D: "slot_data enc f L m0 m sent {} D"
    and R: "R \<subseteq> sent" "inj_on (\<lambda>q. q mod l_B L) sent"
    and new: "\<forall>q \<in> R. \<forall>i < cnt L q. m' (slot L q + 4 * i) = agg (q * l_n L + i) (m (slot L q + 4 * i))"
    and frame: "\<forall>a. (\<forall>q \<in> R. \<not> in_block (slot L q) (l_n L) a) \<longrightarrow> m' a = m a"
    and agg: "\<And>j w. agg j (enc w) = enc (f j w)"
  shows "slot_data enc f L m0 m' (sent - R) R D"
proof -
  have other: "m' (slot L p + 4 * i) = m (slot L p + 4 * i)" if "p \<in> sent - R" "i < cnt L p" for p i
  proof (rule frame[rule_format])
    fix q assume "q \<in> R"
    then have "p mod l_B L \<noteq> q mod l_B L" using that(1) R by (metis Diff_iff inj_onD subsetD)
    then show "\<not> in_block (slot L q) (l_n L) (slot L p + 4 * i)" by (rule slots_disjoint[OF L _ that(2) order_refl])
  qed
  have tensors: "m' (src L p + 4 * i) = m (src L p + 4 * i)" "m' (dst L p + 4 * i) = m (dst L p + 4 * i)"
    if "i < cnt L p" for p i
    by (rule frame[rule_format], rule slots_outside[OF L that], simp)+
  have out: "m' a = m a" if "\<not> in_block (l_buf L) (l_B L * l_n L) a" for a
    using that in_block_slot[OF L, of _ "l_n L" a] by (intro frame[rule_format]) auto
  show ?thesis unfolding slot_data_def
  proof (intro conjI ballI allI impI)
    fix p i assume "p \<in> sent - R" "i < cnt L p"
    then show "m' (slot L p + 4 * i) = enc (m0 (src L p + 4 * i))" using D other by (simp add: slot_data_def)
  next
    fix p i assume "p \<in> R" "i < cnt L p"
    then show "m' (slot L p + 4 * i) = enc (f (p * l_n L + i) (m0 (src L p + 4 * i)))"
      using D R(1) new agg by (auto simp: slot_data_def)
  qed (use D in \<open>simp_all add: slot_data_def tensors out\<close>)
qed

section \<open>Processors of logical transmission units\<close>

text \<open>
  What a worker relies on: \<open>pre\<close> loads a unit into a buffer, element by element in an encoding, \<open>post\<close>
  writes a buffer back, decoded, and neither touches anything else.
\<close>

locale ltu_processor =
  fixes pre post :: "ptr \<Rightarrow> ptr \<Rightarrow> nat \<Rightarrow> memory \<Rightarrow> memory"
    and enc dec :: "32 word \<Rightarrow> 32 word"
  assumes pre_data: "no_clobber s e k \<Longrightarrow> i < k \<Longrightarrow> pre s e k m (e + 4 * i) = enc (m (s + 4 * i))"
    and pre_frame: "\<not> in_block e k a \<Longrightarrow> pre s e k m a = m a"
    and post_data: "no_clobber e d k \<Longrightarrow> i < k \<Longrightarrow> post e d k m (d + 4 * i) = dec (m (e + 4 * i))"
    and post_frame: "\<not> in_block d k a \<Longrightarrow> post e d k m a = m a"
    and dec_enc: "dec (enc w) = w"
begin

lemma load:
  assumes L: "layout_ok L" and D: "slot_data enc f L m0 m sent recv D" and q: "q \<notin> D"
    and free: "\<forall>q' \<in> sent \<union> recv. q' mod l_B L \<noteq> q mod l_B L"
  shows "slot_data enc f L m0 (pre (src L q) (slot L q) (cnt L q) m) (insert q sent) recv D"
proof -
  let ?m = "pre (src L q) (slot L q) (cnt L q) m"
  have frame: "?m a = m a" if "\<not> in_block (slot L q) (cnt L q) a" for a by (rule pre_frame[OF that])
  have nc: "no_clobber (src L q) (slot L q) (cnt L q)"
    using slots_outside(1)[OF L _ order_refl] cnt_le unfolding no_clobber_def in_block_def
    by (metis less_trans)
  have own: "?m (slot L q + 4 * i) = enc (m (src L q + 4 * i))" if "i < cnt L q" for i
    by (rule pre_data[OF nc that])
  have other: "?m (slot L p + 4 * i) = m (slot L p + 4 * i)" if "p mod l_B L \<noteq> q mod l_B L" "i < cnt L p" for p i
    by (rule frame, rule slots_disjoint[OF L that cnt_le_n])
  have tensors: "?m (src L p + 4 * i) = m (src L p + 4 * i)" "?m (dst L p + 4 * i) = m (dst L p + 4 * i)"
    if "i < cnt L p" for p i
    by (rule frame, rule slots_outside[OF L that cnt_le_n])+
  have out: "?m a = m a" if "\<not> in_block (l_buf L) (l_B L * l_n L) a" for a
    using that in_block_slot[OF L, of q "cnt L q" a] by (intro frame) (auto simp: cnt_def)
  show ?thesis unfolding slot_data_def
  proof (intro conjI ballI allI impI)
    fix p i assume "p \<in> insert q sent" "i < cnt L p"
    then show "?m (slot L p + 4 * i) = enc (m0 (src L p + 4 * i))"
      using D q free own other by (cases "p = q") (simp_all add: slot_data_def)
  next
    fix p i assume "p \<in> recv" "i < cnt L p"
    then show "?m (slot L p + 4 * i) = enc (f (p * l_n L + i) (m0 (src L p + 4 * i)))"
      using D free other by (simp add: slot_data_def)
  qed (use D in \<open>simp_all add: slot_data_def tensors out\<close>)
qed

lemma store:
  assumes L: "layout_ok L" and D: "slot_data enc f L m0 m sent recv D" and q: "q \<in> recv" "q \<notin> D"
  shows "slot_data enc f L m0 (post (slot L q) (dst L q) (cnt L q) m) sent (recv - {q}) (insert q D)"
proof -
  let ?m = "post (slot L q) (dst L q) (cnt L q) m"
  have frame: "?m a = m a" if "\<not> in_block (dst L q) (cnt L q) a" for a by (rule post_frame[OF that])
  have nc: "no_clobber (slot L q) (dst L q) (cnt L q)"
    using slot_apart(2)[OF L] cnt_le unfolding no_clobber_def by (metis less_trans)
  have own: "?m (dst L q + 4 * i) = dec (m (slot L q + 4 * i))" if "i < cnt L q" for i
    by (rule post_data[OF nc that])
  have slots: "?m (slot L p + 4 * i) = m (slot L p + 4 * i)" if "i < cnt L p" for p i
    using slot_apart(2)[OF L _ cnt_le[OF that]] by (intro frame) (metis in_block_def)
  have others: "?m (dst L p + 4 * i) = m (dst L p + 4 * i)" if "i < cnt L p" "p \<noteq> q" for p i
    using dst_inj[OF that(1) _ that(2)] by (intro frame) (metis in_block_def)
  have srcs: "?m (src L p + 4 * i) = m (src L p + 4 * i)" if "i < cnt L p" "p \<noteq> q" for p i
    using dst_src[OF L _ that(1)] that(2) by (intro frame) (metis in_block_def)
  have out: "?m a = m a" if "\<not> in_block (l_out L) (l_numel L) a" for a
    using that in_block_dst[of L q a] by (intro frame) auto
  show ?thesis unfolding slot_data_def
  proof (intro conjI ballI allI impI)
    fix p i assume "p \<in> insert q D" "i < cnt L p"
    then show "?m (dst L p + 4 * i) = f (p * l_n L + i) (m0 (src L p + 4 * i))"
      using D q own others by (cases "p = q") (simp_all add: slot_data_def dec_enc)
  next
    fix p i assume "p \<notin> insert q D" "i < cnt L p"
    then show "?m (src L p + 4 * i) = m0 (src L p + 4 * i)" using D srcs by (simp add: slot_data_def)
  qed (use D in \<open>simp_all add: slot_data_def slots out\<close>)
qed

end

interpretation int32: ltu_processor "transfer htonl" "transfer ntohl" htonl ntohl
  by unfold_locales (simp_all add: transfer_block transfer_other)

text \<open>When every packet is finished the output holds the reduction of the whole input.\<close>

lemma slot_data_finished:
  assumes "layout_ok L" and "slot_data enc f L m0 m {} {} {..<ltus L}" and "i < l_numel L"
  shows "m (l_out L + 4 * i) = f i (m0 (l_in L + 4 * i))"
proof -
  let ?n = "l_n L"
  have n: "0 < ?n" using assms(1) by (simp add: layout_ok_def)
  have "i div ?n * ?n < l_numel L" using assms(3) by (meson div_times_less_eq_dividend le_less_trans)
  then have "i div ?n < ltus L" unfolding ltus_def ceil_div_less[OF n] .
  moreover have "i mod ?n < l_numel L - i div ?n * ?n" using assms(3) div_mult_mod_eq[of i ?n] by linarith
  then have "i mod ?n < cnt L (i div ?n)" using n by (simp add: cnt_def)
  ultimately have "m (dst L (i div ?n) + 4 * (i mod ?n)) = f (i div ?n * ?n + i mod ?n) (m0 (src L (i div ?n) + 4 * (i mod ?n)))"
    using assms(2) by (simp add: slot_data_def)
  then show ?thesis unfolding unit_address by simp
qed

section \<open>Tensors of integers\<close>

definition job_layout :: "Tensor \<Rightarrow> nat \<Rightarrow> ptr \<Rightarrow> nat \<Rightarrow> layout" where
  "job_layout t n buf B =
     \<lparr>l_in = in_ptr t, l_out = out_ptr t, l_numel = numel t, l_n = n, l_buf = buf, l_B = B\<rparr>"

lemma job_layout_simps [simp]:
  "l_in (job_layout t n e b) = in_ptr t" "l_out (job_layout t n e b) = out_ptr t"
  "l_numel (job_layout t n e b) = numel t" "l_n (job_layout t n e b) = n"
  "l_buf (job_layout t n e b) = e" "l_B (job_layout t n e b) = b"
  by (simp_all add: job_layout_def)

text \<open>The prepostprocessor after SetupJobSlice, for sizes whose arithmetic stays in 64 bits.\<close>

definition int32_ppp :: "Tensor \<Rightarrow> nat \<Rightarrow> PrePostProcessor \<Rightarrow> bool" where
  "int32_ppp t n p \<longleftrightarrow>
     ppp_kind p = CpuExponentQuantizerPPP \<and> ppp_job_slice p = Some t \<and> data_type t = INT32 \<and>
     ppp_ltu_size p = 4 * n \<and> 0 < n \<and> 4 * numel t + 4 * n < 2 ^ 64"

lemma ltus_batch: "ltus (job_layout t n e b) = ltus (job_layout t n e b')"
  by (simp add: ltus_def)

lemma ltus_bounds:
  assumes "0 < l_n L"
  shows "ltus L \<le> l_numel L" and "0 < l_numel L \<Longrightarrow> 0 < ltus L"
proof -
  have "\<not> l_numel L < ltus L" using assms unfolding ltus_def ceil_div_less[OF assms] by simp
  then show "ltus L \<le> l_numel L" by simp
  show "0 < l_numel L \<Longrightarrow> 0 < ltus L" unfolding ltus_def ceil_div_less[OF assms] by simp
qed

lemma ltu_size_units:
  assumes "int32_ppp t n p" and "q < ltus (job_layout t n e b)"
  shows "ltu_offset p t q = q * n" and "numel_to_process p t q = cnt (job_layout t n e b) q"
  using assms ltu_values[of p n t q] by (simp_all add: int32_ppp_def ltus_def cnt_def)

lemma preprocess_int32:
  assumes "int32_ppp t n p" and "q < ltus (job_layout t n e b)"
  shows "PreprocessSingle q a x p h = Inr (h\<lparr>words :=
     transfer htonl (src (job_layout t n e b) q) a (cnt (job_layout t n e b) q) (words h)\<rparr>)"
  using assms ltu_size_units[OF assms] by (simp add: PreprocessSingle_def int32_ppp_def src_def)

lemma postprocess_int32:
  assumes "int32_ppp t n p" and "q < ltus (job_layout t n e b)"
  shows "PostprocessSingle q a x p h = Inr (p, h\<lparr>words :=
     transfer ntohl a (dst (job_layout t n e b) q) (cnt (job_layout t n e b) q) (words h)\<rparr>)"
  using assms ltu_size_units[OF assms] by (simp add: PostprocessSingle_def int32_ppp_def dst_def)

lemma setup_int32:
  assumes "ppp_kind p = CpuExponentQuantizerPPP" and "ppp_ltu_size p = 4 * n" and "data_type t = INT32"
    and "0 < n" and "4 * numel t + 4 * n < 2 ^ 64"
  shows "\<exists>p'. SetupJobSlice garbage t p = Inr (ltus (job_layout t n e b), p') \<and> int32_ppp t n p' \<and>
     NeedsExtraBatch p' = Inr False"
  using assms num_ltus_value[of n t] by (simp add: SetupJobSlice_def int32_ppp_def NeedsExtraBatch_def ltus_def)

section \<open>Loops under a fair environment\<close>

text \<open>
  The receive loops of the backends have the shape below: an iteration that may depend on its number, and a condition.
  An invariant of the iterations that excludes errors is an invariant of the loop; if moreover a measure never
  increases, and infinitely many iterations decrease it, the loop returns.
\<close>

definition loop_of ::
  "(nat \<Rightarrow> 's \<Rightarrow> bool) \<Rightarrow> (nat \<Rightarrow> 's \<Rightarrow> 's outcome) \<Rightarrow> (nat \<Rightarrow> nat \<Rightarrow> 's \<Rightarrow> 's outcome option) \<Rightarrow> bool"
where
  "loop_of cond step loop \<longleftrightarrow> (\<forall>k s. loop 0 k s = None) \<and> (\<forall>fuel k s. loop (Suc fuel) k s =
     (if cond k s then (case step k s of Inl e \<Rightarrow> Some (Inl e) | Inr s' \<Rightarrow> loop fuel (Suc k) s') else Some (Inr s)))"

lemma loop_safe:
  assumes loop: "loop_of cond step loop" and step: "\<And>k s. I s \<Longrightarrow> cond k s \<Longrightarrow> \<exists>s'. step k s = Inr s' \<and> I s'"
  shows "I s \<Longrightarrow> loop fuel k s = None \<or> (\<exists>s' k'. loop fuel k s = Some (Inr s') \<and> I s' \<and> \<not> cond k' s')"
proof (induction fuel arbitrary: k s)
  case 0
  then show ?case using loop by (simp add: loop_of_def)
next
  case (Suc fuel)
  show ?case
  proof (cases "cond k s")
    case True
    then obtain s' where "step k s = Inr s'" "I s'" using step[OF Suc.prems] by blast
    then show ?thesis using Suc.IH[of s' "Suc k"] True loop by (simp add: loop_of_def)
  next
    case False
    then show ?thesis using Suc.prems loop by (auto simp: loop_of_def)
  qed
qed

lemma loop_returns:
  fixes rest :: "'s \<Rightarrow> nat"
  assumes loop: "loop_of cond step loop"
    and step: "\<And>k s. I s \<Longrightarrow> cond k s \<Longrightarrow> \<exists>s'. step k s = Inr s' \<and> I s' \<and> rest s' \<le> rest s \<and> (good k \<longrightarrow> rest s' < rest s)"
    and fair: "\<And>k. \<exists>j \<ge> k. good j"
  shows "I s \<Longrightarrow> \<exists>fuel. loop fuel k s \<noteq> None"
proof (induction "rest s" arbitrary: s k rule: less_induct)
  case less
  obtain j where "k \<le> j" "good j" using fair by blast
  have "\<exists>fuel. loop fuel k' v \<noteq> None" if "I v" "rest v = rest s" "k' + d = j" for d k' v
    using that
  proof (induction d arbitrary: k' v)
    case (0 k' v)
    show ?case
    proof (cases "cond k' v")
      case True
      then obtain v' where v': "step k' v = Inr v'" "I v'" "rest v' < rest s"
        using step[OF 0(1) True] 0(2,3) \<open>good j\<close> by auto
      then obtain fuel where "loop fuel (Suc k') v' \<noteq> None" using less.hyps by blast
      then show ?thesis using True v'(1) loop by (intro exI[of _ "Suc fuel"]) (simp add: loop_of_def)
    next
      case False
      then show ?thesis using loop by (intro exI[of _ 1]) (simp add: loop_of_def)
    qed
  next
    case (Suc d k' v)
    show ?case
    proof (cases "cond k' v")
      case True
      then obtain v' where v': "step k' v = Inr v'" "I v'" "rest v' \<le> rest s" using step[OF Suc.prems(1) True] Suc.prems(2) by auto
      then obtain fuel where "loop fuel (Suc k') v' \<noteq> None"
        using less.hyps[of v' "Suc k'"] Suc.IH[OF v'(2), of "Suc k'"] Suc.prems(3) by (cases "rest v' = rest s") auto
      then show ?thesis using True v'(1) loop by (intro exI[of _ "Suc fuel"]) (simp add: loop_of_def)
    next
      case False
      then show ?thesis using loop by (intro exI[of _ 1]) (simp add: loop_of_def)
    qed
  qed
  from this[OF less.prems refl, of k "j - k"] show ?case using \<open>k \<le> j\<close> by simp
qed

end
