(* ===== verification/Dummy_Backend.thy ===== *)
theory Dummy_Backend
  imports Packet_Protocol Client_Config Client_Stats
begin

unbundle bit_operations_syntax

text \<open>
  The debugging backend (client_lib/src/backends/dummy/dummy_backend.h, dummy_backend.cc) and what its
  worker thread does with one job slice (dummy_worker_thread.cc, lines 89-179; the outer loop is in the
  theory Client_System). The C library's random numbers are parameters: \<open>r\<close> for the number of packets of
  a call and \<open>rs\<close> for the choices in it. The time that the backend sleeps is not modelled.
\<close>

section \<open>The backend\<close>

record DummyPacket =
  dp_id :: nat
  dp_job :: JobId
  dp_numel :: nat
  dp_type :: DataType
  dp_entries :: ptr
  dp_extra :: ptr

text \<open>The macro shifts a signed 32-bit integer, to the right arithmetically.\<close>

definition SWAP_INT32 :: "32 word \<Rightarrow> 32 word" where
  "SWAP_INT32 a =
     (signed_drop_bit 24 a AND 0xFF) OR (push_bit 8 a AND 0xFF0000) OR
     (signed_drop_bit 8 a AND 0xFF00) OR (push_bit 24 a AND 0xFF000000)"

fun process_entries :: "nat \<Rightarrow> ptr \<Rightarrow> nat \<Rightarrow> memory \<Rightarrow> memory" where
  "process_entries num_workers entries 0 m = m"
| "process_entries num_workers entries (Suc j) m =
     (let m0 = process_entries num_workers entries j m;
          a = entries + 4 * j;
          m1 = m0(a := SWAP_INT32 (m0 a));
          m2 = m1(a := m1 a * of_nat num_workers)
      in m2(a := SWAP_INT32 (m2 a)))"

definition ProcessPacket :: "nat \<Rightarrow> DummyPacket \<Rightarrow> memory \<Rightarrow> memory" where
  "ProcessPacket num_workers pkt m = process_entries num_workers (dp_entries pkt) (dp_numel pkt) m"

text \<open>The pending packets of every worker thread.\<close>

type_synonym pending = "DummyPacket list list"

definition new_DummyBackend :: "Config \<Rightarrow> pending" where
  "new_DummyBackend c = replicate (gc_num_worker_threads (general c)) []"

definition SendBurst :: "nat \<Rightarrow> DummyPacket list \<Rightarrow> pending \<Rightarrow> pending outcome" where
  "SendBurst tid packets_to_send pd =
     (if packets_to_send = [] then Inl (Fatal ''trying to send 0 packets'')
      else if tid < length pd then Inr (pd[tid := pd ! tid @ packets_to_send])
      else Inl (Crash ''worker thread id out of bounds''))"

fun receive_loop ::
  "bool \<Rightarrow> nat \<Rightarrow> (nat \<Rightarrow> nat) \<Rightarrow> nat \<Rightarrow> nat \<Rightarrow> DummyPacket list \<Rightarrow> DummyPacket list \<Rightarrow> memory \<Rightarrow>
   (DummyPacket list \<times> DummyPacket list \<times> memory) outcome"
where
  "receive_loop process num_workers rs 0 j ps received m = Inr (ps, received, m)"
| "receive_loop process num_workers rs (Suc num_receives) j ps received m =
     (if ps = [] then Inl (Crash ''division by zero'')
      else let i = rs j mod length ps;
               pkt = ps ! i;
               m' = (if process then ProcessPacket num_workers pkt m else m)
           in receive_loop process num_workers rs num_receives (Suc j)
                (take i ps @ drop (Suc i) ps) (received @ [pkt]) m')"

definition ReceiveBurst ::
  "Config \<Rightarrow> nat \<Rightarrow> (nat \<Rightarrow> nat) \<Rightarrow> nat \<Rightarrow> pending \<Rightarrow> memory \<Rightarrow> (pending \<times> DummyPacket list \<times> memory) outcome"
where
  "ReceiveBurst c r rs tid pd m =
     (if \<not> tid < length pd then Inl (Crash ''worker thread id out of bounds'')
      else if pd ! tid = [] then Inl (Fatal ''trying to receive after all packets have been received'')
      else bindE (receive_loop (dummy_process_packets (bc_dummy (backend_cfg c))) (gc_num_workers (general c)) rs
                    (r mod (length (pd ! tid) + 1)) 0 (pd ! tid) [] m)
             (\<lambda>(ps, received, m'). Inr (pd[tid := ps], received, m')))"

section \<open>One job slice in the worker thread\<close>

record dummy_worker =
  dw_ppp :: PrePostProcessor
  dw_heap :: heap
  dw_pending :: pending
  dw_stats :: Stats
  dw_received :: nat

text \<open>The first lines of the thread: its share of the outstanding packets, and its prepostprocessor.\<close>

definition dummy_setup :: "Config \<Rightarrow> nat \<Rightarrow> (nat \<times> PrePostProcessor) outcome" where
  "dummy_setup c tid =
     (let g = general c
      in if gc_num_worker_threads g = 0 then Inl (Crash ''division by zero'')
         else let mop = gc_max_outstanding_packets g div gc_num_worker_threads g
              in bindE (CreatePPP (gc_prepostprocessor g) (gc_num_workers g) tid (u64_mul (gc_packet_numel g) 4) mop)
                   (\<lambda>p. Inr (mop, p)))"

text \<open>Packet \<open>i\<close> of the slice, in its slots of the two buffers at \<open>entries\<close> and \<open>extra\<close>.\<close>

definition dummy_packet :: "Config \<Rightarrow> ptr \<Rightarrow> ptr \<Rightarrow> JobSlice \<Rightarrow> nat \<Rightarrow> nat \<Rightarrow> DummyPacket" where
  "dummy_packet c entries extra js batch i =
     \<lparr>dp_id = i, dp_job = slice_job js, dp_numel = gc_packet_numel (general c), dp_type = data_type (slice js),
      dp_entries = entries + (i mod batch) * DataTypeSize (data_type (slice js)) * gc_packet_numel (general c),
      dp_extra = extra + (i mod batch) * 2\<rparr>"

fun first_batch ::
  "(nat \<Rightarrow> DummyPacket) \<Rightarrow> PrePostProcessor \<Rightarrow> nat \<Rightarrow> heap \<Rightarrow> (DummyPacket list \<times> heap) outcome"
where
  "first_batch mk p 0 h = Inr ([], h)"
| "first_batch mk p (Suc i) h =
     bindE (first_batch mk p i h) (\<lambda>(pkts, h1).
       let pkt = mk i
       in bindE (PreprocessSingle (dp_id pkt) (dp_entries pkt) (dp_extra pkt) p h1) (\<lambda>h2. Inr (pkts @ [pkt], h2)))"

text \<open>Postprocess the received packets, and reuse each for the next packet of its slot.\<close>

fun reuse_packets ::
  "Config \<Rightarrow> ptr \<Rightarrow> ptr \<Rightarrow> nat \<Rightarrow> nat \<Rightarrow> DummyPacket list \<Rightarrow> PrePostProcessor \<Rightarrow> heap \<Rightarrow>
   (DummyPacket list \<times> PrePostProcessor \<times> heap) outcome"
where
  "reuse_packets c entries extra batch num_pkts [] p h = Inr ([], p, h)"
| "reuse_packets c entries extra batch num_pkts (pkt # pkts) p h =
     bindE (PostprocessSingle (dp_id pkt) (dp_entries pkt) (dp_extra pkt) p h) (\<lambda>(p1, h1).
       let next_id = u64_add (dp_id pkt) batch
       in if next_id \<ge> num_pkts then reuse_packets c entries extra batch num_pkts pkts p1 h1
          else let pkt' = pkt\<lparr>dp_id := next_id,
                     dp_entries := entries + (next_id mod batch) * DataTypeSize (dp_type pkt) * gc_packet_numel (general c),
                     dp_extra := extra + (next_id mod batch) * 2\<rparr>
               in bindE (PreprocessSingle (dp_id pkt') (dp_entries pkt') (dp_extra pkt') p1 h1) (\<lambda>h2.
                  bindE (reuse_packets c entries extra batch num_pkts pkts p1 h2) (\<lambda>(to_send, p3, h3).
                    Inr (pkt' # to_send, p3, h3))))"

text \<open>The body of the receive and send loop.\<close>

definition dummy_iteration ::
  "Config \<Rightarrow> ptr \<Rightarrow> ptr \<Rightarrow> nat \<Rightarrow> nat \<Rightarrow> nat \<Rightarrow> nat \<Rightarrow> (nat \<Rightarrow> nat) \<Rightarrow> dummy_worker \<Rightarrow> dummy_worker outcome"
where
  "dummy_iteration c entries extra batch num_pkts tid r rs w =
     bindE (ReceiveBurst c r rs tid (dw_pending w) (words (dw_heap w))) (\<lambda>(pd, received, m).
       let w1 = w\<lparr>dw_pending := pd, dw_heap := (dw_heap w)\<lparr>words := m\<rparr>\<rparr>
       in if received = [] then Inr w1
          else bindE (AddCorrectPktsReceived tid (length received) (dw_stats w1)) (\<lambda>st.
               bindE (reuse_packets c entries extra batch num_pkts received (dw_ppp w1) (dw_heap w1)) (\<lambda>(to_send, p, h).
                 let w2 = w1\<lparr>dw_stats := st, dw_received := u64_add (dw_received w1) (length received),
                             dw_ppp := p, dw_heap := h\<rparr>
                 in if to_send = [] then Inr w2
                    else bindE (SendBurst tid to_send (dw_pending w2)) (\<lambda>pd2.
                         bindE (AddTotalPktsSent tid (length to_send) (dw_stats w2)) (\<lambda>st2.
                           Inr (w2\<lparr>dw_pending := pd2, dw_stats := st2\<rparr>))))))"

text \<open>
  The loop: \<open>running k\<close> is the context state that its \<open>k\<close>-th test reads, \<open>r k\<close> and \<open>rs k\<close> the random
  numbers of its \<open>k\<close>-th call of ReceiveBurst. \<open>None\<close> means that the fuel did not suffice.
\<close>

fun dummy_loop ::
  "Config \<Rightarrow> ptr \<Rightarrow> ptr \<Rightarrow> nat \<Rightarrow> nat \<Rightarrow> nat \<Rightarrow> (nat \<Rightarrow> nat) \<Rightarrow> (nat \<Rightarrow> nat \<Rightarrow> nat) \<Rightarrow> (nat \<Rightarrow> bool) \<Rightarrow> nat \<Rightarrow> nat \<Rightarrow>
   dummy_worker \<Rightarrow> dummy_worker outcome option"
where
  "dummy_loop c entries extra batch num_pkts tid r rs running 0 k w = None"
| "dummy_loop c entries extra batch num_pkts tid r rs running (Suc fuel) k w =
     (if dw_received w \<noteq> num_pkts \<and> running k
      then (case dummy_iteration c entries extra batch num_pkts tid (r k) (rs k) w of
              Inl e \<Rightarrow> Some (Inl e)
            | Inr w' \<Rightarrow> dummy_loop c entries extra batch num_pkts tid r rs running fuel (Suc k) w')
      else Some (Inr w))"

text \<open>Everything before the loop; the results are the batch size and the number of packets.\<close>

definition dummy_begin ::
  "Config \<Rightarrow> (nat \<Rightarrow> fp) \<Rightarrow> ptr \<Rightarrow> ptr \<Rightarrow> nat \<Rightarrow> nat \<Rightarrow> JobSlice \<Rightarrow> dummy_worker \<Rightarrow> (nat \<times> nat \<times> dummy_worker) outcome"
where
  "dummy_begin c garbage entries extra mop tid js w =
     bindE (SetupJobSlice garbage (slice js) (dw_ppp w)) (\<lambda>(main_pkts, p).
       let batch = min mop main_pkts
       in bindE (NeedsExtraBatch p) (\<lambda>more.
          let num_pkts = (if more then u64_add main_pkts batch else main_pkts)
          in bindE (first_batch (dummy_packet c entries extra js batch) p batch (dw_heap w)) (\<lambda>(pkts, h).
             bindE (SendBurst tid pkts (dw_pending w)) (\<lambda>pd.
             bindE (AddTotalPktsSent tid (length pkts) (dw_stats w)) (\<lambda>st.
               Inr (batch, num_pkts,
                    w\<lparr>dw_ppp := p, dw_heap := h, dw_pending := pd, dw_stats := st, dw_received := 0\<rparr>))))))"

definition dummy_slice ::
  "Config \<Rightarrow> (nat \<Rightarrow> fp) \<Rightarrow> ptr \<Rightarrow> ptr \<Rightarrow> nat \<Rightarrow> nat \<Rightarrow> (nat \<Rightarrow> nat) \<Rightarrow> (nat \<Rightarrow> nat \<Rightarrow> nat) \<Rightarrow> (nat \<Rightarrow> bool) \<Rightarrow> nat \<Rightarrow>
   JobSlice \<Rightarrow> dummy_worker \<Rightarrow> dummy_worker outcome option"
where
  "dummy_slice c garbage entries extra mop tid r rs running fuel js w =
     (case dummy_begin c garbage entries extra mop tid js w of
        Inl e \<Rightarrow> Some (Inl e)
      | Inr (batch, num_pkts, w1) \<Rightarrow>
          map_option (map_sum id (\<lambda>w2. w2\<lparr>dw_ppp := CleanupJobSlice (dw_ppp w2)\<rparr>))
            (dummy_loop c entries extra batch num_pkts tid r rs running fuel 0 w1))"

section \<open>The simulated switch\<close>

lemma SWAP_INT32_bswap32: "SWAP_INT32 = bswap32"
proof
  fix a :: "32 word"
  show "SWAP_INT32 a = bswap32 a"
  proof (rule bit_word_eqI)
    fix n assume "n < LENGTH(32)"
    then have "n < 32" by simp
    define k where "k = n mod 8"
    have "k < 8" "n = k \<or> n = 8 + k \<or> n = 16 + k \<or> n = 24 + k"
      using \<open>n < 32\<close> unfolding k_def by presburger+
    then show "bit (SWAP_INT32 a) n = bit (bswap32 a) n"
      unfolding SWAP_INT32_def bit_bswap32 byte_masks bit_or_iff bit_and_iff bit_push_bit_iff bit_signed_drop_bit_iff
        bit_mask_iff possible_bit_word
      by (elim disjE) (simp_all add: add.commute)
  qed
qed

lemma process_entries_other: "\<not> in_block e k a \<Longrightarrow> process_entries nw e k m a = m a"
  by (induction k) (auto simp: in_block_def Let_def less_Suc_eq)

lemma process_entries_block:
  "i < k \<Longrightarrow> process_entries nw e k m (e + 4 * i) = bswap32 (bswap32 (m (e + 4 * i)) * of_nat nw)"
proof (induction k)
  case (Suc k)
  then show ?case
  proof (cases "i = k")
    case True
    have "\<not> in_block e k (e + 4 * k)" by (auto simp: in_block_def)
    then show ?thesis using True by (simp add: Let_def SWAP_INT32_bswap32 process_entries_other)
  qed (simp add: Let_def)
qed simp

section \<open>The worker's invariant for a tensor of integers\<close>

abbreviation dummy_layout :: "Config \<Rightarrow> ptr \<Rightarrow> JobSlice \<Rightarrow> nat \<Rightarrow> layout" where
  "dummy_layout c entries js batch \<equiv> job_layout (slice js) (gc_packet_numel (general c)) entries batch"

abbreviation int32_job :: "Config \<Rightarrow> JobSlice \<Rightarrow> PrePostProcessor \<Rightarrow> bool" where
  "int32_job c js p \<equiv> int32_ppp (slice js) (gc_packet_numel (general c)) p"

definition dummy_reduce :: "Config \<Rightarrow> 32 word \<Rightarrow> 32 word" where
  "dummy_reduce c v =
     (if dummy_process_packets (bc_dummy (backend_cfg c)) then v * of_nat (gc_num_workers (general c)) else v)"

definition stats_ok :: "nat \<Rightarrow> Stats \<Rightarrow> bool" where
  "stats_ok tid s \<longleftrightarrow> (\<exists>xs. total_pkts_sent s = Some xs \<and> tid < length xs) \<and>
     (\<exists>xs. correct_pkts_received s = Some xs \<and> tid < length xs)"

lemma stats_ok_add:
  assumes "stats_ok tid s"
  shows "\<exists>s'. AddTotalPktsSent tid k s = Inr s' \<and> stats_ok tid s'"
    and "\<exists>s'. AddCorrectPktsReceived tid k s = Inr s' \<and> stats_ok tid s'"
  using assms by (auto simp: stats_ok_def AddTotalPktsSent_def AddCorrectPktsReceived_def add_at_def)

abbreviation "ids \<equiv> map dp_id"

lemma dummy_packet_simps [simp]:
  "dp_id (dummy_packet c e x js b i) = i" "dp_job (dummy_packet c e x js b i) = slice_job js"
  "dp_numel (dummy_packet c e x js b i) = gc_packet_numel (general c)"
  "dp_type (dummy_packet c e x js b i) = data_type (slice js)"
  "dp_entries (dummy_packet c e x js b i) = slot (dummy_layout c e js b) i"
  by (simp_all add: dummy_packet_def slot_def)

text \<open>The first batch.\<close>

lemma first_batch_ok:
  assumes job: "int32_job c js p" and L: "layout_ok (dummy_layout c e js b)"
    and k: "k \<le> b" "b \<le> ltus (dummy_layout c e js b)"
  shows "\<exists>h'. first_batch (dummy_packet c e x js b) p k h = Inr (map (dummy_packet c e x js b) [0..<k], h') \<and>
     slot_data htonl f (dummy_layout c e js b) (words h) (words h') {..<k} {} {}"
  using k
proof (induction k)
  case 0
  then show ?case by (simp add: slot_data_start)
next
  case (Suc k)
  let ?L = "dummy_layout c e js b"
  obtain h' where h': "first_batch (dummy_packet c e x js b) p k h = Inr (map (dummy_packet c e x js b) [0..<k], h')"
    "slot_data htonl f ?L (words h) (words h') {..<k} {} {}" using Suc by auto
  have "slot_data htonl f ?L (words h) (transfer htonl (src ?L k) (slot ?L k) (cnt ?L k) (words h'))
      (insert k {..<k}) {} {}"
    using Suc.prems by (intro int32.load[OF L h'(2)]) auto
  moreover have "insert k {..<k} = {..<Suc k}" by auto
  ultimately show ?case using h'(1) Suc.prems by (simp add: preprocess_int32[OF job, of k e b])
qed

text \<open>Receiving: packets leave the pending list with their contents reduced.\<close>

lemma process_slot_data:
  fixes pkt :: DummyPacket
  assumes L: "layout_ok (dummy_layout c e js b)" and D: "slot_data htonl (\<lambda>_. dummy_reduce c) (dummy_layout c e js b) m0 m sent recv D"
    and q: "q \<in> sent" "\<forall>q' \<in> sent - {q} \<union> recv. q' mod b \<noteq> q mod b" and pkt: "pkt = dummy_packet c e x js b q"
  shows "slot_data htonl (\<lambda>_. dummy_reduce c) (dummy_layout c e js b) m0
     (if dummy_process_packets (bc_dummy (backend_cfg c)) then ProcessPacket (gc_num_workers (general c)) pkt m else m)
     (sent - {q}) (insert q recv) D"
proof (rule slot_data_network[OF L D q(1), where agg = "\<lambda>_ w. htonl (dummy_reduce c (ntohl w))"])
  show "\<forall>q' \<in> sent - {q} \<union> recv. q' mod l_B (dummy_layout c e js b) \<noteq> q mod l_B (dummy_layout c e js b)"
    using q(2) by simp
  let ?m = "if dummy_process_packets (bc_dummy (backend_cfg c)) then ProcessPacket (gc_num_workers (general c)) pkt m else m"
  let ?s = "slot (dummy_layout c e js b) q"
  show "\<forall>i < cnt (dummy_layout c e js b) q. ?m (?s + 4 * i) = htonl (dummy_reduce c (ntohl (m (?s + 4 * i))))"
    using cnt_le[of _ "dummy_layout c e js b" q]
    by (auto simp: ProcessPacket_def pkt dummy_reduce_def process_entries_block htonl_def ntohl_def)
  show "\<forall>a. \<not> in_block ?s (l_n (dummy_layout c e js b)) a \<longrightarrow> ?m a = m a"
    by (simp add: ProcessPacket_def pkt process_entries_other)
qed simp

lemma remove_nth_mset: "i < length xs \<Longrightarrow> mset xs = mset (take i xs @ drop (Suc i) xs) + {#xs ! i#}"
  using id_take_nth_drop[of i xs] by (metis add.commute add_mset_add_single mset.simps(2) mset_append union_mset_add_mset_right)

lemma receive_loop_ok:
  fixes ps rec :: "DummyPacket list"
  assumes L: "layout_ok (dummy_layout c e js b)" and k: "k \<le> length ps"
    and inv: "pkt_inv b N (ids ps @ ids rec)"
    and mk: "\<forall>pkt \<in> set ps \<union> set rec. pkt = dummy_packet c e x js b (dp_id pkt)"
    and D: "slot_data htonl (\<lambda>_. dummy_reduce c) (dummy_layout c e js b) m0 m (set (ids ps)) (set (ids rec)) D"
  shows "\<exists>ps' new m'. receive_loop (dummy_process_packets (bc_dummy (backend_cfg c))) (gc_num_workers (general c)) rs k j ps rec m
       = Inr (ps', rec @ new, m') \<and> length new = k \<and> mset ps = mset ps' + mset new \<and>
     slot_data htonl (\<lambda>_. dummy_reduce c) (dummy_layout c e js b) m0 m' (set (ids ps')) (set (ids (rec @ new))) D"
  using k inv mk D
proof (induction k arbitrary: j ps rec m)
  case 0
  then show ?case by simp
next
  case (Suc k)
  define i where "i = rs j mod length ps"
  have ne: "ps \<noteq> []" using Suc.prems(1) by auto
  then have i: "i < length ps" by (simp add: i_def)
  define pkt where "pkt = ps ! i"
  define ps1 where "ps1 = take i ps @ drop (Suc i) ps"
  define m1 where "m1 = (if dummy_process_packets (bc_dummy (backend_cfg c))
      then ProcessPacket (gc_num_workers (general c)) pkt m else m)"
  have ms: "mset ps = mset ps1 + {#pkt#}" unfolding ps1_def pkt_def by (rule remove_nth_mset[OF i])
  have pin: "pkt \<in> set ps" using i by (simp add: pkt_def)
  have msi: "mset (ids ps @ ids rec) = mset (dp_id pkt # ids ps1 @ ids rec)" by (simp add: ms)
  have inv1: "pkt_inv b N (dp_id pkt # ids ps1 @ ids rec)" using Suc.prems(2) pkt_inv_mset[OF msi] by simp
  then have free: "\<forall>q' \<in> set (ids ps1) \<union> set (ids rec). q' mod b \<noteq> dp_id pkt mod b"
    by (auto simp: pkt_inv_def image_iff)
  have "set ps = set (pkt # ps1)" using ms by (intro mset_eq_setD) simp
  then have sps: "set (ids ps) = insert (dp_id pkt) (set (ids ps1))" by simp
  have nin: "dp_id pkt \<notin> set (ids ps1)" using free by blast
  have "slot_data htonl (\<lambda>_. dummy_reduce c) (dummy_layout c e js b) m0 m1
      (set (ids ps) - {dp_id pkt}) (insert (dp_id pkt) (set (ids rec))) D"
    unfolding m1_def using Suc.prems(3) pin free sps nin
    by (intro process_slot_data[OF L Suc.prems(4)]) auto
  then have D1: "slot_data htonl (\<lambda>_. dummy_reduce c) (dummy_layout c e js b) m0 m1 (set (ids ps1)) (set (ids (rec @ [pkt]))) D"
    using sps nin by simp
  have len: "k \<le> length ps1" using Suc.prems(1) i by (simp add: ps1_def)
  have sub: "set ps1 \<subseteq> set ps" using ms by (metis mset_subset_eq_add_left set_mset_mono set_mset_mset)
  have inv2: "pkt_inv b N (ids ps1 @ ids (rec @ [pkt]))" 
    using inv1 pkt_inv_mset[of "dp_id pkt # ids ps1 @ ids rec" "ids ps1 @ ids (rec @ [pkt])"] by simp
  have mk1: "\<forall>pkt \<in> set ps1 \<union> set (rec @ [pkt]). pkt = dummy_packet c e x js b (dp_id pkt)"
  proof
    fix v assume "v \<in> set ps1 \<union> set (rec @ [pkt])"
    then have "v \<in> set ps \<union> set rec" using sub pin by auto
    then show "v = dummy_packet c e x js b (dp_id v)" using Suc.prems(3) by blast
  qed
  obtain ps' new m' where r: "receive_loop (dummy_process_packets (bc_dummy (backend_cfg c))) (gc_num_workers (general c)) rs k (Suc j)
      ps1 (rec @ [pkt]) m1 = Inr (ps', (rec @ [pkt]) @ new, m')" "length new = k" "mset ps1 = mset ps' + mset new"
    "slot_data htonl (\<lambda>_. dummy_reduce c) (dummy_layout c e js b) m0 m' (set (ids ps')) (set (ids ((rec @ [pkt]) @ new))) D"
    using Suc.IH[OF len inv2 mk1 D1] by blast
  have "receive_loop (dummy_process_packets (bc_dummy (backend_cfg c))) (gc_num_workers (general c)) rs (Suc k) j ps rec m =
      Inr (ps', rec @ (pkt # new), m')"
    using r(1) by (simp only: receive_loop.simps ne if_False Let_def i_def[symmetric] pkt_def[symmetric]
        ps1_def[symmetric] m1_def[symmetric] append_assoc append.simps)
  then show ?case using r(2-4) ms by (intro exI[of _ ps'] exI[of _ "pkt # new"] exI[of _ m']) simp
qed

text \<open>Reusing: every received packet is finished and its successor loaded.\<close>

lemma reuse_step_packet:
  assumes "pkt = dummy_packet c e x js b q" and "q + b < 2 ^ 64"
  shows "pkt\<lparr>dp_id := u64_add (dp_id pkt) b,
       dp_entries := e + u64_add (dp_id pkt) b mod b * DataTypeSize (dp_type pkt) * gc_packet_numel (general c),
       dp_extra := x + u64_add (dp_id pkt) b mod b * 2\<rparr> = dummy_packet c e x js b (q + b)"
  using assms by (simp add: dummy_packet_def u64_simps)

text \<open>A received packet is copied out of its slot, and the next packet of the slot is written into it.\<close>

lemma received_stored:
  assumes L: "layout_ok L" and inv: "pkt_inv b N (q # (rs @ os))"
    and D: "slot_data htonl f L m0 m (set os) (insert q (set rs)) (pkt_done b N (q # (rs @ os)))"
  shows "q < N" "\<forall>q' \<in> set os \<union> set rs. q' mod b \<noteq> q mod b" "pkt_inv b N (next_pkt b N q @ (rs @ os))"
    "slot_data htonl f L m0 (transfer ntohl (slot L q) (dst L q) (cnt L q) m) (set os) (set rs)
       (pkt_done b N (next_pkt b N q @ (rs @ os)))"
    "card (pkt_done b N (next_pkt b N q @ (rs @ os))) = Suc (card (pkt_done b N (q # (rs @ os))))"
proof -
  show "q < N" and free: "\<forall>q' \<in> set os \<union> set rs. q' mod b \<noteq> q mod b"
    using inv by (auto simp: pkt_inv_def image_iff)
  have qD: "q \<notin> pkt_done b N (q # (rs @ os))" by (rule pkt_outstanding_not_done) simp
  have D': "pkt_done b N (next_pkt b N q @ (rs @ os)) = insert q (pkt_done b N (q # (rs @ os)))"
    by (rule pkt_receive(2)[OF inv])
  show "pkt_inv b N (next_pkt b N q @ (rs @ os))" by (rule pkt_receive(1)[OF inv])
  have "q \<notin> set rs" using free by blast
  then show "slot_data htonl f L m0 (transfer ntohl (slot L q) (dst L q) (cnt L q) m) (set os) (set rs)
       (pkt_done b N (next_pkt b N q @ (rs @ os)))"
    using int32.store[OF L D, of q] qD by (simp add: D')
  show "card (pkt_done b N (next_pkt b N q @ (rs @ os))) = Suc (card (pkt_done b N (q # (rs @ os))))"
    using qD by (simp add: D')
qed

lemma next_loaded:
  assumes L: "layout_ok L" "l_B L = b" and inv: "pkt_inv b N (next_pkt b N q @ (rs @ os))" and more: "q + b < N"
    and free: "\<forall>q' \<in> set os \<union> set rs. q' mod b \<noteq> q mod b"
    and D: "slot_data htonl f L m0 m (set os) (set rs) (pkt_done b N (next_pkt b N q @ (rs @ os)))"
  shows "pkt_inv b N (rs @ ((q + b) # os))"
    "slot_data htonl f L m0 (transfer htonl (src L (q + b)) (slot L (q + b)) (cnt L (q + b)) m) (set ((q + b) # os)) (set rs)
       (pkt_done b N (rs @ ((q + b) # os)))"
    "pkt_done b N (next_pkt b N q @ (rs @ os)) = pkt_done b N (rs @ ((q + b) # os))"
proof -
  have nx: "next_pkt b N q = [q + b]" using more by (simp add: next_pkt_def)
  have ms: "mset (next_pkt b N q @ (rs @ os)) = mset (rs @ ((q + b) # os))" by (simp add: nx)
  show "pkt_inv b N (rs @ ((q + b) # os))" using inv pkt_inv_mset[OF ms] by simp
  show d: "pkt_done b N (next_pkt b N q @ (rs @ os)) = pkt_done b N (rs @ ((q + b) # os))"
    by (rule pkt_done_set) (simp add: nx insert_commute)
  have "q + b \<notin> pkt_done b N (next_pkt b N q @ (rs @ os))" by (rule pkt_outstanding_not_done) (simp add: nx)
  then show "slot_data htonl f L m0 (transfer htonl (src L (q + b)) (slot L (q + b)) (cnt L (q + b)) m) (set ((q + b) # os)) (set rs)
       (pkt_done b N (rs @ ((q + b) # os)))"
    using int32.load[OF L(1) D, of "q + b"] free by (simp add: L(2) d)
qed

lemma reuse_packets_ok:
  fixes rec :: "DummyPacket list"
  assumes job: "int32_job c js p" and L: "layout_ok (dummy_layout c e js b)"
    and N: "N = ltus (dummy_layout c e js b)" "N + b < 2 ^ 64"
    and inv: "pkt_inv b N (ids rec @ os)"
    and mk: "\<forall>pkt \<in> set rec. pkt = dummy_packet c e x js b (dp_id pkt)"
    and D: "slot_data htonl f (dummy_layout c e js b) m0 (words h) (set os) (set (ids rec)) (pkt_done b N (ids rec @ os))"
  shows "\<exists>ts h'. reuse_packets c e x b N rec p h = Inr (ts, p, h') \<and> pkt_inv b N (ids ts @ os) \<and>
     (\<forall>pkt \<in> set ts. pkt = dummy_packet c e x js b (dp_id pkt)) \<and>
     slot_data htonl f (dummy_layout c e js b) m0 (words h') (set (ids ts) \<union> set os) {} (pkt_done b N (ids ts @ os)) \<and>
     card (pkt_done b N (ids ts @ os)) = card (pkt_done b N (ids rec @ os)) + length rec"
  using inv mk D
proof (induction rec arbitrary: os h)
  case Nil
  then show ?case by simp
next
  case (Cons pkt rec)
  let ?L = "dummy_layout c e js b"
  define q where "q = dp_id pkt"
  have pkt: "pkt = dummy_packet c e x js b q" using Cons.prems(2) by (simp add: q_def)
  have inv: "pkt_inv b N (q # (ids rec @ os))" using Cons.prems(1) by (simp add: q_def)
  let ?D = "pkt_done b N (q # (ids rec @ os))" and ?D' = "pkt_done b N (next_pkt b N q @ (ids rec @ os))"
  let ?h1 = "h\<lparr>words := transfer ntohl (slot ?L q) (dst ?L q) (cnt ?L q) (words h)\<rparr>"
  have D0: "slot_data htonl f ?L m0 (words h) (set os) (insert q (set (ids rec))) ?D"
    using Cons.prems(3) by (simp add: q_def)
  note r1 = received_stored[OF L inv D0]
  have post: "PostprocessSingle (dp_id pkt) (dp_entries pkt) (dp_extra pkt) p h = Inr (p, ?h1)"
    using postprocess_int32[OF job, of q e b] r1(1) N(1) by (simp add: pkt)
  have nid: "u64_add (dp_id pkt) b = q + b" using r1(1) N(2) by (simp add: pkt u64_simps)
  show ?case
  proof (cases "q + b < N")
    case False
    then have nx: "next_pkt b N q = []" by (simp add: next_pkt_def)
    obtain ts h' where r: "reuse_packets c e x b N rec p ?h1 = Inr (ts, p, h')" "pkt_inv b N (ids ts @ os)"
      "\<forall>pkt \<in> set ts. pkt = dummy_packet c e x js b (dp_id pkt)"
      "slot_data htonl f ?L m0 (words h') (set (ids ts) \<union> set os) {} (pkt_done b N (ids ts @ os))"
      "card (pkt_done b N (ids ts @ os)) = card (pkt_done b N (ids rec @ os)) + length rec"
      using Cons.IH[of os ?h1] r1(3,4) Cons.prems(2) nx by auto
    have "reuse_packets c e x b N (pkt # rec) p h = Inr (ts, p, h')"
      using False r(1) post nid by (simp add: Let_def)
    then show ?thesis using r r1(5) nx by (auto simp: q_def)
  next
    case True
    let ?q = "q + b" and ?h2 = "?h1\<lparr>words := transfer htonl (src ?L (q + b)) (slot ?L (q + b)) (cnt ?L (q + b)) (words ?h1)\<rparr>"
    have pre: "PreprocessSingle ?q (slot ?L ?q) y p ?h1 = Inr ?h2" for y
      using preprocess_int32[OF job, of ?q e b] True N(1) by simp
    note r2 = next_loaded[OF L _ r1(3) True r1(2,4), simplified]
    obtain ts h' where r: "reuse_packets c e x b N rec p ?h2 = Inr (ts, p, h')" "pkt_inv b N (ids ts @ (?q # os))"
      "\<forall>pkt \<in> set ts. pkt = dummy_packet c e x js b (dp_id pkt)"
      "slot_data htonl f ?L m0 (words h') (set (ids ts) \<union> set (?q # os)) {} (pkt_done b N (ids ts @ (?q # os)))"
      "card (pkt_done b N (ids ts @ (?q # os))) = card (pkt_done b N (ids rec @ (?q # os))) + length rec"
      using Cons.IH[of "?q # os" ?h2] r2 Cons.prems(2) by auto
    let ?pkt' = "dummy_packet c e x js b ?q"
    have "reuse_packets c e x b N (pkt # rec) p h = Inr (?pkt' # ts, p, h')"
      using True r(1) post pre nid reuse_step_packet[OF pkt] r1(1) N(2) by (simp add: Let_def)
    moreover have "mset (ids ts @ (?q # os)) = mset (ids (?pkt' # ts) @ os)" by simp
    then have "pkt_inv b N (ids (?pkt' # ts) @ os)" using r(2) pkt_inv_mset by blast
    moreover have "pkt_done b N (ids ts @ (?q # os)) = pkt_done b N (ids (?pkt' # ts) @ os)"
      by (rule pkt_done_set) simp
    ultimately show ?thesis using r(3-5) r1(5) r2(3) by (auto simp: q_def[symmetric] insert_commute)
  qed
qed

text \<open>The invariant at the head of the loop.\<close>

definition dummy_inv ::
  "Config \<Rightarrow> ptr \<Rightarrow> ptr \<Rightarrow> JobSlice \<Rightarrow> nat \<Rightarrow> nat \<Rightarrow> PrePostProcessor \<Rightarrow> memory \<Rightarrow> dummy_worker \<Rightarrow> bool"
where
  "dummy_inv c e x js b tid p m0 w \<longleftrightarrow>
     (let L = dummy_layout c e js b; N = ltus L; ps = dw_pending w ! tid
      in pkt_inv b N (ids ps) \<and> (\<forall>pkt \<in> set ps. pkt = dummy_packet c e x js b (dp_id pkt)) \<and>
         slot_data htonl (\<lambda>_. dummy_reduce c) L m0 (words (dw_heap w)) (set (ids ps)) {} (pkt_done b N (ids ps)) \<and>
         dw_received w = card (pkt_done b N (ids ps)) \<and> dw_ppp w = p \<and>
         tid < length (dw_pending w) \<and> stats_ok tid (dw_stats w))"

lemma ReceiveBurst_ok:
  assumes L: "layout_ok (dummy_layout c e js b)" and inv: "dummy_inv c e x js b tid p m0 w"
    and ne: "dw_pending w ! tid \<noteq> []"
  shows "\<exists>ps' rec m'. ReceiveBurst c r rs tid (dw_pending w) (words (dw_heap w)) = Inr ((dw_pending w)[tid := ps'], rec, m') \<and>
     length rec = r mod (length (dw_pending w ! tid) + 1) \<and> mset (dw_pending w ! tid) = mset ps' + mset rec \<and>
     slot_data htonl (\<lambda>_. dummy_reduce c) (dummy_layout c e js b) m0 m' (set (ids ps')) (set (ids rec))
       (pkt_done b (ltus (dummy_layout c e js b)) (ids (dw_pending w ! tid)))"
proof -
  let ?ps = "dw_pending w ! tid" and ?N = "ltus (dummy_layout c e js b)"
  have "r mod (length ?ps + 1) \<le> length ?ps" using mod_less_divisor[of "length ?ps + 1" r] by linarith
  then show ?thesis
    using receive_loop_ok[OF L, of "r mod (length ?ps + 1)" ?ps ?N "[]" x m0 "words (dw_heap w)"
        "pkt_done b ?N (ids ?ps)" rs 0] inv ne
    by (fastforce simp: ReceiveBurst_def dummy_inv_def Let_def)
qed

lemma dummy_iteration_ok:
  assumes job: "int32_job c js p" and L: "layout_ok (dummy_layout c e js b)"
    and N: "N = ltus (dummy_layout c e js b)" "N + b < 2 ^ 64"
    and inv: "dummy_inv c e x js b tid p m0 w" and more: "dw_received w \<noteq> N"
  shows "\<exists>w'. dummy_iteration c e x b N tid r rs w = Inr w' \<and> dummy_inv c e x js b tid p m0 w' \<and>
     dw_received w' = dw_received w + r mod (length (dw_pending w ! tid) + 1)"
proof -
  let ?L = "dummy_layout c e js b" and ?ps = "dw_pending w ! tid"
  have i: "pkt_inv b N (ids ?ps)" "\<forall>pkt \<in> set ?ps. pkt = dummy_packet c e x js b (dp_id pkt)"
    "dw_received w = card (pkt_done b N (ids ?ps))" "dw_ppp w = p" "tid < length (dw_pending w)" "stats_ok tid (dw_stats w)"
    using inv by (simp_all add: dummy_inv_def Let_def N(1))
  have ne: "?ps \<noteq> []" using more i(3) pkt_done_card(2)[OF i(1)] by auto
  obtain ps' rec m' where rb: "ReceiveBurst c r rs tid (dw_pending w) (words (dw_heap w)) = Inr ((dw_pending w)[tid := ps'], rec, m')"
    "length rec = r mod (length ?ps + 1)" "mset ?ps = mset ps' + mset rec"
    "slot_data htonl (\<lambda>_. dummy_reduce c) ?L m0 m' (set (ids ps')) (set (ids rec)) (pkt_done b N (ids ?ps))"
    using ReceiveBurst_ok[OF L inv ne] N(1) by blast
  have ms: "mset (ids ?ps) = mset (ids rec @ ids ps')" using rb(3) by (simp add: add.commute)
  have inv1: "pkt_inv b N (ids rec @ ids ps')" using i(1) pkt_inv_mset[OF ms] by simp
  have done1: "pkt_done b N (ids ?ps) = pkt_done b N (ids rec @ ids ps')"
    by (rule pkt_done_set, rule mset_eq_setD, rule ms)
  have sub: "set ?ps = set ps' \<union> set rec" using rb(3) by (metis set_append mset_append mset_eq_setD)
  let ?w1 = "w\<lparr>dw_pending := (dw_pending w)[tid := ps'], dw_heap := (dw_heap w)\<lparr>words := m'\<rparr>\<rparr>"
  show ?thesis
  proof (cases "rec = []")
    case True
    then have "dummy_inv c e x js b tid p m0 ?w1"
      using inv rb(4) i sub done1 inv1 by (auto simp: dummy_inv_def Let_def N(1)[symmetric])
    then show ?thesis using True rb(1,2) by (simp add: dummy_iteration_def)
  next
    case False
    obtain st where st: "AddCorrectPktsReceived tid (length rec) (dw_stats w) = Inr st" "stats_ok tid st"
      using stats_ok_add(2)[OF i(6)] by blast
    have mkrec: "\<forall>pkt \<in> set rec. pkt = dummy_packet c e x js b (dp_id pkt)" using i(2) sub by blast
    have D: "slot_data htonl (\<lambda>_. dummy_reduce c) ?L m0 (words ((dw_heap w)\<lparr>words := m'\<rparr>)) (set (ids ps')) (set (ids rec))
        (pkt_done b N (ids rec @ ids ps'))" using rb(4) done1 by simp
    obtain ts h' where ru: "reuse_packets c e x b N rec p ((dw_heap w)\<lparr>words := m'\<rparr>) = Inr (ts, p, h')"
      "pkt_inv b N (ids ts @ ids ps')" "\<forall>pkt \<in> set ts. pkt = dummy_packet c e x js b (dp_id pkt)"
      "slot_data htonl (\<lambda>_. dummy_reduce c) ?L m0 (words h') (set (ids ts) \<union> set (ids ps')) {} (pkt_done b N (ids ts @ ids ps'))"
      "card (pkt_done b N (ids ts @ ids ps')) = card (pkt_done b N (ids rec @ ids ps')) + length rec"
      using reuse_packets_ok[OF job L N inv1 mkrec D] by blast
    let ?w2 = "?w1\<lparr>dw_stats := st, dw_received := dw_received w + length rec, dw_ppp := p, dw_heap := h'\<rparr>"
    have "dw_received w + length rec \<le> N"
      using pkt_done_card(1)[OF ru(2)] ru(5) i(3) done1 by simp
    then have add: "u64_add (dw_received w) (length rec) = dw_received w + length rec"
      using N(2) by (simp add: u64_simps)
    have ms2: "mset (ids ts @ ids ps') = mset (ids (ps' @ ts))" by simp
    have inv2: "pkt_inv b N (ids (ps' @ ts))" using ru(2) pkt_inv_mset[OF ms2] by simp
    have done2: "pkt_done b N (ids ts @ ids ps') = pkt_done b N (ids (ps' @ ts))" by (rule pkt_done_set) auto
    have mk2: "\<forall>pkt \<in> set (ps' @ ts). pkt = dummy_packet c e x js b (dp_id pkt)" using i(2) sub ru(3) by auto
    have D2: "slot_data htonl (\<lambda>_. dummy_reduce c) ?L m0 (words h') (set (ids (ps' @ ts))) {} (pkt_done b N (ids (ps' @ ts)))"
      using ru(4) done2 by (simp add: Un_commute image_Un)
    have rcv2: "dw_received w + length rec = card (pkt_done b N (ids (ps' @ ts)))" using ru(5) i(3) done1 done2 by simp
    show ?thesis
    proof (cases "ts = []")
      case True
      then have "dummy_inv c e x js b tid p m0 ?w2"
        using inv2 mk2 D2 rcv2 i(5) st(2) by (simp add: dummy_inv_def Let_def N(1)[symmetric])
      moreover have "dummy_iteration c e x b N tid r rs w = Inr ?w2"
        using False True rb(1) st(1) ru(1) add i(4) by (simp add: dummy_iteration_def Let_def)
      ultimately show ?thesis using rb(2) by (intro exI[of _ ?w2]) simp
    next
      case ts: False
      obtain st2 where st2: "AddTotalPktsSent tid (length ts) st = Inr st2" "stats_ok tid st2"
        using stats_ok_add(1)[OF st(2)] by blast
      let ?w3 = "?w2\<lparr>dw_pending := (dw_pending w)[tid := ps' @ ts], dw_stats := st2\<rparr>"
      have "dummy_inv c e x js b tid p m0 ?w3"
        using inv2 mk2 D2[unfolded list.set_map] rcv2 i(5) st2(2) by (simp add: dummy_inv_def Let_def N(1)[symmetric])
      moreover have "dummy_iteration c e x b N tid r rs w = Inr ?w3"
        using False ts rb(1) st(1) ru(1) add i(4,5) st2(1) by (simp add: dummy_iteration_def Let_def SendBurst_def)
      ultimately show ?thesis using rb(2) by (intro exI[of _ ?w3]) simp
    qed
  qed
qed

section \<open>The whole slice\<close>

lemma dummy_loop_of:
  "loop_of (\<lambda>k w. dw_received w \<noteq> N \<and> running k) (\<lambda>k. dummy_iteration c e x b N tid (r k) (rs k))
     (dummy_loop c e x b N tid r rs running)"
  by (simp add: loop_of_def)

lemma dummy_loop_inv:
  assumes job: "int32_job c js p" and L: "layout_ok (dummy_layout c e js b)"
    and N: "N = ltus (dummy_layout c e js b)" "N + b < 2 ^ 64" and inv: "dummy_inv c e x js b tid p m0 w"
  shows "case dummy_loop c e x b N tid r rs running fuel k w of
        None \<Rightarrow> True
      | Some (Inl _) \<Rightarrow> False
      | Some (Inr w') \<Rightarrow> dummy_inv c e x js b tid p m0 w' \<and> (dw_received w' = N \<or> \<not> (\<forall>k. running k))"
proof -
  have "\<exists>w'. dummy_iteration c e x b N tid (r k) (rs k) w = Inr w' \<and> dummy_inv c e x js b tid p m0 w'"
    if "dummy_inv c e x js b tid p m0 w" "dw_received w \<noteq> N \<and> running k" for k w
    using dummy_iteration_ok[OF job L N that(1), of "r k" "rs k"] that(2) by blast
  from loop_safe[OF dummy_loop_of[where running = running and r = r and rs = rs] this inv, where fuel = fuel and k = k]
  show ?thesis by (auto split: option.splits sum.splits)
qed

text \<open>Progress: infinitely many draws that are not 0 modulo a possible number of pending packets plus one.\<close>

definition fair_draws :: "nat \<Rightarrow> (nat \<Rightarrow> nat) \<Rightarrow> bool" where
  "fair_draws b r \<longleftrightarrow> (\<forall>k. \<exists>j \<ge> k. \<forall>n. 0 < n \<and> n \<le> b \<longrightarrow> r j mod (n + 1) \<noteq> 0)"

lemma dummy_progress:
  assumes job: "int32_job c js p" and L: "layout_ok (dummy_layout c e js b)"
    and N: "N = ltus (dummy_layout c e js b)" "N + b < 2 ^ 64" and inv: "dummy_inv c e x js b tid p m0 w" and less: "dw_received w \<noteq> N"
  shows "\<exists>w'. dummy_iteration c e x b N tid draw rs w = Inr w' \<and> dummy_inv c e x js b tid p m0 w' \<and>
     N - dw_received w' \<le> N - dw_received w \<and>
     ((\<forall>n. 0 < n \<and> n \<le> b \<longrightarrow> draw mod (n + 1) \<noteq> 0) \<longrightarrow> N - dw_received w' < N - dw_received w)"
proof -
  let ?n = "length (dw_pending w ! tid)"
  have inv': "pkt_inv b N (ids (dw_pending w ! tid))" "dw_received w = card (pkt_done b N (ids (dw_pending w ! tid)))"
    using inv by (simp_all add: dummy_inv_def Let_def N(1))
  then have n: "0 < ?n" "?n \<le> b" using less pkt_done_card(2)[OF inv'(1)] pkt_inv_length[OF inv'(1)] by auto
  obtain w' where w': "dummy_iteration c e x b N tid draw rs w = Inr w'" "dummy_inv c e x js b tid p m0 w'"
    "dw_received w' = dw_received w + draw mod (?n + 1)"
    using dummy_iteration_ok[OF job L N inv, of draw rs] less by blast
  have "dw_received w' \<le> N" using w'(2) pkt_done_card(1) by (simp add: dummy_inv_def Let_def N(1))
  moreover have "(\<forall>n. 0 < n \<and> n \<le> b \<longrightarrow> draw mod (n + 1) \<noteq> 0) \<longrightarrow> 0 < draw mod (?n + 1)" using n by blast
  ultimately have "N - dw_received w' \<le> N - dw_received w"
    "(\<forall>n. 0 < n \<and> n \<le> b \<longrightarrow> draw mod (n + 1) \<noteq> 0) \<longrightarrow> N - dw_received w' < N - dw_received w"
    using w'(3) by (auto simp del: mod_greater_zero_iff_not_dvd)
  then show ?thesis using w'(1,2) by blast
qed

lemma dummy_loop_returns:
  assumes job: "int32_job c js p" and L: "layout_ok (dummy_layout c e js b)"
    and N: "N = ltus (dummy_layout c e js b)" "N + b < 2 ^ 64" and fair: "fair_draws b r"
    and inv: "dummy_inv c e x js b tid p m0 w"
  shows "\<exists>fuel. dummy_loop c e x b N tid r rs running fuel k w \<noteq> None"
  by (rule loop_returns[OF dummy_loop_of, where I = "dummy_inv c e x js b tid p m0" and rest = "\<lambda>w. N - dw_received w"
        and good = "\<lambda>k. \<forall>n. 0 < n \<and> n \<le> b \<longrightarrow> r k mod (n + 1) \<noteq> 0"])
    (use dummy_progress[OF job L N] fair inv in \<open>auto simp: fair_draws_def\<close>)

text \<open>What a job slice of integers needs: sizes without overflow, disjoint buffers, and the thread's arrays.\<close>

definition dummy_ready :: "Config \<Rightarrow> ptr \<Rightarrow> nat \<Rightarrow> nat \<Rightarrow> JobSlice \<Rightarrow> dummy_worker \<Rightarrow> bool" where
  "dummy_ready c e mop tid js w \<longleftrightarrow>
     ppp_kind (dw_ppp w) = CpuExponentQuantizerPPP \<and> ppp_ltu_size (dw_ppp w) = 4 * gc_packet_numel (general c) \<and>
     data_type (slice js) = INT32 \<and> 0 < gc_packet_numel (general c) \<and> 0 < numel (slice js) \<and> 0 < mop \<and>
     4 * numel (slice js) + 4 * gc_packet_numel (general c) < 2 ^ 64 \<and>
     layout_ok (dummy_layout c e js (min mop (ltus (dummy_layout c e js mop)))) \<and>
     tid < length (dw_pending w) \<and> dw_pending w ! tid = [] \<and> stats_ok tid (dw_stats w)"

lemma dummy_begin_ok:
  assumes ready: "dummy_ready c e mop tid js w"
  shows "\<exists>b p w1. b = min mop (ltus (dummy_layout c e js b)) \<and> layout_ok (dummy_layout c e js b) \<and>
     ltus (dummy_layout c e js b) + b < 2 ^ 64 \<and> int32_job c js p \<and>
     dummy_begin c garbage e x mop tid js w = Inr (b, ltus (dummy_layout c e js b), w1) \<and>
     dummy_inv c e x js b tid p (words (dw_heap w)) w1"
proof -
  define N where "N = ltus (dummy_layout c e js mop)"
  define b where "b = min mop N"
  let ?L = "dummy_layout c e js b" and ?n = "gc_packet_numel (general c)"
  have r: "ppp_kind (dw_ppp w) = CpuExponentQuantizerPPP" "ppp_ltu_size (dw_ppp w) = 4 * ?n"
    "data_type (slice js) = INT32" "0 < ?n" "0 < numel (slice js)" "0 < mop" "4 * numel (slice js) + 4 * ?n < 2 ^ 64"
    "layout_ok ?L" "tid < length (dw_pending w)" "dw_pending w ! tid = []" "stats_ok tid (dw_stats w)"
    using ready by (simp_all add: dummy_ready_def b_def N_def)
  have NL: "N = ltus ?L" unfolding N_def by (rule ltus_batch)
  have Nb: "N \<le> numel (slice js)" "0 < N" using ltus_bounds[of ?L] r(4,5) by (simp_all add: NL)
  have b: "0 < b" "b \<le> N" using r(6) Nb(2) by (simp_all add: b_def)
  obtain p where p: "SetupJobSlice garbage (slice js) (dw_ppp w) = Inr (N, p)" "int32_job c js p" "NeedsExtraBatch p = Inr False"
    using setup_int32[OF r(1-4,7), of garbage e b] unfolding NL by blast
  define ps where "ps = map (dummy_packet c e x js b) [0..<b]"
  have ids: "ids ps = [0..<b]" unfolding ps_def by (rule nth_equalityI) simp_all
  have mk: "\<forall>pkt \<in> set ps. pkt = dummy_packet c e x js b (dp_id pkt)" "length ps = b" "ps \<noteq> []"
    using b(1) by (auto simp: ps_def)
  obtain h' where h': "first_batch (dummy_packet c e x js b) p b (dw_heap w) = Inr (ps, h')"
    "slot_data htonl (\<lambda>_. dummy_reduce c) ?L (words (dw_heap w)) (words h') (set (ids ps)) {} {}"
  proof -
    have sids: "set (ids ps) = {..<b}" unfolding ids by (simp add: atLeast0LessThan)
    have "b \<le> ltus ?L" using b(2) unfolding NL .
    from first_batch_ok[OF p(2) r(8) order_refl this, of x "dw_heap w"] that show ?thesis
      unfolding sids ps_def[symmetric] by blast
  qed
  obtain st where st: "AddTotalPktsSent tid b (dw_stats w) = Inr st" "stats_ok tid st"
    using stats_ok_add(1)[OF r(11)] by blast
  let ?w1 = "w\<lparr>dw_ppp := p, dw_heap := h', dw_pending := (dw_pending w)[tid := ps], dw_stats := st, dw_received := 0\<rparr>"
  have "dummy_begin c garbage e x mop tid js w = Inr (b, N, ?w1)"
    using p(1,3) h'(1) st(1) r(9,10) mk(2,3) by (simp add: dummy_begin_def Let_def b_def[symmetric] SendBurst_def)
  moreover have "dummy_inv c e x js b tid p (words (dw_heap w)) ?w1"
  proof -
    have f: "dw_pending ?w1 ! tid = ps" "words (dw_heap ?w1) = words h'" "dw_received ?w1 = 0" "dw_ppp ?w1 = p"
      "dw_stats ?w1 = st" using r(9) by simp_all
    have t: "tid < length (dw_pending ?w1)" using r(9) by simp
    have i: "pkt_inv b N (ids ps)" and z: "pkt_done b N (ids ps) = {}" using pkt_start[OF b] unfolding ids by blast+
    have D: "slot_data htonl (\<lambda>_. dummy_reduce c) ?L (words (dw_heap w)) (words h') (set (ids ps)) {} (pkt_done b N (ids ps))"
      unfolding z by (rule h'(2))
    have card: "0 = card (pkt_done b N (ids ps))" unfolding z by simp
    show ?thesis unfolding dummy_inv_def Let_def f NL[symmetric]
      by (intro conjI i mk(1) D card refl t st(2))
  qed
  moreover have "N + b < 2 ^ 64" using b(2) Nb(1) r(7) by linarith
  ultimately have "b = min mop N \<and> layout_ok ?L \<and> N + b < 2 ^ 64 \<and> int32_job c js p \<and>
      dummy_begin c garbage e x mop tid js w = Inr (b, N, ?w1) \<and> dummy_inv c e x js b tid p (words (dw_heap w)) ?w1"
    using b_def r(8) p(2) by blast
  then show ?thesis unfolding NL by (intro exI)
qed

text \<open>C15: A job slice of integers on the debugging backend: if the context keeps running and the simulated
  network keeps delivering, the worker finishes the slice, whatever the order in which packets are received;
  every element of the output is then the input element times the number of workers (modulo 2^32), nothing outside
  the output and the worker's buffers has changed, and no packet is left pending.\<close>
theorem dummy_allreduce:
  assumes "dummy_ready c e mop tid js w" and "\<forall>k. running k" and "fair_draws mop r"
  shows "\<exists>fuel w'. dummy_slice c garbage e x mop tid r rs running fuel js w = Some (Inr w') \<and>
     (\<forall>i < numel (slice js). words (dw_heap w') (out_ptr (slice js) + 4 * i) =
        dummy_reduce c (words (dw_heap w) (in_ptr (slice js) + 4 * i))) \<and>
     (\<forall>a. \<not> in_block e (mop * gc_packet_numel (general c)) a \<and> \<not> in_block (out_ptr (slice js)) (numel (slice js)) a
        \<longrightarrow> words (dw_heap w') a = words (dw_heap w) a) \<and>
     dw_pending w' ! tid = []"
proof -
  obtain b p w1 where b: "b = min mop (ltus (dummy_layout c e js b))" and L: "layout_ok (dummy_layout c e js b)"
    and N: "ltus (dummy_layout c e js b) + b < 2 ^ 64" and job: "int32_job c js p"
    and start: "dummy_begin c garbage e x mop tid js w = Inr (b, ltus (dummy_layout c e js b), w1)"
    and inv: "dummy_inv c e x js b tid p (words (dw_heap w)) w1"
    using dummy_begin_ok[OF assms(1)] by blast
  let ?L = "dummy_layout c e js b"
  have "b \<le> mop" using b by linarith
  then have "fair_draws b r" using assms(3) unfolding fair_draws_def by (meson order_trans)
  from dummy_loop_returns[OF job L refl N this inv, where rs = rs and running = running and k = 0, unfolded not_None_eq] obtain fuel res where
    loop: "dummy_loop c e x b (ltus ?L) tid r rs running fuel 0 w1 = Some res" by blast
  then obtain w2 where res: "res = Inr w2" and inv2: "dummy_inv c e x js b tid p (words (dw_heap w)) w2"
    and all: "dw_received w2 = ltus ?L"
    using dummy_loop_inv[OF job L refl N inv, where r = r and rs = rs and running = running and fuel = fuel and k = 0] assms(2) by (auto split: sum.splits)
  let ?w' = "w2\<lparr>dw_ppp := CleanupJobSlice (dw_ppp w2)\<rparr>"
  have empty: "dw_pending w2 ! tid = []"
    using inv2 all pkt_done_card(2) by (fastforce simp: dummy_inv_def Let_def)
  then have D: "slot_data htonl (\<lambda>_. dummy_reduce c) ?L (words (dw_heap w)) (words (dw_heap w2)) {} {} {..<ltus ?L}"
    using inv2 by (simp add: dummy_inv_def Let_def pkt_all_done)
  have "dummy_slice c garbage e x mop tid r rs running fuel js w = Some (Inr ?w')"
    using start loop res by (simp add: dummy_slice_def)
  moreover have "\<forall>i < numel (slice js). words (dw_heap w2) (out_ptr (slice js) + 4 * i) =
      dummy_reduce c (words (dw_heap w) (in_ptr (slice js) + 4 * i))"
    using slot_data_finished[OF L D] by simp
  moreover have "in_block e (b * k) a \<Longrightarrow> in_block e (mop * k) a" for k a
    using mult_le_mono1[OF \<open>b \<le> mop\<close>, of k] unfolding in_block_def by (blast intro: less_le_trans)
  then have "\<forall>a. \<not> in_block e (mop * gc_packet_numel (general c)) a \<and> \<not> in_block (out_ptr (slice js)) (numel (slice js)) a
      \<longrightarrow> words (dw_heap w2) a = words (dw_heap w) a"
    using D unfolding slot_data_def job_layout_simps by blast
  ultimately show ?thesis using empty by (intro exI[of _ fuel] exI[of _ ?w']) simp
qed

text \<open>Whatever the random choices and whenever the context stops, a worker on a job slice of integers
  never violates a check of the backend, such as sending or receiving nothing, nor any array bound.\<close>
theorem dummy_never_aborts:
  assumes "dummy_ready c e mop tid js w"
  shows "dummy_slice c garbage e x mop tid r rs running fuel js w \<noteq> Some (Inl err)"
proof -
  obtain b p w1 where L: "layout_ok (dummy_layout c e js b)"
    and N: "ltus (dummy_layout c e js b) + b < 2 ^ 64" and job: "int32_job c js p"
    and start: "dummy_begin c garbage e x mop tid js w = Inr (b, ltus (dummy_layout c e js b), w1)"
    and inv: "dummy_inv c e x js b tid p (words (dw_heap w)) w1"
    using dummy_begin_ok[OF assms] by blast
  show ?thesis
    using dummy_loop_inv[OF job L refl N inv, where r = r and rs = rs and running = running and fuel = fuel and k = 0] start
    by (auto simp: dummy_slice_def split: option.splits sum.splits)
qed

text \<open>With a share of no outstanding packet the first batch is empty and the worker aborts.\<close>
theorem dummy_empty_batch_aborts:
  assumes "0 < ppp_ltu_size (dw_ppp w)" and "ppp_kind (dw_ppp w) = CpuExponentQuantizerPPP"
  shows "dummy_slice c garbage e x 0 tid r rs running fuel js w = Some (Inl (Fatal ''trying to send 0 packets''))"
  using assms by (simp add: dummy_slice_def dummy_begin_def SetupJobSlice_def num_ltus_def NeedsExtraBatch_def Let_def SendBurst_def)

definition sample_js :: JobSlice where
  "sample_js = \<lparr>slice_job = 7, slice = Tensor.make 0 0 5000 INT32\<rparr>"

definition sample_worker :: dummy_worker where
  "sample_worker = \<lparr>dw_ppp = new_PPP CpuExponentQuantizerPPP 1 0 4096 4, dw_heap = \<lparr>words = (\<lambda>a. of_nat a), bytes = (\<lambda>_. 0)\<rparr>,
     dw_pending = [[]], dw_stats = new_Stats\<lparr>total_pkts_sent := Some [0], correct_pkts_received := Some [0]\<rparr>, dw_received = 0\<rparr>"

lemma sample_ready: "dummy_ready default_Config 20000 4 0 sample_js sample_worker"
  by (simp add: dummy_ready_def default_Config_def default_GeneralConfig_def sample_js_def sample_worker_def new_PPP_def
      Tensor.make_def ltus_def layout_ok_def apart_def stats_ok_def)

lemma dummy_allreduce_witness:
  "\<exists>fuel w'. dummy_slice default_Config (\<lambda>_. NaN) 20000 40000 4 0 (\<lambda>_. 1) (\<lambda>k j. k) (\<lambda>_. True) fuel sample_js sample_worker =
     Some (Inr w') \<and> dw_pending w' ! 0 = []"
  using dummy_allreduce[OF sample_ready, where running = "\<lambda>_. True" and r = "\<lambda>_. 1" and garbage = "\<lambda>_. NaN" and x = 40000 and rs = "\<lambda>k j. k"]
  by (auto simp: fair_draws_def)

lemma dummy_never_aborts_witness:
  "dummy_slice default_Config (\<lambda>_. NaN) 20000 40000 4 0 (\<lambda>k. k) (\<lambda>k j. k) (\<lambda>k. k < 2) 9 sample_js sample_worker \<noteq>
     Some (Inl (Fatal ''trying to send 0 packets''))"
  by (rule dummy_never_aborts[OF sample_ready])

lemma dummy_empty_batch_aborts_witness:
  "dummy_slice default_Config (\<lambda>_. NaN) 20000 40000 0 0 (\<lambda>k. k) (\<lambda>k j. k) (\<lambda>k. True) 9 sample_js sample_worker =
     Some (Inl (Fatal ''trying to send 0 packets''))"
  by (rule dummy_empty_batch_aborts) (simp_all add: sample_worker_def new_PPP_def)

end
