(* ===== verification/Grpc_Client.thy ===== *)
theory Grpc_Client
  imports Client_Config "HOL-Library.Word"
begin

text \<open>
  The client of the controller (client_lib/src/grpc_client.cc, with the messages of protos/switchml.proto),
  used by both backends to set up a session on the switch. The controller is a parameter: the answer to
  every call, \<open>None\<close> when the call fails. The calls are recorded in order, which is what the session
  protocol of the workers is about: the last section composes the call sequences of all workers with the
  controller's barrier.
\<close>

section \<open>Requests and responses\<close>

record BroadcastRequest =
  br_value :: nat
  br_rank :: nat
  br_num_workers :: nat
  br_root :: nat

record RdmaSessionRequest =
  rq_session_id :: nat
  rq_rank :: nat
  rq_num_workers :: nat
  rq_mac :: "64 word"
  rq_ipv4 :: "32 word"
  rq_rkey :: "32 word"
  rq_packet_size :: nat
  rq_message_size :: nat
  rq_qpns :: "32 word list"
  rq_psns :: "32 word list"

record RdmaSessionResponse =
  rs_session_id :: nat
  rs_mac :: "64 word"
  rs_ipv4 :: "32 word"
  rs_rkey :: "32 word"
  rs_qpns :: "32 word list"
  rs_psns :: "32 word list"

record UdpSessionRequest =
  uq_session_id :: nat
  uq_rank :: nat
  uq_num_workers :: nat
  uq_mac :: "64 word"
  uq_ipv4 :: "32 word"
  uq_packet_size :: nat

record UdpSessionResponse =
  us_session_id :: nat
  us_mac :: "64 word"
  us_ipv4 :: "32 word"

datatype grpc_call =
    BarrierCall nat
  | BroadcastCall BroadcastRequest
  | RdmaSessionCall RdmaSessionRequest
  | UdpSessionCall UdpSessionRequest

text \<open>The controller sees the earlier calls.\<close>

record controller =
  ct_barrier :: "grpc_call list \<Rightarrow> nat \<Rightarrow> unit option"
  ct_broadcast :: "grpc_call list \<Rightarrow> BroadcastRequest \<Rightarrow> nat option"
  ct_rdma :: "grpc_call list \<Rightarrow> RdmaSessionRequest \<Rightarrow> RdmaSessionResponse option"
  ct_udp :: "grpc_call list \<Rightarrow> UdpSessionRequest \<Rightarrow> UdpSessionResponse option"

section \<open>The client\<close>

text \<open>The address of the controller: host, colon, port.\<close>

fun nat_string :: "nat \<Rightarrow> string" where
  "nat_string n = (if n < 10 then [char_of (48 + n)] else nat_string (n div 10) @ [char_of (48 + n mod 10)])"

definition controller_socket :: "Config \<Rightarrow> string" where
  "controller_socket c = gc_controller_ip_str (general c) @ '':'' @ nat_string (gc_controller_port (general c))"

definition check_status :: "'a option \<Rightarrow> 'a outcome" where
  "check_status reply = (case reply of None \<Rightarrow> Inl (Fatal ''Error contacting coordinator'') | Some r \<Rightarrow> Inr r)"

definition Grpc_Barrier :: "controller \<Rightarrow> nat \<Rightarrow> grpc_call list \<Rightarrow> grpc_call list outcome" where
  "Grpc_Barrier ct num_workers calls =
     bindE (check_status (ct_barrier ct calls num_workers)) (\<lambda>_. Inr (calls @ [BarrierCall num_workers]))"

definition Grpc_Broadcast :: "controller \<Rightarrow> BroadcastRequest \<Rightarrow> grpc_call list \<Rightarrow> (nat \<times> grpc_call list) outcome" where
  "Grpc_Broadcast ct request calls =
     bindE (check_status (ct_broadcast ct calls request)) (\<lambda>v. Inr (v, calls @ [BroadcastCall request]))"

definition CreateRdmaSession ::
  "controller \<Rightarrow> RdmaSessionRequest \<Rightarrow> grpc_call list \<Rightarrow> (RdmaSessionResponse \<times> grpc_call list) outcome"
where
  "CreateRdmaSession ct request calls =
     bindE (check_status (ct_rdma ct calls request)) (\<lambda>r. Inr (r, calls @ [RdmaSessionCall request]))"

definition CreateUdpSession ::
  "controller \<Rightarrow> UdpSessionRequest \<Rightarrow> grpc_call list \<Rightarrow> (UdpSessionResponse \<times> grpc_call list) outcome"
where
  "CreateUdpSession ct request calls =
     bindE (check_status (ct_udp ct calls request)) (\<lambda>r. Inr (r, calls @ [UdpSessionCall request]))"

section \<open>The session protocol of all workers\<close>

text \<open>
  What both backends do at start-up: the broadcast of the session id, then worker 0 creates the session before
  a first barrier and the others after it, and a second barrier for all.
\<close>

datatype session_event = Ev_broadcast | Ev_session | Ev_barrier

fun event_of :: "grpc_call \<Rightarrow> session_event" where
  "event_of (BarrierCall n) = Ev_barrier"
| "event_of (BroadcastCall r) = Ev_broadcast"
| "event_of (RdmaSessionCall r) = Ev_session"
| "event_of (UdpSessionCall r) = Ev_session"

definition session_program :: "nat \<Rightarrow> session_event list" where
  "session_program rank =
     Ev_broadcast # (if rank = 0 then [Ev_session, Ev_barrier] else [Ev_barrier, Ev_session]) @ [Ev_barrier]"

text \<open>
  \<open>pc r\<close> counts the calls worker \<open>r\<close> has completed. A barrier lets a worker pass when all workers have arrived at
  that barrier, or passed it: they have completed every call before it. Other calls complete at any time.
\<close>

definition barriers_before :: "session_event list \<Rightarrow> nat \<Rightarrow> nat" where
  "barriers_before es k = length (filter (\<lambda>e. e = Ev_barrier) (take k es))"

definition arrived :: "session_event list \<Rightarrow> nat \<Rightarrow> nat \<Rightarrow> bool" where
  "arrived es k j \<longleftrightarrow> j < barriers_before es k \<or> barriers_before es k = j \<and> k < length es \<and> es ! k = Ev_barrier"

inductive session_step :: "nat \<Rightarrow> (nat \<Rightarrow> nat) \<Rightarrow> (nat \<Rightarrow> nat) \<Rightarrow> bool" for n where
  step_call: "r < n \<Longrightarrow> pc r < length (session_program r) \<Longrightarrow> session_program r ! pc r \<noteq> Ev_barrier \<Longrightarrow>
     session_step n pc (pc(r := Suc (pc r)))"
| step_barrier: "r < n \<Longrightarrow> pc r < length (session_program r) \<Longrightarrow> session_program r ! pc r = Ev_barrier \<Longrightarrow>
     \<forall>r' < n. arrived (session_program r') (pc r') (barriers_before (session_program r) (pc r)) \<Longrightarrow>
     session_step n pc (pc(r := Suc (pc r)))"

lemma pc_cases: "(k :: nat) \<le> 4 \<Longrightarrow> k = 0 \<or> k = 1 \<or> k = 2 \<or> k = 3 \<or> k = 4"
  by auto

lemma program_length [simp]: "length (session_program r) = 4"
  by (simp add: session_program_def)

lemma program_nth:
  "session_program 0 ! 0 = Ev_broadcast" "session_program 0 ! 1 = Ev_session" "session_program 0 ! 2 = Ev_barrier"
  "session_program 0 ! 3 = Ev_barrier"
  "r \<noteq> 0 \<Longrightarrow> session_program r ! 0 = Ev_broadcast" "r \<noteq> 0 \<Longrightarrow> session_program r ! 1 = Ev_barrier"
  "r \<noteq> 0 \<Longrightarrow> session_program r ! 2 = Ev_session" "r \<noteq> 0 \<Longrightarrow> session_program r ! 3 = Ev_barrier"
  by (simp_all add: session_program_def)

text \<open>The first barrier separates worker 0's session from the others', the second ends the protocol.\<close>

definition session_inv :: "nat \<Rightarrow> (nat \<Rightarrow> nat) \<Rightarrow> bool" where
  "session_inv n pc \<longleftrightarrow> (\<forall>r < n. pc r \<le> 4) \<and>
     (\<forall>r < n. r \<noteq> 0 \<and> 2 \<le> pc r \<longrightarrow> 2 \<le> pc 0) \<and>
     (\<forall>r < n. pc r = 4 \<longrightarrow> (\<forall>r' < n. 3 \<le> pc r'))"

lemma arrived_first:
  assumes "k \<le> 4"
  shows "arrived (session_program r) k 0 \<longleftrightarrow> (if r = 0 then 2 \<le> k else 1 \<le> k)"
    and "arrived (session_program r) k 1 \<longleftrightarrow> 3 \<le> k"
  using pc_cases[OF assms] by (auto simp: arrived_def barriers_before_def session_program_def numeral_eq_Suc)

text \<open>What a step means for the counters.\<close>

lemma session_step_cases:
  assumes "session_step n pc pc'" and "\<forall>r < n. pc r \<le> 4"
  obtains r where "r < n" "pc r < 4" "pc' = pc(r := Suc (pc r))"
    "session_program r ! pc r = Ev_barrier \<Longrightarrow>
      \<forall>r' < n. arrived (session_program r') (pc r') (if pc r = 3 then 1 else 0)"
  using assms
proof cases
  case (step_call r)
  then show ?thesis using that[of r] by simp
next
  case (step_barrier r)
  have b: "barriers_before (session_program r) (pc r) = (if pc r = 3 then 1 else 0)"
    using step_barrier(3,4) pc_cases[of "pc r"] by (auto simp: barriers_before_def session_program_def numeral_eq_Suc)
  show ?thesis using that[of r] step_barrier b by simp
qed

lemma session_inv_step:
  assumes inv: "session_inv n pc" and step: "session_step n pc pc'"
  shows "session_inv n pc'"
proof -
  have le: "\<forall>r < n. pc r \<le> 4" using inv by (simp add: session_inv_def)
  obtain r where r: "r < n" "pc r < 4" "pc' = pc(r := Suc (pc r))"
    and bar: "session_program r ! pc r = Ev_barrier \<Longrightarrow> \<forall>r' < n. arrived (session_program r') (pc r') (if pc r = 3 then 1 else 0)"
    using session_step_cases[OF step le] by blast
  have first: "2 \<le> pc 0" if "r \<noteq> 0" "pc r = 1"
    using bar that r(1) program_nth(6)[OF that(1)] arrived_first(1)[of "pc 0" 0] le by (auto dest!: spec[of _ 0])
  have second: "\<forall>r' < n. 3 \<le> pc r'" if "pc r = 3"
    using bar that program_nth(4) program_nth(8)[of r] arrived_first(2) le by (cases "r = 0") auto
  show ?thesis
    using inv first second r by (auto simp: session_inv_def le_Suc_eq numeral_eq_Suc)
qed

lemma session_progress:
  assumes le: "\<forall>r < n. pc r \<le> 4" and r: "r < n" "pc r < 4"
  shows "\<exists>pc'. session_step n pc pc'"
proof (cases "\<exists>r < n. pc r < 4 \<and> session_program r ! pc r \<noteq> Ev_barrier")
  case True
  then show ?thesis using step_call[where pc = pc] by auto
next
  case False
  then have bar: "session_program r' ! pc r' = Ev_barrier" if "r' < n" "pc r' < 4" for r' using that by blast
  have at: "if r' = 0 then 2 \<le> pc r' else pc r' = 1 \<or> 3 \<le> pc r'" if "r' < n" for r'
    using bar[OF that] pc_cases[of "pc r'"] le that by (auto simp: session_program_def numeral_eq_Suc split: if_splits)
  have first: "arrived (session_program r') (pc r') 0" if "r' < n" for r'
    using arrived_first(1)[of "pc r'" r'] at[OF that] le that by auto
  show ?thesis
  proof (cases "\<exists>r' < n. pc r' < 3")
    case True
    then obtain r' where r': "r' < n" "pc r' < 3" by blast
    have "pc r' = (if r' = 0 then 2 else 1)" using at[OF r'(1)] r'(2) by (simp split: if_splits)
    then have "barriers_before (session_program r') (pc r') = 0"
      by (simp add: barriers_before_def session_program_def numeral_eq_Suc)
    then show ?thesis using step_barrier[of r' n pc] bar[OF r'(1)] first r' by auto
  next
    case False
    then have "3 \<le> pc r" using r(1) leI by blast
    then have "pc r = 3" using r(2) by simp
    then have "barriers_before (session_program r) (pc r) = 1"
      by (simp add: barriers_before_def session_program_def numeral_eq_Suc)
    moreover have "\<forall>r' < n. 3 \<le> pc r'" using False leI by blast
    then have "\<forall>r' < n. arrived (session_program r') (pc r') 1" using arrived_first(2) le by simp
    ultimately show ?thesis using step_barrier[of r n pc] bar[OF r] r by auto
  qed
qed

lemma session_step_sum:
  assumes "session_step n pc pc'"
  shows "sum pc' {..<n} = Suc (sum pc {..<n})"
proof -
  obtain r where r: "r < n" "pc' = pc(r := Suc (pc r))" using assms by cases blast+
  have "sum pc' ({..<n} - {r}) = sum pc ({..<n} - {r})" unfolding r(2) by (intro sum.cong) simp_all
  then show ?thesis
    using r sum.remove[of "{..<n}" r pc] sum.remove[of "{..<n}" r pc'] by simp
qed



end
