(* ===== verification/Rdma_Utils.thy ===== *)
theory Rdma_Utils
  imports Switchml_Prelude "HOL-Library.Word"
begin

unbundle bit_operations_syntax

text \<open>
  The helpers of the RDMA backend (client_lib/src/backends/rdma/rdma_utils.h): the conversions between
  addresses and GIDs, and the choice of the core a worker thread is bound to. The output of the system's
  commands and the results of the system calls are parameters.
\<close>

section \<open>Addresses and GIDs\<close>

text \<open>A GID is an array of 16 bytes.\<close>

type_synonym gid = "8 word list"

definition GIDToIPv4 :: "gid \<Rightarrow> 32 word" where
  "GIDToIPv4 gid =
     (let ip = 0 OR ucast (gid ! 12);
          ip = push_bit 8 ip OR ucast (gid ! 13);
          ip = push_bit 8 ip OR ucast (gid ! 14)
      in push_bit 8 ip OR ucast (gid ! 15))"

definition GIDToMAC :: "gid \<Rightarrow> 64 word" where
  "GIDToMAC gid =
     (let mac = 0 OR ucast (gid ! 8 XOR 2);
          mac = push_bit 8 mac OR ucast (gid ! 9);
          mac = push_bit 8 mac OR ucast (gid ! 10);
          mac = push_bit 8 mac OR ucast (gid ! 13);
          mac = push_bit 8 mac OR ucast (gid ! 14)
      in push_bit 8 mac OR ucast (gid ! 15))"

text \<open>The address is signed, so that the shift copies the sign; the mask removes the copies.\<close>

definition IPv4ToGID :: "32 word \<Rightarrow> gid" where
  "IPv4ToGID ip =
     replicate 10 0 @ [0xff, 0xff, ucast (signed_drop_bit 24 ip AND 0xff), ucast (signed_drop_bit 16 ip AND 0xff),
                       ucast (signed_drop_bit 8 ip AND 0xff), ucast (signed_drop_bit 0 ip AND 0xff)]"

text \<open>The subnet prefix 0x80fe, stored in the byte order of the host, gives the bytes fe 80.\<close>

definition MACToGID :: "64 word \<Rightarrow> gid" where
  "MACToGID mac =
     [0xfe, 0x80, 0, 0, 0, 0, 0, 0, ucast ((drop_bit 40 mac AND 0xff) XOR 2), ucast (drop_bit 32 mac AND 0xff),
      ucast (drop_bit 24 mac AND 0xff), 0xff, 0xfe, ucast (drop_bit 16 mac AND 0xff), ucast (drop_bit 8 mac AND 0xff),
      ucast (drop_bit 0 mac AND 0xff)]"

section \<open>Lines of text\<close>

text \<open>Repeated std::getline: no line after a final delimiter.\<close>

function getlines :: "char \<Rightarrow> string \<Rightarrow> string list" where
  "getlines d s =
     (if s = [] then []
      else takeWhile (\<lambda>c. c \<noteq> d) s # getlines d (drop 1 (dropWhile (\<lambda>c. c \<noteq> d) s)))"
  by pat_completeness auto
termination
proof (relation "measure (\<lambda>(d, s). length s)")
  fix d :: char and s :: string
  assume "s \<noteq> []"
  then have "length (dropWhile (\<lambda>c. c \<noteq> d) s) - 1 < length s"
    using length_dropWhile_le[of "\<lambda>c. c \<noteq> d" s] by (cases s) (simp_all add: le_imp_less_Suc diff_le_self le_less_trans)
  then show "((d, drop 1 (dropWhile (\<lambda>c. c \<noteq> d) s)), d, s) \<in> measure (\<lambda>(d, s). length s)" by simp
qed simp

declare getlines.simps [simp del]

text \<open>std::stoi: white space, a sign, digits; no digits or a value outside of int throw.\<close>

definition is_space :: "char \<Rightarrow> bool" where
  "is_space c \<longleftrightarrow> c = CHR '' '' \<or> (9 \<le> (of_char c :: nat) \<and> (of_char c :: nat) \<le> 13)"

definition is_digit :: "char \<Rightarrow> bool" where
  "is_digit c \<longleftrightarrow> 48 \<le> (of_char c :: nat) \<and> (of_char c :: nat) \<le> 57"

definition digits_value :: "string \<Rightarrow> int" where
  "digits_value s = foldl (\<lambda>v c. 10 * v + (of_char c - 48)) 0 s"

definition stoi :: "string \<Rightarrow> int outcome" where
  "stoi s =
     (let s1 = dropWhile is_space s;
          neg = (s1 \<noteq> [] \<and> hd s1 = CHR ''-'');
          s2 = (if s1 \<noteq> [] \<and> hd s1 \<in> {CHR ''-'', CHR ''+''} then tl s1 else s1);
          ds = takeWhile is_digit s2;
          v = (if neg then - digits_value ds else digits_value ds)
      in if ds = [] then Inl (Crash ''std::invalid_argument'')
         else if v < - (2 ^ 31) \<or> 2 ^ 31 \<le> v then Inl (Crash ''std::out_of_range'')
         else Inr v)"

fun collect :: "('a \<Rightarrow> 'b outcome) \<Rightarrow> 'a list \<Rightarrow> 'b list outcome" where
  "collect f [] = Inr []"
| "collect f (x # xs) = bindE (f x) (\<lambda>y. bindE (collect f xs) (\<lambda>ys. Inr (y # ys)))"

section \<open>Cores and NUMA nodes\<close>

text \<open>One line of the output of lscpu: the node and the core.\<close>

definition parse_line :: "string \<Rightarrow> (int \<times> int) outcome" where
  "parse_line line =
     bindE (collect stoi (getlines (CHR '','') line)) (\<lambda>line_elements.
       case line_elements of
         numa_node # cpu # _ \<Rightarrow> Inr (numa_node, cpu)
       | _ \<Rightarrow> Inl (Crash ''line_elements''))"

definition push_back :: "int \<times> int \<Rightarrow> (int \<rightharpoonup> int list) \<Rightarrow> (int \<rightharpoonup> int list)" where
  "push_back line result = result(fst line \<mapsto> (case result (fst line) of None \<Rightarrow> [] | Some cpus \<Rightarrow> cpus) @ [snd line])"

text \<open>The first character of an empty line is the null character.\<close>

definition GetCoresNuma :: "string \<Rightarrow> (int \<rightharpoonup> int list) outcome" where
  "GetCoresNuma cmd_output =
     bindE (collect parse_line (filter (\<lambda>line. line = [] \<or> hd line \<noteq> CHR ''#'') (getlines (char_of (10 :: nat)) cmd_output))) (\<lambda>lines.
       Inr (\<lambda>node. map_option (\<lambda>core_list. remdups_adj (sort core_list)) (fold push_back lines Map.empty node)))"

definition GetDeviceNuma :: "string \<Rightarrow> int outcome" where
  "GetDeviceNuma cmd_output = stoi cmd_output"

text \<open>
  Bind the calling thread: the outputs of the two commands, the number of processors that are online, and the result
  of setting the affinity for a core. Looking up a node that has no cores creates an empty list.
\<close>

definition BindToCore :: "string \<Rightarrow> string \<Rightarrow> int \<Rightarrow> (int \<Rightarrow> int) \<Rightarrow> nat \<Rightarrow> int outcome" where
  "BindToCore lscpu numa_file nprocessors setaffinity worker_id =
     bindE (GetCoresNuma lscpu) (\<lambda>cores_numa.
     bindE (GetDeviceNuma numa_file) (\<lambda>device_numa.
       let cores = (case cores_numa device_numa of None \<Rightarrow> [] | Some cs \<Rightarrow> cs)
       in if worker_id > length cores then Inl (Fatal ''The request to bind to a cpu cannot be fulfiled'')
          else if \<not> worker_id < length cores then Inl (Crash ''cores_numa[device_numa][worker_id]'')
          else let chosen_core = cores ! worker_id
               in if \<not> chosen_core < nprocessors then Inl (Fatal ''Requested more worker threads than available cores'')
                  else if setaffinity chosen_core < 0 then Inl (Fatal ''Core binding failed'')
                  else Inr chosen_core))"

section \<open>Properties\<close>

lemma and_byte: "w AND 0xff = take_bit 8 (w :: 'a :: len word)"
proof -
  have "(0xff :: 'a word) = mask 8" by (simp add: mask_eq_exp_minus_1)
  then show ?thesis by (simp add: take_bit_eq_mask)
qed

lemma bit_and_byte: "bit (w AND 0xff) i \<longleftrightarrow> i < 8 \<and> bit (w :: 'a :: len word) i"
  unfolding and_byte by (auto simp: bit_take_bit_iff)

lemma bit_signed_drop:
  "k + i < 32 \<Longrightarrow> bit (signed_drop_bit k (w :: 32 word)) i \<longleftrightarrow> bit w (k + i)"
  by (auto simp: bit_signed_drop_bit_iff ac_simps not_le intro: arg_cong[where f = "bit w"])

lemmas gid_bits = Let_def nth_append bit_or_iff bit_push_bit_iff bit_unsigned_iff bit_and_byte bit_signed_drop bit_drop_bit_eq
  bit_xor_iff

text \<open>An IPv4 address survives the way into a GID and back.\<close>
theorem ipv4_gid_roundtrip: "GIDToIPv4 (IPv4ToGID ip) = ip"
proof (rule bit_word_eqI)
  fix n assume "n < LENGTH(32)"
  then have "n < 8 \<or> (8 \<le> n \<and> n < 16) \<or> (16 \<le> n \<and> n < 24) \<or> (24 \<le> n \<and> n < 32)" by auto
  then show "bit (GIDToIPv4 (IPv4ToGID ip)) n = bit ip n"
    by (elim disjE conjE) (simp_all add: GIDToIPv4_def IPv4ToGID_def gid_bits, auto)
qed

text \<open>A MAC address survives the way into a GID and back; of the 64-bit integer only the low six bytes are kept.\<close>
theorem mac_gid_roundtrip: "GIDToMAC (MACToGID mac) = take_bit 48 mac"
proof (rule bit_word_eqI)
  fix n assume n: "n < LENGTH(64)"
  consider "n < 8" | "8 \<le> n" "n < 16" | "16 \<le> n" "n < 24" | "24 \<le> n" "n < 32" | "32 \<le> n" "n < 40" | "40 \<le> n" "n < 48" | "48 \<le> n"
    by linarith
  then show "bit (GIDToMAC (MACToGID mac)) n = bit (take_bit 48 mac) n"
    by cases (use n in \<open>simp_all add: GIDToMAC_def MACToGID_def gid_bits bit_take_bit_iff, auto\<close>)
qed

lemma remdups_adj_sorted:
  assumes "sorted xs"
  shows "remdups_adj xs = sorted_list_of_set (set xs)"
proof -
  have "distinct (remdups_adj xs)" using assms
    by (induction xs rule: remdups_adj.induct) (auto simp: order.order_iff_strict)
  then show ?thesis
    using assms sorted_distinct_set_unique[of "remdups_adj xs" "sorted_list_of_set (set xs)"] by simp
qed

lemma push_back_cores:
  "fold push_back lines m node =
     (if node \<in> fst ` set lines \<or> m node \<noteq> None
      then Some ((case m node of None \<Rightarrow> [] | Some cs \<Rightarrow> cs) @ map snd (filter (\<lambda>l. fst l = node) lines)) else None)"
  by (induction lines arbitrary: m) (auto simp: push_back_def split: option.splits)

text \<open>The sorted cores of a node, each once.\<close>

definition cores_of :: "(int \<times> int) list \<Rightarrow> int \<Rightarrow> int list" where
  "cores_of lines node = sorted_list_of_set {core. (node, core) \<in> set lines}"

lemma GetCoresNuma_lines:
  assumes "collect parse_line (filter (\<lambda>line. line = [] \<or> hd line \<noteq> CHR ''#'') (getlines (char_of (10 :: nat)) out)) = Inr lines"
  shows "\<exists>m. GetCoresNuma out = Inr m \<and>
     (\<forall>node. m node = (if node \<in> fst ` set lines then Some (cores_of lines node) else None))"
proof -
  have "remdups_adj (sort (map snd (filter (\<lambda>l. fst l = node) lines))) = cores_of lines node" for node
  proof -
    have "set (map snd (filter (\<lambda>l. fst l = node) lines)) = {core. (node, core) \<in> set lines}" by (auto simp: image_iff)
    then show ?thesis using remdups_adj_sorted[OF sorted_sort, of "map snd (filter (\<lambda>l. fst l = node) lines)"]
      unfolding cores_of_def set_sort by simp
  qed
  then show ?thesis using assms by (simp add: GetCoresNuma_def push_back_cores)
qed

definition lscpu_lines :: "string \<Rightarrow> (int \<times> int) list outcome" where
  "lscpu_lines out = collect parse_line (filter (\<lambda>line. line = [] \<or> hd line \<noteq> CHR ''#'') (getlines (char_of (10 :: nat)) out))"

lemma BindToCore_cores:
  assumes "lscpu_lines out = Inr lines" and "stoi numa = Inr node"
  shows "BindToCore out numa nprocs setaff w =
     (let cores = cores_of lines node
      in if w > length cores then Inl (Fatal ''The request to bind to a cpu cannot be fulfiled'')
         else if w = length cores then Inl (Crash ''cores_numa[device_numa][worker_id]'')
         else if \<not> cores ! w < nprocs then Inl (Fatal ''Requested more worker threads than available cores'')
         else if setaff (cores ! w) < 0 then Inl (Fatal ''Core binding failed'')
         else Inr (cores ! w))"
proof -
  obtain m where m: "GetCoresNuma out = Inr m" "\<forall>node. m node = (if node \<in> fst ` set lines then Some (cores_of lines node) else None)"
    using GetCoresNuma_lines[of out lines] assms(1) unfolding lscpu_lines_def by blast
  have "(case m node of None \<Rightarrow> [] | Some cs \<Rightarrow> cs) = cores_of lines node"
  proof (cases "node \<in> fst ` set lines")
    case False
    then have "{core. (node, core) \<in> set lines} = {}" by force
    then show ?thesis using m(2) False by (simp add: cores_of_def)
  qed (simp add: m(2))
  then show ?thesis using m(1) assms(2) by (simp add: BindToCore_def GetDeviceNuma_def Let_def)
qed

lemma cores_of_props:
  shows "distinct (cores_of lines node)" and "set (cores_of lines node) = {core. (node, core) \<in> set lines}"
proof -
  have "{core. (node, core) \<in> set lines} \<subseteq> snd ` set lines" by force
  then have "finite {core. (node, core) \<in> set lines}" by (rule finite_subset) simp
  then show "distinct (cores_of lines node)" "set (cores_of lines node) = {core. (node, core) \<in> set lines}"
    by (simp_all add: cores_of_def)
qed

text \<open>When the output of lscpu can be read, a worker thread is only ever bound to a core of the device's NUMA node,
  and two worker threads are never bound to the same core; and with enough cores that are online every thread is bound.\<close>
theorem bind_to_core_correct:
  assumes "lscpu_lines out = Inr lines" and "stoi numa = Inr node"
  shows "(\<forall>w c. BindToCore out numa nprocs setaff w = Inr c \<longrightarrow> (node, c) \<in> set lines \<and> c < nprocs) \<and>
     (\<forall>w w' c. BindToCore out numa nprocs setaff w = Inr c \<and> BindToCore out numa nprocs setaff w' = Inr c \<longrightarrow> w = w') \<and>
     ((\<forall>c. (node, c) \<in> set lines \<longrightarrow> c < nprocs \<and> 0 \<le> setaff c) \<longrightarrow>
      (\<forall>w < card {c. (node, c) \<in> set lines}. \<exists>c. BindToCore out numa nprocs setaff w = Inr c))"
proof -
  note b = BindToCore_cores[OF assms, of nprocs setaff, unfolded Let_def]
  note cs = cores_of_props[of lines node]
  have r: "w < length (cores_of lines node) \<and> c = cores_of lines node ! w \<and> c < nprocs"
    if "BindToCore out numa nprocs setaff w = Inr c" for w c
    using that unfolding b by (auto split: if_splits)
  have "(node, c) \<in> set lines \<and> c < nprocs" if "BindToCore out numa nprocs setaff w = Inr c" for w c
    using r[OF that] nth_mem[of w "cores_of lines node"] cs(2) by auto
  moreover have "w = w'" if "BindToCore out numa nprocs setaff w = Inr c" "BindToCore out numa nprocs setaff w' = Inr c" for w w' c
    using r[OF that(1)] r[OF that(2)] nth_eq_iff_index_eq[OF cs(1)] by auto
  moreover have "\<exists>c. BindToCore out numa nprocs setaff w = Inr c"
    if "\<forall>c. (node, c) \<in> set lines \<longrightarrow> c < nprocs \<and> 0 \<le> setaff c" "w < card {c. (node, c) \<in> set lines}" for w
  proof -
    have w: "w < length (cores_of lines node)" using that(2) cs distinct_card[OF cs(1)] by simp
    then have "(node, cores_of lines node ! w) \<in> set lines" using nth_mem[OF w] cs(2) by auto
    then show ?thesis unfolding b using w that(1) by auto
  qed
  ultimately show ?thesis by blast
qed

text \<open>C25: The guard is off by one: the first worker thread for which there is no core left is not stopped by it,
  but reads past the end of the list of cores; only later ones are stopped.\<close>
theorem bind_to_core_off_by_one:
  assumes "lscpu_lines out = Inr lines" and "stoi numa = Inr node" and "card {c. (node, c) \<in> set lines} = n"
  shows "BindToCore out numa nprocs setaff n = Inl (Crash ''cores_numa[device_numa][worker_id]'') \<and>
     (\<forall>w > n. BindToCore out numa nprocs setaff w = Inl (Fatal ''The request to bind to a cpu cannot be fulfiled''))"
proof -
  have "length (cores_of lines node) = n" using distinct_card[OF cores_of_props(1)[of lines node]] assms(3) cores_of_props(2) by simp
  then show ?thesis unfolding BindToCore_cores[OF assms(1,2), of nprocs setaff, unfolded Let_def] by simp
qed

text \<open>A machine with three cores, one of them on node 1.\<close>

definition sample_lscpu :: string where
  "sample_lscpu = ''# comment'' @ [char_of (10 :: nat)] @ ''0,2'' @ [char_of (10 :: nat)] @ ''0,0'' @ [char_of (10 :: nat)] @
     ''1,1'' @ [char_of (10 :: nat)] @ ''0,2'' @ [char_of (10 :: nat)]"

definition sample_lines :: "(int \<times> int) list" where
  "sample_lines = [(0, 2), (0, 0), (1, 1), (0, 2)]"

lemma sample_lscpu_lines: "lscpu_lines sample_lscpu = Inr sample_lines"
  by code_simp

lemma sample_numa: "stoi ''0'' = Inr 0"
  by code_simp

lemma sample_cores: "(0, c) \<in> set sample_lines \<longleftrightarrow> c = 0 \<or> c = 2" "card {c. (0, c) \<in> set sample_lines} = 2"
proof -
  show m: "(0, c) \<in> set sample_lines \<longleftrightarrow> c = 0 \<or> c = 2" for c by (auto simp: sample_lines_def)
  have "{c. (0, c) \<in> set sample_lines} = {0, 2}" unfolding m by auto
  then show "card {c. (0, c) \<in> set sample_lines} = 2" by simp
qed

lemma bind_to_core_correct_witness:
  "\<exists>c. BindToCore sample_lscpu ''0'' 4 (\<lambda>_. 0) 1 = Inr c \<and> (c = 0 \<or> c = 2)"
proof -
  note t = bind_to_core_correct[OF sample_lscpu_lines sample_numa, of 4 "\<lambda>_. 0", unfolded sample_cores]
  have "\<exists>c. BindToCore sample_lscpu ''0'' 4 (\<lambda>_. 0) 1 = Inr c"
    by (rule t[THEN conjunct2, THEN conjunct2, rule_format])
      (use sample_cores(2)[unfolded sample_cores(1)] in auto)
  then show ?thesis using t[THEN conjunct1] by blast
qed

lemma bind_to_core_off_by_one_witness:
  "BindToCore sample_lscpu ''0'' 4 (\<lambda>_. 0) 2 = Inl (Crash ''cores_numa[device_numa][worker_id]'')"
  by (rule bind_to_core_off_by_one[OF sample_lscpu_lines sample_numa sample_cores(2), THEN conjunct1])

end
