(* ===== verification/Rdma_Worker.thy ===== *)
theory Rdma_Worker
  imports Packet_Protocol Client_Config Client_Stats Timeout_Queue
begin

unbundle bit_operations_syntax

text \<open>
  The worker thread of the RDMA backend (client_lib/src/backends/rdma/rdma_worker_thread.h, .cc), for a build
  with timeouts. Messages take the place of packets: a message of \<open>msg_numel\<close> elements is sent on the queue
  pair, and from the slot of the registered buffer, that its number determines. The verbs library, the network
  card and the switch are an environment: the results of posting work requests, the clock, and for every
  poll of the completion queue the completions and what has been written into memory meanwhile.
\<close>

section \<open>Work requests and completions\<close>

datatype wc_opcode = IBV_WC_RECV_RDMA_WITH_IMM | IBV_WC_RDMA_WRITE | IBV_WC_OTHER

record completion =
  wc_success :: bool
  wc_opcode :: wc_opcode
  wc_with_imm :: bool
  wc_wr_id :: nat
  wc_imm_data :: "32 word"

record send_wr =
  wr_id :: nat
  wr_signaled :: bool
  wr_rkey :: "32 word"
  wr_remote_addr :: ptr
  wr_imm_data :: "32 word"

text \<open>What is handed to the verbs library, in order; a send is recorded with the address of its data.\<close>

datatype posted = Posted_recv nat | Posted_send nat send_wr ptr

record rdma_env =
  re_config :: Config
  re_tid :: nat
  re_buffer :: ptr
  re_imm_byte :: ptr
  re_clock :: "nat \<Rightarrow> int"
  re_post :: "nat \<Rightarrow> int \<times> bool"

record rdma_worker =
  rw_ppp :: PrePostProcessor
  rw_heap :: heap
  rw_msg_ids :: "nat list"
  rw_send_wrs :: "send_wr list"
  rw_sge_addrs :: "ptr list"
  rw_write_count :: "32 word list"
  rw_timers :: timeout_queue
  rw_now :: nat
  rw_posted :: "posted list"
  rw_received :: nat
  rw_wrong :: nat
  rw_correct :: nat
  rw_sent :: nat
  rw_timeouts :: nat

text \<open>The third byte of the immediate data, where the extra information is; \<open>re_imm_byte\<close> is its address.\<close>

definition imm_byte2 :: "32 word \<Rightarrow> 8 word" where
  "imm_byte2 v = ucast (drop_bit 16 v)"

definition set_imm_byte2 :: "8 word \<Rightarrow> 32 word \<Rightarrow> 32 word" where
  "set_imm_byte2 b v = (v AND 0xFF00FFFF) OR push_bit 16 (ucast b)"

definition short_id :: "nat \<Rightarrow> nat" where
  "short_id msg_id = msg_id mod 2 ^ 16"

definition received_short_id :: "completion \<Rightarrow> nat" where
  "received_short_id c = unat (wc_imm_data c AND 0xFFFF)"

definition completion_qpn :: "completion \<Rightarrow> nat" where
  "completion_qpn c = wc_wr_id c mod 2 ^ 16"

text \<open>The size of a message in bytes: a 32-bit product.\<close>

definition msg_size :: "Config \<Rightarrow> nat" where
  "msg_size c = u32 (rdma_msg_numel (bc_rdma (backend_cfg c)) * 4)"

section \<open>Posting\<close>

text \<open>ibv_post_recv and ibv_post_send report an error by their result or by the bad work request.\<close>

definition post :: "rdma_env \<Rightarrow> posted \<Rightarrow> rdma_worker \<Rightarrow> rdma_worker outcome" where
  "post env p w =
     (let (ret, bad_wr) = re_post env (length (rw_posted w))
      in if ret < 0 then Inl (Fatal ''Error posting WR'')
         else if bad_wr then Inl (Fatal ''Error posting WR at bad WR'')
         else Inr (w\<lparr>rw_posted := rw_posted w @ [p]\<rparr>))"

definition PostRecvWr :: "rdma_env \<Rightarrow> nat \<Rightarrow> rdma_worker \<Rightarrow> rdma_worker outcome" where
  "PostRecvWr env qpn w =
     (if qpn < length (rw_send_wrs w) then post env (Posted_recv qpn) w else Inl (Crash ''queue_pairs_[qpn]''))"

text \<open>Fill in the next message of the queue pair; the extra information goes through the immediate data.\<close>

definition prepare_send :: "rdma_env \<Rightarrow> nat \<Rightarrow> ptr \<Rightarrow> send_wr \<Rightarrow> rdma_worker \<Rightarrow> (send_wr \<times> heap) outcome" where
  "prepare_send env qpn message_start wr w =
     (let wr1 = wr\<lparr>wr_rkey := wr_rkey wr XOR 1, wr_remote_addr := message_start,
                   wr_imm_data := of_nat (short_id (rw_msg_ids w ! qpn))\<rparr>;
          h = (rw_heap w)\<lparr>bytes := (bytes (rw_heap w))(re_imm_byte env := imm_byte2 (wr_imm_data wr1))\<rparr>
      in bindE (PreprocessSingle (rw_msg_ids w ! qpn) message_start (re_imm_byte env) (rw_ppp w) h) (\<lambda>h'.
           Inr (wr1\<lparr>wr_imm_data := set_imm_byte2 (bytes h' (re_imm_byte env)) (wr_imm_data wr1)\<rparr>, h')))"

definition PostSendWr :: "rdma_env \<Rightarrow> nat \<Rightarrow> bool \<Rightarrow> rdma_worker \<Rightarrow> rdma_worker outcome" where
  "PostSendWr env qpn is_retransmission w =
     (if \<not> qpn < length (rw_send_wrs w) then Inl (Crash ''send_wrs_[qpn]'')
      else
        let message_start = re_buffer env + u64_mul qpn (msg_size (re_config env));
            wr = (rw_send_wrs w ! qpn)\<lparr>wr_signaled := (unat (rw_write_count w ! qpn) mod 1024 = 0)\<rparr>
        in bindE (if \<not> is_retransmission then prepare_send env qpn message_start wr w else Inr (wr, rw_heap w))
           (\<lambda>(wr', h).
           bindE (post env (Posted_send qpn wr' message_start)
                    (w\<lparr>rw_sge_addrs := (rw_sge_addrs w)[qpn := message_start],
                       rw_send_wrs := (rw_send_wrs w)[qpn := wr'], rw_heap := h\<rparr>)) (\<lambda>w1.
           bindE (tq_push (rw_timers w1) (int qpn) (re_clock env (rw_now w1))) (\<lambda>q.
             Inr (w1\<lparr>rw_timers := q, rw_now := Suc (rw_now w1),
                     rw_write_count := (rw_write_count w1)[qpn := rw_write_count w1 ! qpn + 1]\<rparr>)))))"

section \<open>Starting the thread\<close>

definition rdma_pkts_per_msg :: "Config \<Rightarrow> nat outcome" where
  "rdma_pkts_per_msg c =
     (if gc_packet_numel (general c) = 0 then Inl (Crash ''division by zero'')
      else Inr (rdma_msg_numel (bc_rdma (backend_cfg c)) div gc_packet_numel (general c)))"

definition rdma_outstanding_msgs :: "Config \<Rightarrow> nat outcome" where
  "rdma_outstanding_msgs c =
     bindE (rdma_pkts_per_msg c) (\<lambda>n.
       if n = 0 \<or> gc_num_worker_threads (general c) = 0 then Inl (Crash ''division by zero'')
       else Inr (gc_max_outstanding_packets (general c) div n div gc_num_worker_threads (general c)))"

text \<open>The 16-bit index of the slot of the switch that a queue pair uses; the lowest bit selects the pool.\<close>

definition pool_index :: "nat \<Rightarrow> nat \<Rightarrow> nat \<Rightarrow> nat \<Rightarrow> nat" where
  "pool_index num_qps tid qpn npkts = u16 (u64 ((num_qps * tid + qpn) * npkts * 2) + 1)"

definition init_send_wr :: "nat \<Rightarrow> nat \<Rightarrow> nat \<Rightarrow> nat \<Rightarrow> send_wr" where
  "init_send_wr num_qps tid npkts qpn =
     \<lparr>wr_id = u32 (tid * 2 ^ 16 + qpn), wr_signaled = False,
      wr_rkey = of_nat (pool_index num_qps tid qpn npkts), wr_remote_addr = 0, wr_imm_data = 0\<rparr>"

text \<open>The conversion of a floating point number to an integer truncates.\<close>

definition trunc_rat :: "rat \<Rightarrow> int" where
  "trunc_rat x = (if x < 0 then - \<lfloor>- x\<rfloor> else \<lfloor>x\<rfloor>)"

text \<open>The constructor and the lines before the main loop; \<open>num_qps\<close> queue pairs and remote keys.\<close>

definition rdma_start :: "rdma_env \<Rightarrow> nat \<Rightarrow> nat \<Rightarrow> heap \<Rightarrow> (nat \<times> rdma_worker) outcome" where
  "rdma_start env num_qps num_rkeys h =
     (let c = re_config env; g = general c
      in bindE (rdma_pkts_per_msg c) (\<lambda>n.
         bindE (rdma_outstanding_msgs c) (\<lambda>mom.
           if num_qps \<noteq> mom then Inl (Fatal ''queue_pairs_.size() == max_outstanding_msgs'')
           else if num_qps \<noteq> num_rkeys then Inl (Fatal ''queue_pairs_.size() == rkeys.size()'')
           else bindE (CreatePPP (gc_prepostprocessor g) (gc_num_workers g) (re_tid env) (msg_size c) mom) (\<lambda>p.
             Inr (n, \<lparr>rw_ppp = p, rw_heap = h, rw_msg_ids = replicate num_qps 0,
                rw_send_wrs = map (init_send_wr num_qps (re_tid env) n) [0..<num_qps],
                rw_sge_addrs = replicate num_qps 0, rw_write_count = replicate num_qps 0,
                rw_timers = TimeoutQueue num_qps (trunc_rat (gc_timeout g)) (of_nat (gc_timeout_threshold g))
                              (of_nat (gc_timeout_threshold_increment g)),
                rw_now = 0, rw_posted = [], rw_received = 0, rw_wrong = 0, rw_correct = 0, rw_sent = 0,
                rw_timeouts = 0\<rparr>)))))"

section \<open>One job slice\<close>

fun init_msg_ids :: "nat \<Rightarrow> nat list \<Rightarrow> nat list" where
  "init_msg_ids 0 ids = ids"
| "init_msg_ids (Suc qpn) ids = (init_msg_ids qpn ids)[qpn := qpn]"

fun send_first_batch :: "rdma_env \<Rightarrow> nat \<Rightarrow> rdma_worker \<Rightarrow> rdma_worker outcome" where
  "send_first_batch env 0 w = Inr w"
| "send_first_batch env (Suc qpn) w =
     bindE (send_first_batch env qpn w) (\<lambda>w1.
     bindE (PostRecvWr env qpn w1) (\<lambda>w2. PostSendWr env qpn False w2))"

text \<open>Setup of the slice: the results are the batch size, the number of messages and the new state.\<close>

definition rdma_begin ::
  "rdma_env \<Rightarrow> (nat \<Rightarrow> fp) \<Rightarrow> nat \<Rightarrow> nat \<Rightarrow> JobSlice \<Rightarrow> rdma_worker \<Rightarrow> (nat \<times> nat \<times> rdma_worker) outcome"
where
  "rdma_begin env garbage npkts max_outstanding js w =
     bindE (SetupJobSlice garbage (slice js) (rw_ppp w)) (\<lambda>(main_msgs, p).
       let batch = min max_outstanding main_msgs
       in bindE (NeedsExtraBatch p) (\<lambda>more.
          let num_msgs = (if more then u64_add main_msgs batch else main_msgs)
          in bindE (send_first_batch env batch
                      (w\<lparr>rw_ppp := p, rw_msg_ids := init_msg_ids batch (rw_msg_ids w), rw_received := 0,
                         rw_wrong := 0, rw_correct := 0, rw_sent := 0, rw_timeouts := 0\<rparr>)) (\<lambda>w1.
               Inr (batch, num_msgs, w1\<lparr>rw_sent := u64_mul npkts batch\<rparr>))))"

text \<open>A completion of a receive; the boolean tells whether it was the expected message.\<close>

definition handle_receive ::
  "rdma_env \<Rightarrow> nat \<Rightarrow> nat \<Rightarrow> nat \<Rightarrow> completion \<Rightarrow> rdma_worker \<Rightarrow> (bool \<times> rdma_worker) outcome"
where
  "handle_receive env batch num_msgs npkts c w =
     (let qpn = completion_qpn c
      in if \<not> qpn < length (rw_msg_ids w) then Inl (Crash ''msg_ids_[qpn]'')
         else if received_short_id c \<noteq> short_id (rw_msg_ids w ! qpn)
         then bindE (PostRecvWr env qpn w) (\<lambda>w1. Inr (False, w1\<lparr>rw_wrong := u64_add (rw_wrong w1) npkts\<rparr>))
         else
           let message_start = re_buffer env + u32 (qpn * msg_size (re_config env));
               h = (rw_heap w)\<lparr>bytes := (bytes (rw_heap w))(re_imm_byte env := imm_byte2 (wc_imm_data c))\<rparr>
           in bindE (PostprocessSingle (rw_msg_ids w ! qpn) message_start (re_imm_byte env) (rw_ppp w) h) (\<lambda>(p, h').
              bindE (tq_remove (rw_timers w) (int qpn)) (\<lambda>q.
                let w1 = w\<lparr>rw_ppp := p, rw_heap := h', rw_timers := q,
                           rw_msg_ids := (rw_msg_ids w)[qpn := u64_add (rw_msg_ids w ! qpn) batch]\<rparr>
                in if rw_msg_ids w1 ! qpn < num_msgs
                   then bindE (PostRecvWr env qpn w1) (\<lambda>w2.
                        bindE (PostSendWr env qpn False w2) (\<lambda>w3.
                          Inr (True, w3\<lparr>rw_sent := u64_add (rw_sent w3) npkts\<rparr>)))
                   else Inr (True, w1))))"

definition handle_completion ::
  "rdma_env \<Rightarrow> nat \<Rightarrow> nat \<Rightarrow> nat \<Rightarrow> completion \<Rightarrow> rdma_worker \<Rightarrow> (bool \<times> rdma_worker) outcome"
where
  "handle_completion env batch num_msgs npkts c w =
     (if \<not> wc_success c then Inl (Fatal ''received completion error'')
      else (case wc_opcode c of
          IBV_WC_RECV_RDMA_WITH_IMM \<Rightarrow>
            if \<not> wc_with_imm c then Inl (Fatal ''Received message without immediate value'')
            else handle_receive env batch num_msgs npkts c w
        | IBV_WC_RDMA_WRITE \<Rightarrow> Inr (False, w)
        | IBV_WC_OTHER \<Rightarrow> Inl (Fatal ''received unknown successful completion'')))"

fun handle_completions ::
  "rdma_env \<Rightarrow> nat \<Rightarrow> nat \<Rightarrow> nat \<Rightarrow> completion list \<Rightarrow> nat \<Rightarrow> rdma_worker \<Rightarrow> (nat \<times> rdma_worker) outcome"
where
  "handle_completions env batch num_msgs npkts [] n w = Inr (n, w)"
| "handle_completions env batch num_msgs npkts (c # cs) n w =
     bindE (handle_completion env batch num_msgs npkts c w) (\<lambda>(ok, w1).
       handle_completions env batch num_msgs npkts cs (if ok then Suc n else n) w1)"

text \<open>Resend the message that has been waiting longest, if it has timed out.\<close>

definition check_timeouts :: "rdma_env \<Rightarrow> nat \<Rightarrow> rdma_worker \<Rightarrow> rdma_worker outcome" where
  "check_timeouts env npkts w =
     bindE (tq_check (rw_timers w) (re_clock env (rw_now w))) (\<lambda>(qpn, q).
       let w1 = w\<lparr>rw_timers := q, rw_now := Suc (rw_now w)\<rparr>
       in if qpn \<ge> 0
          then bindE (PostSendWr env (u16 (nat qpn)) True
                        (w1\<lparr>rw_timeouts := u64_add (rw_timeouts w1) npkts\<rparr>)) (\<lambda>w2.
                 Inr (w2\<lparr>rw_sent := u64_add (rw_sent w2) npkts\<rparr>))
          else Inr w1)"

text \<open>
  The body of the loop, for one answer of the environment: a failed poll or the completions, and the memory
  at that moment.
\<close>

definition rdma_iteration ::
  "rdma_env \<Rightarrow> nat \<Rightarrow> nat \<Rightarrow> nat \<Rightarrow> (int + completion list) \<times> memory \<Rightarrow> rdma_worker \<Rightarrow> rdma_worker outcome"
where
  "rdma_iteration env batch num_msgs npkts answer w =
     (case fst answer of
        Inl status \<Rightarrow> Inl (Fatal ''Failed polling completion queue'')
      | Inr cs \<Rightarrow>
          bindE (handle_completions env batch num_msgs npkts cs 0
                   (w\<lparr>rw_heap := (rw_heap w)\<lparr>words := snd answer\<rparr>\<rparr>)) (\<lambda>(n, w1).
            check_timeouts env npkts
              (w1\<lparr>rw_received := u64_add (rw_received w1) n,
                  rw_correct := u64_add (rw_correct w1) (u64_mul npkts n)\<rparr>)))"

text \<open>The environment answers the \<open>k\<close>-th poll, knowing everything that has happened.\<close>

type_synonym rdma_net = "nat \<Rightarrow> rdma_worker \<Rightarrow> (int + completion list) \<times> memory"

fun rdma_loop ::
  "rdma_env \<Rightarrow> nat \<Rightarrow> nat \<Rightarrow> nat \<Rightarrow> rdma_net \<Rightarrow> (nat \<Rightarrow> bool) \<Rightarrow> nat \<Rightarrow> nat \<Rightarrow> rdma_worker \<Rightarrow> rdma_worker outcome option"
where
  "rdma_loop env batch num_msgs npkts net running 0 k w = None"
| "rdma_loop env batch num_msgs npkts net running (Suc fuel) k w =
     (if rw_received w < num_msgs \<and> running k
      then (case rdma_iteration env batch num_msgs npkts (net k w) w of
              Inl e \<Rightarrow> Some (Inl e)
            | Inr w' \<Rightarrow> rdma_loop env batch num_msgs npkts net running fuel (Suc k) w')
      else Some (Inr w))"

text \<open>After the loop the local counters are added to the statistics of the context.\<close>

definition rdma_finish :: "nat \<Rightarrow> rdma_worker \<Rightarrow> Stats \<Rightarrow> (rdma_worker \<times> Stats) outcome" where
  "rdma_finish tid w s =
     bindE (AddCorrectPktsReceived tid (rw_correct w) s) (\<lambda>s1.
     bindE (AddTotalPktsSent tid (rw_sent w) s1) (\<lambda>s2.
     bindE (AddWrongPktsReceived tid (rw_wrong w) s2) (\<lambda>s3.
     bindE (AddTimeouts tid (rw_timeouts w) s3) (\<lambda>s4.
       Inr (w\<lparr>rw_ppp := CleanupJobSlice (rw_ppp w)\<rparr>, s4)))))"

definition rdma_slice ::
  "rdma_env \<Rightarrow> (nat \<Rightarrow> fp) \<Rightarrow> nat \<Rightarrow> nat \<Rightarrow> rdma_net \<Rightarrow> (nat \<Rightarrow> bool) \<Rightarrow> nat \<Rightarrow> JobSlice \<Rightarrow> rdma_worker \<Rightarrow> Stats \<Rightarrow>
   (rdma_worker \<times> Stats) outcome option"
where
  "rdma_slice env garbage npkts max_outstanding net running fuel js w s =
     (case rdma_begin env garbage npkts max_outstanding js w of
        Inl e \<Rightarrow> Some (Inl e)
      | Inr (batch, num_msgs, w1) \<Rightarrow>
          map_option (\<lambda>r. bindE r (\<lambda>w2. rdma_finish (re_tid env) w2 s))
            (rdma_loop env batch num_msgs npkts net running fuel 0 w1))"

section \<open>Message numbers\<close>

text \<open>Queue pair \<open>q\<close> of a batch of \<open>B\<close> carries the messages congruent to \<open>q\<close>.\<close>

definition ids_ok :: "nat \<Rightarrow> nat list \<Rightarrow> bool" where
  "ids_ok B ids \<longleftrightarrow> 0 < B \<and> B \<le> length ids \<and> (\<forall>q < B. ids ! q mod B = q)"

definition live :: "nat \<Rightarrow> nat \<Rightarrow> nat list \<Rightarrow> nat set" where
  "live B N ids = {q. q < B \<and> ids ! q < N}"

definition outs :: "nat \<Rightarrow> nat \<Rightarrow> nat list \<Rightarrow> nat list" where
  "outs B N ids = filter (\<lambda>i. i < N) (take B ids)"

lemma live_finite [simp]: "finite (live B N ids)"
  by (simp add: live_def)

lemma set_outs: "ids_ok B ids \<Longrightarrow> set (outs B N ids) = (!) ids ` live B N ids"
  by (auto simp: outs_def live_def ids_ok_def in_set_conv_nth image_iff)

lemma outs_pkt_inv:
  assumes "ids_ok B ids"
  shows "pkt_inv B N (outs B N ids)"
proof -
  have "map (\<lambda>i. i mod B) (take B ids) = [0..<B]"
    using assms by (intro nth_equalityI) (simp_all add: ids_ok_def)
  then have "distinct (map (\<lambda>i. i mod B) (take B ids))" by simp
  then have "distinct (map (\<lambda>i. i mod B) (outs B N ids))" unfolding outs_def by (rule distinct_map_filter)
  then show ?thesis using assms by (simp add: pkt_inv_def outs_def ids_ok_def)
qed

lemma ids_ok_update: "ids_ok B ids \<Longrightarrow> q < B \<Longrightarrow> ids_ok B (ids[q := ids ! q + B])"
  by (auto simp: ids_ok_def nth_list_update)

lemma outs_update:
  assumes ok: "ids_ok B ids" and q: "q < B" "ids ! q < N"
  shows "\<exists>rest. mset (outs B N ids) = mset (ids ! q # rest) \<and>
     mset (outs B N (ids[q := ids ! q + B])) = mset (next_pkt B N (ids ! q) @ rest)"
proof -
  have len: "q < length (take B ids)" using ok q(1) by (simp add: ids_ok_def)
  define as where "as = take q (take B ids)"
  define bs where "bs = drop (Suc q) (take B ids)"
  have nth: "take B ids ! q = ids ! q" using q(1) by simp
  have t: "take B ids = as @ ids ! q # bs"
    using id_take_nth_drop[OF len] unfolding as_def bs_def nth .
  have "take B (ids[q := ids ! q + B]) = (take B ids)[q := ids ! q + B]" by (rule take_update_swap)
  also have "\<dots> = as @ (ids ! q + B) # bs" unfolding as_def bs_def using upd_conv_take_nth_drop[OF len] .
  finally have t': "take B (ids[q := ids ! q + B]) = as @ (ids ! q + B) # bs" .
  show ?thesis
    using q(2) by (intro exI[of _ "filter (\<lambda>i. i < N) (as @ bs)"]) (auto simp: outs_def t t' next_pkt_def)
qed

lemma outs_receive:
  assumes ok: "ids_ok B ids" and q: "q < B" "ids ! q < N"
  shows "pkt_done B N (outs B N (ids[q := ids ! q + B])) = insert (ids ! q) (pkt_done B N (outs B N ids))"
    and "ids ! q \<notin> pkt_done B N (outs B N ids)"
proof -
  obtain rest where r: "mset (outs B N ids) = mset (ids ! q # rest)"
    "mset (outs B N (ids[q := ids ! q + B])) = mset (next_pkt B N (ids ! q) @ rest)"
    using outs_update[OF assms] by blast
  have inv: "pkt_inv B N (ids ! q # rest)" using outs_pkt_inv[OF ok, of N] pkt_inv_mset[OF r(1)] by simp
  show "pkt_done B N (outs B N (ids[q := ids ! q + B])) = insert (ids ! q) (pkt_done B N (outs B N ids))"
    using pkt_receive(2)[OF inv] pkt_done_set[OF mset_eq_setD[OF r(1)]] pkt_done_set[OF mset_eq_setD[OF r(2)]] by metis
  have "ids ! q \<in> set (outs B N ids)" using mset_eq_setD[OF r(1)] by simp
  then show "ids ! q \<notin> pkt_done B N (outs B N ids)" by (rule pkt_outstanding_not_done)
qed

lemma live_update:
  assumes "ids_ok B ids" and "q < B"
  shows "live B N (ids[q := ids ! q + B]) = live B N ids - {q} \<union> (if ids ! q + B < N then {q} else {})"
  using assms by (auto simp: live_def ids_ok_def nth_list_update)

lemma init_msg_ids_length [simp]: "length (init_msg_ids B ids) = length ids"
  by (induction B) simp_all

lemma init_msg_ids_nth: "q < B \<Longrightarrow> B \<le> length ids \<Longrightarrow> init_msg_ids B ids ! q = q"
  by (induction B) (auto simp: nth_list_update less_Suc_eq)

section \<open>Posting keeps the timers\<close>

definition env_ok :: "rdma_env \<Rightarrow> bool" where
  "env_ok env \<longleftrightarrow> mono (re_clock env) \<and> (\<forall>k. 0 \<le> fst (re_post env k) \<and> \<not> snd (re_post env k))"

definition rdma_lens :: "nat \<Rightarrow> rdma_worker \<Rightarrow> bool" where
  "rdma_lens nq w \<longleftrightarrow> length (rw_msg_ids w) = nq \<and> length (rw_send_wrs w) = nq \<and> length (rw_sge_addrs w) = nq \<and>
     length (rw_write_count w) = nq \<and> tq_capacity (rw_timers w) = nq"

text \<open>The queue holds exactly the queue pairs in \<open>S\<close>, with time stamps from the past.\<close>

definition timers_ok :: "rdma_env \<Rightarrow> nat set \<Rightarrow> rdma_worker \<Rightarrow> bool" where
  "timers_ok env S w \<longleftrightarrow> tq_wf (rw_timers w) \<and> fst ` set (tq_list (rw_timers w)) = S \<and>
     (\<forall>p \<in> set (tq_list (rw_timers w)). snd p \<le> re_clock env (rw_now w))"

text \<open>Everything that posting leaves alone.\<close>

definition rdma_same :: "rdma_worker \<Rightarrow> rdma_worker \<Rightarrow> bool" where
  "rdma_same w w' \<longleftrightarrow> rw_ppp w' = rw_ppp w \<and> rw_msg_ids w' = rw_msg_ids w \<and> rw_received w' = rw_received w \<and>
     rw_wrong w' = rw_wrong w \<and> rw_correct w' = rw_correct w \<and> rw_sent w' = rw_sent w \<and> rw_timeouts w' = rw_timeouts w"

lemma fst_without: "fst ` set (without i l) = fst ` set l - {i}"
  by (auto simp: without_def)

lemma timers_push:
  assumes env: "env_ok env" and t: "timers_ok env S w" and i: "i < tq_capacity (rw_timers w)"
  shows "\<exists>q. tq_push (rw_timers w) (int i) (re_clock env (rw_now w)) = Inr q \<and> tq_capacity q = tq_capacity (rw_timers w) \<and>
     timers_ok env (insert i S) (w\<lparr>rw_timers := q, rw_now := Suc (rw_now w)\<rparr>)"
proof -
  have inv: "tq_wf (rw_timers w)" "fst ` set (tq_list (rw_timers w)) = S"
    "\<forall>p \<in> set (tq_list (rw_timers w)). snd p \<le> re_clock env (rw_now w)" using t by (simp_all add: timers_ok_def)
  obtain q where q: "tq_push (rw_timers w) (int i) (re_clock env (rw_now w)) = Inr q" "tq_wf q"
    "tq_capacity q = tq_capacity (rw_timers w)" "tq_list q = (i, re_clock env (rw_now w)) # without i (tq_list (rw_timers w))"
    using tql.push_ok[OF inv(1) i inv(3)] by blast
  have le: "re_clock env (rw_now w) \<le> re_clock env (Suc (rw_now w))" using env by (simp add: env_ok_def monoD)
  have "\<forall>p \<in> set (tq_list q). snd p \<le> re_clock env (Suc (rw_now w))"
    using q(4) inv(3) le set_without[of i "tq_list (rw_timers w)"] by (auto intro: order_trans)
  moreover have "fst ` set (tq_list q) = insert i S" using q(4) inv(2) by (auto simp: fst_without)
  ultimately show ?thesis using q(1-3) by (simp add: timers_ok_def)
qed

lemma timers_remove:
  assumes t: "timers_ok env S w" and i: "i < tq_capacity (rw_timers w)"
  shows "\<exists>q. tq_remove (rw_timers w) (int i) = Inr q \<and> tq_capacity q = tq_capacity (rw_timers w) \<and>
     timers_ok env (S - {i}) (w\<lparr>rw_timers := q\<rparr>)"
proof -
  obtain q where q: "tq_remove (rw_timers w) (int i) = Inr q" "tq_wf q" "tq_capacity q = tq_capacity (rw_timers w)"
    "tq_list q = without i (tq_list (rw_timers w))"
    using tql.remove_ok[of "rw_timers w" i] t i by (auto simp: timers_ok_def)
  then show ?thesis
    using t set_without[of i "tq_list (rw_timers w)"] by (auto simp: timers_ok_def fst_without)
qed

lemma post_ok: "env_ok env \<Longrightarrow> post env x w = Inr (w\<lparr>rw_posted := rw_posted w @ [x]\<rparr>)"
  by (simp add: post_def env_ok_def split_beta not_less)

lemma PostRecvWr_ok:
  assumes "env_ok env" and "rdma_lens nq w" and "qpn < nq"
  shows "PostRecvWr env qpn w = Inr (w\<lparr>rw_posted := rw_posted w @ [Posted_recv qpn]\<rparr>)"
  using assms by (simp add: PostRecvWr_def post_ok rdma_lens_def)

lemma timers_ok_cong:
  "rw_timers w' = rw_timers w \<Longrightarrow> rw_now w' = rw_now w \<Longrightarrow> timers_ok env S w' = timers_ok env S w"
  by (simp add: timers_ok_def)

text \<open>Posting a send: the two cases.\<close>

lemma PostSendWr_ok:
  assumes env: "env_ok env" and lens: "rdma_lens nq w" and t: "timers_ok env S w" and q: "qpn < nq"
    and wr: "(if retx then Inr ((rw_send_wrs w ! qpn)\<lparr>wr_signaled := (unat (rw_write_count w ! qpn) mod 1024 = 0)\<rparr>, rw_heap w)
        else prepare_send env qpn (re_buffer env + u64_mul qpn (msg_size (re_config env)))
               ((rw_send_wrs w ! qpn)\<lparr>wr_signaled := (unat (rw_write_count w ! qpn) mod 1024 = 0)\<rparr>) w) = Inr (wr', h)"
  shows "\<exists>w'. PostSendWr env qpn retx w = Inr w' \<and> rw_heap w' = h \<and> rdma_same w w' \<and> rdma_lens nq w' \<and>
     timers_ok env (insert qpn S) w' \<and>
     rw_posted w' = rw_posted w @ [Posted_send qpn wr' (re_buffer env + u64_mul qpn (msg_size (re_config env)))]"
proof -
  let ?a = "re_buffer env + u64_mul qpn (msg_size (re_config env))"
  let ?w0 = "w\<lparr>rw_sge_addrs := (rw_sge_addrs w)[qpn := ?a], rw_send_wrs := (rw_send_wrs w)[qpn := wr'], rw_heap := h\<rparr>"
  let ?w1 = "?w0\<lparr>rw_posted := rw_posted w @ [Posted_send qpn wr' ?a]\<rparr>"
  have p: "post env (Posted_send qpn wr' ?a) ?w0 = Inr ?w1" by (simp add: post_ok[OF env])
  have "timers_ok env S ?w1" using t by (simp add: timers_ok_def)
  then obtain qu where qu: "tq_push (rw_timers ?w1) (int qpn) (re_clock env (rw_now ?w1)) = Inr qu"
    "tq_capacity qu = tq_capacity (rw_timers ?w1)"
    "timers_ok env (insert qpn S) (?w1\<lparr>rw_timers := qu, rw_now := Suc (rw_now ?w1)\<rparr>)"
    using timers_push[OF env, of S ?w1 qpn] lens q by (auto simp: rdma_lens_def)
  let ?w2 = "?w1\<lparr>rw_timers := qu, rw_now := Suc (rw_now ?w1),
      rw_write_count := (rw_write_count ?w1)[qpn := rw_write_count ?w1 ! qpn + 1]\<rparr>"
  have "PostSendWr env qpn retx w = Inr ?w2"
    using lens q wr p qu(1) by (cases retx) (simp_all add: PostSendWr_def Let_def rdma_lens_def)
  moreover have "timers_ok env (insert qpn S) ?w2" using qu(3) by (simp add: timers_ok_def)
  ultimately show ?thesis using lens qu(2) by (intro exI[of _ ?w2]) (simp add: rdma_same_def rdma_lens_def)
qed

section \<open>The invariant for a tensor of integers\<close>

text \<open>The byte arithmetic of the slots stays in 32 bits.\<close>

definition rdma_sizes :: "rdma_env \<Rightarrow> nat \<Rightarrow> nat \<Rightarrow> bool" where
  "rdma_sizes env n nq \<longleftrightarrow> msg_size (re_config env) = 4 * n \<and> nq \<le> 2 ^ 16 \<and> nq * (4 * n) \<le> 2 ^ 32 \<and> 0 < n"

lemma slot_addresses:
  assumes "rdma_sizes env n nq" and "q < nq" and "msg mod B = q"
  shows "re_buffer env + u64_mul q (msg_size (re_config env)) = slot (job_layout t n (re_buffer env) B) msg"
    and "re_buffer env + u32 (q * msg_size (re_config env)) = slot (job_layout t n (re_buffer env) B) msg"
proof -
  have s: "msg_size (re_config env) = 4 * n" "0 < n" using assms(1) by (simp_all add: rdma_sizes_def)
  have lt: "q * (4 * n) < nq * (4 * n)" using assms(2) s(2) by simp
  have le: "nq * (4 * n) \<le> 2 ^ 32" using assms(1) unfolding rdma_sizes_def by blast
  have b: "q * (4 * n) < 2 ^ 32" by (rule less_le_trans[OF lt le])
  then show "re_buffer env + u64_mul q (msg_size (re_config env)) = slot (job_layout t n (re_buffer env) B) msg"
    using s assms(3) by (simp add: u64_mul_def slot_def)
  show "re_buffer env + u32 (q * msg_size (re_config env)) = slot (job_layout t n (re_buffer env) B) msg"
    using b s assms(3) by (simp add: u32_def slot_def)
qed

text \<open>Sending the next message of a queue pair loads its slot.\<close>

lemma send_next_ok:
  assumes env: "env_ok env" and lens: "rdma_lens nq w" and t: "timers_ok env S w" and sz: "rdma_sizes env n nq"
    and q: "q < nq" "rw_msg_ids w ! q mod B = q" and ppp: "int32_ppp ten n (rw_ppp w)"
    and N: "rw_msg_ids w ! q < ltus (job_layout ten n (re_buffer env) B)"
  shows "\<exists>w'. PostSendWr env q False w = Inr w' \<and> rdma_same w w' \<and> rdma_lens nq w' \<and> timers_ok env (insert q S) w' \<and>
     words (rw_heap w') = transfer htonl (src (job_layout ten n (re_buffer env) B) (rw_msg_ids w ! q))
       (slot (job_layout ten n (re_buffer env) B) (rw_msg_ids w ! q))
       (cnt (job_layout ten n (re_buffer env) B) (rw_msg_ids w ! q)) (words (rw_heap w))"
proof -
  let ?L = "job_layout ten n (re_buffer env) B" and ?msg = "rw_msg_ids w ! q"
  let ?wr = "(rw_send_wrs w ! q)\<lparr>wr_signaled := (unat (rw_write_count w ! q) mod 1024 = 0)\<rparr>"
  obtain wr' h where p: "prepare_send env q (slot ?L ?msg) ?wr w = Inr (wr', h)"
    "words h = transfer htonl (src ?L ?msg) (slot ?L ?msg) (cnt ?L ?msg) (words (rw_heap w))"
    by (simp add: prepare_send_def Let_def preprocess_int32[OF ppp N])
  have a: "re_buffer env + u64_mul q (msg_size (re_config env)) = slot ?L ?msg" by (rule slot_addresses[OF sz q])
  show ?thesis using PostSendWr_ok[OF env lens t q(1), of False wr' h] p unfolding a by auto
qed

text \<open>One completion; \<open>R\<close> are the queue pairs whose results are in memory but not yet handled.\<close>

definition rdma_mid ::
  "rdma_env \<Rightarrow> Tensor \<Rightarrow> nat \<Rightarrow> (nat \<Rightarrow> 32 word \<Rightarrow> 32 word) \<Rightarrow> nat \<Rightarrow> nat \<Rightarrow> PrePostProcessor \<Rightarrow> memory \<Rightarrow> nat set \<Rightarrow> rdma_worker \<Rightarrow> bool"
where
  "rdma_mid env ten n f B nq p m0 R w \<longleftrightarrow>
     (let L = job_layout ten n (re_buffer env) B; N = ltus L; ids = rw_msg_ids w
      in ids_ok B ids \<and> rdma_lens nq w \<and> rw_ppp w = p \<and> R \<subseteq> live B N ids \<and> timers_ok env (live B N ids) w \<and>
         slot_data htonl f L m0 (words (rw_heap w)) ((!) ids ` (live B N ids - R)) ((!) ids ` R)
           (pkt_done B N (outs B N ids)))"

definition rdma_inv ::
  "rdma_env \<Rightarrow> Tensor \<Rightarrow> nat \<Rightarrow> (nat \<Rightarrow> 32 word \<Rightarrow> 32 word) \<Rightarrow> nat \<Rightarrow> nat \<Rightarrow> PrePostProcessor \<Rightarrow> memory \<Rightarrow> rdma_worker \<Rightarrow> bool"
where
  "rdma_inv env ten n f B nq p m0 w \<longleftrightarrow> rdma_mid env ten n f B nq p m0 {} w \<and>
     rw_received w = card (pkt_done B (ltus (job_layout ten n (re_buffer env) B))
        (outs B (ltus (job_layout ten n (re_buffer env) B)) (rw_msg_ids w)))"

text \<open>
  What the environment may answer: no errors, and receives of queue pairs of the batch that either announce the
  message that the queue pair waits for, whose result is in its slot, or carry another short number.
\<close>

fun completions_ok :: "nat \<Rightarrow> nat \<Rightarrow> nat list \<Rightarrow> nat set \<Rightarrow> completion list \<Rightarrow> bool" where
  "completions_ok B N ids R [] = (R = {})"
| "completions_ok B N ids R (c # cs) =
     (wc_success c \<and>
      (wc_opcode c = IBV_WC_RDMA_WRITE \<and> completions_ok B N ids R cs \<or>
       wc_opcode c = IBV_WC_RECV_RDMA_WITH_IMM \<and> wc_with_imm c \<and> completion_qpn c < B \<and>
       (if received_short_id c = short_id (ids ! completion_qpn c)
        then completion_qpn c \<in> R \<and>
             completions_ok B N (ids[completion_qpn c := ids ! completion_qpn c + B]) (R - {completion_qpn c}) cs
        else completions_ok B N ids R cs)))"

lemma nth_image_update: "q \<notin> X \<Longrightarrow> (!) (ids[q := i]) ` X = (!) ids ` X"
  by (auto simp: nth_list_update intro!: image_cong) (metis nth_list_update_neq)

text \<open>The state between the copy of a received message out of slot \<open>q\<close> and the next message sent from that slot.\<close>

definition rdma_stored ::
  "rdma_env \<Rightarrow> Tensor \<Rightarrow> nat \<Rightarrow> (nat \<Rightarrow> 32 word \<Rightarrow> 32 word) \<Rightarrow> nat \<Rightarrow> nat \<Rightarrow> PrePostProcessor \<Rightarrow> memory \<Rightarrow> nat set \<Rightarrow> nat \<Rightarrow> rdma_worker \<Rightarrow> bool"
where
  "rdma_stored env ten n f B nq p m0 R q w \<longleftrightarrow>
     (let L = job_layout ten n (re_buffer env) B; N = ltus L; ids = rw_msg_ids w
      in ids_ok B ids \<and> rdma_lens nq w \<and> rw_ppp w = p \<and> R \<subseteq> live B N ids - {q} \<and>
         timers_ok env (live B N ids - {q}) w \<and>
         slot_data htonl f L m0 (words (rw_heap w)) ((!) ids ` (live B N ids - R - {q})) ((!) ids ` R)
           (pkt_done B N (outs B N ids)))"

text \<open>After the last message of a slot the slot is no longer live.\<close>

lemma stored_last:
  assumes st: "rdma_stored env ten n f B nq p m0 R q w" and N: "N = ltus (job_layout ten n (re_buffer env) B)"
    and last: "\<not> rw_msg_ids w ! q < N"
  shows "rdma_mid env ten n f B nq p m0 R w"
proof -
  have "live B N (rw_msg_ids w) - {q} = live B N (rw_msg_ids w)" using last by (auto simp: live_def)
  moreover have "live B N (rw_msg_ids w) - R - {q} = live B N (rw_msg_ids w) - R" using last by (auto simp: live_def)
  ultimately show ?thesis using st by (simp add: rdma_mid_def rdma_stored_def Let_def N)
qed

lemma stored_resend:
  assumes env: "env_ok env" and sz: "rdma_sizes env n nq" and L: "layout_ok (job_layout ten n (re_buffer env) B)"
    and N: "N = ltus (job_layout ten n (re_buffer env) B)" and p: "int32_ppp ten n p"
    and st: "rdma_stored env ten n f B nq p m0 R q w" and q: "q < B" "q < nq" and more: "rw_msg_ids w ! q < N"
  shows "\<exists>w2 w3. PostRecvWr env q w = Inr w2 \<and> PostSendWr env q False w2 = Inr w3 \<and>
     rdma_mid env ten n f B nq p m0 R (w3\<lparr>rw_sent := u64_add (rw_sent w3) npkts\<rparr>) \<and>
     rw_msg_ids w3 = rw_msg_ids w \<and> rw_received w3 = rw_received w"
proof -
  let ?L = "job_layout ten n (re_buffer env) B" and ?w2 = "w\<lparr>rw_posted := rw_posted w @ [Posted_recv q]\<rparr>"
  define ids where "ids = rw_msg_ids w"
  define V where "V = live B N ids"
  have m: "ids_ok B ids" "rdma_lens nq w" "rw_ppp w = p" "R \<subseteq> V - {q}" "timers_ok env (V - {q}) w"
    "slot_data htonl f ?L m0 (words (rw_heap w)) ((!) ids ` (V - R - {q})) ((!) ids ` R) (pkt_done B N (outs B N ids))"
    using st by (simp_all add: rdma_stored_def Let_def N ids_def V_def)
  have modq: "ids ! q mod B = q" using m(1) q(1) by (simp add: ids_ok_def)
  have qV: "q \<in> V" using q(1) more by (simp add: V_def live_def ids_def)
  have r: "PostRecvWr env q w = Inr ?w2" using PostRecvWr_ok[OF env m(2) q(2)] .
  have t2: "timers_ok env (V - {q}) ?w2" using m(5) by (simp add: timers_ok_def)
  have lens2: "rdma_lens nq ?w2" using m(2) by (simp add: rdma_lens_def)
  obtain w3 where w3: "PostSendWr env q False ?w2 = Inr w3" "rdma_same ?w2 w3" "rdma_lens nq w3"
    "timers_ok env (insert q (V - {q})) w3"
    "words (rw_heap w3) = transfer htonl (src ?L (ids ! q)) (slot ?L (ids ! q)) (cnt ?L (ids ! q)) (words (rw_heap w))"
    using send_next_ok[OF env lens2 t2 sz q(2), of B ten] modq p m(3) more N by (auto simp: ids_def)
  have nD: "ids ! q \<notin> pkt_done B N (outs B N ids)"
  proof -
    have "ids ! q \<in> set (outs B N ids)" unfolding set_outs[OF m(1)] using qV V_def by blast
    then show ?thesis using pkt_outstanding_not_done[of "ids ! q" "outs B N ids" B N] by simp
  qed
  have free: "\<forall>i \<in> (!) ids ` (V - R - {q}) \<union> (!) ids ` R. i mod l_B ?L \<noteq> ids ! q mod l_B ?L"
  proof
    fix i assume "i \<in> (!) ids ` (V - R - {q}) \<union> (!) ids ` R"
    then obtain q' where q': "i = ids ! q'" "q' \<in> V - {q}" using m(4) by blast
    then have "ids ! q' mod B = q'" "q' \<noteq> q" using m(1) by (auto simp: V_def live_def ids_ok_def)
    then show "i mod l_B ?L \<noteq> ids ! q mod l_B ?L" using q'(1) modq by simp
  qed
  have D: "slot_data htonl f ?L m0 (words (rw_heap w3)) (insert (ids ! q) ((!) ids ` (V - R - {q}))) ((!) ids ` R)
      (pkt_done B N (outs B N ids))"
    unfolding w3(5) by (rule int32.load[OF L m(6) nD free])
  have "insert (ids ! q) ((!) ids ` (V - R - {q})) = (!) ids ` (V - R)" using qV m(4) by auto
  moreover have "insert q (V - {q}) = V" using qV by blast
  ultimately have "rdma_mid env ten n f B nq p m0 R (w3\<lparr>rw_sent := u64_add (rw_sent w3) npkts\<rparr>)"
    using m(1,3,4) w3(2-4) D
    by (auto simp: rdma_mid_def Let_def N[symmetric] V_def ids_def rdma_same_def timers_ok_def rdma_lens_def)
  then show ?thesis using r w3(1,2) by (auto simp: rdma_same_def)
qed

text \<open>A received message is copied out of its slot, and its timer is stopped.\<close>

lemma handle_current_stored:
  assumes sz: "rdma_sizes env n nq" and L: "layout_ok (job_layout ten n (re_buffer env) B)"
    and N: "N = ltus (job_layout ten n (re_buffer env) B)" "N + B < 2 ^ 64" and p: "int32_ppp ten n p" and B: "B \<le> nq"
    and mid: "rdma_mid env ten n f B nq p m0 R w" and qR: "q \<in> R" and qpn: "q = completion_qpn c"
    and cur: "received_short_id c = short_id (rw_msg_ids w ! q)"
  shows "\<exists>w1. rdma_stored env ten n f B nq p m0 (R - {q}) q w1 \<and> q < B \<and> q < nq \<and>
     rw_msg_ids w1 = (rw_msg_ids w)[q := rw_msg_ids w ! q + B] \<and> rw_received w1 = rw_received w \<and>
     handle_receive env B N npkts c w =
       (if rw_msg_ids w1 ! q < N then bindE (PostRecvWr env q w1) (\<lambda>w2. bindE (PostSendWr env q False w2) (\<lambda>w3.
          Inr (True, w3\<lparr>rw_sent := u64_add (rw_sent w3) npkts\<rparr>))) else Inr (True, w1))"
proof -
  let ?L = "job_layout ten n (re_buffer env) B"
  define ids where "ids = rw_msg_ids w"
  define msg where "msg = ids ! q"
  define ids' where "ids' = ids[q := msg + B]"
  define V where "V = live B N ids"
  have m: "ids_ok B ids" "rdma_lens nq w" "rw_ppp w = p" "R \<subseteq> V" "timers_ok env V w"
    "slot_data htonl f ?L m0 (words (rw_heap w)) ((!) ids ` (V - R)) ((!) ids ` R) (pkt_done B N (outs B N ids))"
    using mid by (simp_all add: rdma_mid_def Let_def N(1) ids_def V_def)
  have q: "q < B" "msg < N" "q < nq" using qR m(4) B by (auto simp: V_def live_def msg_def)
  have modq: "msg mod B = q" using m(1) q(1) by (simp add: ids_ok_def msg_def)
  have lenids: "q < length ids" using m(2) q(3) by (simp add: rdma_lens_def ids_def)
  have upd: "pkt_done B N (outs B N ids') = insert msg (pkt_done B N (outs B N ids))" "msg \<notin> pkt_done B N (outs B N ids)"
    using outs_receive[OF m(1) q(1)] q(2) by (simp_all add: msg_def ids'_def)
  let ?h = "(rw_heap w)\<lparr>bytes := (bytes (rw_heap w))(re_imm_byte env := imm_byte2 (wc_imm_data c)),
      words := transfer ntohl (slot ?L msg) (dst ?L msg) (cnt ?L msg) (words (rw_heap w))\<rparr>"
  obtain qu where qu: "tq_remove (rw_timers w) (int q) = Inr qu" "tq_capacity qu = tq_capacity (rw_timers w)"
    "timers_ok env (V - {q}) (w\<lparr>rw_timers := qu\<rparr>)"
    using timers_remove[OF m(5), of q] m(2) q(3) by (auto simp: rdma_lens_def)
  let ?w1 = "w\<lparr>rw_ppp := p, rw_heap := ?h, rw_timers := qu, rw_msg_ids := ids'\<rparr>"
  have "u64_add msg B = msg + B" using q(2) N(2) by (simp add: u64_simps)
  then have run: "handle_receive env B N npkts c w =
     (if rw_msg_ids ?w1 ! q < N then bindE (PostRecvWr env q ?w1) (\<lambda>w2. bindE (PostSendWr env q False w2) (\<lambda>w3.
        Inr (True, w3\<lparr>rw_sent := u64_add (rw_sent w3) npkts\<rparr>))) else Inr (True, ?w1))"
    using cur lenids m(3) qu(1) postprocess_int32[OF p q(2)[unfolded N(1)]] slot_addresses[OF sz q(3) modq]
    by (simp add: handle_receive_def Let_def qpn[symmetric] ids_def[symmetric] msg_def[symmetric] ids'_def)
  have other: "ids ! q' \<noteq> msg" if "q' \<in> R - {q}" for q'
    using that m(1,4) modq by (auto simp: V_def live_def ids_ok_def)
  then have "(!) ids ` R - {msg} = (!) ids ` (R - {q})" using qR by (auto simp: msg_def)
  moreover have "(!) ids' ` (V - R) = (!) ids ` (V - R)" "(!) ids' ` (R - {q}) = (!) ids ` (R - {q})"
    unfolding ids'_def using qR by (auto intro!: nth_image_update)
  ultimately have D: "slot_data htonl f ?L m0 (words ?h) ((!) ids' ` (V - R)) ((!) ids' ` (R - {q})) (pkt_done B N (outs B N ids'))"
    using int32.store[OF L m(6), of msg] qR upd by (simp add: msg_def)
  have lv: "live B N ids' - {q} = V - {q}"
    using live_update[OF m(1) q(1), of N] unfolding ids'_def msg_def V_def by auto
  then have "live B N ids' - (R - {q}) - {q} = V - R" using qR by blast
  moreover have "ids_ok B ids'" unfolding ids'_def msg_def by (rule ids_ok_update[OF m(1) q(1)])
  moreover have "timers_ok env (V - {q}) ?w1" using qu(3) by (simp add: timers_ok_def)
  moreover have "rdma_lens nq ?w1" using m(2) qu(2) by (simp add: rdma_lens_def ids'_def ids_def)
  ultimately have "rdma_stored env ten n f B nq p m0 (R - {q}) q ?w1"
    using D lv m(4) by (auto simp: rdma_stored_def Let_def N(1)[symmetric])
  then show ?thesis using run q(1,3) by (intro exI[of _ ?w1]) (simp add: ids_def ids'_def msg_def)
qed

lemma handle_current:
  assumes env: "env_ok env" and sz: "rdma_sizes env n nq" and L: "layout_ok (job_layout ten n (re_buffer env) B)"
    and N: "N = ltus (job_layout ten n (re_buffer env) B)" "N + B < 2 ^ 64" and p: "int32_ppp ten n p" and B: "B \<le> nq"
    and mid: "rdma_mid env ten n f B nq p m0 R w" and qR: "completion_qpn c \<in> R"
    and cur: "received_short_id c = short_id (rw_msg_ids w ! completion_qpn c)"
  shows "\<exists>w'. handle_receive env B N npkts c w = Inr (True, w') \<and>
     rw_msg_ids w' = (rw_msg_ids w)[completion_qpn c := rw_msg_ids w ! completion_qpn c + B] \<and>
     rdma_mid env ten n f B nq p m0 (R - {completion_qpn c}) w' \<and> rw_received w' = rw_received w"
proof -
  obtain w1 where w1: "rdma_stored env ten n f B nq p m0 (R - {completion_qpn c}) (completion_qpn c) w1"
      "completion_qpn c < B" "completion_qpn c < nq"
      "rw_msg_ids w1 = (rw_msg_ids w)[completion_qpn c := rw_msg_ids w ! completion_qpn c + B]" "rw_received w1 = rw_received w"
    and run: "handle_receive env B N npkts c w =
       (if rw_msg_ids w1 ! completion_qpn c < N then bindE (PostRecvWr env (completion_qpn c) w1) (\<lambda>w2.
          bindE (PostSendWr env (completion_qpn c) False w2) (\<lambda>w3.
            Inr (True, w3\<lparr>rw_sent := u64_add (rw_sent w3) npkts\<rparr>))) else Inr (True, w1))"
    using handle_current_stored[OF sz L N p B mid qR refl cur] by blast
  show ?thesis
  proof (cases "rw_msg_ids w1 ! completion_qpn c < N")
    case True
    from stored_resend[OF env sz L N(1) p w1(1-3) True, of npkts] show ?thesis using run True w1(4,5) by auto
  next
    case False
    from stored_last[OF w1(1) N(1) False] show ?thesis using run False w1(4,5) by auto
  qed
qed

lemma rdma_mid_cong:
  assumes "rw_msg_ids w' = rw_msg_ids w" and "rw_ppp w' = rw_ppp w" and "words (rw_heap w') = words (rw_heap w)"
    and "rw_timers w' = rw_timers w" and "rw_now w' = rw_now w" and "rdma_lens nq w' = rdma_lens nq w"
  shows "rdma_mid env ten n f B nq p m0 R w' = rdma_mid env ten n f B nq p m0 R w"
  using assms by (simp add: rdma_mid_def Let_def timers_ok_def)

lemma handle_stale:
  assumes env: "env_ok env" and B: "B \<le> nq" and mid: "rdma_mid env ten n f B nq p m0 R w" and q: "completion_qpn c < B"
    and stale: "received_short_id c \<noteq> short_id (rw_msg_ids w ! completion_qpn c)"
  shows "\<exists>w'. handle_receive env B N npkts c w = Inr (False, w') \<and> rw_msg_ids w' = rw_msg_ids w \<and>
     rdma_mid env ten n f B nq p m0 R w' \<and> rw_received w' = rw_received w"
proof -
  have lens: "rdma_lens nq w" using mid by (simp add: rdma_mid_def Let_def)
  let ?w' = "w\<lparr>rw_posted := rw_posted w @ [Posted_recv (completion_qpn c)], rw_wrong := u64_add (rw_wrong w) npkts\<rparr>"
  have "handle_receive env B N npkts c w = Inr (False, ?w')"
    using PostRecvWr_ok[OF env lens, of "completion_qpn c"] lens B q stale by (simp add: handle_receive_def Let_def rdma_lens_def)
  moreover have "rdma_mid env ten n f B nq p m0 R ?w'" using mid by (subst rdma_mid_cong[of _ w]) (simp_all add: rdma_lens_def)
  ultimately show ?thesis by (intro exI[of _ ?w']) simp
qed

lemma handle_completions_ok:
  assumes env: "env_ok env" and sz: "rdma_sizes env n nq" and L: "layout_ok (job_layout ten n (re_buffer env) B)"
    and N: "N = ltus (job_layout ten n (re_buffer env) B)" "N + B < 2 ^ 64" and p: "int32_ppp ten n p" and B: "B \<le> nq"
  shows "completions_ok B N (rw_msg_ids w) R cs \<Longrightarrow> rdma_mid env ten n f B nq p m0 R w \<Longrightarrow>
     \<exists>w'. handle_completions env B N npkts cs k w = Inr (k + card R, w') \<and>
       rdma_mid env ten n f B nq p m0 {} w' \<and> rw_received w' = rw_received w \<and>
       card (pkt_done B N (outs B N (rw_msg_ids w'))) = card (pkt_done B N (outs B N (rw_msg_ids w))) + card R"
proof (induction cs arbitrary: k R w)
  case (Cons c cs)
  let ?q = "completion_qpn c"
  have m: "ids_ok B (rw_msg_ids w)" "R \<subseteq> live B N (rw_msg_ids w)"
    using Cons.prems(2) by (simp_all add: rdma_mid_def Let_def N(1))
  have s: "wc_success c" using Cons.prems(1) by simp
  consider (sent) "wc_opcode c = IBV_WC_RDMA_WRITE" "completions_ok B N (rw_msg_ids w) R cs"
    | (current) "wc_opcode c = IBV_WC_RECV_RDMA_WITH_IMM" "wc_with_imm c"
        "received_short_id c = short_id (rw_msg_ids w ! ?q)" "?q \<in> R"
        "completions_ok B N ((rw_msg_ids w)[?q := rw_msg_ids w ! ?q + B]) (R - {?q}) cs"
    | (stale) "wc_opcode c = IBV_WC_RECV_RDMA_WITH_IMM" "wc_with_imm c" "?q < B"
        "received_short_id c \<noteq> short_id (rw_msg_ids w ! ?q)" "completions_ok B N (rw_msg_ids w) R cs"
    using Cons.prems(1) by (auto split: if_splits)
  then show ?case
  proof cases
    case sent
    then show ?thesis using Cons.IH[OF sent(2) Cons.prems(2)] s by (simp add: handle_completion_def)
  next
    case current
    obtain w1 where w1: "handle_receive env B N npkts c w = Inr (True, w1)"
      "rw_msg_ids w1 = (rw_msg_ids w)[?q := rw_msg_ids w ! ?q + B]"
      "rdma_mid env ten n f B nq p m0 (R - {?q}) w1" "rw_received w1 = rw_received w"
      using handle_current[OF env sz L N p B Cons.prems(2) current(4,3)] by blast
    have q: "?q < B" "rw_msg_ids w ! ?q < N" using m(2) current(4) by (auto simp: live_def)
    have fin: "finite R" using m(2) by (rule finite_subset) simp
    have "card (pkt_done B N (outs B N (rw_msg_ids w1))) = Suc (card (pkt_done B N (outs B N (rw_msg_ids w))))"
      using outs_receive[OF m(1) q] unfolding w1(2) by simp
    moreover have "card R = Suc (card (R - {?q}))" using fin current(4) by (metis card_Suc_Diff1)
    moreover have "completions_ok B N (rw_msg_ids w1) (R - {?q}) cs" using current(5) unfolding w1(2) .
    ultimately show ?thesis using Cons.IH[OF _ w1(3), of "Suc k"] w1(1,4) s current(1,2) by (simp add: handle_completion_def)
  next
    case stale
    obtain w1 where w1: "handle_receive env B N npkts c w = Inr (False, w1)" "rw_msg_ids w1 = rw_msg_ids w"
      "rdma_mid env ten n f B nq p m0 R w1" "rw_received w1 = rw_received w"
      using handle_stale[OF env B Cons.prems(2) stale(3,4), of N npkts] by blast
    then show ?thesis using Cons.IH[OF _ w1(3), of k] stale s by (simp add: handle_completion_def)
  qed
qed simp

lemma check_timeouts_ok:
  assumes env: "env_ok env" and sz: "rdma_sizes env n nq" and B: "B \<le> nq" and mid: "rdma_mid env ten n f B nq p m0 {} w"
  shows "\<exists>w'. check_timeouts env npkts w = Inr w' \<and> rdma_mid env ten n f B nq p m0 {} w' \<and>
     rw_msg_ids w' = rw_msg_ids w \<and> rw_received w' = rw_received w"
proof -
  let ?N = "ltus (job_layout ten n (re_buffer env) B)" and ?ids = "rw_msg_ids w"
  have m: "rdma_lens nq w" "timers_ok env (live B ?N ?ids) w" using mid by (simp_all add: rdma_mid_def Let_def)
  have wf: "tq_wf (rw_timers w)" using m(2) by (simp add: timers_ok_def)
  obtain r q' where r: "tq_check (rw_timers w) (re_clock env (rw_now w)) = Inr (r, q')" "tq_wf q'"
    "tq_capacity q' = tq_capacity (rw_timers w)" "tq_list q' = tq_list (rw_timers w)"
    using tql.check_ok[OF wf] by blast
  let ?w1 = "w\<lparr>rw_timers := q', rw_now := Suc (rw_now w)\<rparr>"
  have le: "re_clock env (rw_now w) \<le> re_clock env (Suc (rw_now w))" using env by (simp add: env_ok_def monoD)
  have t1: "timers_ok env (live B ?N ?ids) ?w1" using m(2) r(2,4) le by (auto simp: timers_ok_def intro: order_trans)
  have mid1: "rdma_mid env ten n f B nq p m0 {} ?w1"
    using mid t1 r(3) by (simp add: rdma_mid_def Let_def rdma_lens_def)
  show ?thesis
  proof (cases "r \<ge> 0")
    case False
    then show ?thesis using mid1 r(1) by (intro exI[of _ ?w1]) (simp add: check_timeouts_def Let_def)
  next
    case True
    then have live: "nat r \<in> live B ?N ?ids" using tq_check_index[OF wf r(1)] m(2) by (auto simp: timers_ok_def)
    then have q: "nat r < nq" using B by (simp add: live_def)
    moreover have "nq \<le> 2 ^ 16" using sz unfolding rdma_sizes_def by blast
    ultimately have u: "u16 (nat r) = nat r" by (intro u16_id) (rule less_le_trans)
    let ?w2 = "?w1\<lparr>rw_timeouts := u64_add (rw_timeouts ?w1) npkts\<rparr>"
    have "timers_ok env (live B ?N ?ids) ?w2" "rdma_lens nq ?w2" using t1 m(1) r(3) by (simp_all add: timers_ok_def rdma_lens_def)
    from PostSendWr_ok[OF env this(2,1) q, where retx = True] obtain w3 where w3: "PostSendWr env (nat r) True ?w2 = Inr w3"
      "rw_heap w3 = rw_heap w" "rdma_same ?w2 w3" "rdma_lens nq w3" "timers_ok env (insert (nat r) (live B ?N ?ids)) w3"
      by auto
    have t3: "timers_ok env (live B ?N ?ids) w3" using w3(5) live by (simp add: insert_absorb)
    let ?w4 = "w3\<lparr>rw_sent := u64_add (rw_sent w3) npkts\<rparr>"
    have "rdma_mid env ten n f B nq p m0 {} ?w4"
      using mid w3(2-4) t3 by (simp add: rdma_mid_def Let_def rdma_same_def rdma_lens_def timers_ok_def)
    then show ?thesis using True r(1) u w3(1,3)
      by (intro exI[of _ ?w4]) (simp add: check_timeouts_def Let_def rdma_same_def)
  qed
qed

text \<open>
  The network for one poll: the messages of the queue pairs \<open>R\<close> come back, element \<open>j\<close> reduced by \<open>f j\<close>, in their slots, and
  nothing else in memory changes.
\<close>

definition answer_ok ::
  "rdma_env \<Rightarrow> Tensor \<Rightarrow> nat \<Rightarrow> (nat \<Rightarrow> 32 word \<Rightarrow> 32 word) \<Rightarrow> nat \<Rightarrow> nat set \<Rightarrow> rdma_worker \<Rightarrow> (int + completion list) \<times> memory \<Rightarrow> bool"
where
  "answer_ok env ten n f B R w answer \<longleftrightarrow>
     (let L = job_layout ten n (re_buffer env) B; ids = rw_msg_ids w
      in R \<subseteq> live B (ltus L) ids \<and>
         (case fst answer of Inl _ \<Rightarrow> False | Inr cs \<Rightarrow> completions_ok B (ltus L) ids R cs) \<and>
         (\<forall>q \<in> R. \<forall>i < cnt L (ids ! q). snd answer (slot L (ids ! q) + 4 * i) =
            htonl (f (ids ! q * n + i) (ntohl (words (rw_heap w) (slot L (ids ! q) + 4 * i))))) \<and>
         (\<forall>a. (\<forall>q \<in> R. \<not> in_block (slot L (ids ! q)) n a) \<longrightarrow> snd answer a = words (rw_heap w) a))"

definition rdma_setting :: "rdma_env \<Rightarrow> Tensor \<Rightarrow> nat \<Rightarrow> nat \<Rightarrow> nat \<Rightarrow> PrePostProcessor \<Rightarrow> bool" where
  "rdma_setting env ten n nq B p \<longleftrightarrow> env_ok env \<and> rdma_sizes env n nq \<and> B \<le> nq \<and> int32_ppp ten n p \<and>
     layout_ok (job_layout ten n (re_buffer env) B) \<and> ltus (job_layout ten n (re_buffer env) B) + B < 2 ^ 64"

lemma rdma_mid_network:
  assumes set: "rdma_setting env ten n nq B p" and mid: "rdma_mid env ten n f B nq p m0 {} w"
    and ans: "answer_ok env ten n f B R w answer"
  shows "rdma_mid env ten n f B nq p m0 R (w\<lparr>rw_heap := (rw_heap w)\<lparr>words := snd answer\<rparr>\<rparr>)"
proof -
  let ?L = "job_layout ten n (re_buffer env) B" and ?ids = "rw_msg_ids w"
  let ?N = "ltus ?L"
  have L: "layout_ok ?L" using set by (simp add: rdma_setting_def)
  have m: "ids_ok B ?ids" "slot_data htonl f ?L m0 (words (rw_heap w)) ((!) ?ids ` live B ?N ?ids) {} (pkt_done B ?N (outs B ?N ?ids))"
    using mid by (simp_all add: rdma_mid_def Let_def)
  have a: "R \<subseteq> live B ?N ?ids" "\<forall>q \<in> R. \<forall>i < cnt ?L (?ids ! q). snd answer (slot ?L (?ids ! q) + 4 * i) =
            htonl (f (?ids ! q * n + i) (ntohl (words (rw_heap w) (slot ?L (?ids ! q) + 4 * i))))"
    "\<forall>a. (\<forall>q \<in> R. \<not> in_block (slot ?L (?ids ! q)) n a) \<longrightarrow> snd answer a = words (rw_heap w) a"
    using ans by (simp_all add: answer_ok_def Let_def)
  have own: "?ids ! q mod B = q" if "q \<in> live B ?N ?ids" for q using m(1) that by (simp add: ids_ok_def live_def)
  have inj: "inj_on (\<lambda>i. i mod l_B ?L) ((!) ?ids ` live B ?N ?ids)" by (rule inj_onI) (use own in auto)
  have "slot_data htonl f ?L m0 (snd answer) ((!) ?ids ` live B ?N ?ids - (!) ?ids ` R) ((!) ?ids ` R) (pkt_done B ?N (outs B ?N ?ids))"
    by (rule slot_data_network_set[OF L m(2) image_mono[OF a(1)] inj, where agg = "\<lambda>j w. htonl (f j (ntohl w))"])
      (use a(2,3) in auto)
  moreover have "(!) ?ids ` live B ?N ?ids - (!) ?ids ` R = (!) ?ids ` (live B ?N ?ids - R)"
  proof -
    have "inj_on ((!) ?ids) (live B ?N ?ids)" by (rule inj_onI) (metis own)
    from inj_on_image_set_diff[OF this Diff_subset a(1)] show ?thesis by simp
  qed
  ultimately show ?thesis using mid a(1) by (simp add: rdma_mid_def Let_def rdma_lens_def timers_ok_def)
qed

lemma rdma_iteration_ok:
  assumes set: "rdma_setting env ten n nq B p" and inv: "rdma_inv env ten n f B nq p m0 w"
    and ans: "answer_ok env ten n f B R w answer"
  shows "\<exists>w'. rdma_iteration env B (ltus (job_layout ten n (re_buffer env) B)) npkts answer w = Inr w' \<and>
     rdma_inv env ten n f B nq p m0 w' \<and> rw_received w' = rw_received w + card R"
proof -
  let ?L = "job_layout ten n (re_buffer env) B" and ?ids = "rw_msg_ids w"
  let ?N = "ltus ?L" and ?w0 = "w\<lparr>rw_heap := (rw_heap w)\<lparr>words := snd answer\<rparr>\<rparr>"
  have s: "env_ok env" "rdma_sizes env n nq" "layout_ok ?L" "?N + B < 2 ^ 64" "int32_ppp ten n p" "B \<le> nq"
    using set by (simp_all add: rdma_setting_def)
  have mid: "rdma_mid env ten n f B nq p m0 {} w" and rcv: "rw_received w = card (pkt_done B ?N (outs B ?N ?ids))"
    using inv by (simp_all add: rdma_inv_def)
  obtain cs where cs: "fst answer = Inr cs" "completions_ok B ?N (rw_msg_ids ?w0) R cs"
    using ans by (auto simp: answer_ok_def Let_def split: sum.splits)
  obtain w1 where w1: "handle_completions env B ?N npkts cs 0 ?w0 = Inr (card R, w1)"
    "rdma_mid env ten n f B nq p m0 {} w1" "rw_received w1 = rw_received w"
    "card (pkt_done B ?N (outs B ?N (rw_msg_ids w1))) = card (pkt_done B ?N (outs B ?N ?ids)) + card R"
    using handle_completions_ok[OF s(1-3) refl s(4-6) cs(2) rdma_mid_network[OF set mid ans], of npkts 0] by auto
  have "ids_ok B (rw_msg_ids w1)" using w1(2) by (simp add: rdma_mid_def Let_def)
  then have "rw_received w + card R \<le> ?N" using pkt_done_card(1)[OF outs_pkt_inv, of B "rw_msg_ids w1" ?N] w1(4) rcv by simp
  then have add: "u64_add (rw_received w) (card R) = rw_received w + card R" using s(4) by (simp add: u64_simps)
  let ?w2 = "w1\<lparr>rw_received := u64_add (rw_received w1) (card R), rw_correct := u64_add (rw_correct w1) (u64_mul npkts (card R))\<rparr>"
  have "rdma_mid env ten n f B nq p m0 {} ?w2" using w1(2) by (simp add: rdma_mid_def Let_def rdma_lens_def timers_ok_def)
  then obtain w3 where w3: "check_timeouts env npkts ?w2 = Inr w3" "rdma_mid env ten n f B nq p m0 {} w3"
    "rw_msg_ids w3 = rw_msg_ids w1" "rw_received w3 = rw_received w + card R"
    using check_timeouts_ok[OF s(1,2,6)] w1(3) add by fastforce
  have "rdma_iteration env B ?N npkts answer w = Inr w3"
    using cs(1) w1(1) w3(1) by (simp add: rdma_iteration_def)
  moreover have "rdma_inv env ten n f B nq p m0 w3" using w3 w1(4) rcv by (simp add: rdma_inv_def)
  ultimately show ?thesis using w3(4) by blast
qed

section \<open>The whole slice\<close>

lemma send_first_batch_ok:
  assumes env: "env_ok env" and sz: "rdma_sizes env n nq" and L: "layout_ok (job_layout ten n (re_buffer env) B)"
    and B: "B \<le> nq" "B \<le> ltus (job_layout ten n (re_buffer env) B)" and lens: "rdma_lens nq w"
    and t: "timers_ok env {} w" and p: "int32_ppp ten n (rw_ppp w)" and ids: "\<forall>q < B. rw_msg_ids w ! q = q"
  shows "k \<le> B \<Longrightarrow> \<exists>w'. send_first_batch env k w = Inr w' \<and> rdma_same w w' \<and> rdma_lens nq w' \<and> timers_ok env {..<k} w' \<and>
     slot_data htonl f (job_layout ten n (re_buffer env) B) (words (rw_heap w)) (words (rw_heap w')) {..<k} {} {}"
proof (induction k)
  case 0
  then show ?case using lens t by (simp add: rdma_same_def slot_data_start)
next
  case (Suc k)
  let ?L = "job_layout ten n (re_buffer env) B"
  obtain w1 where w1: "send_first_batch env k w = Inr w1" "rdma_same w w1" "rdma_lens nq w1" "timers_ok env {..<k} w1"
    "slot_data htonl f ?L (words (rw_heap w)) (words (rw_heap w1)) {..<k} {} {}"
    using Suc by auto
  let ?w2 = "w1\<lparr>rw_posted := rw_posted w1 @ [Posted_recv k]\<rparr>"
  have k: "k < nq" "k < B" using Suc.prems B(1) by simp_all
  have r: "PostRecvWr env k w1 = Inr ?w2" by (rule PostRecvWr_ok[OF env w1(3) k(1)])
  have c: "rdma_lens nq ?w2" "timers_ok env {..<k} ?w2" "rw_msg_ids ?w2 ! k = k" "rw_ppp ?w2 = rw_ppp w"
    using w1(2-4) ids k(2) by (simp_all add: rdma_lens_def timers_ok_def rdma_same_def)
  obtain w3 where w3: "PostSendWr env k False ?w2 = Inr w3" "rdma_same ?w2 w3" "rdma_lens nq w3" "timers_ok env (insert k {..<k}) w3"
    "words (rw_heap w3) = transfer htonl (src ?L k) (slot ?L k) (cnt ?L k) (words (rw_heap w1))"
    using send_next_ok[OF env c(1,2) sz k(1), of B ten] c(3,4) k(2) B(2) p by auto
  have "\<forall>q' \<in> {..<k} \<union> {}. q' mod l_B ?L \<noteq> k mod l_B ?L" using k(2) by simp
  from int32.load[OF L w1(5) _ this] have "slot_data htonl f ?L (words (rw_heap w)) (words (rw_heap w3)) (insert k {..<k}) {} {}"
    unfolding w3(5) by simp
  moreover have "rdma_same w w3" using w1(2) w3(2) by (simp add: rdma_same_def)
  ultimately show ?case using w1(1) r w3(1,3,4) by (simp add: lessThan_Suc)
qed

text \<open>What a job slice of integers needs: sizes without overflow, disjoint buffers, and the thread idle.\<close>

definition rdma_ready :: "rdma_env \<Rightarrow> nat \<Rightarrow> nat \<Rightarrow> Tensor \<Rightarrow> rdma_worker \<Rightarrow> bool" where
  "rdma_ready env n nq ten w \<longleftrightarrow>
     env_ok env \<and> rdma_sizes env n nq \<and> 0 < nq \<and> rdma_lens nq w \<and> timers_ok env {} w \<and>
     ppp_kind (rw_ppp w) = CpuExponentQuantizerPPP \<and> ppp_ltu_size (rw_ppp w) = 4 * n \<and>
     data_type ten = INT32 \<and> 0 < numel ten \<and> 4 * numel ten + 4 * n < 2 ^ 64 \<and>
     layout_ok (job_layout ten n (re_buffer env) (min nq (ltus (job_layout ten n (re_buffer env) nq))))"

definition rdma_batch :: "rdma_env \<Rightarrow> nat \<Rightarrow> nat \<Rightarrow> Tensor \<Rightarrow> nat" where
  "rdma_batch env n nq ten = min nq (ltus (job_layout ten n (re_buffer env) nq))"

lemma rdma_begin_ok:
  assumes ready: "rdma_ready env n nq (slice js) w"
  defines "B \<equiv> rdma_batch env n nq (slice js)"
  shows "\<exists>p w1. rdma_setting env (slice js) n nq B p \<and>
     rdma_begin env garbage npkts nq js w = Inr (B, ltus (job_layout (slice js) n (re_buffer env) B), w1) \<and>
     rdma_inv env (slice js) n f B nq p (words (rw_heap w)) w1"
proof -
  let ?L = "job_layout (slice js) n (re_buffer env) B"
  define N where "N = ltus ?L"
  have N0: "N = ltus (job_layout (slice js) n (re_buffer env) nq)" unfolding N_def by (rule ltus_batch)
  have r: "env_ok env" "rdma_sizes env n nq" "0 < nq" "rdma_lens nq w" "timers_ok env {} w"
    "ppp_kind (rw_ppp w) = CpuExponentQuantizerPPP" "ppp_ltu_size (rw_ppp w) = 4 * n" "data_type (slice js) = INT32"
    "0 < numel (slice js)" "4 * numel (slice js) + 4 * n < 2 ^ 64" "layout_ok ?L"
    using ready by (simp_all add: rdma_ready_def B_def rdma_batch_def)
  have n: "0 < n" using r(2) by (simp add: rdma_sizes_def)
  have Nb: "N \<le> numel (slice js)" "0 < N" using ltus_bounds[of ?L] n r(9) by (simp_all add: N_def)
  have Bm: "B = min nq N" unfolding B_def rdma_batch_def N0 ..
  have B: "0 < B" "B \<le> N" "B \<le> nq" using r(3) Nb(2) by (simp_all add: Bm)
  obtain p where p: "SetupJobSlice garbage (slice js) (rw_ppp w) = Inr (N, p)" "int32_ppp (slice js) n p"
    "NeedsExtraBatch p = Inr False"
    using setup_int32[OF r(6-8) n r(10), of garbage "re_buffer env" B] unfolding N_def by blast
  have set: "rdma_setting env (slice js) n nq B p"
    using r(1,2,10,11) p(2) B Nb(1) unfolding rdma_setting_def N_def by linarith
  let ?w0 = "w\<lparr>rw_ppp := p, rw_msg_ids := init_msg_ids B (rw_msg_ids w), rw_received := 0,
     rw_wrong := 0, rw_correct := 0, rw_sent := 0, rw_timeouts := 0\<rparr>"
  have len: "length (rw_msg_ids w) = nq" using r(4) by (simp add: rdma_lens_def)
  have "rdma_lens nq ?w0" "timers_ok env {} ?w0" using r(4,5) by (simp_all add: rdma_lens_def timers_ok_def)
  moreover have i0: "\<forall>q < B. rw_msg_ids ?w0 ! q = q" using init_msg_ids_nth len B(3) by simp
  ultimately obtain w1 where w1: "send_first_batch env B ?w0 = Inr w1" "rdma_same ?w0 w1" "rdma_lens nq w1" "timers_ok env {..<B} w1"
    "slot_data htonl f ?L (words (rw_heap w)) (words (rw_heap w1)) {..<B} {} {}"
    using send_first_batch_ok[OF r(1,2,11) B(3), of ?w0 B f] B(2) p(2) unfolding N_def by auto
  let ?w2 = "w1\<lparr>rw_sent := u64_mul npkts B\<rparr>" and ?ids = "rw_msg_ids w1"
  have ids: "\<forall>q < B. ?ids ! q = q" "length ?ids = nq" using w1(2) i0 len by (simp_all add: rdma_same_def)
  have run: "rdma_begin env garbage npkts nq js w = Inr (B, N, ?w2)"
    using p(1,3) w1(1) by (simp add: rdma_begin_def Let_def Bm[symmetric])
  have lv: "live B N ?ids = {..<B}" using ids(1) B(2) by (auto simp: live_def)
  have idok: "ids_ok B ?ids" using ids B(1,3) by (simp add: ids_ok_def)
  have "take B ?ids = [0..<B]" using ids B(3) by (intro nth_equalityI) simp_all
  then have o: "outs B N ?ids = [0..<B]" using B(2) by (simp add: outs_def)
  have z: "pkt_done B N (outs B N ?ids) = {}" unfolding o using pkt_start[OF B(1,2)] by blast
  have im: "(!) ?ids ` {..<B} = {..<B}" using ids(1) by (auto simp: image_iff)
  have "rw_ppp w1 = p" "rw_received w1 = 0" using w1(2) by (simp_all add: rdma_same_def)
  then have "rdma_inv env (slice js) n f B nq p (words (rw_heap w)) ?w2"
    using w1(3-5) idok
    by (simp add: rdma_inv_def rdma_mid_def Let_def N_def[symmetric] lv im z rdma_lens_def timers_ok_def)
  then show ?thesis using set run unfolding N_def by blast
qed

text \<open>The network answers every poll, and again and again delivers a message that is waited for.\<close>

definition net_ok :: "rdma_env \<Rightarrow> Tensor \<Rightarrow> nat \<Rightarrow> (nat \<Rightarrow> 32 word \<Rightarrow> 32 word) \<Rightarrow> nat \<Rightarrow> rdma_net \<Rightarrow> bool" where
  "net_ok env ten n f B net \<longleftrightarrow> (\<forall>k w. \<exists>R. answer_ok env ten n f B R w (net k w))"

definition delivers :: "rdma_env \<Rightarrow> Tensor \<Rightarrow> nat \<Rightarrow> (nat \<Rightarrow> 32 word \<Rightarrow> 32 word) \<Rightarrow> nat \<Rightarrow> rdma_net \<Rightarrow> nat \<Rightarrow> bool" where
  "delivers env ten n f B net k \<longleftrightarrow>
     (\<forall>w. live B (ltus (job_layout ten n (re_buffer env) B)) (rw_msg_ids w) \<noteq> {} \<longrightarrow>
       (\<exists>R. R \<noteq> {} \<and> answer_ok env ten n f B R w (net k w)))"

definition net_fair :: "rdma_env \<Rightarrow> Tensor \<Rightarrow> nat \<Rightarrow> (nat \<Rightarrow> 32 word \<Rightarrow> 32 word) \<Rightarrow> nat \<Rightarrow> rdma_net \<Rightarrow> bool" where
  "net_fair env ten n f B net \<longleftrightarrow> (\<forall>k. \<exists>j \<ge> k. delivers env ten n f B net j)"

lemma rdma_loop_of:
  "loop_of (\<lambda>k w. rw_received w < N \<and> running k) (\<lambda>k w. rdma_iteration env B N npkts (net k w) w)
     (rdma_loop env B N npkts net running)"
  by (simp add: loop_of_def)

lemma rdma_progress:
  assumes set: "rdma_setting env ten n nq B p" and N: "N = ltus (job_layout ten n (re_buffer env) B)"
    and net: "net_ok env ten n f B net" and inv: "rdma_inv env ten n f B nq p m0 w" and less: "rw_received w < N"
  shows "\<exists>w'. rdma_iteration env B N npkts (net k w) w = Inr w' \<and> rdma_inv env ten n f B nq p m0 w' \<and>
     N - rw_received w' \<le> N - rw_received w \<and>
     (delivers env ten n f B net k \<longrightarrow> N - rw_received w' < N - rw_received w)"
proof -
  let ?ids = "rw_msg_ids w"
  have i: "ids_ok B ?ids" "rw_received w = card (pkt_done B N (outs B N ?ids))"
    using inv by (simp_all add: rdma_inv_def rdma_mid_def Let_def N)
  have "outs B N ?ids \<noteq> []" using i(2) less pkt_done_card(2)[OF outs_pkt_inv[OF i(1)], of N] by auto
  then have lv: "live B N ?ids \<noteq> {}" using set_outs[OF i(1), of N] by auto
  obtain R where R: "answer_ok env ten n f B R w (net k w)" "delivers env ten n f B net k \<longrightarrow> R \<noteq> {}"
    using net lv unfolding net_ok_def delivers_def N by blast
  then obtain w' where w': "rdma_iteration env B N npkts (net k w) w = Inr w'" "rdma_inv env ten n f B nq p m0 w'"
    "rw_received w' = rw_received w + card R"
    using rdma_iteration_ok[OF set inv R(1)] unfolding N by blast
  have "R \<subseteq> live B N ?ids" using R(1) by (simp add: answer_ok_def Let_def N)
  then have "finite R" by (rule finite_subset) simp
  then have pos: "R \<noteq> {} \<longrightarrow> 0 < card R" by (simp add: card_gt_0_iff)
  have "ids_ok B (rw_msg_ids w')" "rw_received w' = card (pkt_done B N (outs B N (rw_msg_ids w')))"
    using w'(2) by (simp_all add: rdma_inv_def rdma_mid_def Let_def N)
  then have "rw_received w' \<le> N" using pkt_done_card(1)[OF outs_pkt_inv] by simp
  then have "N - rw_received w' \<le> N - rw_received w" "delivers env ten n f B net k \<longrightarrow> N - rw_received w' < N - rw_received w"
    using w'(3) pos R(2) less by auto
  then show ?thesis using w'(1,2) by blast
qed

lemma rdma_loop_safe:
  assumes set: "rdma_setting env ten n nq B p" and N: "N = ltus (job_layout ten n (re_buffer env) B)"
    and net: "net_ok env ten n f B net" and inv: "rdma_inv env ten n f B nq p m0 w"
  shows "rdma_loop env B N npkts net running fuel k w = None \<or>
     (\<exists>w' k'. rdma_loop env B N npkts net running fuel k w = Some (Inr w') \<and> rdma_inv env ten n f B nq p m0 w' \<and>
        \<not> (rw_received w' < N \<and> running k'))"
proof -
  have "\<exists>w'. rdma_iteration env B N npkts (net k w) w = Inr w' \<and> rdma_inv env ten n f B nq p m0 w'"
    if "rdma_inv env ten n f B nq p m0 w" "rw_received w < N \<and> running k" for k w
    using rdma_progress[OF set N net that(1)] that(2) by blast
  from loop_safe[OF rdma_loop_of[where running = running and net = net] this inv] show ?thesis .
qed

lemma rdma_loop_returns:
  assumes set: "rdma_setting env ten n nq B p" and N: "N = ltus (job_layout ten n (re_buffer env) B)"
    and net: "net_ok env ten n f B net" "net_fair env ten n f B net" and inv: "rdma_inv env ten n f B nq p m0 w"
  shows "\<exists>fuel. rdma_loop env B N npkts net running fuel k w \<noteq> None"
  by (rule loop_returns[OF rdma_loop_of, where I = "rdma_inv env ten n f B nq p m0" and rest = "\<lambda>w. N - rw_received w"
        and good = "delivers env ten n f B net"])
    (use rdma_progress[OF set N net(1)] net(2) inv in \<open>auto simp: net_fair_def\<close>)

definition rdma_stats_ok :: "nat \<Rightarrow> Stats \<Rightarrow> bool" where
  "rdma_stats_ok tid s \<longleftrightarrow> (\<forall>field \<in> {total_pkts_sent, wrong_pkts_received, correct_pkts_received, timeouts_num}.
     \<exists>xs. field s = Some xs \<and> tid < length xs)"

lemma rdma_finish_ok:
  assumes "rdma_stats_ok tid s"
  shows "\<exists>s'. rdma_finish tid w s = Inr (w\<lparr>rw_ppp := CleanupJobSlice (rw_ppp w)\<rparr>, s') \<and> rdma_stats_ok tid s'"
  using assms
  by (auto simp: rdma_stats_ok_def rdma_finish_def AddCorrectPktsReceived_def AddTotalPktsSent_def
      AddWrongPktsReceived_def AddTimeouts_def add_at_def)


text \<open>C18: Whenever the context stops and whatever the network does within its contract, a worker of the RDMA backend
  on a job slice of integers reaches no failing check, no error of the verbs library and no access out of bounds.\<close>
theorem rdma_never_aborts:
  assumes "rdma_ready env n nq (slice js) w" and "rdma_stats_ok (re_tid env) s"
    and "net_ok env (slice js) n f (rdma_batch env n nq (slice js)) net"
  shows "rdma_slice env garbage npkts nq net running fuel js w s \<noteq> Some (Inl err)"
proof -
  define B where "B = rdma_batch env n nq (slice js)"
  let ?L = "job_layout (slice js) n (re_buffer env) B"
  obtain p w1 where set: "rdma_setting env (slice js) n nq B p"
    and start: "rdma_begin env garbage npkts nq js w = Inr (B, ltus ?L, w1)"
    and inv: "rdma_inv env (slice js) n f B nq p (words (rw_heap w)) w1"
    using rdma_begin_ok[OF assms(1), of garbage npkts f] unfolding B_def by blast
  have fin: "rdma_finish (re_tid env) v s \<noteq> Inl err" for v using rdma_finish_ok[OF assms(2), of v] by auto
  show ?thesis
    using rdma_loop_safe[OF set refl assms(3)[folded B_def] inv, of npkts running fuel 0] start fin
    by (auto simp: rdma_slice_def split: option.splits)
qed

text \<open>A network that delivers one message per poll, in the order of the queue pairs.\<close>

definition serial_net :: "rdma_env \<Rightarrow> Tensor \<Rightarrow> nat \<Rightarrow> (nat \<Rightarrow> 32 word \<Rightarrow> 32 word) \<Rightarrow> nat \<Rightarrow> rdma_net" where
  "serial_net env ten n f B k w =
     (let L = job_layout ten n (re_buffer env) B; ids = rw_msg_ids w; m = words (rw_heap w)
      in case filter (\<lambda>q. ids ! q < ltus L) [0..<B] of
           [] \<Rightarrow> (Inr [], m)
         | q # qs \<Rightarrow>
             (Inr [\<lparr>wc_success = True, wc_opcode = IBV_WC_RECV_RDMA_WITH_IMM, wc_with_imm = True, wc_wr_id = q,
                    wc_imm_data = of_nat (short_id (ids ! q))\<rparr>],
              \<lambda>a. let i = (a - slot L (ids ! q)) div 4
                   in if slot L (ids ! q) \<le> a \<and> (a - slot L (ids ! q)) mod 4 = 0 \<and> i < n
                      then htonl (f (ids ! q * n + i) (ntohl (m a))) else m a))"

lemma short_id_received: "unat (of_nat (short_id i) AND (0xFFFF :: 32 word)) = short_id i"
proof -
  have "(0xFFFF :: 32 word) = mask 16" by (simp add: mask_eq_exp_minus_1)
  then have "of_nat (short_id i) AND (0xFFFF :: 32 word) = take_bit 16 (of_nat (short_id i))"
    by (simp add: take_bit_eq_mask)
  also have "unat (take_bit 16 (of_nat (short_id i) :: 32 word)) = take_bit 16 (take_bit 32 (short_id i))"
    by (simp only: unsigned_take_bit_eq unsigned_of_nat) simp
  also have "\<dots> = short_id i" by (simp only: take_bit_take_bit) (simp add: short_id_def take_bit_eq_mod)
  finally show ?thesis .
qed

lemma serial_net_delivers:
  assumes B: "B \<le> 2 ^ 16" and q: "filter (\<lambda>q. rw_msg_ids w ! q < ltus (job_layout ten n (re_buffer env) B)) [0..<B] = q # qs"
  shows "answer_ok env ten n f B {q} w (serial_net env ten n f B k w)"
proof -
  let ?L = "job_layout ten n (re_buffer env) B" and ?ids = "rw_msg_ids w"
  have "q \<in> set (filter (\<lambda>q. ?ids ! q < ltus ?L) [0..<B])" unfolding q by simp
  then have lv: "q < B" "?ids ! q < ltus ?L" by simp_all
  then have qm: "q mod 2 ^ 16 = q" using B by (intro mod_less) (rule less_le_trans)
  have "cnt ?L (?ids ! q) \<le> n" using cnt_le_n[of ?L] by simp
  then show ?thesis
    using lv qm q by (auto simp: answer_ok_def Let_def serial_net_def live_def completion_qpn_def received_short_id_def
        short_id_received in_block_def)
qed

lemma serial_net_ok:
  assumes "B \<le> 2 ^ 16"
  shows "net_ok env ten n f B (serial_net env ten n f B)" and "net_fair env ten n f B (serial_net env ten n f B)"
proof -
  let ?fl = "\<lambda>w. filter (\<lambda>q. rw_msg_ids w ! q < ltus (job_layout ten n (re_buffer env) B)) [0..<B]"
  have "\<exists>R. answer_ok env ten n f B R w (serial_net env ten n f B k w)" for k w
  proof (cases "?fl w")
    case Nil
    then show ?thesis by (intro exI[of _ "{}"]) (simp add: answer_ok_def Let_def serial_net_def)
  next
    case (Cons q qs)
    from serial_net_delivers[OF assms Cons] show ?thesis by blast
  qed
  then show "net_ok env ten n f B (serial_net env ten n f B)" by (simp add: net_ok_def)
  have "delivers env ten n f B (serial_net env ten n f B) k" for k
    unfolding delivers_def
  proof (intro allI impI)
    fix w :: rdma_worker
    assume "live B (ltus (job_layout ten n (re_buffer env) B)) (rw_msg_ids w) \<noteq> {}"
    then have "?fl w \<noteq> []" by (auto simp: live_def filter_empty_conv)
    then obtain q qs where "?fl w = q # qs" by (cases "?fl w") auto
    from serial_net_delivers[OF assms this] show "\<exists>R. R \<noteq> {} \<and> answer_ok env ten n f B R w (serial_net env ten n f B k w)" by blast
  qed
  then show "net_fair env ten n f B (serial_net env ten n f B)" by (auto simp: net_fair_def)
qed

lemma rdma_start_ok:
  assumes "env_ok env" and "gc_prepostprocessor (general (re_config env)) = ''cpu_exponent_quantizer''"
    and "rdma_outstanding_msgs (re_config env) = Inr nq" and "0 < nq" and "nq \<le> 2 ^ 16"
    and "n = rdma_msg_numel (bc_rdma (backend_cfg (re_config env)))" and "0 < n" and "4 * n * nq \<le> 2 ^ 32" and "4 * n < 2 ^ 32"
    and "data_type ten = INT32" and "0 < numel ten" and "4 * numel ten + 4 * n < 2 ^ 64"
    and "layout_ok (job_layout ten n (re_buffer env) (rdma_batch env n nq ten))"
  shows "\<exists>w. rdma_start env nq nq h = Inr (n div gc_packet_numel (general (re_config env)), w) \<and>
     rdma_ready env n nq ten w \<and> rw_heap w = h"
proof -
  let ?c = "re_config env"
  obtain k where k: "rdma_pkts_per_msg ?c = Inr k" using assms(3) by (cases "rdma_pkts_per_msg ?c") (auto simp: rdma_outstanding_msgs_def)
  then have kv: "k = n div gc_packet_numel (general ?c)" using assms(6) by (auto simp: rdma_pkts_per_msg_def split: if_splits)
  have sz: "msg_size ?c = 4 * n" using assms(6,9) by (simp add: msg_size_def u64_simps mult.commute)
  have "nq * (4 * n) \<le> 2 ^ 32" using assms(8) by (simp only: mult.commute)
  then have rs: "rdma_sizes env n nq" unfolding rdma_sizes_def using sz assms(5,7) by blast
  obtain w where w: "rdma_start env nq nq h = Inr (k, w)" "rw_heap w = h" "rdma_lens nq w" "timers_ok env {} w"
    "rw_ppp w = new_PPP CpuExponentQuantizerPPP (gc_num_workers (general ?c)) (re_tid env) (4 * n) nq"
    using k assms(2,3) sz by (auto simp: rdma_start_def Let_def CreatePPP_def rdma_lens_def timers_ok_def)
  have "rdma_ready env n nq ten w"
    using assms(1,4,10-13) rs w(3-5) by (simp add: rdma_ready_def new_PPP_def rdma_batch_def)
  then show ?thesis using w(1,2) kv by blast
qed

text \<open>C21: The constructor of the worker and the lines before its main loop leave a thread that is ready for any job slice
  of integers: with \<open>nq\<close> queue pairs, as many as the configured share of outstanding messages, no check fails, the
  processor's units are messages, all timers are off, and memory is untouched. The slots of all queue pairs
  must fit into 32 bits, the width in which the code computes their offsets.\<close>
theorem rdma_start_ready:
  assumes "env_ok env" and "gc_prepostprocessor (general (re_config env)) = ''cpu_exponent_quantizer''"
    and "rdma_outstanding_msgs (re_config env) = Inr nq" and "0 < nq" and "nq \<le> 2 ^ 16"
    and "n = rdma_msg_numel (bc_rdma (backend_cfg (re_config env)))" and "0 < n" and "4 * n * nq \<le> 2 ^ 32" and "4 * n < 2 ^ 32"
    and "data_type ten = INT32" and "0 < numel ten" and "4 * numel ten + 4 * n < 2 ^ 64"
    and "layout_ok (job_layout ten n (re_buffer env) (rdma_batch env n nq ten))"
  shows "\<exists>w. rdma_start env nq nq h = Inr (n div gc_packet_numel (general (re_config env)), w) \<and>
     rdma_ready env n nq ten w \<and> rw_heap w = h"
  by (rule rdma_start_ok[OF assms])

text \<open>The pool slots of the switch that a queue pair uses for the packets of a message: pairs of a slot and its shadow.\<close>

definition pool_slots :: "nat \<Rightarrow> nat \<Rightarrow> nat set" where
  "pool_slots index npkts = {index div 2 ..< index div 2 + npkts}"

lemma pool_index_value:
  assumes "tid < threads" and "qpn < nq" and "threads * nq * npkts * 2 \<le> 2 ^ 16" and "0 < npkts"
  shows "pool_index nq tid qpn npkts = 2 * ((nq * tid + qpn) * npkts) + 1"
proof -
  have "nq * tid + qpn < nq * Suc tid" using assms(2) by simp
  also have "\<dots> \<le> nq * threads" using assms(1) by (intro mult_le_mono2) simp
  finally have "Suc (nq * tid + qpn) * npkts \<le> nq * threads * npkts" by (intro mult_le_mono1) simp
  then have "(nq * tid + qpn) * npkts + npkts \<le> threads * nq * npkts" by (simp add: mult.commute)
  then have b: "(nq * tid + qpn) * npkts * 2 + 2 \<le> 2 ^ 16" using assms(3,4) by linarith
  then show ?thesis by (simp add: pool_index_def u64_simps u16_id mult.commute)
qed

text \<open>C22: As long as the packets of all queue pairs of all threads fit into 15 bits, different queue pairs, of the same
  worker thread or not, use different slots of the switch, and the pool flag they start with is set.\<close>
theorem pool_slots_disjoint:
  assumes "tid < threads" and "qpn < nq" and "tid' < threads" and "qpn' < nq" and "(tid, qpn) \<noteq> (tid', qpn')"
    and "0 < npkts" and "threads * nq * npkts * 2 \<le> 2 ^ 16"
  shows "pool_slots (pool_index nq tid qpn npkts) npkts \<inter> pool_slots (pool_index nq tid' qpn' npkts) npkts = {} \<and>
     odd (pool_index nq tid qpn npkts)"
proof -
  let ?a = "nq * tid + qpn" and ?b = "nq * tid' + qpn'"
  have ne: "?a \<noteq> ?b"
  proof
    assume eq: "?a = ?b"
    then have "?a div nq = ?b div nq" by (rule arg_cong)
    then have "tid = tid'" using assms(2,4) by simp
    then show False using eq assms(5) by simp
  qed
  have "?a * npkts + npkts \<le> ?b * npkts \<or> ?b * npkts + npkts \<le> ?a * npkts"
  proof (cases "?a < ?b")
    case True
    then have "Suc ?a * npkts \<le> ?b * npkts" by (intro mult_le_mono1) simp
    then show ?thesis by simp
  next
    case False
    then have "Suc ?b * npkts \<le> ?a * npkts" using ne by (intro mult_le_mono1) simp
    then show ?thesis by simp
  qed
  then show ?thesis
    using pool_index_value[OF assms(1,2,7,6)] pool_index_value[OF assms(3,4,7,6)] by (auto simp: pool_slots_def)
qed

text \<open>Nothing checks that bound. The slot index is cut to 16 bits, so queue pairs whose packet offsets
  differ by \<open>2 ^ 15\<close> share their slots in the switch.\<close>
theorem pool_index_truncates:
  assumes "(nq * tid' + qpn') * npkts = (nq * tid + qpn) * npkts + 2 ^ 15" and "(nq * tid' + qpn') * npkts < 2 ^ 62"
  shows "pool_index nq tid' qpn' npkts = pool_index nq tid qpn npkts"
proof -
  define a where "a = (nq * tid + qpn) * npkts"
  have b: "(nq * tid' + qpn') * npkts * 2 = a * 2 + 2 ^ 16" unfolding assms(1) a_def[symmetric] by simp
  have "x < 2 ^ 62 \<Longrightarrow> x * 2 < (2 :: nat) ^ 64" for x by simp
  from this[OF assms(2)] have "a * 2 + 2 ^ 16 < 2 ^ 64" unfolding b .
  then have "u64 (a * 2 + 2 ^ 16) = a * 2 + 2 ^ 16" "u64 (a * 2) = a * 2" by (simp_all add: u64_simps)
  moreover have "a * 2 + 2 ^ 16 + 1 = (a * 2 + 1) + 2 ^ 16" by (simp only: ac_simps)
  then have "(a * 2 + 2 ^ 16 + 1) mod 2 ^ 16 = (a * 2 + 1) mod 2 ^ 16" by (simp only: mod_add_self2)
  ultimately show ?thesis by (simp only: pool_index_def u16_def b a_def[symmetric])
qed

text \<open>C24: A retransmission posts the same work request again, up to the request for a completion, and neither runs the
  prepostprocessor nor touches memory: what is sent is whatever the slot of the buffer then holds.\<close>
theorem retransmission_repeats:
  assumes "PostSendWr env q True w = Inr w'"
  shows "\<exists>wr. last (rw_posted w') = Posted_send q wr (re_buffer env + u64_mul q (msg_size (re_config env))) \<and>
     wr\<lparr>wr_signaled := wr_signaled (rw_send_wrs w ! q)\<rparr> = rw_send_wrs w ! q \<and> rw_heap w' = rw_heap w \<and> rw_ppp w' = rw_ppp w"
  using assms
  by (auto simp: PostSendWr_def Let_def post_def split_beta bindE_eq_Inr split: if_splits)

text \<open>A late duplicate of the message that a queue pair received last is recognised by its short number, unless the
  batch is a multiple of \<open>2 ^ 16\<close>: the worker only posts a new receive request and counts wrong packets, and
  memory and message numbers stay.\<close>
theorem duplicate_detected:
  assumes "env_ok env" and "rdma_lens nq w" and "completion_qpn c < nq"
    and "rw_msg_ids w ! completion_qpn c = i + B" and "received_short_id c = short_id i" and "0 < B" and "B < 2 ^ 16"
  shows "handle_receive env B N npkts c w = Inr (False, w\<lparr>rw_posted := rw_posted w @ [Posted_recv (completion_qpn c)],
     rw_wrong := u64_add (rw_wrong w) npkts\<rparr>)"
proof -
  have "short_id (i + B) \<noteq> short_id i"
  proof
    assume "short_id (i + B) = short_id i"
    then have "2 ^ 16 dvd i + B - i" unfolding short_id_def by (metis le_add1 mod_eq_dvd_iff_nat)
    then show False using assms(6,7) by (auto dest: dvd_imp_le)
  qed
  then show ?thesis
    using PostRecvWr_ok[OF assms(1,2,3)] assms(2-5) by (simp add: handle_receive_def Let_def rdma_lens_def)
qed

definition sample_env :: rdma_env where
  "sample_env = \<lparr>re_config = default_Config, re_tid = 1, re_buffer = 2 ^ 20, re_imm_byte = 2 ^ 30,
     re_clock = (\<lambda>k. 1000 * int k), re_post = (\<lambda>_. (0, False))\<rparr>"

definition sample_slice :: JobSlice where
  "sample_slice = \<lparr>slice_job = 3, slice = Tensor.make 0 0 5000 INT32\<rparr>"

definition sample_stats :: Stats where
  "sample_stats = new_Stats\<lparr>total_pkts_sent := Some [0, 0], wrong_pkts_received := Some [0, 0],
     correct_pkts_received := Some [0, 0], timeouts_num := Some [0, 0]\<rparr>"

definition sample_heap :: heap where
  "sample_heap = \<lparr>words = (\<lambda>a. of_nat a), bytes = (\<lambda>_. 0)\<rparr>"

lemmas sample_defs = sample_env_def sample_slice_def sample_stats_def sample_heap_def default_Config_def
  default_GeneralConfig_def default_RdmaBackendConfig_def Tensor.make_def

lemma sample_env_ok: "env_ok sample_env"
  by (auto simp: env_ok_def sample_env_def mono_def)

lemma sample_batch: "rdma_batch sample_env 1024 64 (slice sample_slice) = 5"
  by (simp add: rdma_batch_def ltus_def sample_defs)

lemma sample_layout: "layout_ok (job_layout (slice sample_slice) 1024 (re_buffer sample_env) 5)"
  by (simp add: layout_ok_def apart_def sample_defs)

lemma sample_outstanding: "rdma_outstanding_msgs (re_config sample_env) = Inr 64"
  by (simp add: rdma_outstanding_msgs_def rdma_pkts_per_msg_def sample_defs)

lemma sample_config:
  "gc_prepostprocessor (general (re_config sample_env)) = ''cpu_exponent_quantizer''"
  "rdma_msg_numel (bc_rdma (backend_cfg (re_config sample_env))) = 1024" "gc_packet_numel (general (re_config sample_env)) = 1024"
  "data_type (slice sample_slice) = INT32" "numel (slice sample_slice) = 5000" "re_tid sample_env = 1"
  by (simp_all add: sample_defs)

lemma rdma_start_ready_witness:
  "\<exists>w. rdma_start sample_env 64 64 sample_heap = Inr (1, w) \<and> tq_list (rw_timers w) = []"
  using rdma_start_ready[OF sample_env_ok sample_config(1) sample_outstanding, of 1024 "slice sample_slice" sample_heap] sample_layout
  by (auto simp: sample_config sample_batch rdma_ready_def timers_ok_def)

lemma sample_start: "\<exists>w. rdma_start sample_env 64 64 sample_heap = Inr (1, w) \<and>
    rdma_ready sample_env 1024 64 (slice sample_slice) w \<and> rw_heap w = sample_heap"
  using rdma_start_ok[OF sample_env_ok sample_config(1) sample_outstanding, of 1024 "slice sample_slice" sample_heap] sample_layout
  by (auto simp: sample_config sample_batch)

lemma sample_stats_ok: "rdma_stats_ok (re_tid sample_env) sample_stats"
  by (simp add: rdma_stats_ok_def sample_defs)


lemma rdma_never_aborts_witness:
  "\<exists>w. rdma_start sample_env 64 64 sample_heap = Inr (1, w) \<and>
     rdma_slice sample_env (\<lambda>_. NaN) 1 64 (serial_net sample_env (slice sample_slice) 1024 (\<lambda>_ v. v + 7) 5) (\<lambda>k. k < 3) 9
       sample_slice w sample_stats \<noteq> Some (Inl (Fatal ''received completion error''))"
proof -
  obtain w where w: "rdma_start sample_env 64 64 sample_heap = Inr (1, w)"
    "rdma_ready sample_env 1024 64 (slice sample_slice) w" using sample_start by blast
  show ?thesis
    using rdma_never_aborts[OF w(2) sample_stats_ok, where f = "\<lambda>_ v. v + 7"
        and net = "serial_net sample_env (slice sample_slice) 1024 (\<lambda>_ v. v + 7) 5"]
      serial_net_ok(1)[of 5 sample_env "slice sample_slice" 1024 "\<lambda>_ v. v + 7"] w(1)
    by (auto simp: sample_batch)
qed

text \<open>The default configuration; and 16 queue pairs of messages of 256 packets for each of 10 threads, which is too much.\<close>

lemma pool_slots_disjoint_witness:
  "pool_slots (pool_index 64 1 3 1) 1 \<inter> pool_slots (pool_index 64 3 1 1) 1 = {} \<and> odd (pool_index 64 1 3 1)"
  by (rule pool_slots_disjoint[of _ 4]) simp_all

lemma pool_index_truncates_witness: "pool_index 16 8 0 256 = pool_index 16 0 0 256"
  by (rule pool_index_truncates) simp_all

definition sample_rdma_worker :: rdma_worker where
  "sample_rdma_worker = \<lparr>rw_ppp = new_PPP CpuExponentQuantizerPPP 2 1 4096 2, rw_heap = sample_heap, rw_msg_ids = [4, 3],
     rw_send_wrs = map (init_send_wr 2 1 1) [0..<2], rw_sge_addrs = [0, 0], rw_write_count = [2, 1],
     rw_timers = TimeoutQueue 2 10 100 100, rw_now = 7, rw_posted = [], rw_received = 3, rw_wrong = 0,
     rw_correct = 3, rw_sent = 5, rw_timeouts = 0\<rparr>"

lemma sample_rdma_lens: "rdma_lens 2 sample_rdma_worker"
  by (simp add: rdma_lens_def sample_rdma_worker_def)

lemma sample_rdma_timers: "timers_ok sample_env {} sample_rdma_worker"
  by (simp add: timers_ok_def sample_rdma_worker_def)

lemma retransmission_repeats_witness:
  "\<exists>w'. PostSendWr sample_env 1 True sample_rdma_worker = Inr w' \<and> rw_heap w' = sample_heap"
proof -
  obtain w' where w': "PostSendWr sample_env 1 True sample_rdma_worker = Inr w'"
    using PostSendWr_ok[OF sample_env_ok sample_rdma_lens sample_rdma_timers, of 1 True] by auto
  then show ?thesis using retransmission_repeats[OF w'] by (auto simp: sample_rdma_worker_def)
qed

lemma duplicate_detected_witness:
  "\<exists>w'. handle_receive sample_env 2 6 1 \<lparr>wc_success = True, wc_opcode = IBV_WC_RECV_RDMA_WITH_IMM, wc_with_imm = True,
     wc_wr_id = 0x10000, wc_imm_data = 2\<rparr> sample_rdma_worker = Inr (False, w') \<and> rw_wrong w' = 1"
  using duplicate_detected[OF sample_env_ok sample_rdma_lens, of "\<lparr>wc_success = True, wc_opcode = IBV_WC_RECV_RDMA_WITH_IMM,
      wc_with_imm = True, wc_wr_id = 0x10000, wc_imm_data = 2\<rparr>" 2 2 6 1]
  by (simp add: completion_qpn_def received_short_id_def short_id_def sample_rdma_worker_def u64_simps)

end
