(* ===== verification/Rdma_Connection.thy ===== *)
theory Rdma_Connection
  imports Grpc_Client Rdma_Utils Rdma_Worker
begin

unbundle bit_operations_syntax

text \<open>
  The connection of the RDMA backend (client_lib/src/backends/rdma/rdma_connection.cc and rdma_endpoint.cc):
  opening the device, the registered buffer, the creation and bring-up of the queue pairs, the exchange with the
  controller, and the shares of the worker threads. The verbs library and the controller are parameters.
\<close>

section \<open>The verbs library\<close>

record mem_region =
  mr_addr :: nat
  mr_length :: nat
  mr_lkey :: "32 word"
  mr_rkey :: "32 word"

text \<open>The attributes that each transition passes with its mask; the others have no effect for this type of queue pair.\<close>

datatype qp_attr =
    Attr_INIT nat
  | Attr_RTR "32 word" "32 word" nat gid nat nat
  | Attr_RTS "32 word"

datatype qp_state = IBV_QPS_RESET | IBV_QPS_INIT | IBV_QPS_RTR | IBV_QPS_RTS

datatype conn_event = Created_cq nat | Created_qp nat nat | Modified nat qp_attr | Called grpc_call

text \<open>
  The answers of the library. \<open>vb_modify\<close> sees the events so far; it returns 0 for success and, as documented,
  the value of errno, a positive number, for a failure.
\<close>

record verbs =
  vb_devices :: "string list option"
  vb_open :: "string \<Rightarrow> bool"
  vb_query_device :: "int \<times> nat"
  vb_query_port :: int
  vb_gid_tbl_len :: nat
  vb_query_gid :: "nat \<Rightarrow> int \<times> gid"
  vb_alloc_pd :: bool
  vb_hugepagesize :: "64 word"
  vb_mmap :: "nat \<Rightarrow> 64 word \<Rightarrow> nat option"
  vb_reg_mr :: "nat \<Rightarrow> nat \<Rightarrow> mem_region option"
  vb_dereg_mr :: int
  vb_munmap :: int
  vb_create_cq :: "nat \<Rightarrow> nat option"
  vb_create_qp :: "nat \<Rightarrow> nat \<Rightarrow> 32 word option"
  vb_modify :: "conn_event list \<Rightarrow> nat \<Rightarrow> qp_attr \<Rightarrow> int"

section \<open>The endpoint\<close>

record RdmaEndpoint =
  ep_device :: string
  ep_device_port_id :: nat
  ep_gid_index :: nat
  ep_gid :: gid

text \<open>The last device of that name, or the only device.\<close>

definition choose_device :: "string \<Rightarrow> string list \<Rightarrow> string option" where
  "choose_device device_name devices =
     foldl (\<lambda>d name. if length devices = 1 \<or> device_name = name then Some name else d) None devices"

definition new_RdmaEndpoint :: "verbs \<Rightarrow> string \<Rightarrow> nat \<Rightarrow> nat \<Rightarrow> RdmaEndpoint outcome" where
  "new_RdmaEndpoint vb device_name device_port_id gid_index =
     (case vb_devices vb of
        None \<Rightarrow> Inl (Fatal ''No Verbs-capable devices!'')
      | Some devices \<Rightarrow>
          (case choose_device device_name devices of
             None \<Rightarrow> Inl (Fatal ''Didn't find device'')
           | Some device \<Rightarrow>
               if \<not> vb_open vb device then Inl (Fatal ''Failed to get context for device'')
               else if \<not> fst (vb_query_device vb) \<ge> 0 then Inl (Fatal ''Error getting device attributes'')
               else if \<not> snd (vb_query_device vb) \<ge> device_port_id then Inl (Fatal ''Expected at least that many ports'')
               else if \<not> vb_query_port vb \<ge> 0 then Inl (Fatal ''Error getting port attributes'')
               else if list_ex (\<lambda>i. \<not> fst (vb_query_gid vb i) \<ge> 0) [0..<vb_gid_tbl_len vb] then Inl (Fatal ''Error getting GID'')
               else let (ret, gid) = vb_query_gid vb gid_index
                    in if \<not> ret \<ge> 0 then Inl (Fatal ''Error getting GID'')
                       else if \<not> list_ex (\<lambda>b. b \<noteq> 0) gid then Inl (Fatal ''Selected GID was all zeros'')
                       else if \<not> vb_alloc_pd vb then Inl (Fatal ''Error getting protection domain!'')
                       else Inr \<lparr>ep_device = device, ep_device_port_id = device_port_id, ep_gid_index = gid_index, ep_gid = gid\<rparr>))"

text \<open>Rounding up to a multiple of the huge page size. The result of the check on the page size is always true.\<close>

definition round_up :: "64 word \<Rightarrow> 64 word \<Rightarrow> 64 word" where
  "round_up hugepagesize nbytes = (nbytes + (hugepagesize - 1)) AND NOT (hugepagesize - 1)"

definition AllocateAtAddress :: "verbs \<Rightarrow> nat \<Rightarrow> 64 word \<Rightarrow> mem_region outcome" where
  "AllocateAtAddress vb requested_address nbytes =
     (let len = round_up (vb_hugepagesize vb) nbytes
      in case vb_mmap vb requested_address len of
           None \<Rightarrow> Inl (Fatal ''Error allocating memory region'')
         | Some buf \<Rightarrow>
             if buf \<noteq> requested_address then Inl (Fatal ''Error allocating memory region'')
             else (case vb_reg_mr vb buf (unat len) of
                     None \<Rightarrow> Inl (Fatal ''Error registering memory region'')
                   | Some mr \<Rightarrow> Inr mr))"

definition Endpoint_free :: "verbs \<Rightarrow> unit outcome" where
  "Endpoint_free vb =
     (if \<not> vb_dereg_mr vb \<ge> 0 then Inl (Fatal ''Error deregistering memory region'')
      else if \<not> vb_munmap vb \<ge> 0 then Inl (Fatal ''Error freeing memory region'')
      else Inr ())"

definition CreateCompletionQueue :: "verbs \<Rightarrow> nat \<Rightarrow> nat option" where
  "CreateCompletionQueue vb i = vb_create_cq vb i"

definition CreateQueuePair :: "verbs \<Rightarrow> nat \<Rightarrow> nat \<Rightarrow> 32 word outcome" where
  "CreateQueuePair vb i completion_queue =
     (case vb_create_qp vb i completion_queue of
        None \<Rightarrow> Inl (Fatal ''Error creating queue pair'')
      | Some qp_num \<Rightarrow> Inr qp_num)"

definition GetMac :: "verbs \<Rightarrow> 64 word outcome" where
  "GetMac vb = (let (ret, gid) = vb_query_gid vb 0
     in if \<not> ret \<ge> 0 then Inl (Fatal ''Error getting GID for MAC address'') else Inr (GIDToMAC gid))"

definition GetIPv4 :: "verbs \<Rightarrow> 32 word outcome" where
  "GetIPv4 vb = (let (ret, gid) = vb_query_gid vb 2
     in if \<not> ret \<ge> 0 then Inl (Fatal ''Error getting GID for IPv4 address'') else Inr (GIDToIPv4 gid))"

section \<open>The connection\<close>

record queue_pair =
  qp_num :: "32 word"
  qp_cq :: nat
  qp_state :: qp_state
  qp_attrs :: "qp_attr list"

record rdma_connection =
  rc_config :: Config
  rc_mr :: mem_region
  rc_mtu :: nat
  rc_num_queue_pairs :: nat
  rc_completion_queues :: "nat option list"
  rc_queue_pairs :: "queue_pair option list"
  rc_neighbor_gids :: "gid list"
  rc_neighbor_qpns :: "32 word list"
  rc_neighbor_psns :: "32 word list"
  rc_neighbor_rkeys :: "32 word list"
  rc_calls :: "grpc_call list"
  rc_log :: "conn_event list"

text \<open>IBV_MTU_1024 and IBV_MTU_256 are 3 and 1.\<close>

definition rdma_mtu :: "Config \<Rightarrow> nat" where
  "rdma_mtu c = (if gc_packet_numel (general c) = 256 then 3 else 1)"

definition num_queue_pairs :: "Config \<Rightarrow> nat outcome" where
  "num_queue_pairs c =
     bindE (rdma_pkts_per_msg c) (\<lambda>n.
       if n = 0 then Inl (Crash ''division by zero'') else Inr (u32 (gc_max_outstanding_packets (general c) div n)))"

definition new_RdmaConnection :: "verbs \<Rightarrow> Config \<Rightarrow> rdma_connection outcome" where
  "new_RdmaConnection vb c =
     (let g = general c; r = bc_rdma (backend_cfg c)
      in bindE (new_RdmaEndpoint vb (rdma_device_name r) (rdma_device_port_id r) (rdma_gid_index r)) (\<lambda>_.
         bindE (num_queue_pairs c) (\<lambda>n.
         bindE (AllocateAtAddress vb (2 ^ 44) (of_nat (gc_packet_numel g * gc_max_outstanding_packets g * 4))) (\<lambda>mr.
           Inr \<lparr>rc_config = c, rc_mr = mr, rc_mtu = rdma_mtu c, rc_num_queue_pairs = n,
                rc_completion_queues = replicate (gc_num_worker_threads g) None, rc_queue_pairs = replicate n None,
                rc_neighbor_gids = replicate n (replicate 16 0), rc_neighbor_qpns = replicate n 0,
                rc_neighbor_psns = replicate n 0, rc_neighbor_rkeys = replicate n 0, rc_calls = [], rc_log = []\<rparr>))))"

text \<open>A range of a vector given by iterators.\<close>

definition vector_range :: "'a list \<Rightarrow> nat \<Rightarrow> nat \<Rightarrow> 'a list outcome" where
  "vector_range xs start n = (if start + n \<le> length xs then Inr (take n (drop start xs)) else Inl (Crash ''iterator''))"

definition qps_per_worker_thread :: "rdma_connection \<Rightarrow> nat outcome" where
  "qps_per_worker_thread s =
     (if gc_num_worker_threads (general (rc_config s)) = 0 then Inl (Crash ''division by zero'')
      else Inr (rc_num_queue_pairs s div gc_num_worker_threads (general (rc_config s))))"

definition GetWorkerThreadQueuePairs :: "nat \<Rightarrow> rdma_connection \<Rightarrow> queue_pair option list outcome" where
  "GetWorkerThreadQueuePairs tid s =
     bindE (qps_per_worker_thread s) (\<lambda>n. vector_range (rc_queue_pairs s) (u64_mul n tid) n)"

definition GetWorkerThreadRkeys :: "nat \<Rightarrow> rdma_connection \<Rightarrow> 32 word list outcome" where
  "GetWorkerThreadRkeys tid s =
     bindE (qps_per_worker_thread s) (\<lambda>n. vector_range (rc_neighbor_rkeys s) (u64_mul n tid) n)"

definition GetWorkerThreadMemoryRegion :: "nat \<Rightarrow> rdma_connection \<Rightarrow> (nat \<times> 32 word) outcome" where
  "GetWorkerThreadMemoryRegion tid s =
     (if gc_num_worker_threads (general (rc_config s)) = 0 then Inl (Crash ''division by zero'')
      else Inr (mr_addr (rc_mr s) + u64_mul tid (mr_length (rc_mr s) div gc_num_worker_threads (general (rc_config s))),
                mr_lkey (rc_mr s)))"

definition GetWorkerThreadCompletionQueue :: "nat \<Rightarrow> rdma_connection \<Rightarrow> nat option outcome" where
  "GetWorkerThreadCompletionQueue tid s =
     (if tid < length (rc_completion_queues s) then Inr (rc_completion_queues s ! tid)
      else Inl (Crash ''completion_queues_[worker_thread_id]''))"

section \<open>Bringing the queue pairs up\<close>

definition attr_state :: "qp_attr \<Rightarrow> qp_state" where
  "attr_state a = (case a of Attr_INIT _ \<Rightarrow> IBV_QPS_INIT | Attr_RTR _ _ _ _ _ _ \<Rightarrow> IBV_QPS_RTR | Attr_RTS _ \<Rightarrow> IBV_QPS_RTS)"

text \<open>ibv_modify_qp changes the queue pair when it succeeds; the code aborts for negative results.\<close>

definition modify_qp :: "verbs \<Rightarrow> nat \<Rightarrow> (queue_pair \<Rightarrow> qp_attr) \<Rightarrow> rdma_connection \<Rightarrow> rdma_connection outcome" where
  "modify_qp vb i attr s =
     (if i < length (rc_queue_pairs s)
      then (case rc_queue_pairs s ! i of
              None \<Rightarrow> Inl (Crash ''queue_pairs_[qp_index]'')
            | Some qp \<Rightarrow>
                let a = attr qp; ret = vb_modify vb (rc_log s) i a;
                    qp' = (if ret = 0 then qp\<lparr>qp_state := attr_state a, qp_attrs := qp_attrs qp @ [a]\<rparr> else qp)
                in if \<not> ret \<ge> 0 then Inl (Fatal ''Error setting queue pair state'')
                   else Inr (s\<lparr>rc_queue_pairs := (rc_queue_pairs s)[i := Some qp'], rc_log := rc_log s @ [Modified i a]\<rparr>))
      else Inl (Crash ''queue_pairs_[qp_index]''))"

definition MoveToInit :: "verbs \<Rightarrow> nat \<Rightarrow> rdma_connection \<Rightarrow> rdma_connection outcome" where
  "MoveToInit vb i s = modify_qp vb i (\<lambda>_. Attr_INIT (rdma_device_port_id (bc_rdma (backend_cfg (rc_config s))))) s"

definition MoveToRtr :: "verbs \<Rightarrow> nat \<Rightarrow> rdma_connection \<Rightarrow> rdma_connection outcome" where
  "MoveToRtr vb i s =
     (let r = bc_rdma (backend_cfg (rc_config s))
      in modify_qp vb i (\<lambda>_. Attr_RTR (rc_neighbor_qpns s ! i) (rc_neighbor_psns s ! i) (rc_mtu s) (rc_neighbor_gids s ! i)
           (rdma_gid_index r) (rdma_device_port_id r)) s)"

definition MoveToRts :: "verbs \<Rightarrow> nat \<Rightarrow> rdma_connection \<Rightarrow> rdma_connection outcome" where
  "MoveToRts vb i s = modify_qp vb i (\<lambda>qp. Attr_RTS (qp_num qp div 2)) s"

definition init_cq :: "verbs \<Rightarrow> nat \<Rightarrow> rdma_connection \<Rightarrow> rdma_connection outcome" where
  "init_cq vb i s =
     (case CreateCompletionQueue vb i of
        None \<Rightarrow> Inl (Fatal ''Error creating completion queue'')
      | Some cq \<Rightarrow> Inr (s\<lparr>rc_completion_queues := (rc_completion_queues s)[i := Some cq], rc_log := rc_log s @ [Created_cq i]\<rparr>))"

definition init_qp :: "verbs \<Rightarrow> nat \<Rightarrow> nat \<Rightarrow> rdma_connection \<Rightarrow> rdma_connection outcome" where
  "init_qp vb per i s =
     (if per = 0 then Inl (Crash ''division by zero'')
      else if \<not> i div per < length (rc_completion_queues s) then Inl (Crash ''completion_queues_[i / qps_per_worker_thread]'')
      else let cq = the (rc_completion_queues s ! (i div per))
           in bindE (CreateQueuePair vb i cq) (\<lambda>n.
                Inr (s\<lparr>rc_queue_pairs := (rc_queue_pairs s)[i := Some \<lparr>qp_num = n, qp_cq = cq, qp_state = IBV_QPS_RESET, qp_attrs = []\<rparr>],
                       rc_log := rc_log s @ [Created_qp i cq]\<rparr>)))"

definition InitializeQueuePairs :: "verbs \<Rightarrow> rdma_connection \<Rightarrow> rdma_connection outcome" where
  "InitializeQueuePairs vb s =
     bindE (for_each [0..<gc_num_worker_threads (general (rc_config s))] (init_cq vb) s) (\<lambda>s1.
     bindE (qps_per_worker_thread s1) (\<lambda>per.
     bindE (for_each [0..<rc_num_queue_pairs s1] (init_qp vb per) s1) (\<lambda>s2.
       for_each [0..<rc_num_queue_pairs s2] (MoveToInit vb) s2)))"

definition ConnectQueuePairs :: "verbs \<Rightarrow> rdma_connection \<Rightarrow> rdma_connection outcome" where
  "ConnectQueuePairs vb s =
     bindE (for_each [0..<rc_num_queue_pairs s] (MoveToRtr vb) s) (\<lambda>s1.
       for_each [0..<rc_num_queue_pairs s1] (MoveToRts vb) s1)"

section \<open>Exchange with the controller\<close>

text \<open>A call of the client; it is also an event of the connection.\<close>

definition call_controller ::
  "(grpc_call list \<Rightarrow> ('r \<times> grpc_call list) outcome) \<Rightarrow> rdma_connection \<Rightarrow> ('r \<times> rdma_connection) outcome"
where
  "call_controller f s =
     bindE (f (rc_calls s)) (\<lambda>(r, calls). Inr (r, s\<lparr>rc_calls := calls, rc_log := rc_log s @ [Called (last calls)]\<rparr>))"

definition session_barrier :: "controller \<Rightarrow> rdma_connection \<Rightarrow> (unit \<times> rdma_connection) outcome" where
  "session_barrier ct s =
     call_controller (\<lambda>calls. bindE (Grpc_Barrier ct (gc_num_workers (general (rc_config s))) calls) (\<lambda>cs. Inr ((), cs))) s"

text \<open>The request; \<open>session_id\<close> is cut to the 32 bits of the field of the message.\<close>

definition rdma_request :: "verbs \<Rightarrow> nat \<Rightarrow> rdma_connection \<Rightarrow> RdmaSessionRequest outcome" where
  "rdma_request vb session_id s =
     bindE (GetMac vb) (\<lambda>mac. bindE (GetIPv4 vb) (\<lambda>ipv4.
       let c = rc_config s; qps = map the (rc_queue_pairs s)
       in Inr \<lparr>rq_session_id = u32 session_id, rq_rank = gc_rank (general c), rq_num_workers = gc_num_workers (general c),
               rq_mac = mac, rq_ipv4 = ipv4, rq_rkey = mr_rkey (rc_mr s), rq_packet_size = rc_mtu s,
               rq_message_size = msg_size c, rq_qpns = map qp_num qps, rq_psns = map (\<lambda>qp. qp_num qp div 2) qps\<rparr>))"

text \<open>Storing what is known about the neighbour of queue pair \<open>i\<close>.\<close>

definition store_neighbor :: "RdmaSessionResponse \<Rightarrow> nat \<Rightarrow> rdma_connection \<Rightarrow> rdma_connection outcome" where
  "store_neighbor response i s =
     (if i < length (rs_qpns response) \<and> i < length (rs_psns response)
      then Inr (s\<lparr>rc_neighbor_gids := (rc_neighbor_gids s)[i :=
                    if rdma_gid_index (bc_rdma (backend_cfg (rc_config s))) \<ge> 2 then IPv4ToGID (rs_ipv4 response)
                    else MACToGID (rs_mac response)],
                  rc_neighbor_rkeys := (rc_neighbor_rkeys s)[i := rs_rkey response],
                  rc_neighbor_qpns := (rc_neighbor_qpns s)[i := rs_qpns response ! i],
                  rc_neighbor_psns := (rc_neighbor_psns s)[i := rs_psns response ! i]\<rparr>)
      else Inl (Crash ''response.qpns(i)''))"

definition create_session :: "controller \<Rightarrow> RdmaSessionRequest \<Rightarrow> rdma_connection \<Rightarrow> (RdmaSessionResponse \<times> rdma_connection) outcome" where
  "create_session ct request s =
     (if gc_rank (general (rc_config s)) = 0
      then bindE (call_controller (CreateRdmaSession ct request) s) (\<lambda>(r, s1).
             bindE (session_barrier ct s1) (\<lambda>(_, s2). Inr (r, s2)))
      else bindE (session_barrier ct s) (\<lambda>(_, s1). call_controller (CreateRdmaSession ct request) s1))"

text \<open>\<open>now\<close> is the time in nanoseconds.\<close>

definition ExchangeConnectionInfo :: "verbs \<Rightarrow> controller \<Rightarrow> nat \<Rightarrow> rdma_connection \<Rightarrow> rdma_connection outcome" where
  "ExchangeConnectionInfo vb ct now s =
     (let g = general (rc_config s);
          session_id = (if gc_rank g = 0 then u64 now else 0);
          bcast = \<lparr>br_value = session_id, br_rank = gc_rank g, br_num_workers = gc_num_workers g, br_root = 0\<rparr>
      in bindE (call_controller (Grpc_Broadcast ct bcast) s) (\<lambda>(session_id', s1).
         bindE (rdma_request vb session_id' s1) (\<lambda>request.
         bindE (create_session ct request s1) (\<lambda>(response, s2).
         bindE (session_barrier ct s2) (\<lambda>(_, s3).
           for_each [0..<rc_num_queue_pairs s3] (store_neighbor response) s3)))))"

definition Connect :: "verbs \<Rightarrow> controller \<Rightarrow> nat \<Rightarrow> rdma_connection \<Rightarrow> rdma_connection outcome" where
  "Connect vb ct now s =
     bindE (InitializeQueuePairs vb s) (\<lambda>s1.
     bindE (ExchangeConnectionInfo vb ct now s1) (\<lambda>s2. ConnectQueuePairs vb s2))"

text \<open>RdmaBackend::SetupWorker creates the connection and then one worker thread after the other.\<close>

definition SetupWorker_threads :: "nat \<Rightarrow> Config \<Rightarrow> nat list" where
  "SetupWorker_threads next_tid c = [next_tid ..< next_tid + gc_num_worker_threads (general c)]"

definition SetupWorker :: "verbs \<Rightarrow> controller \<Rightarrow> nat \<Rightarrow> nat \<Rightarrow> Config \<Rightarrow> (rdma_connection \<times> nat list) outcome" where
  "SetupWorker vb ct now next_tid c =
     bindE (new_RdmaConnection vb c) (\<lambda>s. bindE (Connect vb ct now s) (\<lambda>s1. Inr (s1, SetupWorker_threads next_tid c)))"

section \<open>Loops over the queue pairs\<close>

lemma init_cqs:
  assumes "\<And>i. vb_create_cq vb i = Some (cq i)" and "rc_completion_queues s = replicate n None"
  shows "for_each [0..<n] (init_cq vb) s =
     Inr (s\<lparr>rc_completion_queues := map (\<lambda>i. Some (cq i)) [0..<n], rc_log := rc_log s @ map Created_cq [0..<n]\<rparr>)"
proof -
  let ?st = "\<lambda>i. s\<lparr>rc_completion_queues := fill n (\<lambda>i. Some (cq i)) (\<lambda>_. None) i, rc_log := rc_log s @ map Created_cq [0..<i]\<rparr>"
  have "map (\<lambda>_. None) [0..<n] = replicate n None" by (simp add: map_replicate_const)
  then have "?st 0 = s" using assms(2) by (cases s) simp
  moreover have "for_each [0..<n] (init_cq vb) (?st 0) = Inr (?st n)"
    by (rule for_each_fill) (simp add: init_cq_def CreateCompletionQueue_def assms(1))
  ultimately show ?thesis by simp
qed

lemma init_qps:
  assumes "\<And>i c. vb_create_qp vb i c = Some (num i)" and "rc_queue_pairs s = replicate n None"
    and "0 < per" and "n \<le> per * nt" and "rc_completion_queues s = map (\<lambda>i. Some (cq i)) [0..<nt]"
  shows "for_each [0..<n] (init_qp vb per) s =
     Inr (s\<lparr>rc_queue_pairs := map (\<lambda>i. Some \<lparr>qp_num = num i, qp_cq = cq (i div per), qp_state = IBV_QPS_RESET, qp_attrs = []\<rparr>) [0..<n],
            rc_log := rc_log s @ map (\<lambda>i. Created_qp i (cq (i div per))) [0..<n]\<rparr>)"
proof -
  let ?g = "\<lambda>i. Some \<lparr>qp_num = num i, qp_cq = cq (i div per), qp_state = IBV_QPS_RESET, qp_attrs = []\<rparr>"
  let ?st = "\<lambda>i. s\<lparr>rc_queue_pairs := fill n ?g (\<lambda>_. None) i, rc_log := rc_log s @ map (\<lambda>i. Created_qp i (cq (i div per))) [0..<i]\<rparr>"
  have "map (\<lambda>_. None) [0..<n] = replicate n None" by (simp add: map_replicate_const)
  then have "?st 0 = s" using assms(2) by (cases s) simp
  moreover have "i div per < nt" if "i < n" for i
    using that assms(3,4) by (simp add: div_less_iff_less_mult mult.commute)
  then have "for_each [0..<n] (init_qp vb per) (?st 0) = Inr (?st n)"
    by (intro for_each_fill) (simp add: init_qp_def CreateQueuePair_def Let_def assms(1,3,5))
  ultimately show ?thesis by simp
qed

definition modified :: "qp_attr \<Rightarrow> queue_pair \<Rightarrow> queue_pair" where
  "modified a qp = qp\<lparr>qp_state := attr_state a, qp_attrs := qp_attrs qp @ [a]\<rparr>"

lemma modify_all:
  assumes ok: "\<And>l i a. vb_modify vb l i a = 0" and qps: "rc_queue_pairs s = map (\<lambda>i. Some (h i)) [0..<n]"
    and F: "\<And>i qs l. i < n \<Longrightarrow> F i (s\<lparr>rc_queue_pairs := qs, rc_log := l\<rparr>) =
      modify_qp vb i (attr i) (s\<lparr>rc_queue_pairs := qs, rc_log := l\<rparr>)"
  shows "for_each [0..<n] F s =
     Inr (s\<lparr>rc_queue_pairs := map (\<lambda>i. Some (modified (attr i (h i)) (h i))) [0..<n],
            rc_log := rc_log s @ map (\<lambda>i. Modified i (attr i (h i))) [0..<n]\<rparr>)"
proof -
  let ?st = "\<lambda>i. s\<lparr>rc_queue_pairs := fill n (\<lambda>i. Some (modified (attr i (h i)) (h i))) (\<lambda>i. Some (h i)) i,
      rc_log := rc_log s @ map (\<lambda>i. Modified i (attr i (h i))) [0..<i]\<rparr>"
  have "?st 0 = s" using qps by simp
  moreover have "for_each [0..<n] F (?st 0) = Inr (?st n)"
    by (rule for_each_fill) (simp add: F modify_qp_def Let_def ok modified_def)
  ultimately show ?thesis by simp
qed

definition neighbor_gid :: "Config \<Rightarrow> RdmaSessionResponse \<Rightarrow> gid" where
  "neighbor_gid c response =
     (if rdma_gid_index (bc_rdma (backend_cfg c)) \<ge> 2 then IPv4ToGID (rs_ipv4 response) else MACToGID (rs_mac response))"

definition with_neighbors :: "RdmaSessionResponse \<Rightarrow> nat \<Rightarrow> rdma_connection \<Rightarrow> rdma_connection" where
  "with_neighbors response n s =
     s\<lparr>rc_neighbor_gids := replicate n (neighbor_gid (rc_config s) response), rc_neighbor_rkeys := replicate n (rs_rkey response),
       rc_neighbor_qpns := take n (rs_qpns response), rc_neighbor_psns := take n (rs_psns response)\<rparr>"

definition neighbors_sized :: "nat \<Rightarrow> rdma_connection \<Rightarrow> bool" where
  "neighbors_sized n s \<longleftrightarrow> length (rc_neighbor_gids s) = n \<and> length (rc_neighbor_rkeys s) = n \<and>
     length (rc_neighbor_qpns s) = n \<and> length (rc_neighbor_psns s) = n"

lemma map_nth_all: "length xs = n \<Longrightarrow> map ((!) xs) [0..<n] = xs"
  using map_nth[of xs] by simp

lemma store_neighbors:
  assumes "neighbors_sized n s" and "n \<le> length (rs_qpns response)" and "n \<le> length (rs_psns response)"
  shows "for_each [0..<n] (store_neighbor response) s = Inr (with_neighbors response n s)"
proof -
  let ?st = "\<lambda>i. s\<lparr>rc_neighbor_gids := fill n (\<lambda>_. neighbor_gid (rc_config s) response) (\<lambda>i. rc_neighbor_gids s ! i) i,
      rc_neighbor_rkeys := fill n (\<lambda>_. rs_rkey response) (\<lambda>i. rc_neighbor_rkeys s ! i) i,
      rc_neighbor_qpns := fill n (\<lambda>i. rs_qpns response ! i) (\<lambda>i. rc_neighbor_qpns s ! i) i,
      rc_neighbor_psns := fill n (\<lambda>i. rs_psns response ! i) (\<lambda>i. rc_neighbor_psns s ! i) i\<rparr>"
  have "?st 0 = s" using assms(1) by (cases s) (simp add: neighbors_sized_def map_nth_all)
  moreover have "for_each [0..<n] (store_neighbor response) (?st 0) = Inr (?st n)"
    by (rule for_each_fill) (use assms(2,3) in \<open>simp add: store_neighbor_def neighbor_gid_def\<close>)
  moreover have "map (\<lambda>i. rs_qpns response ! i) [0..<n] = take n (rs_qpns response)"
    "map (\<lambda>i. rs_psns response ! i) [0..<n] = take n (rs_psns response)"
    using assms(2,3) by (simp_all add: list_eq_iff_nth_eq)
  ultimately show ?thesis by (simp add: with_neighbors_def map_replicate_const)
qed

text \<open>A controller that answers, and describes \<open>n\<close> queue pairs; a library whose calls succeed.\<close>

definition controller_ok :: "controller \<Rightarrow> nat \<Rightarrow> bool" where
  "controller_ok ct n \<longleftrightarrow> (\<forall>calls k. ct_barrier ct calls k \<noteq> None) \<and> (\<forall>calls r. ct_broadcast ct calls r \<noteq> None) \<and>
     (\<forall>calls r. \<exists>response. ct_rdma ct calls r = Some response \<and> n \<le> length (rs_qpns response) \<and> n \<le> length (rs_psns response))"

definition verbs_ok :: "verbs \<Rightarrow> bool" where
  "verbs_ok vb \<longleftrightarrow> (\<forall>i. vb_create_cq vb i \<noteq> None) \<and> (\<exists>num. \<forall>i c. vb_create_qp vb i c = Some (num i)) \<and>
     (\<forall>l i a. vb_modify vb l i a = 0) \<and> 0 \<le> fst (vb_query_gid vb 0) \<and> 0 \<le> fst (vb_query_gid vb 2)"

lemma session_barrier_ok:
  assumes "controller_ok ct n"
  shows "session_barrier ct s = Inr ((), s\<lparr>rc_calls := rc_calls s @ [BarrierCall (gc_num_workers (general (rc_config s)))],
     rc_log := rc_log s @ [Called (BarrierCall (gc_num_workers (general (rc_config s))))]\<rparr>)"
  using assms
  by (auto simp: session_barrier_def call_controller_def Grpc_Barrier_def check_status_def controller_ok_def split: option.splits)

lemma rdma_call_ok:
  assumes "controller_ok ct n"
  shows "\<exists>response. call_controller (CreateRdmaSession ct rq) s = Inr (response, s\<lparr>rc_calls := rc_calls s @ [RdmaSessionCall rq],
     rc_log := rc_log s @ [Called (RdmaSessionCall rq)]\<rparr>) \<and> n \<le> length (rs_qpns response) \<and> n \<le> length (rs_psns response)"
proof -
  obtain response where r: "ct_rdma ct (rc_calls s) rq = Some response" "n \<le> length (rs_qpns response)" "n \<le> length (rs_psns response)"
    using assms unfolding controller_ok_def by blast
  then show ?thesis by (simp add: call_controller_def CreateRdmaSession_def check_status_def)
qed

lemma broadcast_ok:
  assumes "controller_ok ct n"
  shows "\<exists>v. call_controller (Grpc_Broadcast ct b) s = Inr (v, s\<lparr>rc_calls := rc_calls s @ [BroadcastCall b],
     rc_log := rc_log s @ [Called (BroadcastCall b)]\<rparr>)"
proof -
  obtain v where "ct_broadcast ct (rc_calls s) b = Some v" using assms unfolding controller_ok_def by blast
  then show ?thesis by (simp add: call_controller_def Grpc_Broadcast_def check_status_def)
qed

lemma exchange_ok:
  assumes ct: "controller_ok ct (rc_num_queue_pairs s)" and vb: "verbs_ok vb" and sized: "neighbors_sized (rc_num_queue_pairs s) s"
    and "rc_calls s = []"
  shows "\<exists>response calls. ExchangeConnectionInfo vb ct now s = Inr (with_neighbors response (rc_num_queue_pairs s)
       (s\<lparr>rc_calls := calls, rc_log := rc_log s @ map Called calls\<rparr>)) \<and>
     rc_num_queue_pairs s \<le> length (rs_qpns response) \<and> rc_num_queue_pairs s \<le> length (rs_psns response) \<and>
     map event_of calls = session_program (gc_rank (general (rc_config s)))"
proof -
  let ?n = "rc_num_queue_pairs s"
  obtain b v where b: "(let g = general (rc_config s); session_id = (if gc_rank g = 0 then u64 now else 0)
        in \<lparr>br_value = session_id, br_rank = gc_rank g, br_num_workers = gc_num_workers g, br_root = 0\<rparr>) = b"
    and v: "call_controller (Grpc_Broadcast ct b) s = Inr (v, s\<lparr>rc_calls := rc_calls s @ [BroadcastCall b],
     rc_log := rc_log s @ [Called (BroadcastCall b)]\<rparr>)"
    using broadcast_ok[OF ct] by blast
  let ?s1 = "s\<lparr>rc_calls := rc_calls s @ [BroadcastCall b], rc_log := rc_log s @ [Called (BroadcastCall b)]\<rparr>"
  obtain rq where rq: "rdma_request vb v ?s1 = Inr rq"
    using vb by (auto simp: rdma_request_def GetMac_def GetIPv4_def verbs_ok_def split_beta Let_def)
  obtain response cs where r: "create_session ct rq ?s1 = Inr (response, ?s1\<lparr>rc_calls := rc_calls ?s1 @ cs, rc_log := rc_log ?s1 @ map Called cs\<rparr>)"
    "?n \<le> length (rs_qpns response)" "?n \<le> length (rs_psns response)"
    "map event_of (BroadcastCall b # cs @ [BarrierCall (gc_num_workers (general (rc_config s)))]) = session_program (gc_rank (general (rc_config s)))"
  proof (cases "gc_rank (general (rc_config s)) = 0")
    case True
    obtain response where "call_controller (CreateRdmaSession ct rq) ?s1 = Inr (response, ?s1\<lparr>rc_calls := rc_calls ?s1 @ [RdmaSessionCall rq],
      rc_log := rc_log ?s1 @ [Called (RdmaSessionCall rq)]\<rparr>)" "?n \<le> length (rs_qpns response)" "?n \<le> length (rs_psns response)"
      using rdma_call_ok[OF ct] by blast
    then show ?thesis using True
      by (intro that[of response "[RdmaSessionCall rq, BarrierCall (gc_num_workers (general (rc_config s)))]"])
        (simp_all add: create_session_def session_barrier_ok[OF ct] session_program_def)
  next
    case False
    let ?s2 = "?s1\<lparr>rc_calls := rc_calls ?s1 @ [BarrierCall (gc_num_workers (general (rc_config s)))],
       rc_log := rc_log ?s1 @ [Called (BarrierCall (gc_num_workers (general (rc_config s))))]\<rparr>"
    obtain response where "call_controller (CreateRdmaSession ct rq) ?s2 = Inr (response, ?s2\<lparr>rc_calls := rc_calls ?s2 @ [RdmaSessionCall rq],
      rc_log := rc_log ?s2 @ [Called (RdmaSessionCall rq)]\<rparr>)" "?n \<le> length (rs_qpns response)" "?n \<le> length (rs_psns response)"
      using rdma_call_ok[OF ct] by blast
    then show ?thesis using False
      by (intro that[of response "[BarrierCall (gc_num_workers (general (rc_config s))), RdmaSessionCall rq]"])
        (simp_all add: create_session_def session_barrier_ok[OF ct] session_program_def)
  qed
  let ?calls = "BroadcastCall b # cs @ [BarrierCall (gc_num_workers (general (rc_config s)))]"
  let ?s3 = "s\<lparr>rc_calls := ?calls, rc_log := rc_log s @ map Called ?calls\<rparr>"
  have "neighbors_sized ?n ?s3" using sized by (simp add: neighbors_sized_def)
  from store_neighbors[OF this r(2,3)]
  have "ExchangeConnectionInfo vb ct now s = Inr (with_neighbors response ?n ?s3)"
    using b v rq r(1) assms(4) by (simp add: ExchangeConnectionInfo_def Let_def session_barrier_ok[OF ct])
  then show ?thesis using r(2-4) by blast
qed

section \<open>Properties\<close>

lemma new_connection:
  assumes "new_RdmaConnection vb c = Inr s"
  shows "rc_config s = c" and "rc_mtu s = rdma_mtu c" and "num_queue_pairs c = Inr (rc_num_queue_pairs s)"
    and "rc_completion_queues s = replicate (gc_num_worker_threads (general c)) None"
    and "rc_queue_pairs s = replicate (rc_num_queue_pairs s) None" and "neighbors_sized (rc_num_queue_pairs s) s"
    and "rc_calls s = []" and "rc_log s = []"
  using assms by (auto simp: new_RdmaConnection_def Let_def bindE_eq_Inr neighbors_sized_def)

text \<open>For a validated configuration the queue pairs divide among the threads as the worker threads expect.\<close>

lemma rdma_shares:
  assumes "config_valid c" and "gc_backend (general c) = ''rdma''"
  shows "\<exists>per. rdma_outstanding_msgs c = Inr per \<and> num_queue_pairs c = Inr (per * gc_num_worker_threads (general c)) \<and> 0 < per"
proof -
  let ?mop = "gc_max_outstanding_packets (general c)" and ?nt = "gc_num_worker_threads (general c)" and ?k = "pkts_per_msg c"
  have k: "?k = rdma_msg_numel (bc_rdma (backend_cfg c)) div gc_packet_numel (general c)" "outstanding_unit c = ?nt * ?k"
    using assms(2) by (simp_all add: pkts_per_msg_def outstanding_unit_def)
  have v: "0 < ?nt * ?k" "?nt * ?k \<le> ?mop" "?nt * ?k dvd ?mop" "gc_packet_numel (general c) \<noteq> 0" "?mop < 2 ^ 32"
    using assms by (auto simp: config_valid_def k(2) config_wf_def)
  then obtain per where per: "?mop = ?nt * ?k * per" by (auto elim: dvdE)
  have "?mop div ?k = per * ?nt" "?mop div ?k div ?nt = per" using per v(1) by simp_all
  moreover have "0 < per" using per v(1,2) by (cases per) auto
  moreover have "per * ?nt < 2 ^ 32" using calculation(1) v(5) by (metis div_le_dividend le_less_trans)
  ultimately show ?thesis
    using v(1,4) by (auto simp: rdma_outstanding_msgs_def num_queue_pairs_def rdma_pkts_per_msg_def k(1)[symmetric] u32_id)
qed

lemma initialize_ok:
  assumes vb: "verbs_ok vb" and "num_queue_pairs (rc_config s) = Inr (per * gc_num_worker_threads (general (rc_config s)))"
    and per: "0 < per" and nt: "0 < gc_num_worker_threads (general (rc_config s))"
    and n: "rc_num_queue_pairs s = per * gc_num_worker_threads (general (rc_config s))"
    and fresh: "rc_completion_queues s = replicate (gc_num_worker_threads (general (rc_config s))) None"
      "rc_queue_pairs s = replicate (rc_num_queue_pairs s) None"
  shows "\<exists>cq num log. InitializeQueuePairs vb s = Inr (s\<lparr>rc_completion_queues := map (\<lambda>i. Some (cq i)) [0..<gc_num_worker_threads (general (rc_config s))],
      rc_queue_pairs := map (\<lambda>i. Some \<lparr>qp_num = num i, qp_cq = cq (i div per), qp_state = IBV_QPS_INIT,
        qp_attrs = [Attr_INIT (rdma_device_port_id (bc_rdma (backend_cfg (rc_config s))))]\<rparr>) [0..<rc_num_queue_pairs s],
      rc_log := rc_log s @ map Created_cq [0..<gc_num_worker_threads (general (rc_config s))] @ log @
        map (\<lambda>i. Modified i (Attr_INIT (rdma_device_port_id (bc_rdma (backend_cfg (rc_config s)))))) [0..<rc_num_queue_pairs s]\<rparr>) \<and>
      (\<forall>e \<in> set log. \<exists>i q. e = Created_qp i q)"
proof -
  let ?nt = "gc_num_worker_threads (general (rc_config s))" and ?n = "rc_num_queue_pairs s"
  let ?a = "Attr_INIT (rdma_device_port_id (bc_rdma (backend_cfg (rc_config s))))"
  obtain cq where cq: "\<And>i. vb_create_cq vb i = Some (cq i)"
    using vb that[of "\<lambda>i. the (vb_create_cq vb i)"] by (auto simp: verbs_ok_def)
  obtain num where num: "\<And>i c. vb_create_qp vb i c = Some (num i)" using vb by (auto simp: verbs_ok_def)
  have ok: "\<And>l i a. vb_modify vb l i a = 0" using vb by (simp add: verbs_ok_def)
  let ?s1 = "s\<lparr>rc_completion_queues := map (\<lambda>i. Some (cq i)) [0..<?nt], rc_log := rc_log s @ map Created_cq [0..<?nt]\<rparr>"
  have 1: "for_each [0..<?nt] (init_cq vb) s = Inr ?s1" by (rule init_cqs[OF cq fresh(1)])
  have 2: "qps_per_worker_thread ?s1 = Inr per" using nt n by (simp add: qps_per_worker_thread_def)
  let ?s2 = "?s1\<lparr>rc_queue_pairs := map (\<lambda>i. Some \<lparr>qp_num = num i, qp_cq = cq (i div per), qp_state = IBV_QPS_RESET, qp_attrs = []\<rparr>) [0..<?n],
            rc_log := rc_log ?s1 @ map (\<lambda>i. Created_qp i (cq (i div per))) [0..<?n]\<rparr>"
  have 3: "for_each [0..<?n] (init_qp vb per) ?s1 = Inr ?s2"
    by (rule init_qps[OF num _ per]) (simp_all add: fresh(2) n)
  have 4: "for_each [0..<?n] (MoveToInit vb) ?s2 = Inr (?s2\<lparr>rc_queue_pairs := map (\<lambda>i. Some \<lparr>qp_num = num i, qp_cq = cq (i div per),
      qp_state = IBV_QPS_INIT, qp_attrs = [?a]\<rparr>) [0..<?n], rc_log := rc_log ?s2 @ map (\<lambda>i. Modified i ?a) [0..<?n]\<rparr>)"
    using modify_all[OF ok, of ?s2 "\<lambda>i. \<lparr>qp_num = num i, qp_cq = cq (i div per), qp_state = IBV_QPS_RESET, qp_attrs = []\<rparr>" ?n
        "MoveToInit vb" "\<lambda>_ _. ?a"]
    by (simp add: MoveToInit_def modified_def attr_state_def)
  show ?thesis
    using 1 2 3 4
    by (intro exI[of _ cq] exI[of _ num] exI[of _ "map (\<lambda>i. Created_qp i (cq (i div per))) [0..<?n]"])
      (auto simp: InitializeQueuePairs_def)
qed

lemma connect_ok:
  assumes vb: "verbs_ok vb" and qps: "rc_queue_pairs s = map (\<lambda>i. Some (h i)) [0..<rc_num_queue_pairs s]"
  defines "r \<equiv> bc_rdma (backend_cfg (rc_config s))"
  defines "rtr \<equiv> \<lambda>i. Attr_RTR (rc_neighbor_qpns s ! i) (rc_neighbor_psns s ! i) (rc_mtu s) (rc_neighbor_gids s ! i)
      (rdma_gid_index r) (rdma_device_port_id r)"
  shows "\<exists>log. ConnectQueuePairs vb s = Inr (s\<lparr>rc_queue_pairs := map (\<lambda>i. Some ((h i)\<lparr>qp_state := IBV_QPS_RTS,
        qp_attrs := qp_attrs (h i) @ [rtr i, Attr_RTS (qp_num (h i) div 2)]\<rparr>)) [0..<rc_num_queue_pairs s],
      rc_log := rc_log s @ map (\<lambda>i. Modified i (rtr i)) [0..<rc_num_queue_pairs s] @ log\<rparr>) \<and>
    log = map (\<lambda>i. Modified i (Attr_RTS (qp_num (h i) div 2))) [0..<rc_num_queue_pairs s]"
proof -
  let ?n = "rc_num_queue_pairs s"
  have ok: "\<And>l i a. vb_modify vb l i a = 0" using vb by (simp add: verbs_ok_def)
  let ?h1 = "\<lambda>i. (h i)\<lparr>qp_state := IBV_QPS_RTR, qp_attrs := qp_attrs (h i) @ [rtr i]\<rparr>"
  let ?s1 = "s\<lparr>rc_queue_pairs := map (\<lambda>i. Some (?h1 i)) [0..<?n], rc_log := rc_log s @ map (\<lambda>i. Modified i (rtr i)) [0..<?n]\<rparr>"
  have 1: "for_each [0..<?n] (MoveToRtr vb) s = Inr ?s1"
    using modify_all[OF ok qps, of "MoveToRtr vb" "\<lambda>i _. rtr i"]
    by (simp add: MoveToRtr_def modified_def attr_state_def rtr_def r_def Let_def)
  have 2: "for_each [0..<?n] (MoveToRts vb) ?s1 = Inr (?s1\<lparr>rc_queue_pairs := map (\<lambda>i. Some ((h i)\<lparr>qp_state := IBV_QPS_RTS,
        qp_attrs := qp_attrs (h i) @ [rtr i, Attr_RTS (qp_num (h i) div 2)]\<rparr>)) [0..<?n],
      rc_log := rc_log ?s1 @ map (\<lambda>i. Modified i (Attr_RTS (qp_num (h i) div 2))) [0..<?n]\<rparr>)"
    using modify_all[OF ok, of ?s1 ?h1 ?n "MoveToRts vb" "\<lambda>i qp. Attr_RTS (qp_num qp div 2)"]
    by (simp add: MoveToRts_def modified_def attr_state_def)
  show ?thesis using 1 2 by (auto simp: ConnectQueuePairs_def)
qed

text \<open>The range of a worker thread.\<close>

lemma worker_range:
  assumes "length xs = per * nt" and "tid < nt" and "per * nt < 2 ^ 32"
  shows "vector_range xs (u64_mul per tid) per = Inr (take per (drop (per * tid) xs))"
    and "length (take per (drop (per * tid) xs)) = per"
    and "j < per \<Longrightarrow> take per (drop (per * tid) xs) ! j = xs ! (per * tid + j) \<and> per * tid + j < per * nt"
proof -
  have "per * Suc tid \<le> per * nt" using assms(2) by (intro mult_le_mono2) simp
  then have le: "per * tid + per \<le> per * nt" by (simp add: add.commute)
  have "per * tid < 2 ^ 32" using le assms(3) by linarith
  then have "per * tid < 2 ^ 64" by (rule less_trans) simp
  then show "vector_range xs (u64_mul per tid) per = Inr (take per (drop (per * tid) xs))"
    using le assms(1) by (simp add: vector_range_def u64_mul_id)
  show "length (take per (drop (per * tid) xs)) = per" using le assms(1) by simp
  show "j < per \<Longrightarrow> take per (drop (per * tid) xs) ! j = xs ! (per * tid + j) \<and> per * tid + j < per * nt"
  proof -
    assume j: "j < per"
    have "per * tid \<le> length xs" using le assms(1) by linarith
    then show ?thesis using j le nth_drop[of "per * tid" xs j] by simp
  qed
qed

lemma rdma_num_bound:
  assumes "num_queue_pairs c = Inr n"
  shows "n < 2 ^ 32"
  using assms by (auto simp: num_queue_pairs_def bindE_eq_Inr u32_def split: if_splits)

lemma Connect_state:
  assumes valid: "config_valid c" "gc_backend (general c) = ''rdma''" and new: "new_RdmaConnection vb c = Inr s"
    and vb: "verbs_ok vb" and ct: "controller_ok ct (rc_num_queue_pairs s)"
    and per: "rdma_outstanding_msgs c = Inr per" "num_queue_pairs c = Inr (per * gc_num_worker_threads (general c))" "0 < per"
  defines "r \<equiv> bc_rdma (backend_cfg c)" and "n \<equiv> per * gc_num_worker_threads (general c)"
  shows "\<exists>s' response cq num log. Connect vb ct now s = Inr s' \<and> rc_num_queue_pairs s' = n \<and> rc_config s' = c \<and>
     rc_completion_queues s' = map (\<lambda>i. Some (cq i)) [0..<gc_num_worker_threads (general c)] \<and>
     rc_queue_pairs s' = map (\<lambda>i. Some \<lparr>qp_num = num i, qp_cq = cq (i div per), qp_state = IBV_QPS_RTS,
        qp_attrs = [Attr_INIT (rdma_device_port_id r), Attr_RTR (rs_qpns response ! i) (rs_psns response ! i) (rdma_mtu c)
          (neighbor_gid c response) (rdma_gid_index r) (rdma_device_port_id r), Attr_RTS (num i div 2)]\<rparr>) [0..<n] \<and>
     rc_neighbor_rkeys s' = replicate n (rs_rkey response) \<and>
     map event_of (rc_calls s') = session_program (gc_rank (general c)) \<and>
     rc_log s' = log @ map Called (rc_calls s') @ map (\<lambda>i. Modified i (Attr_RTR (rs_qpns response ! i) (rs_psns response ! i) (rdma_mtu c)
          (neighbor_gid c response) (rdma_gid_index r) (rdma_device_port_id r))) [0..<n] @ map (\<lambda>i. Modified i (Attr_RTS (num i div 2))) [0..<n] \<and>
     (\<forall>i a. Modified i a \<in> set log \<longrightarrow> attr_state a = IBV_QPS_INIT)"
proof -
  let ?nt = "gc_num_worker_threads (general c)"
  note f = new_connection[OF new]
  have n: "rc_num_queue_pairs s = n" using f(3) per(2) by (simp add: n_def)
  have nt: "0 < ?nt" using per(1) by (auto simp: rdma_outstanding_msgs_def bindE_eq_Inr split: if_splits)
  obtain cq num log1 s1 where i: "InitializeQueuePairs vb s = Inr s1"
    "s1 = s\<lparr>rc_completion_queues := map (\<lambda>i. Some (cq i)) [0..<?nt],
      rc_queue_pairs := map (\<lambda>i. Some \<lparr>qp_num = num i, qp_cq = cq (i div per), qp_state = IBV_QPS_INIT,
        qp_attrs = [Attr_INIT (rdma_device_port_id r)]\<rparr>) [0..<n],
      rc_log := map Created_cq [0..<?nt] @ log1 @ map (\<lambda>i. Modified i (Attr_INIT (rdma_device_port_id r))) [0..<n]\<rparr>"
    "\<forall>e \<in> set log1. \<exists>i q. e = Created_qp i q"
    using initialize_ok[OF vb, of s per] per f nt n unfolding r_def n_def by force
  have c1: "controller_ok ct (rc_num_queue_pairs s1)" "neighbors_sized (rc_num_queue_pairs s1) s1" "rc_calls s1 = []"
    using ct f(6,7) by (simp_all add: i(2) neighbors_sized_def)
  obtain response calls where e: "ExchangeConnectionInfo vb ct now s1 = Inr (with_neighbors response (rc_num_queue_pairs s1)
       (s1\<lparr>rc_calls := calls, rc_log := rc_log s1 @ map Called calls\<rparr>))"
    "rc_num_queue_pairs s1 \<le> length (rs_qpns response)" "rc_num_queue_pairs s1 \<le> length (rs_psns response)"
    "map event_of calls = session_program (gc_rank (general (rc_config s1)))"
    using exchange_ok[OF c1(1) vb c1(2,3)] by blast
  let ?s2 = "with_neighbors response (rc_num_queue_pairs s1) (s1\<lparr>rc_calls := calls, rc_log := rc_log s1 @ map Called calls\<rparr>)"
  have n2: "rc_num_queue_pairs ?s2 = n" "rc_config ?s2 = c" "rc_mtu ?s2 = rdma_mtu c"
    using n f(1,2) by (simp_all add: with_neighbors_def i(2))
  have q2: "rc_queue_pairs ?s2 = map (\<lambda>i. Some \<lparr>qp_num = num i, qp_cq = cq (i div per), qp_state = IBV_QPS_INIT,
        qp_attrs = [Attr_INIT (rdma_device_port_id r)]\<rparr>) [0..<rc_num_queue_pairs ?s2]"
    unfolding n2 by (simp add: with_neighbors_def i(2))
  have nb: "i < n \<Longrightarrow> rc_neighbor_qpns ?s2 ! i = rs_qpns response ! i \<and> rc_neighbor_psns ?s2 ! i = rs_psns response ! i \<and>
      rc_neighbor_gids ?s2 ! i = neighbor_gid c response" for i
    using n f(1) by (simp add: with_neighbors_def i(2))
  obtain s3 where s3: "ConnectQueuePairs vb ?s2 = Inr s3" "s3 = ?s2\<lparr>rc_queue_pairs := map (\<lambda>i. Some \<lparr>qp_num = num i, qp_cq = cq (i div per),
        qp_state = IBV_QPS_RTS, qp_attrs = [Attr_INIT (rdma_device_port_id r), Attr_RTR (rs_qpns response ! i) (rs_psns response ! i) (rdma_mtu c)
          (neighbor_gid c response) (rdma_gid_index r) (rdma_device_port_id r), Attr_RTS (num i div 2)]\<rparr>) [0..<n],
      rc_log := rc_log ?s2 @ map (\<lambda>i. Modified i (Attr_RTR (rs_qpns response ! i) (rs_psns response ! i) (rdma_mtu c)
          (neighbor_gid c response) (rdma_gid_index r) (rdma_device_port_id r))) [0..<n] @ map (\<lambda>i. Modified i (Attr_RTS (num i div 2))) [0..<n]\<rparr>"
    using connect_ok[OF vb q2] unfolding n2 by (simp add: nb r_def cong: map_cong)
  have "Connect vb ct now s = Inr s3" using i(1) e(1) s3(1) by (simp add: Connect_def)
  moreover have "rc_log s3 = (map Created_cq [0..<?nt] @ log1 @ map (\<lambda>i. Modified i (Attr_INIT (rdma_device_port_id r))) [0..<n]) @
      map Called calls @ map (\<lambda>i. Modified i (Attr_RTR (rs_qpns response ! i) (rs_psns response ! i) (rdma_mtu c)
          (neighbor_gid c response) (rdma_gid_index r) (rdma_device_port_id r))) [0..<n] @ map (\<lambda>i. Modified i (Attr_RTS (num i div 2))) [0..<n]"
    by (simp add: s3(2) with_neighbors_def i(2))
  moreover have "rc_calls s3 = calls" "rc_completion_queues s3 = map (\<lambda>i. Some (cq i)) [0..<?nt]" "rc_neighbor_rkeys s3 = replicate n (rs_rkey response)"
    "rc_config s3 = c" "rc_num_queue_pairs s3 = n"
    using n f(1) by (simp_all add: s3(2) with_neighbors_def i(2))
  moreover have "rc_config s1 = c" using f(1) by (simp add: i(2))
  moreover have "\<forall>k a. Modified k a \<in> set (map Created_cq [0..<?nt] @ log1 @ map (\<lambda>i. Modified i (Attr_INIT (rdma_device_port_id r))) [0..<n])
      \<longrightarrow> attr_state a = IBV_QPS_INIT" using i(3) by (auto simp: attr_state_def)
  ultimately show ?thesis using s3(2) e(4)
    by (intro exI[of _ s3] exI[of _ response] exI[of _ cq] exI[of _ num] exI[of _ "map Created_cq [0..<?nt] @ log1 @ map (\<lambda>i. Modified i (Attr_INIT (rdma_device_port_id r))) [0..<n]"]) simp
qed

text \<open>A worker thread's queue pairs complete in its own completion queue.\<close>

lemma worker_queue_pairs:
  assumes "rc_num_queue_pairs s = per * nt" and "rc_config s = c" and "rc_completion_queues s = map (\<lambda>i. Some (cq i)) [0..<nt]"
    and "rc_queue_pairs s = map (\<lambda>i. Some (g i)) [0..<per * nt]" and "\<And>i. qp_cq (g i) = cq (i div per)" and "per * nt < 2 ^ 32"
    and nt: "nt = gc_num_worker_threads (general c)" and tid: "tid < nt"
  shows "\<exists>cq qps. GetWorkerThreadCompletionQueue tid s = Inr (Some cq) \<and>
     GetWorkerThreadQueuePairs tid s = Inr qps \<and> (\<forall>qp \<in> set qps. \<exists>q. qp = Some q \<and> qp_cq q = cq)"
proof -
  have len: "length (rc_queue_pairs s) = per * nt" using assms(4) by simp
  note w = worker_range[OF len tid assms(6)]
  let ?qps = "take per (drop (per * tid) (rc_queue_pairs s))"
  have "GetWorkerThreadQueuePairs tid s = Inr ?qps"
    using w(1) assms(1,2) nt tid by (simp add: GetWorkerThreadQueuePairs_def qps_per_worker_thread_def)
  moreover have "GetWorkerThreadCompletionQueue tid s = Inr (Some (cq tid))"
    using tid assms(3) by (simp add: GetWorkerThreadCompletionQueue_def)
  moreover have "\<exists>q. qp = Some q \<and> qp_cq q = cq tid" if mem: "qp \<in> set ?qps" for qp
  proof -
    obtain j where j: "j < per" "qp = ?qps ! j" using iffD1[OF in_set_conv_nth mem] unfolding w(2) by blast
    moreover have "(per * tid + j) div per = tid" using j(1) by simp
    ultimately show ?thesis using w(3)[OF j(1)] assms(4,5) by simp
  qed
  ultimately show ?thesis by blast
qed

text \<open>C27: With a validated configuration, a verbs library whose calls succeed and a controller that answers, Connect brings
  every queue pair through INIT and RTR to RTS, connected to the switch's queue pair of the same index; every worker
  thread's queue pairs complete on that thread's own completion queue; the calls to the controller follow the session
  protocol; and no queue pair is made ready to receive before the last barrier of the protocol, nor ready
  to send before all are ready to receive.\<close>
theorem connect_brings_up:
  assumes "config_valid c" and "gc_backend (general c) = ''rdma''" and "new_RdmaConnection vb c = Inr s"
    and "verbs_ok vb" and "controller_ok ct (rc_num_queue_pairs s)"
  shows "\<exists>s' response rtr rts log. Connect vb ct now s = Inr s' \<and>
     (\<forall>i < rc_num_queue_pairs s. rtr i = Attr_RTR (rs_qpns response ! i) (rs_psns response ! i) (rdma_mtu c)
          (neighbor_gid c response) (rdma_gid_index (bc_rdma (backend_cfg c))) (rdma_device_port_id (bc_rdma (backend_cfg c))) \<and>
        (\<exists>qp. rc_queue_pairs s' ! i = Some qp \<and> qp_state qp = IBV_QPS_RTS \<and> rts i = Attr_RTS (qp_num qp div 2) \<and>
           qp_attrs qp = [Attr_INIT (rdma_device_port_id (bc_rdma (backend_cfg c))), rtr i, rts i])) \<and>
     (\<forall>tid < gc_num_worker_threads (general c). \<exists>cq qps. GetWorkerThreadCompletionQueue tid s' = Inr (Some cq) \<and>
        GetWorkerThreadQueuePairs tid s' = Inr qps \<and> (\<forall>qp \<in> set qps. \<exists>q. qp = Some q \<and> qp_cq q = cq)) \<and>
     map event_of (rc_calls s') = session_program (gc_rank (general c)) \<and>
     rc_log s' = log @ map Called (rc_calls s') @ map (\<lambda>i. Modified i (rtr i)) [0..<rc_num_queue_pairs s] @
       map (\<lambda>i. Modified i (rts i)) [0..<rc_num_queue_pairs s] \<and>
     (\<forall>i a. Modified i a \<in> set log \<longrightarrow> attr_state a = IBV_QPS_INIT)"
proof -
  let ?nt = "gc_num_worker_threads (general c)" and ?r = "bc_rdma (backend_cfg c)"
  obtain per where per: "rdma_outstanding_msgs c = Inr per" "num_queue_pairs c = Inr (per * ?nt)" "0 < per"
    using rdma_shares[OF assms(1,2)] by blast
  obtain s' response cq num log where st: "Connect vb ct now s = Inr s'" "rc_num_queue_pairs s' = per * ?nt" "rc_config s' = c"
    "rc_completion_queues s' = map (\<lambda>i. Some (cq i)) [0..<?nt]"
    "rc_queue_pairs s' = map (\<lambda>i. Some \<lparr>qp_num = num i, qp_cq = cq (i div per), qp_state = IBV_QPS_RTS,
        qp_attrs = [Attr_INIT (rdma_device_port_id ?r), Attr_RTR (rs_qpns response ! i) (rs_psns response ! i) (rdma_mtu c)
          (neighbor_gid c response) (rdma_gid_index ?r) (rdma_device_port_id ?r), Attr_RTS (num i div 2)]\<rparr>) [0..<per * ?nt]"
    "map event_of (rc_calls s') = session_program (gc_rank (general c))"
    "rc_log s' = log @ map Called (rc_calls s') @ map (\<lambda>i. Modified i (Attr_RTR (rs_qpns response ! i) (rs_psns response ! i) (rdma_mtu c)
          (neighbor_gid c response) (rdma_gid_index ?r) (rdma_device_port_id ?r))) [0..<per * ?nt] @
          map (\<lambda>i. Modified i (Attr_RTS (num i div 2))) [0..<per * ?nt]"
    "\<forall>i a. Modified i a \<in> set log \<longrightarrow> attr_state a = IBV_QPS_INIT"
    using Connect_state[OF assms per, of now] by blast
  have n: "rc_num_queue_pairs s = per * ?nt" using new_connection(3)[OF assms(3)] per(2) by simp
  have own_all: "\<forall>tid < ?nt. \<exists>cq qps. GetWorkerThreadCompletionQueue tid s' = Inr (Some cq) \<and>
        GetWorkerThreadQueuePairs tid s' = Inr qps \<and> (\<forall>qp \<in> set qps. \<exists>q. qp = Some q \<and> qp_cq q = cq)"
    using worker_queue_pairs[OF st(2-5) _ rdma_num_bound[OF per(2)]] by simp
  let ?rtr = "\<lambda>i. Attr_RTR (rs_qpns response ! i) (rs_psns response ! i) (rdma_mtu c)
          (neighbor_gid c response) (rdma_gid_index ?r) (rdma_device_port_id ?r)"
  let ?rts = "\<lambda>i. Attr_RTS (num i div 2)"
  have first: "\<forall>i < per * ?nt. ?rtr i = ?rtr i \<and> (\<exists>qp. rc_queue_pairs s' ! i = Some qp \<and> qp_state qp = IBV_QPS_RTS \<and>
      ?rts i = Attr_RTS (qp_num qp div 2) \<and> qp_attrs qp = [Attr_INIT (rdma_device_port_id ?r), ?rtr i, ?rts i])"
    unfolding st(5) by simp
  show ?thesis unfolding n
    by (intro exI[of _ s'] exI[of _ response] exI[of _ ?rtr] exI[of _ ?rts] exI[of _ log] conjI st(1) first st(6-7) own_all st(8))
qed

text \<open>The shares of the worker threads. With a validated configuration every worker thread gets as many queue pairs and
  remote keys as it has outstanding messages, which is what it checks when it starts, and the
  shares of all threads, in order, are all the queue pairs.\<close>
theorem worker_shares:
  assumes "config_valid c" and "gc_backend (general c) = ''rdma''" and "rc_config s = c"
    and "num_queue_pairs c = Inr (rc_num_queue_pairs s)"
    and "length (rc_queue_pairs s) = rc_num_queue_pairs s" and "length (rc_neighbor_rkeys s) = rc_num_queue_pairs s"
  shows "\<exists>per share. rdma_outstanding_msgs c = Inr per \<and>
     (\<forall>tid < gc_num_worker_threads (general c). GetWorkerThreadQueuePairs tid s = Inr (share tid) \<and> length (share tid) = per \<and>
        (\<exists>keys. GetWorkerThreadRkeys tid s = Inr keys \<and> length keys = per)) \<and>
     concat (map share [0..<gc_num_worker_threads (general c)]) = rc_queue_pairs s"
proof -
  let ?nt = "gc_num_worker_threads (general c)"
  obtain per where per: "rdma_outstanding_msgs c = Inr per" "num_queue_pairs c = Inr (per * ?nt)" "0 < per"
    using rdma_shares[OF assms(1,2)] by blast
  have n: "rc_num_queue_pairs s = per * ?nt" using assms(4) per(2) by simp
  let ?share = "\<lambda>tid. take per (drop (per * tid) (rc_queue_pairs s))"
  have "GetWorkerThreadQueuePairs tid s = Inr (?share tid) \<and> length (?share tid) = per \<and>
      (\<exists>keys. GetWorkerThreadRkeys tid s = Inr keys \<and> length keys = per)" if "tid < ?nt" for tid
  proof -
    note w = worker_range[OF _ that rdma_num_bound[OF per(2)]]
    have "GetWorkerThreadQueuePairs tid s = Inr (?share tid)" "length (?share tid) = per"
      using w(1,2)[of "rc_queue_pairs s"] assms(3,5) n that by (simp_all add: GetWorkerThreadQueuePairs_def qps_per_worker_thread_def)
    moreover have "GetWorkerThreadRkeys tid s = Inr (take per (drop (per * tid) (rc_neighbor_rkeys s)))"
      "length (take per (drop (per * tid) (rc_neighbor_rkeys s))) = per"
      using w(1,2)[of "rc_neighbor_rkeys s"] assms(3,6) n that by (simp_all add: GetWorkerThreadRkeys_def qps_per_worker_thread_def)
    ultimately show ?thesis by blast
  qed
  moreover have "concat (map ?share [0..<k]) = take (per * k) (rc_queue_pairs s)" for k
  proof (induction k)
    case (Suc k)
    have "per * Suc k = per * k + per" by simp
    then show ?case using Suc by (simp only: take_add) simp
  qed simp
  then have "concat (map ?share [0..<?nt]) = rc_queue_pairs s" using assms(5) n by simp
  ultimately show ?thesis using per(1) by (intro exI[of _ per] exI[of _ ?share]) blast
qed

lemma round_up_div:
  assumes "k < 64" and "unat sz + 2 ^ k - 1 < 2 ^ 64"
  shows "unat (round_up (2 ^ k) sz) = (unat sz + 2 ^ k - 1) div 2 ^ k * 2 ^ k"
proof -
  let ?m = "2 ^ k - 1 :: 64 word"
  have m: "?m = mask k" by (simp add: mask_eq_exp_minus_1)
  have "unat (mask k :: 64 word) = mask k" by (rule bit_eqI) (use assms(1) in \<open>auto simp: bit_simps\<close>)
  then have um: "unat ?m = 2 ^ k - 1" unfolding m by (simp add: mask_eq_exp_minus_1)
  then have sum: "unat (sz + ?m) = unat sz + 2 ^ k - 1" using assms(2) by (subst unat_add_lem[THEN iffD1]) simp_all
  have "round_up (2 ^ k) sz = push_bit k (drop_bit k (sz + ?m))"
    unfolding round_up_def m by (rule bit_word_eqI) (auto simp: bit_simps)
  moreover have "unat (push_bit k (drop_bit k (sz + ?m))) = unat (sz + ?m) div 2 ^ k * 2 ^ k"
  proof -
    have "unat (drop_bit k (sz + ?m)) = unat (sz + ?m) div 2 ^ k" 
      by (simp only: unat_drop_bit_eq) (simp add: drop_bit_eq_div)
    moreover have "unat (sz + ?m) div 2 ^ k * 2 ^ k < 2 ^ 64"
      by (rule le_less_trans[OF div_times_less_eq_dividend]) (use unsigned_less[of "sz + ?m", where 'a = nat] in simp)
    moreover have "unat (push_bit k (drop_bit k (sz + ?m))) = take_bit 64 (push_bit k (unat (drop_bit k (sz + ?m))))"
      by (simp only: unsigned_push_bit_eq) simp
    ultimately show ?thesis by (simp only: push_bit_eq_mult take_bit_eq_mod mod_less)
  qed
  ultimately show ?thesis unfolding sum by simp
qed
lemma rdma_buffer_size:
  assumes "config_valid c" and "gc_backend (general c) = ''rdma''"
  shows "\<exists>per. rdma_outstanding_msgs c = Inr per \<and> gc_packet_numel (general c) * gc_max_outstanding_packets (general c) * 4 =
     gc_num_worker_threads (general c) * (per * (4 * rdma_msg_numel (bc_rdma (backend_cfg c)))) \<and> 0 < gc_num_worker_threads (general c)"
proof -
  let ?mop = "gc_max_outstanding_packets (general c)" and ?nt = "gc_num_worker_threads (general c)" and ?k = "pkts_per_msg c"
    and ?pn = "gc_packet_numel (general c)" and ?mn = "rdma_msg_numel (bc_rdma (backend_cfg c))"
  have k: "?k = ?mn div ?pn" "outstanding_unit c = ?nt * ?k"
    using assms(2) by (simp_all add: pkts_per_msg_def outstanding_unit_def)
  have v: "0 < ?nt * ?k" "?nt * ?k dvd ?mop" "?pn \<noteq> 0" "?pn dvd ?mn"
    using assms by (auto simp: config_valid_def k(2))
  obtain per where per: "?mop = ?nt * ?k * per" using v(2) by (auto elim: dvdE)
  have mn: "?mn = ?k * ?pn" using v(4) k(1) by simp
  have "?mop div ?k div ?nt = per" using per v(1) by simp
  then have "rdma_outstanding_msgs c = Inr per"
    using v(1,3) by (auto simp: rdma_outstanding_msgs_def rdma_pkts_per_msg_def k(1)[symmetric])
  moreover have "?pn * ?mop * 4 = ?nt * (per * (4 * ?mn))" using per mn by (simp add: mult.commute mult.left_commute)
  ultimately show ?thesis using v(1) by (intro exI[of _ per]) simp
qed

lemma round_up_covers: "0 < m \<Longrightarrow> (x :: nat) \<le> (x + m - 1) div m * m"
  using div_mult_mod_eq[of "x + m - 1" m] mod_less_divisor[of m "x + m - 1"] by linarith

text \<open>The registered buffer. It starts at the address that is the same on all workers, is a whole number of huge
  pages, and each worker thread's part of it, disjoint from the others' and inside of the buffer, has room for the slots of
  all its queue pairs.\<close>
theorem worker_regions:
  assumes "config_valid c" and "gc_backend (general c) = ''rdma''"
    and "AllocateAtAddress vb (2 ^ 44) (of_nat (gc_packet_numel (general c) * gc_max_outstanding_packets (general c) * 4)) = Inr (rc_mr s)"
    and "rc_config s = c" and "vb_hugepagesize vb = 2 ^ k" and "k < 64"
    and "\<forall>buf len mr. vb_reg_mr vb buf len = Some mr \<longrightarrow> mr_addr mr = buf \<and> mr_length mr = len"
    and "gc_packet_numel (general c) * gc_max_outstanding_packets (general c) * 4 + 2 ^ k < 2 ^ 64"
  shows "\<exists>per start. rdma_outstanding_msgs c = Inr per \<and> 2 ^ k dvd mr_length (rc_mr s) \<and>
     (\<forall>tid < gc_num_worker_threads (general c). GetWorkerThreadMemoryRegion tid s = Inr (start tid, mr_lkey (rc_mr s)) \<and>
        2 ^ 44 \<le> start tid \<and> start tid + per * (4 * rdma_msg_numel (bc_rdma (backend_cfg c))) \<le> 2 ^ 44 + mr_length (rc_mr s) \<and>
        (\<forall>tid' < tid. start tid' + per * (4 * rdma_msg_numel (bc_rdma (backend_cfg c))) \<le> start tid))"
proof -
  let ?nt = "gc_num_worker_threads (general c)" and ?size = "gc_packet_numel (general c) * gc_max_outstanding_packets (general c) * 4"
  obtain per where per: "rdma_outstanding_msgs c = Inr per" "?size = ?nt * (per * (4 * rdma_msg_numel (bc_rdma (backend_cfg c))))" "0 < ?nt"
    using rdma_buffer_size[OF assms(1,2)] by blast
  define bytes where "bytes = per * (4 * rdma_msg_numel (bc_rdma (backend_cfg c)))"
  define len where "len = mr_length (rc_mr s)"
  have mr: "mr_addr (rc_mr s) = 2 ^ 44" "len = unat (round_up (2 ^ k) (of_nat ?size))"
    using assms(3,5,7) by (auto simp: AllocateAtAddress_def Let_def len_def split: option.splits if_splits)
  have "?size < 2 ^ 64" using assms(8) by linarith
  then have us: "unat (of_nat ?size :: 64 word) = ?size" by (simp only: unsigned_of_nat take_bit_eq_mod) simp
  have "?size + 2 ^ k - 1 < 2 ^ 64" using assms(8) by linarith
  then have len: "len = (?size + 2 ^ k - 1) div 2 ^ k * 2 ^ k" unfolding mr(2) using round_up_div[OF assms(6), of "of_nat ?size"] us by simp
  have "?size \<le> len" unfolding len by (rule round_up_covers) simp
  then have "?nt * bytes \<le> len" unfolding per(2) bytes_def .
  then have fits: "bytes \<le> len div ?nt" using per(3) by (simp add: less_eq_div_iff_mult_less_eq mult.commute)
  have len64: "len < 2 ^ 64" unfolding mr(2) using unsigned_less[of "round_up (2 ^ k) (of_nat ?size)", where 'a = nat] by simp
  define start where "start = (\<lambda>tid. 2 ^ 44 + tid * (len div ?nt))"
  have within: "tid * (len div ?nt) + len div ?nt \<le> len" if "tid < ?nt" for tid
  proof -
    have "Suc tid * (len div ?nt) \<le> ?nt * (len div ?nt)" using that by (intro mult_le_mono1) simp
    also have "\<dots> \<le> len" by (rule times_div_less_eq_dividend)
    finally show ?thesis by (simp add: add.commute)
  qed
  have "GetWorkerThreadMemoryRegion tid s = Inr (start tid, mr_lkey (rc_mr s)) \<and> 2 ^ 44 \<le> start tid \<and> start tid + bytes \<le> 2 ^ 44 + len \<and>
      (\<forall>tid' < tid. start tid' + bytes \<le> start tid)" if tid: "tid < ?nt" for tid
  proof -
    have "tid * (len div ?nt) < 2 ^ 64" using within[OF tid] len64 by linarith
    then have "GetWorkerThreadMemoryRegion tid s = Inr (start tid, mr_lkey (rc_mr s))"
      using per(3) assms(4) mr(1) by (simp add: GetWorkerThreadMemoryRegion_def start_def len_def[symmetric] u64_mul_id)
    moreover have "start tid' + bytes \<le> start tid" if "tid' < tid" for tid'
    proof -
      have "Suc tid' * (len div ?nt) \<le> tid * (len div ?nt)" using that by (intro mult_le_mono1) simp
      then show ?thesis using fits by (simp add: start_def)
    qed
    moreover have "start tid + bytes \<le> 2 ^ 44 + len" using within[OF tid] fits unfolding start_def by linarith
    ultimately show ?thesis by (simp add: start_def)
  qed
  moreover have "2 ^ k dvd len" unfolding len by simp
  ultimately show ?thesis using per(1) unfolding bytes_def len_def by blast
qed

text \<open>A failure of gethugepagesize is not noticed: the result -1 is stored in an unsigned variable, whose
  comparison with 0 always holds, and the size that is then requested is at most one byte.\<close>
theorem hugepage_failure_unnoticed:
  assumes "vb_hugepagesize vb = - 1"
  shows "AllocateAtAddress vb a sz = (case vb_mmap vb a ((sz - 2) AND 1) of
       None \<Rightarrow> Inl (Fatal ''Error allocating memory region'')
     | Some buf \<Rightarrow> if buf \<noteq> a then Inl (Fatal ''Error allocating memory region'')
         else (case vb_reg_mr vb buf (unat ((sz - 2) AND 1)) of
             None \<Rightarrow> Inl (Fatal ''Error registering memory region'') | Some mr \<Rightarrow> Inr mr))"
proof -
  have "NOT (- 1 - 1) = (1 :: 64 word)" "sz + (- 1 - 1) = sz - (2 :: 64 word)" by simp_all
  then show ?thesis by (simp only: AllocateAtAddress_def round_up_def assms Let_def)
qed

text \<open>C28: A failing transition of a queue pair is not noticed. ibv_modify_qp reports an error by the positive value of
  errno, while the code only stops for a negative result: it goes on with the queue pair in its old state.\<close>
theorem modify_failure_unnoticed:
  assumes "i < length (rc_queue_pairs s)" and "rc_queue_pairs s ! i = Some qp" and "\<forall>a. 0 < vb_modify vb (rc_log s) i a"
  shows "\<forall>move \<in> {MoveToInit, MoveToRtr, MoveToRts}. \<exists>a. move vb i s = Inr (s\<lparr>rc_log := rc_log s @ [Modified i a]\<rparr>)"
proof -
  have "(rc_queue_pairs s)[i := Some qp] = rc_queue_pairs s" using assms(1,2) by (metis list_update_id)
  then have "s\<lparr>rc_queue_pairs := (rc_queue_pairs s)[i := Some qp], rc_log := l\<rparr> = s\<lparr>rc_log := l\<rparr>" for l by (cases s) simp
  moreover have "vb_modify vb (rc_log s) i a \<noteq> 0 \<and> 0 \<le> vb_modify vb (rc_log s) i a" for a
    using spec[OF assms(3), of a] by simp
  ultimately have "\<exists>a. modify_qp vb i attr s = Inr (s\<lparr>rc_log := rc_log s @ [Modified i a]\<rparr>)" for attr
    using assms(1,2) by (intro exI[of _ "attr qp"]) (simp add: modify_qp_def Let_def)
  then show ?thesis by (simp add: MoveToInit_def MoveToRtr_def MoveToRts_def Let_def)
qed

section \<open>An example\<close>

definition sample_rdma_config :: Config where
  "sample_rdma_config = default_Config\<lparr>general := default_GeneralConfig\<lparr>gc_backend := ''rdma'', gc_packet_numel := 256\<rparr>\<rparr>"

definition sample_verbs :: verbs where
  "sample_verbs =
     \<lparr>vb_devices = Some [''mlx5_0''], vb_open = (\<lambda>_. True), vb_query_device = (0, 1), vb_query_port = 0, vb_gid_tbl_len = 4,
      vb_query_gid = (\<lambda>i. (0, IPv4ToGID 0x0A000001)), vb_alloc_pd = True, vb_hugepagesize = 2 ^ 21, vb_mmap = (\<lambda>a _. Some a),
      vb_reg_mr = (\<lambda>a l. Some \<lparr>mr_addr = a, mr_length = l, mr_lkey = 5, mr_rkey = 6\<rparr>), vb_dereg_mr = 0, vb_munmap = 0,
      vb_create_cq = (\<lambda>i. Some i), vb_create_qp = (\<lambda>i _. Some (of_nat (100 + i))), vb_modify = (\<lambda>_ _ _. 0)\<rparr>"

definition sample_controller :: controller where
  "sample_controller =
     \<lparr>ct_barrier = (\<lambda>_ _. Some ()), ct_broadcast = (\<lambda>_ r. Some (br_value r)),
      ct_rdma = (\<lambda>_ r. Some \<lparr>rs_session_id = rq_session_id r, rs_mac = 1, rs_ipv4 = 2, rs_rkey = 3,
         rs_qpns = replicate 64 7, rs_psns = replicate 64 8\<rparr>),
      ct_udp = (\<lambda>_ r. Some \<lparr>us_session_id = uq_session_id r, us_mac = 1, us_ipv4 = 2\<rparr>)\<rparr>"

lemmas sample_rdma_defs = sample_rdma_config_def default_Config_def default_GeneralConfig_def default_RdmaBackendConfig_def

lemma sample_rdma_valid: "config_valid sample_rdma_config" "gc_backend (general sample_rdma_config) = ''rdma''"
  by (simp_all add: config_valid_def config_wf_def outstanding_unit_def pkts_per_msg_def sample_rdma_defs)

definition sample_connection :: rdma_connection where
  "sample_connection =
     \<lparr>rc_config = sample_rdma_config, rc_mr = \<lparr>mr_addr = 2 ^ 44, mr_length = 2 ^ 21, mr_lkey = 5, mr_rkey = 6\<rparr>, rc_mtu = 3,
      rc_num_queue_pairs = 64, rc_completion_queues = replicate 4 None, rc_queue_pairs = replicate 64 None,
      rc_neighbor_gids = replicate 64 (replicate 16 0), rc_neighbor_qpns = replicate 64 0, rc_neighbor_psns = replicate 64 0,
      rc_neighbor_rkeys = replicate 64 0, rc_calls = [], rc_log = []\<rparr>"

lemma sample_num: "num_queue_pairs sample_rdma_config = Inr 64"
  by (simp add: num_queue_pairs_def rdma_pkts_per_msg_def sample_rdma_defs u32_def)

lemma sample_gid: "list_ex (\<lambda>b. b \<noteq> 0) (IPv4ToGID 0x0A000001)"
  by (simp add: IPv4ToGID_def)

lemma sample_round_up: "round_up (2 ^ 21) 262144 = 2 ^ 21"
  by (simp add: round_up_def)

lemma sample_allocation:
  "AllocateAtAddress sample_verbs (2 ^ 44) (of_nat (gc_packet_numel (general sample_rdma_config) *
     gc_max_outstanding_packets (general sample_rdma_config) * 4)) = Inr (rc_mr sample_connection)"
  by (simp add: AllocateAtAddress_def Let_def sample_rdma_defs sample_verbs_def sample_connection_def sample_round_up[simplified])

lemma sample_new: "new_RdmaConnection sample_verbs sample_rdma_config = Inr sample_connection"
proof -
  have "new_RdmaEndpoint sample_verbs ''mlx5_0'' 1 3 = Inr \<lparr>ep_device = ''mlx5_0'', ep_device_port_id = 1, ep_gid_index = 3,
      ep_gid = IPv4ToGID 0x0A000001\<rparr>"
    by (simp add: new_RdmaEndpoint_def choose_device_def sample_verbs_def sample_gid list_ex_iff[of _ "[0..<4]"])
  then show ?thesis using sample_allocation
    by (simp add: new_RdmaConnection_def Let_def sample_num) (simp add: sample_connection_def sample_rdma_defs rdma_mtu_def)
qed

lemma sample_verbs_ok: "verbs_ok sample_verbs"
  by (auto simp: verbs_ok_def sample_verbs_def)

lemma sample_controller_ok: "controller_ok sample_controller 64"
  by (simp add: controller_ok_def sample_controller_def)

lemma connect_brings_up_witness:
  "\<exists>s' rts. Connect sample_verbs sample_controller 12345 sample_connection = Inr s' \<and>
     (\<exists>qp. rc_queue_pairs s' ! 63 = Some qp \<and> qp_state qp = IBV_QPS_RTS \<and> rts = Attr_RTS (qp_num qp div 2)) \<and>
     map event_of (rc_calls s') = [Ev_broadcast, Ev_session, Ev_barrier, Ev_barrier]"
proof -
  have n: "rc_num_queue_pairs sample_connection = 64" by (simp add: sample_connection_def)
  have ct: "controller_ok sample_controller (rc_num_queue_pairs sample_connection)" using sample_controller_ok n by simp
  have r: "session_program (gc_rank (general sample_rdma_config)) = [Ev_broadcast, Ev_session, Ev_barrier, Ev_barrier]"
    by (simp add: session_program_def sample_rdma_defs)
  have "63 < rc_num_queue_pairs sample_connection" unfolding n by simp
  note t = connect_brings_up[OF sample_rdma_valid sample_new sample_verbs_ok ct, of 12345, unfolded r]
  show ?thesis
    using t \<open>63 < rc_num_queue_pairs sample_connection\<close>
    apply (elim exE conjE)
    subgoal for s' response rtr rts log by (rule exI[of _ s'], rule exI[of _ "rts 63"], drule spec[of _ 63]) auto
    done
qed

lemma worker_shares_witness:
  "\<exists>share. (\<forall>tid < 4. GetWorkerThreadQueuePairs tid sample_connection = Inr (share tid)) \<and>
     concat (map share [0..<4]) = replicate 64 None"
proof -
  have c: "rc_config sample_connection = sample_rdma_config" "num_queue_pairs sample_rdma_config = Inr (rc_num_queue_pairs sample_connection)"
    "length (rc_queue_pairs sample_connection) = rc_num_queue_pairs sample_connection"
    "length (rc_neighbor_rkeys sample_connection) = rc_num_queue_pairs sample_connection"
    "gc_num_worker_threads (general sample_rdma_config) = 4" "rc_queue_pairs sample_connection = replicate 64 None"
    by (simp_all add: sample_num sample_connection_def, simp add: sample_rdma_defs)
  show ?thesis using worker_shares[OF sample_rdma_valid c(1-4)] unfolding c(5,6) by blast
qed

lemma worker_regions_witness:
  "\<exists>start. \<forall>tid < 4. GetWorkerThreadMemoryRegion tid sample_connection = Inr (start tid, 5)"
proof -
  have c: "rc_config sample_connection = sample_rdma_config" "vb_hugepagesize sample_verbs = 2 ^ 21"
    "mr_lkey (rc_mr sample_connection) = 5" "gc_num_worker_threads (general sample_rdma_config) = 4"
    "\<forall>buf len mr. vb_reg_mr sample_verbs buf len = Some mr \<longrightarrow> mr_addr mr = buf \<and> mr_length mr = len"
    by (auto simp: sample_connection_def sample_verbs_def, simp add: sample_rdma_defs)
  show ?thesis using worker_regions[OF sample_rdma_valid sample_allocation c(1,2) _ c(5)] unfolding c(3,4)
    by (force simp: sample_rdma_defs)
qed

lemma hugepage_failure_unnoticed_witness:
  "AllocateAtAddress (sample_verbs\<lparr>vb_hugepagesize := - 1\<rparr>) 4096 262145 = Inr \<lparr>mr_addr = 4096, mr_length = 1, mr_lkey = 5, mr_rkey = 6\<rparr>"
  using hugepage_failure_unnoticed[of "sample_verbs\<lparr>vb_hugepagesize := - 1\<rparr>" 4096 262145] by (simp add: sample_verbs_def)

lemma modify_failure_unnoticed_witness:
  "\<exists>a. MoveToRts (sample_verbs\<lparr>vb_modify := \<lambda>_ _ _. 22\<rparr>) 0
     (sample_connection\<lparr>rc_queue_pairs := [Some \<lparr>qp_num = 100, qp_cq = 0, qp_state = IBV_QPS_RTR, qp_attrs = []\<rparr>]\<rparr>) =
     Inr (sample_connection\<lparr>rc_queue_pairs := [Some \<lparr>qp_num = 100, qp_cq = 0, qp_state = IBV_QPS_RTR, qp_attrs = []\<rparr>],
       rc_log := [Modified 0 a]\<rparr>)"
  using modify_failure_unnoticed[of 0 "sample_connection\<lparr>rc_queue_pairs := [Some \<lparr>qp_num = 100, qp_cq = 0, qp_state = IBV_QPS_RTR, qp_attrs = []\<rparr>]\<rparr>"
      "\<lparr>qp_num = 100, qp_cq = 0, qp_state = IBV_QPS_RTR, qp_attrs = []\<rparr>" "sample_verbs\<lparr>vb_modify := \<lambda>_ _ _. 22\<rparr>"]
  by (simp add: sample_connection_def)

end
