(* ===== verification/Packet_Pool.thy ===== *)
theory Packet_Pool
  imports Packet_Protocol
begin

text \<open>
  Job slices whose packets live in buffers of a pool, anywhere in it, instead of fixed slots (the DPDK backend),
  and code whose steps themselves contain loops: the outcome \<open>None\<close> means that the fuel of such a loop
  did not suffice.
\<close>

section \<open>Sequencing of code that may loop\<close>

definition bindO :: "'a outcome option \<Rightarrow> ('a \<Rightarrow> 'b outcome option) \<Rightarrow> 'b outcome option" where
  "bindO m f = (case m of None \<Rightarrow> None | Some (Inl e) \<Rightarrow> Some (Inl e) | Some (Inr x) \<Rightarrow> f x)"

lemma bindO_simps [simp, outcome_simps]:
  "bindO None f = None" "bindO (Some (Inl e)) f = Some (Inl e)" "bindO (Some (Inr x)) f = f x"
  by (simp_all add: bindO_def)

lemma bindO_SomeE:
  assumes "bindO m f = Some (Inr y)"
  obtains x where "m = Some (Inr x)" and "f x = Some (Inr y)"
  using assms by (cases m) (auto simp: bindO_def split: sum.splits)

definition oloop_of ::
  "(nat \<Rightarrow> 's \<Rightarrow> bool) \<Rightarrow> (nat \<Rightarrow> 's \<Rightarrow> 's outcome option) \<Rightarrow> (nat \<Rightarrow> nat \<Rightarrow> 's \<Rightarrow> 's outcome option) \<Rightarrow> bool"
where
  "oloop_of cond step loop \<longleftrightarrow> (\<forall>k s. loop 0 k s = None) \<and> (\<forall>fuel k s. loop (Suc fuel) k s =
     (if cond k s then bindO (step k s) (loop fuel (Suc k)) else Some (Inr s)))"

text \<open>A loop whose steps return from the states of an invariant agrees there with a loop of total steps.\<close>

definition guarded :: "('s \<Rightarrow> bool) \<Rightarrow> (nat \<Rightarrow> 's \<Rightarrow> 's outcome option) \<Rightarrow> nat \<Rightarrow> 's \<Rightarrow> 's outcome" where
  "guarded I step k s = (if I s then the (step k s) else Inr s)"

fun total_loop :: "(nat \<Rightarrow> 's \<Rightarrow> bool) \<Rightarrow> (nat \<Rightarrow> 's \<Rightarrow> 's outcome) \<Rightarrow> nat \<Rightarrow> nat \<Rightarrow> 's \<Rightarrow> 's outcome option" where
  "total_loop cond step 0 k s = None"
| "total_loop cond step (Suc fuel) k s =
     (if cond k s then (case step k s of Inl e \<Rightarrow> Some (Inl e) | Inr s' \<Rightarrow> total_loop cond step fuel (Suc k) s') else Some (Inr s))"

lemma total_loop_of: "loop_of cond step (total_loop cond step)"
  by (simp add: loop_of_def)

lemma oloop_total:
  assumes loop: "oloop_of cond step loop"
    and step: "\<And>k s. I s \<Longrightarrow> cond k s \<Longrightarrow> \<exists>s'. step k s = Some (Inr s') \<and> I s'"
  shows "I s \<Longrightarrow> loop fuel k s = total_loop cond (guarded I step) fuel k s"
proof (induction fuel arbitrary: k s)
  case 0
  then show ?case using loop by (simp add: oloop_of_def)
next
  case (Suc fuel)
  show ?case
  proof (cases "cond k s")
    case True
    then obtain s' where "step k s = Some (Inr s')" "I s'" using step[OF Suc.prems] by blast
    then show ?thesis using Suc True loop by (simp add: oloop_of_def guarded_def)
  next
    case False
    then show ?thesis using loop by (simp add: oloop_of_def)
  qed
qed

lemma oloop_safe:
  assumes loop: "oloop_of cond step loop"
    and step: "\<And>k s. I s \<Longrightarrow> cond k s \<Longrightarrow> \<exists>s'. step k s = Some (Inr s') \<and> I s'"
    and inv: "I s"
  shows "loop fuel k s = None \<or> (\<exists>s' k'. loop fuel k s = Some (Inr s') \<and> I s' \<and> \<not> cond k' s')"
proof -
  have g: "\<And>k s. I s \<Longrightarrow> cond k s \<Longrightarrow> \<exists>s'. guarded I step k s = Inr s' \<and> I s'"
    using step by (fastforce simp: guarded_def)
  have "loop fuel k s = total_loop cond (guarded I step) fuel k s" by (rule oloop_total[OF loop step inv])
  then show ?thesis using loop_safe[where cond = cond and step = "guarded I step" and I = I, OF total_loop_of g inv, of fuel k] by simp
qed

lemma oloop_returns:
  fixes rest :: "'s \<Rightarrow> nat"
  assumes loop: "oloop_of cond step loop"
    and step: "\<And>k s. I s \<Longrightarrow> cond k s \<Longrightarrow>
      \<exists>s'. step k s = Some (Inr s') \<and> I s' \<and> rest s' \<le> rest s \<and> (good k \<longrightarrow> rest s' < rest s)"
    and fair: "\<And>k. \<exists>j \<ge> k. good j" and inv: "I s"
  shows "\<exists>fuel. loop fuel k s \<noteq> None"
proof -
  have g: "\<And>k s. I s \<Longrightarrow> cond k s \<Longrightarrow>
      \<exists>s'. guarded I step k s = Inr s' \<and> I s' \<and> rest s' \<le> rest s \<and> (good k \<longrightarrow> rest s' < rest s)"
    using step by (fastforce simp: guarded_def)
  have i: "\<And>k s. I s \<Longrightarrow> cond k s \<Longrightarrow> \<exists>s'. step k s = Some (Inr s') \<and> I s'" using step by blast
  obtain fuel where "total_loop cond (guarded I step) fuel k s \<noteq> None"
    using loop_returns[where cond = cond and step = "guarded I step" and I = I and good = good and rest = rest and k = k,
        OF total_loop_of g fair inv] by blast
  moreover have "loop fuel k s = total_loop cond (guarded I step) fuel k s" by (rule oloop_total[OF loop i inv])
  ultimately show ?thesis by metis
qed

section \<open>Buffers of a pool\<close>

text \<open>The pool is the buffer of the layout; a packet's elements are anywhere in it.\<close>

definition pool_area :: "layout \<Rightarrow> ptr \<Rightarrow> bool" where
  "pool_area L e \<longleftrightarrow> (\<exists>j. e = l_buf L + 4 * j \<and> j + l_n L \<le> l_B L * l_n L)"

definition areas_apart :: "layout \<Rightarrow> ptr \<Rightarrow> ptr \<Rightarrow> bool" where
  "areas_apart L e e' \<longleftrightarrow> (\<forall>i < l_n L. \<not> in_block e (l_n L) (e' + 4 * i))"

lemma areas_apart_sym: "areas_apart L e e' \<Longrightarrow> areas_apart L e' e"
  unfolding areas_apart_def in_block_def by metis

lemma areas_apartD:
  assumes "areas_apart L e e'" and "i < l_n L" and "k \<le> l_n L"
  shows "\<not> in_block e k (e' + 4 * i)"
proof -
  have "\<not> in_block e (l_n L) (e' + 4 * i)" using assms(1,2) by (simp add: areas_apart_def)
  then show ?thesis using assms(3) unfolding in_block_def by (meson less_le_trans)
qed

lemma in_pool:
  assumes "pool_area L e" and "i < l_n L"
  shows "in_block (l_buf L) (l_B L * l_n L) (e + 4 * i)"
proof -
  obtain j where j: "e = l_buf L + 4 * j" "j + l_n L \<le> l_B L * l_n L" using assms(1) by (auto simp: pool_area_def)
  then show ?thesis unfolding in_block_def using assms(2) by (intro exI[of _ "j + i"]) simp
qed

lemma block_in_pool:
  assumes "pool_area L e" and "in_block e k a" and "k \<le> l_n L"
  shows "in_block (l_buf L) (l_B L * l_n L) a"
proof -
  obtain i where "i < k" "a = e + 4 * i" using assms(2) by (auto simp: in_block_def)
  then show ?thesis using in_pool[OF assms(1), of i] assms(3) by simp
qed

lemma pool_outside:
  assumes "layout_ok L" and "j < cnt L p"
  shows "\<not> in_block (l_buf L) (l_B L * l_n L) (src L p + 4 * j)" and "\<not> in_block (l_buf L) (l_B L * l_n L) (dst L p + 4 * j)"
proof -
  have ap: "apart (l_buf L) (l_B L * l_n L) (l_in L) (l_numel L)"
    "apart (l_buf L) (l_B L * l_n L) (l_out L) (l_numel L)" using assms(1) by (simp_all add: layout_ok_def)
  note idx = unit_index_less[OF assms(2)]
  show "\<not> in_block (l_buf L) (l_B L * l_n L) (src L p + 4 * j)" "\<not> in_block (l_buf L) (l_B L * l_n L) (dst L p + 4 * j)"
    using apart_elem[OF ap(1) _ idx] apart_elem[OF ap(2) _ idx] unfolding unit_address in_block_def by metis+
qed

text \<open>Changes inside the pool do not matter.\<close>

lemma slot_data_pool:
  assumes L: "layout_ok L" and D: "slot_data enc f L m0 m {} {} D"
    and frame: "\<forall>a. \<not> in_block (l_buf L) (l_B L * l_n L) a \<longrightarrow> m' a = m a"
  shows "slot_data enc f L m0 m' {} {} D"
  using D pool_outside[OF L] frame by (simp add: slot_data_def)

context ltu_processor
begin

lemma load_pool:
  assumes L: "layout_ok L" and D: "slot_data enc f L m0 m {} {} D" and q: "q \<notin> D" and e: "pool_area L e"
  shows "slot_data enc f L m0 (pre (src L q) e (cnt L q) m) {} {} D"
    and "i < cnt L q \<Longrightarrow> pre (src L q) e (cnt L q) m (e + 4 * i) = enc (m0 (src L q + 4 * i))"
proof -
  show "slot_data enc f L m0 (pre (src L q) e (cnt L q) m) {} {} D"
  proof (rule slot_data_pool[OF L D], intro allI impI)
    fix a assume "\<not> in_block (l_buf L) (l_B L * l_n L) a"
    then show "pre (src L q) e (cnt L q) m a = m a" using block_in_pool[OF e _ cnt_le_n] by (intro pre_frame) metis
  qed
  assume i: "i < cnt L q"
  have "no_clobber (src L q) e (cnt L q)"
    unfolding no_clobber_def
  proof (intro allI impI)
    fix k j assume kj: "k < cnt L q" "j < k"
    then show "e + 4 * j \<noteq> src L q + 4 * k"
      using pool_outside(1)[OF L kj(1)] in_pool[OF e, of j] cnt_le[OF kj(1)] by force
  qed
  from pre_data[OF this i] show "pre (src L q) e (cnt L q) m (e + 4 * i) = enc (m0 (src L q + 4 * i))"
    using D q i by (simp add: slot_data_def)
qed

lemma load_pool_other:
  assumes "areas_apart L e e'" and "i < l_n L"
  shows "pre s e (cnt L q) m (e' + 4 * i) = m (e' + 4 * i)"
  by (rule pre_frame, rule areas_apartD[OF assms cnt_le_n])

lemma store_pool:
  assumes L: "layout_ok L" and D: "slot_data enc f L m0 m {} {} D" and q: "q \<notin> D" and e: "pool_area L e"
    and data: "\<forall>i < cnt L q. m (e + 4 * i) = enc (f (q * l_n L + i) (m0 (src L q + 4 * i)))"
  shows "slot_data enc f L m0 (post e (dst L q) (cnt L q) m) {} {} (insert q D)"
    and "pool_area L e' \<Longrightarrow> i < l_n L \<Longrightarrow> post e (dst L q) (cnt L q) m (e' + 4 * i) = m (e' + 4 * i)"
proof -
  let ?m = "post e (dst L q) (cnt L q) m"
  have frame: "?m a = m a" if "\<not> in_block (dst L q) (cnt L q) a" for a by (rule post_frame[OF that])
  have nc: "no_clobber e (dst L q) (cnt L q)"
    unfolding no_clobber_def
  proof (intro allI impI)
    fix k j assume kj: "k < cnt L q" "j < k"
    then have "j < cnt L q" by simp
    from pool_outside(2)[OF L this] show "dst L q + 4 * j \<noteq> e + 4 * k"
      using in_pool[OF e cnt_le[OF kj(1)]] by force
  qed
  have own: "?m (dst L q + 4 * i) = dec (m (e + 4 * i))" if "i < cnt L q" for i by (rule post_data[OF nc that])
  have others: "?m (dst L p + 4 * i) = m (dst L p + 4 * i)" if "i < cnt L p" "p \<noteq> q" for p i
    using dst_inj[OF that(1) _ that(2)] by (intro frame) (metis in_block_def)
  have srcs: "?m (src L p + 4 * i) = m (src L p + 4 * i)" if "i < cnt L p" "p \<noteq> q" for p i
    using dst_src[OF L _ that(1)] that(2) by (intro frame) (metis in_block_def)
  have out: "?m a = m a" if "\<not> in_block (l_out L) (l_numel L) a" for a
    using that in_block_dst[of L q a] by (intro frame) auto
  show "slot_data enc f L m0 ?m {} {} (insert q D)" unfolding slot_data_def
  proof (intro conjI ballI allI impI)
    fix p i assume "p \<in> insert q D" "i < cnt L p"
    then show "?m (dst L p + 4 * i) = f (p * l_n L + i) (m0 (src L p + 4 * i))"
      using D data own others by (cases "p = q") (simp_all add: slot_data_def dec_enc)
  next
    fix p i assume "p \<notin> insert q D" "i < cnt L p"
    then show "?m (src L p + 4 * i) = m0 (src L p + 4 * i)" using D srcs by (simp add: slot_data_def)
  qed (use D in \<open>simp_all add: slot_data_def out\<close>)
  show "?m (e' + 4 * i) = m (e' + 4 * i)" if "pool_area L e'" "i < l_n L"
    using in_pool[OF that] pool_outside(2)[OF L] by (intro frame) (metis in_block_def)
qed

end

end
