(* ===== verification/Dpdk_Utils.thy ===== *)
theory Dpdk_Utils
  imports Rdma_Utils
begin

unbundle bit_operations_syntax

text \<open>
  The helpers of the DPDK backend (client_lib/src/backends/dpdk/dpdk_utils.cc): MAC addresses as integers
  and as text.
\<close>

section \<open>Hexadecimal text\<close>

definition hex_digit :: "nat \<Rightarrow> char" where
  "hex_digit d = ''0123456789abcdef'' ! d"

fun hex_string :: "nat \<Rightarrow> string" where
  "hex_string n = (if n < 16 then [hex_digit n] else hex_string (n div 16) @ [hex_digit (n mod 16)])"

declare hex_string.simps [simp del]

text \<open>\<open>width\<close> is twice the size of the type in bytes; the value is printed as an unsigned int.\<close>

definition ToHex :: "nat \<Rightarrow> nat \<Rightarrow> string" where
  "ToHex width i = (let s = hex_string (u32 i) in replicate (width - length s) (CHR ''0'') @ s)"

text \<open>The text of an address that is given as bytes.\<close>

definition Mac2Str :: "8 word list \<Rightarrow> string" where
  "Mac2Str addr_bytes =
     concat (map (\<lambda>i. ToHex 2 (unat (addr_bytes ! i)) @ '':'') [0..<5]) @ ToHex 2 (unat (addr_bytes ! 5))"

text \<open>
  The text of an address that is given as an integer. The loop counts up; shifting a 64-bit integer
  by its width or more is undefined.
\<close>

definition mac_octet :: "64 word \<Rightarrow> nat \<Rightarrow> string" where
  "mac_octet addr i = drop 14 (ToHex 16 (unat (drop_bit (8 * i) (addr AND push_bit (8 * i) 0xFF))))"

fun mac_loop :: "nat \<Rightarrow> 64 word \<Rightarrow> nat \<Rightarrow> string \<Rightarrow> string outcome option" where
  "mac_loop 0 addr i mac_str = None"
| "mac_loop (Suc fuel) addr i mac_str =
     (if 64 \<le> 8 * i then Some (Inl (Crash ''shift''))
      else mac_loop fuel addr (i + 1) (mac_str @ '':'' @ mac_octet addr i))"

definition Mac2Str_int :: "nat \<Rightarrow> 64 word \<Rightarrow> string outcome option" where
  "Mac2Str_int fuel addr = mac_loop fuel addr 4 (mac_octet addr 5)"

section \<open>Parsing\<close>

definition hex_value :: "char \<Rightarrow> nat option" where
  "hex_value c = (let n = of_char c in
     if 48 \<le> n \<and> n \<le> 57 then Some (n - 48)
     else if 97 \<le> n \<and> n \<le> 102 then Some (n - 87)
     else if 65 \<le> n \<and> n \<le> 70 then Some (n - 55) else None)"

definition is_hex :: "char \<Rightarrow> bool" where
  "is_hex c \<longleftrightarrow> hex_value c \<noteq> None"

text \<open>The conversion %hhx: white space, a sign, a prefix 0x, digits; the value is stored in a byte.\<close>

definition skip_prefix :: "string \<Rightarrow> string" where
  "skip_prefix s = (if length s > 2 \<and> s ! 0 = CHR ''0'' \<and> (s ! 1 = CHR ''x'' \<or> s ! 1 = CHR ''X'') \<and> is_hex (s ! 2) then drop 2 s else s)"

definition hex_number :: "string \<Rightarrow> int" where
  "hex_number ds = foldl (\<lambda>v c. 16 * v + int (the (hex_value c))) 0 ds"

definition scan_hhx :: "string \<Rightarrow> (8 word \<times> string) option" where
  "scan_hhx s =
     (let s1 = dropWhile is_space s;
          neg = (s1 \<noteq> [] \<and> hd s1 = CHR ''-'');
          s2 = (if s1 \<noteq> [] \<and> hd s1 \<in> {CHR ''-'', CHR ''+''} then tl s1 else s1);
          s3 = skip_prefix s2;
          ds = takeWhile is_hex s3
      in if ds = [] then None
         else Some (of_int (if neg then - hex_number ds else hex_number ds), dropWhile is_hex s3))"

text \<open>The bytes that sscanf stores for \<open>n\<close> conversions separated by colons, and what it leaves.\<close>

fun scan_mac :: "nat \<Rightarrow> string \<Rightarrow> 8 word list \<times> string" where
  "scan_mac 0 s = ([], s)"
| "scan_mac (Suc n) s =
     (case scan_hhx s of
        None \<Rightarrow> ([], s)
      | Some (b, rest) \<Rightarrow>
          if n = 0 then ([b], rest)
          else (case rest of
                  c # rest' \<Rightarrow> if c = CHR '':'' then (case scan_mac n rest' of (bs, r) \<Rightarrow> (b # bs, r)) else ([b], rest)
                | [] \<Rightarrow> ([b], rest)))"

definition Str2Mac :: "string \<Rightarrow> 64 word" where
  "Str2Mac s =
     (case scan_mac 6 s of (mac, rest) \<Rightarrow>
        if length mac \<noteq> 6 \<or> rest \<noteq> [] then - 1
        else push_bit 40 (ucast (mac ! 0)) OR push_bit 32 (ucast (mac ! 1)) OR push_bit 24 (ucast (mac ! 2)) OR
             push_bit 16 (ucast (mac ! 3)) OR push_bit 8 (ucast (mac ! 4)) OR ucast (mac ! 5))"

section \<open>Byte order\<close>

definition ChangeMacEndianness :: "64 word \<Rightarrow> 64 word" where
  "ChangeMacEndianness mac =
     push_bit 40 (mac AND 0xFF) OR push_bit 24 (mac AND 0xFF00) OR push_bit 8 (mac AND 0xFF0000) OR
     drop_bit 8 (mac AND 0xFF000000) OR drop_bit 24 (mac AND 0xFF00000000) OR drop_bit 40 (mac AND 0xFF0000000000)"

section \<open>Properties\<close>

lemma bit_ff: "bit (0xFF :: 64 word) i \<longleftrightarrow> i < 8"
  using bit_and_byte[of "- 1 :: 64 word" i] by (auto simp: bit_simps)

lemma and_byte_at: "mac AND push_bit k 0xFF = push_bit k (take_bit 8 (drop_bit k mac))" for mac :: "64 word"
  by (rule bit_word_eqI) (auto simp: bit_push_bit_iff bit_and_iff bit_take_bit_iff bit_drop_bit_eq bit_ff
      simp del: bit_numeral_word_iff)

lemma ChangeMacEndianness_bit:
  "bit (ChangeMacEndianness mac) n \<longleftrightarrow>
     n < 48 \<and> bit mac (if n < 8 then n + 40 else if n < 16 then n + 24 else if n < 24 then n + 8
                     else if n < 32 then n - 8 else if n < 40 then n - 24 else n - 40)"
proof -
  have m: "(0xFF00 :: 64 word) = push_bit 8 0xFF" "(0xFF0000 :: 64 word) = push_bit 16 0xFF" "(0xFF000000 :: 64 word) = push_bit 24 0xFF"
    "(0xFF00000000 :: 64 word) = push_bit 32 0xFF" "(0xFF0000000000 :: 64 word) = push_bit 40 0xFF" by simp_all
  have z: "mac AND 0xFF = take_bit 8 mac" using and_byte_at[of mac 0] by simp
  consider "n < 8" | "8 \<le> n" "n < 16" | "16 \<le> n" "n < 24" | "24 \<le> n" "n < 32" | "32 \<le> n" "n < 40" | "40 \<le> n" "n < 48" | "48 \<le> n"
    by linarith
  then show ?thesis unfolding ChangeMacEndianness_def m and_byte_at z
    by cases (auto simp: bit_or_iff bit_push_bit_iff bit_drop_bit_eq bit_take_bit_iff add.commute)
qed

text \<open>Reversing the bytes of an address twice gives back its 48 bits.\<close>

lemma mac_endianness_involution: "ChangeMacEndianness (ChangeMacEndianness mac) = take_bit 48 mac"
  by (rule bit_word_eqI) (auto simp: ChangeMacEndianness_bit bit_take_bit_iff)

text \<open>The text of a byte reads back as the byte.\<close>

lemma hex_digit_table:
  "list_all (\<lambda>d. hex_value (hex_digit d) = Some d \<and> \<not> is_space (hex_digit d) \<and> hex_digit d \<noteq> CHR ''-'' \<and> hex_digit d \<noteq> CHR ''+'' \<and>
     hex_digit d \<noteq> CHR ''x'' \<and> hex_digit d \<noteq> CHR ''X'') [0..<16]"
  by code_simp

lemma hex_digit_facts:
  assumes "d < 16"
  shows "hex_value (hex_digit d) = Some d" "\<not> is_space (hex_digit d)" "hex_digit d \<noteq> CHR ''-''" "hex_digit d \<noteq> CHR ''+''"
    "hex_digit d \<noteq> CHR ''x''" "hex_digit d \<noteq> CHR ''X''" "is_hex (hex_digit d)"
  using hex_digit_table assms by (auto simp: list_all_iff is_hex_def)

lemma hex_digit_0: "CHR ''0'' = hex_digit 0"
  by (simp add: hex_digit_def)

lemma ToHex_byte: "n < 256 \<Longrightarrow> ToHex 2 n = [hex_digit (n div 16), hex_digit (n mod 16)]"
  by (auto simp: ToHex_def u32_def hex_string.simps[of n] hex_string.simps[of "n div 16"] Let_def hex_digit_0)

lemma scan_hhx_byte:
  fixes b :: "8 word"
  assumes "rest = [] \<or> hd rest = CHR '':''"
  shows "scan_hhx (ToHex 2 (unat b) @ rest) = Some (b, rest)"
proof -
  let ?n = "unat b"
  have n: "?n < 256" using unsigned_less[of b] by simp
  then have d: "?n div 16 < 16" "?n mod 16 < 16" by (auto simp: less_mult_imp_div_less)
  note hd = hex_digit_facts[OF d(1)] hex_digit_facts[OF d(2)]
  have r: "takeWhile is_hex rest = []" "dropWhile is_hex rest = rest"
    using assms by (cases rest; simp add: is_hex_def hex_value_def)+
  have v: "hex_number [hex_digit (?n div 16), hex_digit (?n mod 16)] = uint b"
  proof -
    have "hex_number [hex_digit (?n div 16), hex_digit (?n mod 16)] = 16 * int (?n div 16) + int (?n mod 16)"
      using hd by (simp add: hex_number_def)
    moreover have "16 * int (?n div 16) + int (?n mod 16) = int ?n"
      by (metis mult_div_mod_eq of_nat_add of_nat_mult of_nat_numeral)
    ultimately show ?thesis by simp
  qed
  show ?thesis
    unfolding ToHex_byte[OF n] by (simp add: scan_hhx_def skip_prefix_def Let_def hd r v del: One_nat_def)
qed

lemma list_6:
  assumes "length bs = 6"
  obtains b0 b1 b2 b3 b4 b5 where "bs = [b0, b1, b2, b3, b4, b5]"
  using assms by (auto simp: numeral_eq_Suc length_Suc_conv)

lemma Mac2Str_bytes:
  "Mac2Str [b0, b1, b2, b3, b4, b5] =
     ToHex 2 (unat b0) @ CHR '':'' # ToHex 2 (unat b1) @ CHR '':'' # ToHex 2 (unat b2) @ CHR '':'' #
     ToHex 2 (unat b3) @ CHR '':'' # ToHex 2 (unat b4) @ CHR '':'' # ToHex 2 (unat b5)"
  by (simp add: Mac2Str_def upt_rec)

lemma scan_mac_bytes: "scan_mac 6 (Mac2Str [b0, b1, b2, b3, b4, b5]) = ([b0, b1, b2, b3, b4, b5], [])"
proof -
  have "scan_mac (Suc (Suc (Suc (Suc (Suc (Suc 0)))))) (Mac2Str [b0, b1, b2, b3, b4, b5]) = ([b0, b1, b2, b3, b4, b5], [])"
    using scan_hhx_byte[of "[]" b5] by (simp add: Mac2Str_bytes scan_hhx_byte)
  then show ?thesis by (simp add: eval_nat_numeral)
qed

text \<open>The text of an address reads back as the address, its first byte the most significant one.\<close>

theorem mac_text_roundtrip:
  assumes "length addr_bytes = 6" and "i < 6"
  shows "ucast (drop_bit (40 - 8 * i) (Str2Mac (Mac2Str addr_bytes))) = addr_bytes ! i"
proof -
  obtain b0 b1 b2 b3 b4 b5 where bs: "addr_bytes = [b0, b1, b2, b3, b4, b5]" using list_6[OF assms(1)] .
  have i: "i = 0 \<or> i = 1 \<or> i = 2 \<or> i = 3 \<or> i = 4 \<or> i = 5" using assms(2) by linarith
  show ?thesis unfolding Str2Mac_def bs scan_mac_bytes
    by (rule bit_word_eqI, use i in \<open>elim disjE\<close>)
       (auto simp: bit_simps dest: bit_imp_le_length)
qed

lemma mac_text_roundtrip_witness:
  "ucast (drop_bit 40 (Str2Mac (Mac2Str [0x00, 0x1b, 0x21, 0x3c, 0x9d, 0xff]))) = (0x00 :: 8 word) \<and>
   ucast (drop_bit 0 (Str2Mac (Mac2Str [0x00, 0x1b, 0x21, 0x3c, 0x9d, 0xff]))) = (0xff :: 8 word)"
  using mac_text_roundtrip[of "[0x00, 0x1b, 0x21, 0x3c, 0x9d, 0xff]" 0]
    mac_text_roundtrip[of "[0x00, 0x1b, 0x21, 0x3c, 0x9d, 0xff]" 5] by simp

text \<open>The overload for integers never returns: its loop counts up until the shift is out of range.\<close>

lemma Mac2Str_int_crashes: "Mac2Str_int 5 addr = Some (Inl (Crash ''shift''))"
  by (simp add: Mac2Str_int_def numeral_eq_Suc)

end
