(* ===== verification/Dpdk_Packet.thy ===== *)
theory Dpdk_Packet
  imports Packet_Pool Client_Config Dpdk_Utils
begin

unbundle bit_operations_syntax

text \<open>
  The packets of the DPDK backend (client_lib/src/backends/dpdk/dpdk_worker_thread_utils.inc, dpdk_backend.h):
  the slot of the switch that a packet uses, and building or reusing an mbuf. An mbuf is a record of its
  metadata and header fields and the address of its data, where the elements are. Fields that the switch or
  the network reads are 16, 32 or 64-bit words in network byte order; the host is little-endian.
\<close>

section \<open>Addresses and mbufs\<close>

record E2eAddress =
  e2e_mac :: "64 word"
  e2e_ip :: "32 word"
  e2e_port :: "16 word"

record rte_mbuf =
  mb_data :: ptr
  mb_data_len :: nat
  mb_pkt_len :: nat
  mb_tx_offload :: bool
  mb_src_mac :: "64 word"
  mb_dst_mac :: "64 word"
  mb_ether_type :: "16 word"
  mb_version_ihl :: nat
  mb_total_length :: "16 word"
  mb_ttl :: nat
  mb_proto :: nat
  mb_hdr_checksum :: "16 word"
  mb_src_ip :: "32 word"
  mb_dst_ip :: "32 word"
  mb_src_port :: "16 word"
  mb_dst_port :: "16 word"
  mb_dgram_len :: "16 word"
  mb_dgram_cksum :: "16 word"
  mb_job_type_size :: nat
  mb_short_job_id :: nat
  mb_pkt_id :: nat
  mb_pool_index :: "16 word"

text \<open>The headers take 14, 20, 8 and 8 bytes; then two bytes of extra information and the elements.\<close>

definition mb_extra :: "rte_mbuf \<Rightarrow> ptr" where
  "mb_extra mb = mb_data mb + 50"

definition mb_entries :: "rte_mbuf \<Rightarrow> ptr" where
  "mb_entries mb = mb_extra mb + 2"

definition cpu_to_be_16 :: "16 word \<Rightarrow> 16 word" where
  "cpu_to_be_16 w = push_bit 8 w OR drop_bit 8 w"

section \<open>The slots of the switch\<close>

text \<open>
  The packet number has 64 bits, the other arguments 32; the result has 16. For up to \<open>2 ^ 31 - 1\<close> outstanding packets,
  at least one, the divisor is not 0.
\<close>

definition PktId2PoolIndex :: "nat \<Rightarrow> nat \<Rightarrow> nat \<Rightarrow> nat \<Rightarrow> nat" where
  "PktId2PoolIndex pkt_id switch_pool_index_start switch_pool_index_shift max_outstanding_pkts =
     (let i = u32 (u64_add pkt_id switch_pool_index_shift mod u32 (2 * max_outstanding_pkts))
      in if i < max_outstanding_pkts then u16 (u32 (switch_pool_index_start + i))
         else u16 (u32 (switch_pool_index_start + (i - max_outstanding_pkts)) OR 0x8000))"

section \<open>Building packets\<close>

text \<open>The category of the length of a packet.\<close>

definition pkt_len_enum :: "nat \<Rightarrow> nat" where
  "pkt_len_enum packet_numel =
     (if packet_numel < 64 then 0 else if packet_numel < 128 then 1 else if packet_numel < 256 then 2 else 3)"

text \<open>The sums are assigned to 16 and 32-bit fields; \<open>cksum\<close> is the pseudo-header checksum of the library.\<close>

definition BuildPacket ::
  "(rte_mbuf \<Rightarrow> 16 word) \<Rightarrow> rte_mbuf \<Rightarrow> JobId \<Rightarrow> nat \<Rightarrow> nat \<Rightarrow> nat \<Rightarrow> E2eAddress \<Rightarrow> E2eAddress \<Rightarrow> PrePostProcessor \<Rightarrow> heap \<Rightarrow>
   (rte_mbuf \<times> heap) outcome"
where
  "BuildPacket cksum mbuf jid pkt_id switch_pool_index packet_numel switch_addr worker_addr p h =
     (let len = u16 (14 + 20 + 8 + 8 + packet_numel * 4 + 2);
          ip = mbuf\<lparr>mb_data_len := len, mb_pkt_len := len, mb_tx_offload := True,
                 mb_src_mac := take_bit 48 (e2e_mac worker_addr), mb_dst_mac := take_bit 48 (e2e_mac switch_addr),
                 mb_ether_type := cpu_to_be_16 0x0800,
                 mb_version_ihl := 0x45, mb_total_length := cpu_to_be_16 (of_int (int len - 14)),
                 mb_ttl := 128, mb_proto := 17, mb_hdr_checksum := 0,
                 mb_src_ip := e2e_ip worker_addr, mb_dst_ip := e2e_ip switch_addr\<rparr>;
          udp = ip\<lparr>mb_src_port := e2e_port worker_addr, mb_dst_port := e2e_port switch_addr,
                 mb_dgram_len := cpu_to_be_16 (of_int (int len - 14 - 20)), mb_dgram_cksum := cksum ip\<rparr>;
          mb = udp\<lparr>mb_pkt_id := pkt_id, mb_pool_index := cpu_to_be_16 (of_nat switch_pool_index),
                 mb_job_type_size := 16 + pkt_len_enum packet_numel, mb_short_job_id := jid mod 2 ^ 8\<rparr>
      in bindE (PreprocessSingle pkt_id (mb_entries mb) (mb_extra mb) p h) (\<lambda>h'. Inr (mb, h')))"

definition ReusePacket ::
  "(rte_mbuf \<Rightarrow> 16 word) \<Rightarrow> rte_mbuf \<Rightarrow> nat \<Rightarrow> nat \<Rightarrow> nat \<Rightarrow> E2eAddress \<Rightarrow> E2eAddress \<Rightarrow> PrePostProcessor \<Rightarrow> heap \<Rightarrow>
   (rte_mbuf \<times> heap) outcome"
where
  "ReusePacket cksum mbuf pkt_id packet_numel switch_pool_index switch_addr worker_addr p h =
     (let ip = mbuf\<lparr>mb_src_mac := take_bit 48 (e2e_mac worker_addr), mb_dst_mac := take_bit 48 (e2e_mac switch_addr),
                 mb_hdr_checksum := 0, mb_src_ip := e2e_ip worker_addr, mb_dst_ip := e2e_ip switch_addr\<rparr>;
          mb = ip\<lparr>mb_src_port := e2e_port worker_addr, mb_dst_port := e2e_port switch_addr, mb_dgram_cksum := cksum ip,
                 mb_pkt_id := pkt_id, mb_pool_index := cpu_to_be_16 (of_nat switch_pool_index)\<rparr>
      in bindE (PreprocessSingle pkt_id (mb_entries mb) (mb_extra mb) p h) (\<lambda>h'. Inr (mb, h')))"

section \<open>Properties of the slots\<close>

text \<open>Bounds under which the index fits the 15 bits that are left beside the pool.\<close>

definition pool_fits :: "nat \<Rightarrow> nat \<Rightarrow> bool" where
  "pool_fits start mop \<longleftrightarrow> 0 < mop \<and> start + mop \<le> 2 ^ 15"

lemma or_pool_bit:
  assumes "x < 2 ^ 15"
  shows "x OR 0x8000 = x + (0x8000 :: nat)"
proof -
  have "x AND 0x8000 = 0"
  proof (rule bit_eqI)
    fix n
    have "bit (0x8000 :: nat) n \<longleftrightarrow> n = 15" using bit_exp_iff[where 'a = nat, of 15 n] by simp
    moreover have "\<not> bit x 15" using assms by (simp add: bit_iff_odd)
    ultimately show "bit (x AND 0x8000) n = bit (0 :: nat) n" by (auto simp: bit_and_iff simp del: bit_numeral_simps)
  qed
  then show ?thesis by (simp only: disjunctive_add_eq_or)
qed

lemma u32_small: "n < 2 ^ 17 \<Longrightarrow> u32 n = n"
  by (simp add: u32_def)

lemma u16_small: "n < 2 ^ 15 \<Longrightarrow> u16 (u32 n) = n" "n < 2 ^ 15 \<Longrightarrow> u16 (n + 2 ^ 15) = n + 2 ^ 15"
  by (simp_all add: u16_def u32_def)

lemma PktId2PoolIndex_value:
  assumes "pool_fits start mop" and "q + shift < 2 ^ 64"
  shows "PktId2PoolIndex q start shift mop =
     start + (q + shift) mod mop + (if (q + shift) mod (2 * mop) < mop then 0 else 2 ^ 15)"
proof -
  define i where "i = (q + shift) mod (2 * mop)"
  have b: "0 < mop" "start + mop \<le> 2 ^ 15" using assms(1) by (simp_all add: pool_fits_def)
  have i: "i < 2 * mop" using b(1) by (simp add: i_def)
  have u: "u32 (2 * mop) = 2 * mop" "u32 i = i" using b(2) i by (simp_all add: u32_small)
  have eq: "PktId2PoolIndex q start shift mop =
      (if i < mop then u16 (u32 (start + i)) else u16 (u32 (start + (i - mop)) OR 0x8000))"
    using u by (simp add: PktId2PoolIndex_def u64_add_id[OF assms(2)] Let_def flip: i_def)
  have mm: "(q + shift) mod mop = i mod mop" unfolding i_def by (simp add: mod_mod_cancel)
  show ?thesis
  proof (cases "i < mop")
    case True
    then show ?thesis using b(2) unfolding eq mm by (simp add: u16_small flip: i_def)
  next
    case False
    have lt: "start + (i - mop) < 2 ^ 15" using b i by linarith
    have m: "i mod mop = i - mop" using i False by (simp add: mod_if)
    have "u32 (start + (i - mop)) = start + (i - mop)" using lt by (simp add: u32_small)
    then have "u16 (u32 (start + (i - mop)) OR 0x8000) = u16 (start + (i - mop) + 2 ^ 15)"
      using or_pool_bit[OF lt] by simp
    then show ?thesis using False unfolding eq mm m u16_small(2)[OF lt] by (simp flip: i_def)
  qed
qed

lemma PktId2PoolIndex_low:
  assumes "pool_fits start mop" and "q + shift < 2 ^ 64"
  shows "PktId2PoolIndex q start shift mop mod 2 ^ 15 = start + (q + shift) mod mop"
    and "PktId2PoolIndex q start shift mop div 2 ^ 15 = (if (q + shift) mod (2 * mop) < mop then 0 else 1)"
proof -
  have "(q + shift) mod mop < mop" "start + mop \<le> 2 ^ 15" using assms(1) by (simp_all add: pool_fits_def)
  then have lt: "start + (q + shift) mod mop < 2 ^ 15" by linarith
  show "PktId2PoolIndex q start shift mop mod 2 ^ 15 = start + (q + shift) mod mop"
    and "PktId2PoolIndex q start shift mop div 2 ^ 15 = (if (q + shift) mod (2 * mop) < mop then 0 else 1)"
    using lt unfolding PktId2PoolIndex_value[OF assms] by simp_all
qed

lemma mod_shift_inj:
  assumes "(p + s) mod m = (q + s) mod (m :: nat)"
  shows "p mod m = q mod m"
proof -
  have "(int p + int s) mod int m = (int q + int s) mod int m" using assms by (metis of_nat_add zmod_int)
  then have "int p mod int m = int q mod int m" by (metis add_diff_cancel_right' mod_diff_left_eq)
  then show ?thesis by (metis of_nat_eq_iff zmod_int)
qed

lemma other_pool:
  assumes "0 < (m :: nat)"
  shows "(x + m) mod (2 * m) < m \<longleftrightarrow> \<not> x mod (2 * m) < m"
proof -
  let ?r = "x mod (2 * m)"
  have r: "?r < 2 * m" using assms by simp
  have "(x + m) mod (2 * m) = (?r + m) mod (2 * m)" by (simp add: mod_add_left_eq)
  also have "\<dots> = (if ?r < m then ?r + m else ?r - m)"
  proof (cases "?r < m")
    case False
    then have "?r + m - 2 * m = ?r - m" "?r - m < 2 * m" "2 * m \<le> ?r + m" using r by linarith+
    then show ?thesis using False by (metis le_mod_geq mod_less)
  qed simp
  finally have eq: "(x + m) mod (2 * m) = (if ?r < m then ?r + m else ?r - m)" .
  show ?thesis unfolding eq using r by (cases "?r < m") simp_all
qed

text \<open>Outstanding packets of a thread use different slots of the thread's range of the switch (their indexes differ
  in the low 15 bits), as long as the batch has the maximal size or nothing is sent after the first batch.\<close>
theorem dpdk_slots_distinct:
  assumes "pool_fits start mop" and "pkt_inv B N qs" and "B = mop \<or> N \<le> mop" and "N + shift < 2 ^ 64"
  shows "distinct (map (\<lambda>q. PktId2PoolIndex q start shift mop mod 2 ^ 15) qs) \<and>
     (\<forall>q \<in> set qs. PktId2PoolIndex q start shift mop mod 2 ^ 15 \<in> {start ..< start + mop})"
proof -
  have q: "q < N" if "q \<in> set qs" for q using assms(2) that by (simp add: pkt_inv_def)
  have low: "PktId2PoolIndex q start shift mop mod 2 ^ 15 = start + (q + shift) mod mop" if "q \<in> set qs" for q
    using PktId2PoolIndex_low(1)[OF assms(1)] q[OF that] assms(4) by simp
  have mop: "0 < mop" using assms(1) by (simp add: pool_fits_def)
  have d: "distinct qs" "inj_on (\<lambda>q. q mod B) (set qs)" using assms(2) by (simp_all add: pkt_inv_def distinct_map)
  have "inj_on (\<lambda>q. q mod mop) (set qs)"
  proof (cases "B = mop")
    case False
    then have "q mod mop = q" if "q \<in> set qs" for q using assms(3) q[OF that] by simp
    then show ?thesis by (metis inj_onI)
  qed (use d(2) in simp)
  then have "inj_on (\<lambda>q. PktId2PoolIndex q start shift mop mod 2 ^ 15) (set qs)"
    using low by (auto intro!: inj_onI dest!: mod_shift_inj dest: inj_onD)
  then show ?thesis using d(1) low mop by (simp add: distinct_map)
qed

lemma dpdk_slots_distinct_witness:
  "distinct (map (\<lambda>q. PktId2PoolIndex q 128 10 64 mod 2 ^ 15) [64, 1, 66])"
  using dpdk_slots_distinct[of 128 64 64 200 "[64, 1, 66]" 10] by (simp add: pool_fits_def pkt_inv_def)

text \<open>The packet that replaces another in its slot uses the other copy of the slot, and the packets of the next
  job slice continue where the last one ended, as the switch requires.\<close>
theorem dpdk_slots_alternate:
  assumes "pool_fits start mop" and "q + mop + shift < 2 ^ 64" and "N + q + shift < 2 ^ 64"
  shows "PktId2PoolIndex (q + mop) start shift mop mod 2 ^ 15 = PktId2PoolIndex q start shift mop mod 2 ^ 15 \<and>
     PktId2PoolIndex (q + mop) start shift mop div 2 ^ 15 \<noteq> PktId2PoolIndex q start shift mop div 2 ^ 15 \<and>
     PktId2PoolIndex q start ((shift + N) mod (2 * mop)) mop = PktId2PoolIndex (N + q) start shift mop"
proof (intro conjI)
  have mop: "0 < mop" using assms(1) by (simp add: pool_fits_def)
  have b: "q + shift < 2 ^ 64" "(q + mop) + shift < 2 ^ 64" "N + q + shift < 2 ^ 64" using assms(2,3) by simp_all
  have c: "q + mop + shift = q + shift + mop" by simp
  show "PktId2PoolIndex (q + mop) start shift mop mod 2 ^ 15 = PktId2PoolIndex q start shift mop mod 2 ^ 15"
    unfolding PktId2PoolIndex_low(1)[OF assms(1) b(1)] PktId2PoolIndex_low(1)[OF assms(1) b(2)] c by simp
  show "PktId2PoolIndex (q + mop) start shift mop div 2 ^ 15 \<noteq> PktId2PoolIndex q start shift mop div 2 ^ 15"
    unfolding PktId2PoolIndex_low(2)[OF assms(1) b(1)] PktId2PoolIndex_low(2)[OF assms(1) b(2)] c other_pool[OF mop] by simp
  let ?s = "(shift + N) mod (2 * mop)"
  have "?s \<le> shift + N" by simp
  then have lt: "q + ?s < 2 ^ 64" using b(3) by linarith
  have m2: "(q + ?s) mod (2 * mop) = (N + q + shift) mod (2 * mop)" by (simp add: mod_add_right_eq add.commute add.left_commute)
  then have "(q + ?s) mod (2 * mop) mod mop = (N + q + shift) mod (2 * mop) mod mop" by simp
  then have m1: "(q + ?s) mod mop = (N + q + shift) mod mop" by (simp only: mod_mod_cancel dvd_triv_right)
  show "PktId2PoolIndex q start ?s mop = PktId2PoolIndex (N + q) start shift mop"
    unfolding PktId2PoolIndex_value[OF assms(1) lt] PktId2PoolIndex_value[OF assms(1) b(3)] m1 m2 by simp
qed

lemma dpdk_slots_alternate_witness:
  "PktId2PoolIndex 5 128 ((10 + 100) mod (2 * 64)) 64 = PktId2PoolIndex 105 128 10 64 \<and>
   PktId2PoolIndex 69 128 10 64 \<noteq> PktId2PoolIndex 5 128 10 64"
  using dpdk_slots_alternate[of 128 64 5 10 100] by (auto simp: pool_fits_def)



end
