(* ===== verification/Dpdk_Worker.thy ===== *)
theory Dpdk_Worker
  imports Dpdk_Packet Client_Stats
begin

unbundle bit_operations_syntax

text \<open>
  The worker thread of the DPDK backend (client_lib/src/backends/dpdk/dpdk_worker_thread.cc and the callbacks of
  dpdk_worker_thread_utils.inc), for a build with timeouts. The DPDK library, the network card and the network are
  an environment: how many packets each call of rte_eth_tx_burst accepts, when the transmission buffer is full,
  what rte_pktmbuf_alloc returns, and for every call of rte_eth_rx_burst the received mbufs, the memory at that
  moment, the clock and the timers that have expired.
\<close>

section \<open>State\<close>

record dpdk_env =
  de_config :: Config
  de_tid :: nat
  de_switch_addr :: E2eAddress
  de_cksum :: "rte_mbuf \<Rightarrow> 16 word"
  de_accept :: "nat \<Rightarrow> nat"
  de_buffer_full :: "rte_mbuf list \<Rightarrow> bool"
  de_alloc :: "nat \<Rightarrow> rte_mbuf option"
  de_bitmap_alloc :: "nat \<Rightarrow> bool"

text \<open>What the thread computes once, before its main loop.\<close>

record dpdk_thread =
  dt_addr :: E2eAddress
  dt_max_outstanding_pkts :: nat
  dt_pool_index_start :: nat
  dt_drain_tsc :: nat
  dt_initial_timer_cycles :: nat

record ResendPacketCallbackArgs =
  ra_job_id :: JobId
  ra_pkt_id :: nat
  ra_pool_index :: nat

text \<open>
  \<open>dk_wire\<close> is ghost state: the mbufs that the network card has accepted for the current job slice, each with the elements
  it held then. A timer is the number of cycles of its period while it is pending.
\<close>

record dpdk_worker =
  dk_ppp :: PrePostProcessor
  dk_heap :: heap
  dk_mbufs :: "rte_mbuf list"
  dk_bitmap :: "bool list"
  dk_received :: nat
  dk_tx_buffer :: "rte_mbuf list"
  dk_wire :: "(rte_mbuf \<times> 32 word list) list"
  dk_bursts :: nat
  dk_allocs :: nat
  dk_timers :: "nat option list"
  dk_args :: "ResendPacketCallbackArgs list"
  dk_timer_cycles :: nat
  dk_timeouts_counter :: nat
  dk_timeout_threshold :: nat
  dk_prev_tsc :: nat
  dk_cur_tsc :: nat
  dk_timer_prev_tsc :: nat
  dk_shift :: nat
  dk_wrong :: nat
  dk_correct :: nat
  dk_sent :: nat
  dk_stats :: Stats

abbreviation de_numel :: "dpdk_env \<Rightarrow> nat" where
  "de_numel env \<equiv> gc_packet_numel (general (de_config env))"

section \<open>Transmission\<close>

definition payload :: "dpdk_env \<Rightarrow> memory \<Rightarrow> rte_mbuf \<Rightarrow> 32 word list" where
  "payload env m mb = map (\<lambda>i. m (mb_entries mb + 4 * i)) [0..<de_numel env]"

text \<open>rte_eth_tx_burst accepts some of the packets, from the front; the result is their number.\<close>

definition tx_burst :: "dpdk_env \<Rightarrow> rte_mbuf list \<Rightarrow> dpdk_worker \<Rightarrow> nat \<times> dpdk_worker" where
  "tx_burst env pkts w =
     (let n = min (de_accept env (dk_bursts w)) (length pkts)
      in (n, w\<lparr>dk_wire := dk_wire w @ map (\<lambda>mb. (mb, payload env (words (dk_heap w)) mb)) (take n pkts),
               dk_bursts := Suc (dk_bursts w)\<rparr>))"

text \<open>
  Call it until all packets are accepted; \<open>narrow\<close> is the conversion to the type of the counter \<open>sent\<close>. The
  number of packets of a call has 16 bits.
\<close>

fun tx_loop ::
  "dpdk_env \<Rightarrow> (nat \<Rightarrow> nat) \<Rightarrow> nat \<Rightarrow> rte_mbuf list \<Rightarrow> nat \<Rightarrow> dpdk_worker \<Rightarrow> (nat \<times> dpdk_worker) outcome option"
where
  "tx_loop env narrow 0 pkts sent w = None"
| "tx_loop env narrow (Suc fuel) pkts sent w =
     (let (n, w1) = tx_burst env (take (u16 (length pkts - sent)) (drop sent pkts)) w;
          sent1 = narrow (sent + n)
      in if sent1 < length pkts then tx_loop env narrow fuel pkts sent1 w1 else Some (Inr (sent1, w1)))"

definition TxBufferCallback :: "dpdk_env \<Rightarrow> nat \<Rightarrow> rte_mbuf list \<Rightarrow> dpdk_worker \<Rightarrow> dpdk_worker outcome option" where
  "TxBufferCallback env fuel pkts w = bindO (tx_loop env u32 fuel pkts 0 w) (\<lambda>(sent, w1). Some (Inr w1))"

text \<open>
  rte_eth_tx_buffer_flush and rte_eth_tx_buffer return the number of packets of the buffer that the card accepted at once; the
  others go to the error callback.
\<close>

definition tx_buffer_flush :: "dpdk_env \<Rightarrow> nat \<Rightarrow> dpdk_worker \<Rightarrow> (nat \<times> dpdk_worker) outcome option" where
  "tx_buffer_flush env fuel w =
     (if dk_tx_buffer w = [] then Some (Inr (0, w))
      else let pkts = dk_tx_buffer w; (n, w1) = tx_burst env pkts (w\<lparr>dk_tx_buffer := []\<rparr>)
           in if n < length pkts then bindO (TxBufferCallback env fuel (drop n pkts) w1) (\<lambda>w2. Some (Inr (n, w2)))
              else Some (Inr (n, w1)))"

definition tx_buffer :: "dpdk_env \<Rightarrow> nat \<Rightarrow> rte_mbuf \<Rightarrow> dpdk_worker \<Rightarrow> (nat \<times> dpdk_worker) outcome option" where
  "tx_buffer env fuel mb w =
     (let w1 = w\<lparr>dk_tx_buffer := dk_tx_buffer w @ [mb]\<rparr>
      in if de_buffer_full env (dk_tx_buffer w1) then tx_buffer_flush env fuel w1 else Some (Inr (0, w1)))"

section \<open>Timeouts\<close>

text \<open>The check of the allocation compares the address of a local array; a failure goes unnoticed until the packet is built.\<close>

definition ResendPacketCallback :: "dpdk_env \<Rightarrow> dpdk_thread \<Rightarrow> nat \<Rightarrow> nat \<Rightarrow> dpdk_worker \<Rightarrow> dpdk_worker outcome option" where
  "ResendPacketCallback env th fuel i w =
     (let args = dk_args w ! i;
          c = u64_add (dk_timeouts_counter w) 1;
          w1 = (if c \<ge> dk_timeout_threshold w
                then w\<lparr>dk_timeouts_counter := 0,
                       dk_timeout_threshold := u64_add (dk_timeout_threshold w) (gc_timeout_threshold_increment (general (de_config env))),
                       dk_timer_cycles := u64_mul (dk_timer_cycles w) 2\<rparr>
                else w\<lparr>dk_timeouts_counter := c\<rparr>)
      in (case de_alloc env (dk_allocs w1) of
            None \<Rightarrow> Some (Inl (Crash ''null mbuf''))
          | Some mbuf \<Rightarrow>
              bindO (Some (BuildPacket (de_cksum env) mbuf (ra_job_id args) (ra_pkt_id args) (ra_pool_index args) (de_numel env)
                       (de_switch_addr env) (dt_addr th) (dk_ppp w1) (dk_heap w1))) (\<lambda>(mb, h).
              bindO (tx_loop env u32 fuel [mb] 0 (w1\<lparr>dk_allocs := Suc (dk_allocs w1), dk_heap := h\<rparr>)) (\<lambda>(sent, w2).
              bindO (Some (AddTimeouts (de_tid env) 1 (dk_stats w2))) (\<lambda>s1.
              bindO (Some (AddTotalPktsSent (de_tid env) 1 s1)) (\<lambda>s2.
                Some (Inr (w2\<lparr>dk_timers := (dk_timers w2)[i := Some (dk_timer_cycles w2)], dk_stats := s2\<rparr>))))))))"

text \<open>rte_timer_manage runs the callbacks of the pending timers that have expired.\<close>

fun timer_manage :: "dpdk_env \<Rightarrow> dpdk_thread \<Rightarrow> nat \<Rightarrow> nat list \<Rightarrow> dpdk_worker \<Rightarrow> dpdk_worker outcome option" where
  "timer_manage env th fuel [] w = Some (Inr w)"
| "timer_manage env th fuel (i # expired) w =
     (if i < length (dk_timers w) \<and> dk_timers w ! i \<noteq> None
      then bindO (ResendPacketCallback env th fuel i w) (timer_manage env th fuel expired)
      else timer_manage env th fuel expired w)"

section \<open>Starting the thread\<close>

text \<open>The results of the allocations, in order; \<open>da_mbufs\<close> are the mbufs of the first batches.\<close>

record dpdk_allocations =
  da_tx_mempool :: bool
  da_tx_array :: bool
  da_mbufs :: "rte_mbuf list option"
  da_tx_buffer :: bool
  da_tx_callback :: int
  da_rx_array :: bool
  da_tsc_hz :: nat
  da_timer_hz :: nat

definition fatal_if :: "bool \<Rightarrow> string \<Rightarrow> unit outcome" where
  "fatal_if b s = (if b then Inl (Fatal s) else Inr ())"

text \<open>The conversion of a product with a floating point number to an integer truncates; \<open>timeout\<close> is not negative.\<close>

definition dpdk_start :: "dpdk_env \<Rightarrow> E2eAddress \<Rightarrow> dpdk_allocations \<Rightarrow> heap \<Rightarrow> Stats \<Rightarrow> (dpdk_thread \<times> dpdk_worker) outcome" where
  "dpdk_start env worker_addr a h s =
     (let g = general (de_config env); d = bc_dpdk (backend_cfg (de_config env)); tid = de_tid env
      in if gc_num_worker_threads g = 0 then Inl (Crash ''division by zero'')
         else let mop = gc_max_outstanding_packets g div gc_num_worker_threads g
              in bindE (CreatePPP (gc_prepostprocessor g) (gc_num_workers g) tid (u64_mul (gc_packet_numel g) 4) mop) (\<lambda>p.
                 bindE (fatal_if (\<not> da_tx_mempool a) ''Cannot init mbuf pool'') (\<lambda>_.
                 bindE (fatal_if (\<not> da_tx_array a) ''Cannot allocate pkts tx burst'') (\<lambda>_.
                 bindE (case da_mbufs a of None \<Rightarrow> Inl (Fatal ''Cannot allocate mbuf tx burst'') | Some ms \<Rightarrow> Inr ms) (\<lambda>mbufs.
                 bindE (fatal_if (\<not> da_tx_buffer a) ''Cannot allocate TX buffer'') (\<lambda>_.
                 bindE (fatal_if (da_tx_callback a < 0) ''Cannot set callback for tx buffer'') (\<lambda>_.
                 bindE (fatal_if (\<not> da_rx_array a) ''Cannot allocate pkts rx burst'') (\<lambda>_.
                 Inr (\<lparr>dt_addr = worker_addr\<lparr>e2e_port := cpu_to_be_16 (cpu_to_be_16 (e2e_port worker_addr) + of_nat tid)\<rparr>,
                        dt_max_outstanding_pkts = mop, dt_pool_index_start = u32 (u32 (mop * 2) * tid),
                        dt_drain_tsc = u64_mul (u64_sub (u64_add (da_tsc_hz a) 1000000) 1 div 1000000) (dpdk_bulk_drain_tx_us d),
                        dt_initial_timer_cycles = u64 (nat \<lfloor>of_nat (da_timer_hz a div 1000) * gc_timeout g\<rfloor>)\<rparr>,
                      \<lparr>dk_ppp = p, dk_heap = h, dk_mbufs = mbufs, dk_bitmap = [], dk_received = 0, dk_tx_buffer = [], dk_wire = [],
                        dk_bursts = 0, dk_allocs = 0, dk_timers = replicate mop None,
                        dk_args = replicate mop \<lparr>ra_job_id = 0, ra_pkt_id = 0, ra_pool_index = 0\<rparr>,
                        dk_timer_cycles = 0, dk_timeouts_counter = 0, dk_timeout_threshold = gc_timeout_threshold g,
                        dk_prev_tsc = 0, dk_cur_tsc = 0, dk_timer_prev_tsc = 0, dk_shift = 0,
                        dk_wrong = 0, dk_correct = 0, dk_sent = 0, dk_stats = s\<rparr>)))))))))"

section \<open>One job slice\<close>

text \<open>Build packet \<open>j\<close> of the first batch, then increment the packet id and set the timer up with the incremented id.\<close>

definition build_first :: "dpdk_env \<Rightarrow> dpdk_thread \<Rightarrow> JobSlice \<Rightarrow> nat \<Rightarrow> dpdk_worker \<Rightarrow> dpdk_worker outcome" where
  "build_first env th js j w =
     (if \<not> j < length (dk_mbufs w) then Inl (Crash ''pkts_tx_burst[j]'')
      else let mop = dt_max_outstanding_pkts th;
               pool = PktId2PoolIndex j (dt_pool_index_start th) (dk_shift w) mop
           in bindE (BuildPacket (de_cksum env) (dk_mbufs w ! j) (slice_job js) (u32 j) pool (de_numel env)
                       (de_switch_addr env) (dt_addr th) (dk_ppp w) (dk_heap w)) (\<lambda>(mb, h).
                let pkt_id = u64_add j 1; outstanding_pkt_index = u16 (pkt_id mod mop)
                in Inr (w\<lparr>dk_mbufs := (dk_mbufs w)[j := mb], dk_heap := h,
                          dk_args := (dk_args w)[outstanding_pkt_index :=
                             \<lparr>ra_job_id = slice_job js, ra_pkt_id = u32 pkt_id, ra_pool_index = pool\<rparr>],
                          dk_timers := (dk_timers w)[outstanding_pkt_index := Some (u64_mul (dk_timer_cycles w) mop)]\<rparr>)))"

fun build_first_batch :: "dpdk_env \<Rightarrow> dpdk_thread \<Rightarrow> JobSlice \<Rightarrow> nat \<Rightarrow> dpdk_worker \<Rightarrow> dpdk_worker outcome" where
  "build_first_batch env th js 0 w = Inr w"
| "build_first_batch env th js (Suc j) w = bindE (build_first_batch env th js j w) (build_first env th js j)"

text \<open>Everything before the receive loop; the results are the batch size and the number of packets.\<close>

definition dpdk_begin ::
  "dpdk_env \<Rightarrow> dpdk_thread \<Rightarrow> (nat \<Rightarrow> fp) \<Rightarrow> nat \<Rightarrow> JobSlice \<Rightarrow> dpdk_worker \<Rightarrow> (nat \<times> nat \<times> dpdk_worker) outcome option"
where
  "dpdk_begin env th garbage fuel js w =
     bindO (Some (SetupJobSlice garbage (slice js) (dk_ppp w))) (\<lambda>(main_pkts, p).
       let batch = min (dt_max_outstanding_pkts th) main_pkts
       in bindO (Some (NeedsExtraBatch p)) (\<lambda>more.
          let num_pkts = (if more then u64_add main_pkts batch else main_pkts)
          in bindO (Some (fatal_if (\<not> de_bitmap_alloc env num_pkts) ''bitmap'')) (\<lambda>_.
             bindO (Some (build_first_batch env th js batch
                      (w\<lparr>dk_ppp := p, dk_bitmap := replicate (u32 num_pkts) False, dk_received := 0, dk_wire := [],
                         dk_timer_cycles := dt_initial_timer_cycles th, dk_wrong := 0, dk_correct := 0, dk_sent := 0\<rparr>))) (\<lambda>w1.
             bindO (tx_loop env u16 fuel (take batch (dk_mbufs w1)) 0 w1) (\<lambda>(sent, w2).
               Some (Inr (batch, num_pkts, w2\<lparr>dk_sent := u64_add (dk_sent w2) sent\<rparr>)))))))"

text \<open>One received packet: discarded, or accepted and its mbuf reused for the next packet.\<close>

definition send_next ::
  "dpdk_env \<Rightarrow> dpdk_thread \<Rightarrow> nat \<Rightarrow> JobSlice \<Rightarrow> rte_mbuf \<Rightarrow> nat \<Rightarrow> dpdk_worker \<Rightarrow> dpdk_worker outcome option"
where
  "send_next env th fuel js mbuf pkt_id w =
     (let mop = dt_max_outstanding_pkts th;
          pool = PktId2PoolIndex pkt_id (dt_pool_index_start th) (dk_shift w) mop
      in bindO (Some (ReusePacket (de_cksum env) mbuf pkt_id (de_numel env) pool (de_switch_addr env) (dt_addr th)
                   (dk_ppp w) (dk_heap w))) (\<lambda>(mb, h).
         bindO (tx_buffer env fuel mb (w\<lparr>dk_heap := h\<rparr>)) (\<lambda>(nb_tx, w1).
           let w2 = (if nb_tx \<noteq> 0 then w1\<lparr>dk_sent := u64_add (dk_sent w1) nb_tx, dk_prev_tsc := dk_cur_tsc w1\<rparr> else w1)
           in Some (Inr (w2\<lparr>dk_args := (dk_args w2)[pkt_id mod mop :=
                               \<lparr>ra_job_id = slice_job js, ra_pkt_id = pkt_id, ra_pool_index = pool\<rparr>],
                            dk_timers := (dk_timers w2)[pkt_id mod mop := Some (dk_timer_cycles w2)]\<rparr>)))))"

definition handle_packet ::
  "dpdk_env \<Rightarrow> dpdk_thread \<Rightarrow> nat \<Rightarrow> JobSlice \<Rightarrow> nat \<Rightarrow> nat \<Rightarrow> rte_mbuf \<Rightarrow> dpdk_worker \<Rightarrow> dpdk_worker outcome option"
where
  "handle_packet env th fuel js batch num_pkts mbuf w =
     (let pkt_id = mb_pkt_id mbuf
      in if \<not> pkt_id < length (dk_bitmap w) then Some (Inl (Crash ''rte_bitmap_get''))
         else if dk_bitmap w ! pkt_id then Some (Inr (w\<lparr>dk_wrong := u64_add (dk_wrong w) 1\<rparr>))
         else if mb_short_job_id mbuf \<noteq> slice_job js mod 2 ^ 8 then Some (Inr (w\<lparr>dk_wrong := u64_add (dk_wrong w) 1\<rparr>))
         else
           bindO (Some (PostprocessSingle pkt_id (mb_entries mbuf) (mb_extra mbuf) (dk_ppp w) (dk_heap w))) (\<lambda>(p, h).
             let next_id = u32 (pkt_id + batch);
                 w1 = w\<lparr>dk_ppp := p, dk_heap := h, dk_received := u32 (dk_received w + 1), dk_bitmap := (dk_bitmap w)[pkt_id := True],
                        dk_correct := u64_add (dk_correct w) 1,
                        dk_timers := (dk_timers w)[next_id mod dt_max_outstanding_pkts th := None]\<rparr>
             in if next_id \<ge> num_pkts then Some (Inr w1) else send_next env th fuel js mbuf next_id w1))"

fun handle_packets ::
  "dpdk_env \<Rightarrow> dpdk_thread \<Rightarrow> nat \<Rightarrow> JobSlice \<Rightarrow> nat \<Rightarrow> nat \<Rightarrow> rte_mbuf list \<Rightarrow> dpdk_worker \<Rightarrow> dpdk_worker outcome option"
where
  "handle_packets env th fuel js batch num_pkts [] w = Some (Inr w)"
| "handle_packets env th fuel js batch num_pkts (mb # mbs) w =
     bindO (handle_packet env th fuel js batch num_pkts mb w) (handle_packets env th fuel js batch num_pkts mbs)"

text \<open>Nothing was received: flush the transmission buffer and check the timers, if it is time.\<close>

definition dpdk_idle :: "dpdk_env \<Rightarrow> dpdk_thread \<Rightarrow> nat \<Rightarrow> nat \<Rightarrow> nat list \<Rightarrow> dpdk_worker \<Rightarrow> dpdk_worker outcome option" where
  "dpdk_idle env th fuel now expired w =
     (let w1 = w\<lparr>dk_cur_tsc := now\<rparr>
      in bindO (if u64_sub now (dk_prev_tsc w1) > dt_drain_tsc th
                then bindO (tx_buffer_flush env fuel w1) (\<lambda>(nb_tx, w2).
                       Some (Inr (w2\<lparr>dk_prev_tsc := now, dk_sent := u64_add (dk_sent w2) nb_tx\<rparr>)))
                else Some (Inr w1)) (\<lambda>w2.
         if u64_sub now (dk_timer_prev_tsc w2) > dk_timer_cycles w2
         then bindO (timer_manage env th fuel expired w2) (\<lambda>w3. Some (Inr (w3\<lparr>dk_timer_prev_tsc := now\<rparr>)))
         else Some (Inr w2)))"

text \<open>What the environment answers to a call of rte_eth_rx_burst; the array for the mbufs has room for the outstanding packets.\<close>

record rx_answer =
  rx_mbufs :: "rte_mbuf list"
  rx_heap :: heap
  rx_tsc :: nat
  rx_expired :: "nat list"

definition dpdk_iteration ::
  "dpdk_env \<Rightarrow> dpdk_thread \<Rightarrow> nat \<Rightarrow> JobSlice \<Rightarrow> nat \<Rightarrow> nat \<Rightarrow> rx_answer \<Rightarrow> dpdk_worker \<Rightarrow> dpdk_worker outcome option"
where
  "dpdk_iteration env th fuel js batch num_pkts a w =
     (if length (rx_mbufs a) > dt_max_outstanding_pkts th then Some (Inl (Crash ''pkts_rx_burst''))
      else if rx_mbufs a = [] then dpdk_idle env th fuel (rx_tsc a) (rx_expired a) w
      else handle_packets env th fuel js batch num_pkts (rx_mbufs a) (w\<lparr>dk_heap := rx_heap a\<rparr>))"

text \<open>The environment answers the \<open>k\<close>-th call knowing everything that has happened.\<close>

type_synonym dpdk_net = "nat \<Rightarrow> dpdk_worker \<Rightarrow> rx_answer"

fun dpdk_loop ::
  "dpdk_env \<Rightarrow> dpdk_thread \<Rightarrow> nat \<Rightarrow> JobSlice \<Rightarrow> nat \<Rightarrow> nat \<Rightarrow> dpdk_net \<Rightarrow> (nat \<Rightarrow> bool) \<Rightarrow> nat \<Rightarrow> nat \<Rightarrow> dpdk_worker \<Rightarrow>
   dpdk_worker outcome option"
where
  "dpdk_loop env th inner js batch num_pkts net running 0 k w = None"
| "dpdk_loop env th inner js batch num_pkts net running (Suc fuel) k w =
     (if dk_received w < num_pkts \<and> running k
      then bindO (dpdk_iteration env th inner js batch num_pkts (net k w) w)
             (dpdk_loop env th inner js batch num_pkts net running fuel (Suc k))
      else Some (Inr w))"

text \<open>After the loop the shift is moved on and the local counters are added to the statistics.\<close>

definition dpdk_finish :: "dpdk_env \<Rightarrow> dpdk_thread \<Rightarrow> nat \<Rightarrow> dpdk_worker \<Rightarrow> dpdk_worker outcome" where
  "dpdk_finish env th num_pkts w =
     bindE (AddCorrectPktsReceived (de_tid env) (dk_correct w) (dk_stats w)) (\<lambda>s1.
     bindE (AddTotalPktsSent (de_tid env) (dk_sent w) s1) (\<lambda>s2.
     bindE (AddWrongPktsReceived (de_tid env) (dk_wrong w) s2) (\<lambda>s3.
       Inr (w\<lparr>dk_shift := u32 (u64_add (dk_shift w) num_pkts mod u64_mul 2 (dt_max_outstanding_pkts th)),
              dk_ppp := CleanupJobSlice (dk_ppp w), dk_stats := s3\<rparr>))))"

definition dpdk_slice ::
  "dpdk_env \<Rightarrow> dpdk_thread \<Rightarrow> (nat \<Rightarrow> fp) \<Rightarrow> dpdk_net \<Rightarrow> (nat \<Rightarrow> bool) \<Rightarrow> nat \<Rightarrow> nat \<Rightarrow> JobSlice \<Rightarrow> dpdk_worker \<Rightarrow> dpdk_worker outcome option"
where
  "dpdk_slice env th garbage net running inner fuel js w =
     bindO (dpdk_begin env th garbage inner js w) (\<lambda>(batch, num_pkts, w1).
     bindO (dpdk_loop env th inner js batch num_pkts net running fuel 0 w1) (\<lambda>w2. Some (dpdk_finish env th num_pkts w2)))"

section \<open>Transmission completes\<close>

text \<open>The card keeps accepting packets: at least one in any \<open>T\<close> consecutive calls.\<close>

definition card_accepts :: "dpdk_env \<Rightarrow> nat \<Rightarrow> bool" where
  "card_accepts env T \<longleftrightarrow> (\<forall>k. \<exists>j < T. 0 < de_accept env (k + j))"

definition snap :: "dpdk_env \<Rightarrow> dpdk_worker \<Rightarrow> rte_mbuf \<Rightarrow> rte_mbuf \<times> 32 word list" where
  "snap env w mb = (mb, payload env (words (dk_heap w)) mb)"

definition transmitted :: "dpdk_env \<Rightarrow> rte_mbuf list \<Rightarrow> nat \<Rightarrow> dpdk_worker \<Rightarrow> dpdk_worker" where
  "transmitted env pkts calls w = w\<lparr>dk_wire := dk_wire w @ map (snap env w) pkts, dk_bursts := calls\<rparr>"

lemma snap_transmitted [simp]: "snap env (transmitted env ps c w) = snap env w"
  by (simp add: fun_eq_iff snap_def transmitted_def)

lemma transmitted_twice:
  "transmitted env qs d (transmitted env ps c w) = transmitted env (ps @ qs) d w"
  unfolding transmitted_def[of env qs] snap_transmitted by (simp add: transmitted_def)

lemma transmitted_bursts [simp]: "dk_bursts (transmitted env ps c w) = c"
  by (simp add: transmitted_def)

lemma tx_burst_transmitted:
  "tx_burst env pkts w = (let n = min (de_accept env (dk_bursts w)) (length pkts) in (n, transmitted env (take n pkts) (Suc (dk_bursts w)) w))"
proof -
  have "(\<lambda>mb. (mb, payload env (words (dk_heap w)) mb)) = snap env w" by (simp add: fun_eq_iff snap_def)
  then show ?thesis by (simp add: tx_burst_def transmitted_def Let_def)
qed

lemma tx_loop_waits:
  assumes T: "card_accepts env T" and narrow: "\<forall>x \<le> length pkts. narrow x = x" and len: "length pkts < 2 ^ 16"
  shows "sent < length pkts \<Longrightarrow> \<exists>j \<le> d. 0 < de_accept env (dk_bursts w + j) \<Longrightarrow> (length pkts - sent - 1) * T + d + 1 \<le> fuel \<Longrightarrow>
     \<exists>c. tx_loop env narrow fuel pkts sent w = Some (Inr (length pkts, transmitted env (drop sent pkts) c w))"
proof (induction fuel arbitrary: sent d w)
  case (Suc fuel)
  let ?rest = "drop sent pkts"
  define n where "n = min (de_accept env (dk_bursts w)) (length pkts - sent)"
  have tb: "tx_burst env ?rest w = (n, transmitted env (take n ?rest) (Suc (dk_bursts w)) w)"
    unfolding tx_burst_transmitted n_def by (simp add: Let_def)
  have all: "take (u16 (length pkts - sent)) ?rest = ?rest" using len by (simp add: u16_def)
  have nar: "narrow (sent + n) = sent + n" using narrow Suc.prems(1) unfolding n_def by simp
  have step: "tx_loop env narrow (Suc fuel) pkts sent w =
     (let w1 = transmitted env (take n ?rest) (Suc (dk_bursts w)) w
      in if sent + n < length pkts then tx_loop env narrow fuel pkts (sent + n) w1 else Some (Inr (sent + n, w1)))"
    unfolding tx_loop.simps all tb by (simp add: Let_def nar)
  show ?case
  proof (cases "sent + n < length pkts")
    case False
    then have "sent + n = length pkts" "take n ?rest = ?rest" using Suc.prems(1) unfolding n_def by simp_all
    then show ?thesis unfolding step by auto
  next
    case more: True
    let ?w1 = "transmitted env (take n ?rest) (Suc (dk_bursts w)) w"
    obtain d' where d': "\<exists>j \<le> d'. 0 < de_accept env (Suc (dk_bursts w) + j)"
      "(length pkts - (sent + n) - 1) * T + d' + 1 \<le> fuel"
    proof (cases "de_accept env (dk_bursts w) = 0")
      case True
      obtain j where j: "j \<le> d" "0 < de_accept env (dk_bursts w + j)" using Suc.prems(2) by blast
      then have "j \<noteq> 0" using True by (metis add_0_right less_not_refl)
      then have "j - 1 \<le> d - 1" "0 < de_accept env (Suc (dk_bursts w) + (j - 1))" "d \<noteq> 0" using j by auto
      then show thesis using Suc.prems(3) True by (intro that[of "d - 1"]) (auto simp: n_def)
    next
      case False
      obtain j where j: "j < T" "0 < de_accept env (Suc (dk_bursts w) + j)" using T unfolding card_accepts_def by blast
      have n: "1 \<le> n" using False more unfolding n_def by simp
      have "length pkts - sent - 1 = (length pkts - (sent + n) - 1) + n" using more by simp
      then have "(length pkts - sent - 1) * T = (length pkts - (sent + n) - 1) * T + n * T" by (simp only: distrib_right)
      moreover have "T \<le> n * T" using n by simp
      ultimately have "(length pkts - (sent + n) - 1) * T + (T - 1) + 1 \<le> fuel" using Suc.prems(3) j(1) by linarith
      then show thesis using j by (intro that[of "T - 1"]) (auto intro!: exI[of _ j])
    qed
    obtain c where c: "tx_loop env narrow fuel pkts (sent + n) ?w1 = Some (Inr (length pkts, transmitted env (drop (sent + n) pkts) c ?w1))"
      using Suc.IH[OF more, of d' ?w1] d' by auto
    have "take n ?rest @ drop (sent + n) pkts = ?rest" by (metis append_take_drop_id drop_drop add.commute)
    then show ?thesis using more c unfolding step transmitted_twice by (auto simp: Let_def)
  qed
qed simp

lemma tx_loop_ok:
  assumes T: "card_accepts env T" and narrow: "\<forall>x \<le> length pkts. narrow x = x" and len: "length pkts < 2 ^ 16"
    and fuel: "T * 2 ^ 16 \<le> fuel"
  shows "\<exists>c. tx_loop env narrow fuel pkts 0 w = Some (Inr (length pkts, transmitted env pkts c w))"
proof (cases "pkts = []")
  case True
  obtain j where "j < T" using T unfolding card_accepts_def by blast
  then have "fuel \<noteq> 0" using fuel by auto
  then obtain fuel' where "fuel = Suc fuel'" using not0_implies_Suc by blast
  then show ?thesis using True narrow by (auto simp: tx_burst_transmitted Let_def)
next
  case False
  obtain j where j: "j < T" "0 < de_accept env (dk_bursts w + j)" using T unfolding card_accepts_def by blast
  have "(length pkts - 0 - 1) * T + (T - 1) + 1 = length pkts * T" using False j(1)
    by (cases "length pkts") (simp_all add: algebra_simps)
  also have "\<dots> \<le> 2 ^ 16 * T" by (rule mult_le_mono1) (use len in linarith)
  also have "\<dots> \<le> fuel" using fuel by (simp only: mult.commute)
  finally have f: "(length pkts - 0 - 1) * T + (T - 1) + 1 \<le> fuel" .
  have "\<exists>j \<le> T - 1. 0 < de_accept env (dk_bursts w + j)" using j by (intro exI[of _ j]) simp
  from tx_loop_waits[OF T narrow len _ this f] show ?thesis using False by simp
qed

text \<open>Flushing hands the whole buffer to the card.\<close>

lemma flush_ok:
  assumes T: "card_accepts env T" and len: "length (dk_tx_buffer w) < 2 ^ 16" and fuel: "T * 2 ^ 16 \<le> fuel"
  shows "\<exists>n c. tx_buffer_flush env fuel w = Some (Inr (n, transmitted env (dk_tx_buffer w) c (w\<lparr>dk_tx_buffer := []\<rparr>)))"
proof (cases "dk_tx_buffer w = []")
  case True
  then have "transmitted env (dk_tx_buffer w) (dk_bursts w) (w\<lparr>dk_tx_buffer := []\<rparr>) = w" by (simp add: transmitted_def)
  then show ?thesis using True by (intro exI[of _ 0] exI[of _ "dk_bursts w"]) (simp add: tx_buffer_flush_def)
next
  case False
  let ?p = "dk_tx_buffer w" and ?n = "min (de_accept env (dk_bursts w)) (length (dk_tx_buffer w))"
  let ?w1 = "transmitted env (take ?n ?p) (Suc (dk_bursts w)) (w\<lparr>dk_tx_buffer := []\<rparr>)"
  obtain c where c: "tx_loop env u32 fuel (drop ?n ?p) 0 ?w1 =
      Some (Inr (length (drop ?n ?p), transmitted env (drop ?n ?p) c ?w1))"
  proof -
    have l: "length (drop ?n ?p) < 2 ^ 16" using len by simp
    have "\<forall>x \<le> length (drop ?n ?p). u32 x = x" using l by (simp add: u32_def)
    from tx_loop_ok[OF T this l fuel] that show thesis by blast
  qed
  have p: "take ?n ?p @ drop ?n ?p = ?p" by (rule append_take_drop_id)
  show ?thesis
  proof (cases "?n < length ?p")
    case True
    then show ?thesis using False c unfolding transmitted_twice p
      by (auto simp: tx_buffer_flush_def tx_burst_transmitted TxBufferCallback_def Let_def)
  next
    case full: False
    then have "take ?n ?p = ?p" by simp
    then show ?thesis using False full by (auto simp: tx_buffer_flush_def tx_burst_transmitted Let_def)
  qed
qed

section \<open>The shift of the slots changes only between job slices\<close>

lemma tx_burst_shift: "tx_burst env pkts w = (n, w') \<Longrightarrow> dk_shift w' = dk_shift w"
  by (auto simp: tx_burst_def Let_def)

lemma tx_loop_shift: "tx_loop env narrow fuel pkts sent w = Some (Inr (n, w')) \<Longrightarrow> dk_shift w' = dk_shift w"
proof (induction fuel arbitrary: sent w)
  case (Suc fuel)
  then show ?case by (auto simp: Let_def split: prod.splits if_splits dest!: tx_burst_shift)
qed simp

lemma tx_buffer_flush_shift: "tx_buffer_flush env fuel w = Some (Inr (n, w')) \<Longrightarrow> dk_shift w' = dk_shift w"
  by (auto simp: tx_buffer_flush_def TxBufferCallback_def Let_def split: prod.splits if_splits
      elim!: bindO_SomeE dest!: tx_loop_shift tx_burst_shift)

lemma tx_buffer_shift: "tx_buffer env fuel mb w = Some (Inr (n, w')) \<Longrightarrow> dk_shift w' = dk_shift w"
  by (auto simp: tx_buffer_def Let_def split: if_splits dest!: tx_buffer_flush_shift)

lemma resend_shift: "ResendPacketCallback env th fuel i w = Some (Inr w') \<Longrightarrow> dk_shift w' = dk_shift w"
  by (auto simp: ResendPacketCallback_def Let_def split: prod.splits if_splits option.splits
      elim!: bindO_SomeE dest!: tx_loop_shift)

lemma timer_manage_shift: "timer_manage env th fuel expired w = Some (Inr w') \<Longrightarrow> dk_shift w' = dk_shift w"
  by (induction expired arbitrary: w) (auto split: if_splits elim!: bindO_SomeE dest!: resend_shift)

lemma handle_packet_shift: "handle_packet env th fuel js batch N mb w = Some (Inr w') \<Longrightarrow> dk_shift w' = dk_shift w"
  by (auto simp: handle_packet_def send_next_def Let_def split: prod.splits if_splits
      elim!: bindO_SomeE dest!: tx_buffer_shift)

lemma handle_packets_shift: "handle_packets env th fuel js batch N mbs w = Some (Inr w') \<Longrightarrow> dk_shift w' = dk_shift w"
  by (induction mbs arbitrary: w) (auto elim!: bindO_SomeE dest!: handle_packet_shift)

lemma iteration_shift: "dpdk_iteration env th fuel js batch N a w = Some (Inr w') \<Longrightarrow> dk_shift w' = dk_shift w"
  by (auto simp: dpdk_iteration_def dpdk_idle_def Let_def split: prod.splits if_splits
      elim!: bindO_SomeE dest!: handle_packets_shift tx_buffer_flush_shift timer_manage_shift)

end
