(* ===== verification/Dpdk_Allreduce.thy ===== *)
theory Dpdk_Allreduce
  imports Dpdk_Worker
begin

text \<open>
  A job slice of integers on the DPDK backend: the invariant of the receive loop, the contract of the network, and
  what follows for the packets that are sent and for the tensor.
\<close>

section \<open>Packets\<close>

abbreviation dpdk_layout :: "dpdk_env \<Rightarrow> JobSlice \<Rightarrow> ptr \<Rightarrow> nat \<Rightarrow> layout" where
  "dpdk_layout env js pool K \<equiv> job_layout (slice js) (de_numel env) pool K"

text \<open>The pool index of a packet, and the headers that every packet of the slice must carry.\<close>

abbreviation slot_of :: "dpdk_thread \<Rightarrow> nat \<Rightarrow> nat \<Rightarrow> nat" where
  "slot_of th shift q \<equiv> PktId2PoolIndex q (dt_pool_index_start th) shift (dt_max_outstanding_pkts th)"

definition good_headers :: "dpdk_env \<Rightarrow> dpdk_thread \<Rightarrow> JobSlice \<Rightarrow> nat \<Rightarrow> rte_mbuf \<Rightarrow> bool" where
  "good_headers env th js shift mb \<longleftrightarrow>
     mb_short_job_id mb = slice_job js mod 2 ^ 8 \<and>
     mb_pool_index mb = cpu_to_be_16 (of_nat (slot_of th shift (mb_pkt_id mb))) \<and>
     mb_src_mac mb = take_bit 48 (e2e_mac (dt_addr th)) \<and> mb_src_ip mb = e2e_ip (dt_addr th) \<and>
     mb_src_port mb = e2e_port (dt_addr th) \<and>
     mb_dst_mac mb = take_bit 48 (e2e_mac (de_switch_addr env)) \<and> mb_dst_ip mb = e2e_ip (de_switch_addr env) \<and>
     mb_dst_port mb = e2e_port (de_switch_addr env)"

lemma BuildPacket_int32:
  assumes "int32_ppp (slice js) (de_numel env) p" and "q < ltus (dpdk_layout env js e K)"
  shows "\<exists>mb. BuildPacket cksum mbuf (slice_job js) q (slot_of th shift q) (de_numel env) (de_switch_addr env) (dt_addr th) p h =
      Inr (mb, h\<lparr>words := transfer htonl (src (dpdk_layout env js e K) q) (mb_entries mbuf) (cnt (dpdk_layout env js e K) q) (words h)\<rparr>) \<and>
     good_headers env th js shift mb \<and> mb_entries mb = mb_entries mbuf \<and> mb_pkt_id mb = q"
  by (simp add: BuildPacket_def Let_def preprocess_int32[OF assms] good_headers_def mb_entries_def mb_extra_def)

lemma ReusePacket_int32:
  assumes "int32_ppp (slice js) (de_numel env) p" and "q < ltus (dpdk_layout env js e K)"
    and "mb_short_job_id mbuf = slice_job js mod 2 ^ 8"
  shows "\<exists>mb. ReusePacket cksum mbuf q (de_numel env) (slot_of th shift q) (de_switch_addr env) (dt_addr th) p h =
      Inr (mb, h\<lparr>words := transfer htonl (src (dpdk_layout env js e K) q) (mb_entries mbuf) (cnt (dpdk_layout env js e K) q) (words h)\<rparr>) \<and>
     good_headers env th js shift mb \<and> mb_entries mb = mb_entries mbuf \<and> mb_pkt_id mb = q"
  using assms(3) by (simp add: ReusePacket_def Let_def preprocess_int32[OF assms(1,2)] good_headers_def mb_entries_def mb_extra_def)

section \<open>The invariant\<close>

text \<open>The elements of packet \<open>q\<close> in network byte order.\<close>

definition holds_packet :: "layout \<Rightarrow> memory \<Rightarrow> nat \<Rightarrow> (nat \<Rightarrow> 32 word) \<Rightarrow> bool" where
  "holds_packet L m0 q v \<longleftrightarrow> (\<forall>i < cnt L q. v i = htonl (m0 (src L q + 4 * i)))"

abbreviation elements :: "memory \<Rightarrow> rte_mbuf \<Rightarrow> nat \<Rightarrow> 32 word" where
  "elements m mb \<equiv> (\<lambda>i. m (mb_entries mb + 4 * i))"

definition wire_ok :: "dpdk_env \<Rightarrow> dpdk_thread \<Rightarrow> JobSlice \<Rightarrow> layout \<Rightarrow> memory \<Rightarrow> dpdk_worker \<Rightarrow> bool" where
  "wire_ok env th js L m0 w \<longleftrightarrow> (\<forall>(mb, ps) \<in> set (dk_wire w).
     good_headers env th js (dk_shift w) mb \<and> mb_pkt_id mb < ltus L \<and> length ps = de_numel env \<and>
     holds_packet L m0 (mb_pkt_id mb) ((!) ps))"

definition buffer_ok :: "dpdk_env \<Rightarrow> dpdk_thread \<Rightarrow> JobSlice \<Rightarrow> layout \<Rightarrow> memory \<Rightarrow> dpdk_worker \<Rightarrow> bool" where
  "buffer_ok env th js L m0 w \<longleftrightarrow>
     sorted_wrt (areas_apart L) (map mb_entries (dk_tx_buffer w)) \<and> distinct (map mb_pkt_id (dk_tx_buffer w)) \<and>
     (\<forall>mb \<in> set (dk_tx_buffer w). good_headers env th js (dk_shift w) mb \<and> mb_pkt_id mb < ltus L \<and>
        pool_area L (mb_entries mb) \<and> holds_packet L m0 (mb_pkt_id mb) (elements (words (dk_heap w)) mb))"

abbreviation wire_ids :: "dpdk_worker \<Rightarrow> nat set" where
  "wire_ids w \<equiv> (\<lambda>x. mb_pkt_id (fst x)) ` set (dk_wire w)"

abbreviation buffer_ids :: "dpdk_worker \<Rightarrow> nat set" where
  "buffer_ids w \<equiv> mb_pkt_id ` set (dk_tx_buffer w)"

text \<open>
  A timer that would resend a packet of the slice in that packet's own slot: it belongs to an outstanding packet.
  The timers that the first batch starts are not of this kind.
\<close>

definition sound_timer :: "dpdk_thread \<Rightarrow> JobSlice \<Rightarrow> dpdk_worker \<Rightarrow> nat \<Rightarrow> bool" where
  "sound_timer th js w i \<longleftrightarrow> i < length (dk_timers w) \<and> dk_timers w ! i \<noteq> None \<and>
     ra_job_id (dk_args w ! i) = slice_job js \<and> ra_pool_index (dk_args w ! i) = slot_of th (dk_shift w) (ra_pkt_id (dk_args w ! i))"

definition timers_ok :: "dpdk_thread \<Rightarrow> JobSlice \<Rightarrow> nat \<Rightarrow> nat list \<Rightarrow> dpdk_worker \<Rightarrow> bool" where
  "timers_ok th js b qs w \<longleftrightarrow>
     length (dk_timers w) = dt_max_outstanding_pkts th \<and> length (dk_args w) = dt_max_outstanding_pkts th \<and>
     (\<forall>i. sound_timer th js w i \<longrightarrow> b = dt_max_outstanding_pkts th \<and> ra_pkt_id (dk_args w ! i) \<in> set qs \<and>
        ra_pkt_id (dk_args w ! i) mod b = i)"

definition counters_ok :: "nat \<Rightarrow> Stats \<Rightarrow> bool" where
  "counters_ok tid s \<longleftrightarrow> (\<exists>xs. total_pkts_sent s = Some xs \<and> tid < length xs) \<and>
     (\<exists>xs. correct_pkts_received s = Some xs \<and> tid < length xs) \<and>
     (\<exists>xs. wrong_pkts_received s = Some xs \<and> tid < length xs) \<and> (\<exists>xs. timeouts_num s = Some xs \<and> tid < length xs)"

lemma counters_ok_add:
  assumes "counters_ok tid s"
  shows "\<exists>s'. AddTotalPktsSent tid k s = Inr s' \<and> counters_ok tid s'"
    and "\<exists>s'. AddCorrectPktsReceived tid k s = Inr s' \<and> counters_ok tid s'"
    and "\<exists>s'. AddWrongPktsReceived tid k s = Inr s' \<and> counters_ok tid s'"
    and "\<exists>s'. AddTimeouts tid k s = Inr s' \<and> counters_ok tid s'"
  using assms by (auto simp: counters_ok_def AddTotalPktsSent_def AddCorrectPktsReceived_def AddWrongPktsReceived_def
      AddTimeouts_def add_at_def)

text \<open>
  \<open>qs\<close> are the outstanding packets: not yet received, and sent or waiting in the transmission buffer. The first definition
  leaves the latter out.
\<close>

definition dpdk_core ::
  "dpdk_env \<Rightarrow> dpdk_thread \<Rightarrow> JobSlice \<Rightarrow> layout \<Rightarrow> nat \<Rightarrow> PrePostProcessor \<Rightarrow> memory \<Rightarrow> (nat \<Rightarrow> 32 word \<Rightarrow> 32 word) \<Rightarrow>
   nat list \<Rightarrow> dpdk_worker \<Rightarrow> bool"
where
  "dpdk_core env th js L b p m0 f qs w \<longleftrightarrow>
     dk_ppp w = p \<and> pkt_inv b (ltus L) qs \<and> length (dk_bitmap w) = ltus L \<and>
     (\<forall>q < ltus L. dk_bitmap w ! q \<longleftrightarrow> q \<in> pkt_done b (ltus L) qs) \<and>
     dk_received w = card (pkt_done b (ltus L) qs) \<and>
     slot_data htonl f L m0 (words (dk_heap w)) {} {} (pkt_done b (ltus L) qs) \<and>
     wire_ok env th js L m0 w \<and> buffer_ok env th js L m0 w \<and>
     wire_ids w \<subseteq> set qs \<union> pkt_done b (ltus L) qs \<and>
     buffer_ids w \<subseteq> set qs \<and> wire_ids w \<inter> buffer_ids w = {} \<and>
     timers_ok th js b qs w \<and> counters_ok (de_tid env) (dk_stats w)"

definition dpdk_inv ::
  "dpdk_env \<Rightarrow> dpdk_thread \<Rightarrow> JobSlice \<Rightarrow> layout \<Rightarrow> nat \<Rightarrow> PrePostProcessor \<Rightarrow> memory \<Rightarrow> (nat \<Rightarrow> 32 word \<Rightarrow> 32 word) \<Rightarrow>
   nat list \<Rightarrow> dpdk_worker \<Rightarrow> bool"
where
  "dpdk_inv env th js L b p m0 f qs w \<longleftrightarrow>
     dpdk_core env th js L b p m0 f qs w \<and> set qs \<subseteq> wire_ids w \<union> buffer_ids w"

section \<open>Steps that preserve it\<close>

text \<open>Transmitting the buffer.\<close>

lemma inv_counts [simp]:
  "dpdk_inv env th js L b p m0 f qs (w\<lparr>dk_sent := x\<rparr>) = dpdk_inv env th js L b p m0 f qs w"
  "dpdk_inv env th js L b p m0 f qs (w\<lparr>dk_wrong := x\<rparr>) = dpdk_inv env th js L b p m0 f qs w"
  "dpdk_inv env th js L b p m0 f qs (w\<lparr>dk_prev_tsc := x\<rparr>) = dpdk_inv env th js L b p m0 f qs w"
  "dpdk_inv env th js L b p m0 f qs (w\<lparr>dk_cur_tsc := x\<rparr>) = dpdk_inv env th js L b p m0 f qs w"
  "dpdk_inv env th js L b p m0 f qs (w\<lparr>dk_timer_prev_tsc := x\<rparr>) = dpdk_inv env th js L b p m0 f qs w"
  "dpdk_inv env th js L b p m0 f qs (w\<lparr>dk_bursts := x\<rparr>) = dpdk_inv env th js L b p m0 f qs w"
  "dpdk_inv env th js L b p m0 f qs (w\<lparr>dk_correct := x\<rparr>) = dpdk_inv env th js L b p m0 f qs w"
  by (simp_all add: dpdk_inv_def dpdk_core_def wire_ok_def buffer_ok_def timers_ok_def sound_timer_def)

lemma holds_payload:
  assumes "l_n L = de_numel env"
  shows "holds_packet L m0 q ((!) (payload env m mb)) = holds_packet L m0 q (elements m mb)"
proof -
  have "cnt L q \<le> de_numel env" using cnt_le_n[of L q] assms by simp
  then show ?thesis unfolding holds_packet_def payload_def by (simp add: less_le_trans cong: all_cong)
qed

lemma inv_transmitted:
  assumes inv: "dpdk_inv env th js L b p m0 f qs w" and n: "l_n L = de_numel env"
  shows "dpdk_inv env th js L b p m0 f qs (transmitted env (dk_tx_buffer w) c (w\<lparr>dk_tx_buffer := []\<rparr>))"
proof -
  note holds_payload[OF n]
  then have "wire_ok env th js L m0 (transmitted env (dk_tx_buffer w) c (w\<lparr>dk_tx_buffer := []\<rparr>))"
    using inv by (auto simp: dpdk_inv_def dpdk_core_def wire_ok_def buffer_ok_def transmitted_def snap_def payload_def)
  moreover have "wire_ids (transmitted env (dk_tx_buffer w) c (w\<lparr>dk_tx_buffer := []\<rparr>)) = wire_ids w \<union> buffer_ids w"
    by (auto simp: transmitted_def snap_def image_Un image_image)
  ultimately show ?thesis
    using inv unfolding dpdk_inv_def dpdk_core_def
    by (auto simp: transmitted_def buffer_ok_def timers_ok_def sound_timer_def)
qed

lemma buffer_length:
  assumes "dpdk_inv env th js L b p m0 f qs w"
  shows "length (dk_tx_buffer w) \<le> b"
proof -
  have "distinct (map mb_pkt_id (dk_tx_buffer w))" "buffer_ids w \<subseteq> set qs" "pkt_inv b (ltus L) qs"
    using assms by (simp_all add: dpdk_inv_def dpdk_core_def buffer_ok_def)
  then have "length (map mb_pkt_id (dk_tx_buffer w)) \<le> card (set qs)"
    using card_mono[of "set qs" "buffer_ids w"] distinct_card[of "map mb_pkt_id (dk_tx_buffer w)"] by simp
  then show ?thesis using card_length[of qs] pkt_inv_length[OF \<open>pkt_inv b (ltus L) qs\<close>] by simp
qed

lemma flush_inv:
  assumes inv: "dpdk_inv env th js L b p m0 f qs w" and n: "l_n L = de_numel env" and b: "b < 2 ^ 16"
    and T: "card_accepts env T" "T * 2 ^ 16 \<le> fuel"
  obtains n c where "tx_buffer_flush env fuel w = Some (Inr (n, transmitted env (dk_tx_buffer w) c (w\<lparr>dk_tx_buffer := []\<rparr>)))"
    and "dpdk_inv env th js L b p m0 f qs (transmitted env (dk_tx_buffer w) c (w\<lparr>dk_tx_buffer := []\<rparr>))"
proof -
  have "length (dk_tx_buffer w) < 2 ^ 16" using buffer_length[OF inv] b by simp
  from flush_ok[OF T(1) this T(2)] show thesis using inv_transmitted[OF inv n] that by blast
qed

text \<open>The timers of the packet that is accepted and of the one that replaces it.\<close>

lemma timers_okD:
  assumes "timers_ok th js b qs w" and "sound_timer th js w i"
  shows "b = dt_max_outstanding_pkts th" "ra_pkt_id (dk_args w ! i) \<in> set qs" "ra_pkt_id (dk_args w ! i) mod b = i"
  using assms unfolding timers_ok_def by blast+

lemma timers_ok_same:
  "dk_timers w' = dk_timers w \<Longrightarrow> dk_args w' = dk_args w \<Longrightarrow> dk_shift w' = dk_shift w \<Longrightarrow>
     timers_ok th js b qs w' = timers_ok th js b qs w"
  by (simp add: timers_ok_def sound_timer_def)

lemma timers_ok_sound:
  "length (dk_timers w') = length (dk_timers w) \<Longrightarrow> dk_args w' = dk_args w \<Longrightarrow> sound_timer th js w' = sound_timer th js w \<Longrightarrow>
     timers_ok th js b qs w' = timers_ok th js b qs w"
  by (simp add: timers_ok_def)

lemma timers_stop:
  assumes ok: "timers_ok th js b qs w" and q: "set qs - {q} \<subseteq> set qs'"
    and w': "dk_timers w' = (dk_timers w)[(q + b) mod dt_max_outstanding_pkts th := None]" "dk_args w' = dk_args w" "dk_shift w' = dk_shift w"
  shows "timers_ok th js b qs' w'"
  unfolding timers_ok_def
proof (intro conjI allI impI)
  let ?mop = "dt_max_outstanding_pkts th"
  have len: "length (dk_timers w) = ?mop" "length (dk_args w) = ?mop" using ok by (simp_all add: timers_ok_def)
  then show "length (dk_timers w') = ?mop" "length (dk_args w') = ?mop" using w' by simp_all
  fix i assume s: "sound_timer th js w' i"
  then have ne: "i \<noteq> (q + b) mod ?mop" and s0: "sound_timer th js w i"
  proof -
    have lt: "i < length (dk_timers w)" and some: "dk_timers w' ! i \<noteq> None" using s w'(1) by (simp_all add: sound_timer_def)
    show "i \<noteq> (q + b) mod ?mop" using some lt w'(1) by auto
    then show "sound_timer th js w i" using s w' lt by (simp add: sound_timer_def)
  qed
  have r: "b = ?mop" "ra_pkt_id (dk_args w ! i) \<in> set qs" "ra_pkt_id (dk_args w ! i) mod b = i"
    by (rule timers_okD[OF ok s0])+
  have "ra_pkt_id (dk_args w ! i) \<noteq> q" using ne r(1,3) by auto
  then show "b = ?mop" "ra_pkt_id (dk_args w' ! i) \<in> set qs'" "ra_pkt_id (dk_args w' ! i) mod b = i"
    using r q w'(2) by auto
qed

lemma timers_start:
  assumes ok: "timers_ok th js b qs w" and q: "q \<in> set qs" and b: "b = dt_max_outstanding_pkts th" "0 < b"
    and w': "dk_timers w' = (dk_timers w)[q mod dt_max_outstanding_pkts th := Some c]" "dk_shift w' = dk_shift w"
      "dk_args w' = (dk_args w)[q mod dt_max_outstanding_pkts th := \<lparr>ra_job_id = slice_job js, ra_pkt_id = q, ra_pool_index = s\<rparr>]"
  shows "timers_ok th js b qs w'"
  unfolding timers_ok_def
proof (intro conjI allI impI)
  let ?mop = "dt_max_outstanding_pkts th"
  have len: "length (dk_timers w) = ?mop" "length (dk_args w) = ?mop" using ok by (simp_all add: timers_ok_def)
  then show "length (dk_timers w') = ?mop" "length (dk_args w') = ?mop" "b = ?mop" using w' b by simp_all
  fix i assume snd: "sound_timer th js w' i"
  have "ra_pkt_id (dk_args w' ! i) \<in> set qs \<and> ra_pkt_id (dk_args w' ! i) mod b = i"
  proof (cases "i = q mod ?mop")
    case True
    then show ?thesis using w'(3) q b len(2) by simp
  next
    case False
    then have "sound_timer th js w i" using snd w' by (simp add: sound_timer_def)
    then have "ra_pkt_id (dk_args w ! i) \<in> set qs \<and> ra_pkt_id (dk_args w ! i) mod b = i" using timers_okD[OF ok] by blast
    then show ?thesis using w'(3) False by simp
  qed
  then show "ra_pkt_id (dk_args w' ! i) \<in> set qs" "ra_pkt_id (dk_args w' ! i) mod b = i" by simp_all
qed

section \<open>Receiving a packet\<close>

definition acceptable :: "JobSlice \<Rightarrow> dpdk_worker \<Rightarrow> rte_mbuf \<Rightarrow> bool" where
  "acceptable js w mb \<longleftrightarrow> mb_short_job_id mb = slice_job js mod 2 ^ 8 \<and> \<not> dk_bitmap w ! mb_pkt_id mb"

text \<open>The received mbufs that are still to be processed: they do not overlap, and acceptable ones hold reduced packets.\<close>

definition burst_ok :: "layout \<Rightarrow> JobSlice \<Rightarrow> memory \<Rightarrow> (nat \<Rightarrow> 32 word \<Rightarrow> 32 word) \<Rightarrow> dpdk_worker \<Rightarrow> rte_mbuf list \<Rightarrow> bool" where
  "burst_ok L js m0 f w mbs \<longleftrightarrow>
     sorted_wrt (areas_apart L) (map mb_entries (mbs @ dk_tx_buffer w)) \<and>
     (\<forall>mb \<in> set mbs. pool_area L (mb_entries mb) \<and> mb_pkt_id mb < ltus L \<and>
        (acceptable js w mb \<longrightarrow> mb_pkt_id mb \<in> wire_ids w \<and>
           (\<forall>i < cnt L (mb_pkt_id mb). words (dk_heap w) (mb_entries mb + 4 * i) =
              htonl (f (mb_pkt_id mb * l_n L + i) (m0 (src L (mb_pkt_id mb) + 4 * i))))))"

lemma burst_ok_tl: "burst_ok L js m0 f w (mb # mbs) \<Longrightarrow> burst_ok L js m0 f w mbs"
  by (simp add: burst_ok_def)

text \<open>The numbers of the outstanding packets when \<open>q\<close> is received.\<close>

lemma receive_outstanding:
  assumes inv: "pkt_inv b N qs" and q: "q \<in> set qs"
  defines "qs' \<equiv> next_pkt b N q @ remove1 q qs"
  shows "pkt_inv b N qs'" and "pkt_done b N qs' = insert q (pkt_done b N qs)" and "q \<notin> pkt_done b N qs"
    and "set qs - {q} \<subseteq> set qs'" and "set qs' \<subseteq> set (next_pkt b N q) \<union> set qs" and "q \<notin> set qs'"
    and "q + b \<notin> set qs \<union> pkt_done b N qs"
proof -
  have m: "mset qs = mset (q # remove1 q qs)" using q by simp
  then have inv1: "pkt_inv b N (q # remove1 q qs)" using inv pkt_inv_mset by blast
  have d: "pkt_done b N qs = pkt_done b N (q # remove1 q qs)" using m by (intro pkt_done_set) (metis set_mset_mset)
  show "pkt_inv b N qs'" "pkt_done b N qs' = insert q (pkt_done b N qs)"
    unfolding qs'_def d using pkt_receive[OF inv1] by simp_all
  show nd: "q \<notin> pkt_done b N qs" using q pkt_outstanding_not_done by blast
  have dist: "distinct qs" and b: "0 < b" using inv by (auto simp: pkt_inv_def distinct_map)
  then show "set qs - {q} \<subseteq> set qs'" "set qs' \<subseteq> set (next_pkt b N q) \<union> set qs" "q \<notin> set qs'"
    by (auto simp: qs'_def next_pkt_def)
  have "q + b \<notin> set qs"
  proof
    assume "q + b \<in> set qs"
    moreover have "inj_on (\<lambda>q. q mod b) (set qs)" using inv by (simp add: pkt_inv_def distinct_map)
    moreover have "(q + b) mod b = q mod b" by simp
    ultimately have "q + b = q" using q by (metis inj_onD)
    then show False using b by simp
  qed
  moreover have "q + b \<notin> pkt_done b N qs" using q by (auto simp: pkt_done_def)
  ultimately show "q + b \<notin> set qs \<union> pkt_done b N qs" by simp
qed

text \<open>What every step of the loop relies on.\<close>

definition dpdk_setting :: "dpdk_env \<Rightarrow> dpdk_thread \<Rightarrow> JobSlice \<Rightarrow> ptr \<Rightarrow> nat \<Rightarrow> nat \<Rightarrow> PrePostProcessor \<Rightarrow> nat \<Rightarrow> nat \<Rightarrow> bool" where
  "dpdk_setting env th js pool K b p T fuel \<longleftrightarrow>
     int32_ppp (slice js) (de_numel env) p \<and> layout_ok (dpdk_layout env js pool K) \<and>
     b = min (dt_max_outstanding_pkts th) (ltus (dpdk_layout env js pool K)) \<and> dt_max_outstanding_pkts th < 2 ^ 16 \<and>
     ltus (dpdk_layout env js pool K) + b < 2 ^ 32 \<and> card_accepts env T \<and> T * 2 ^ 16 \<le> fuel"

lemma dpdk_settingD:
  assumes "dpdk_setting env th js pool K b p T fuel"
  shows "b < 2 ^ 16" and "card_accepts env T" and "T * 2 ^ 16 \<le> fuel" and "layout_ok (dpdk_layout env js pool K)"
    and "int32_ppp (slice js) (de_numel env) p" and "b = min (dt_max_outstanding_pkts th) (ltus (dpdk_layout env js pool K))"
    and "ltus (dpdk_layout env js pool K) + b < 2 ^ 32"
proof -
  have "b \<le> dt_max_outstanding_pkts th" "dt_max_outstanding_pkts th < 2 ^ 16" using assms by (simp_all add: dpdk_setting_def)
  then show "b < 2 ^ 16" by (rule le_less_trans)
qed (use assms in \<open>simp_all add: dpdk_setting_def\<close>)

text \<open>The state after an acceptable packet has been written out.\<close>

abbreviation accepted :: "dpdk_thread \<Rightarrow> layout \<Rightarrow> nat \<Rightarrow> rte_mbuf \<Rightarrow> dpdk_worker \<Rightarrow> dpdk_worker" where
  "accepted th L b mb w \<equiv>
     w\<lparr>dk_heap := (dk_heap w)\<lparr>words := transfer ntohl (mb_entries mb) (dst L (mb_pkt_id mb)) (cnt L (mb_pkt_id mb)) (words (dk_heap w))\<rparr>,
       dk_received := Suc (dk_received w), dk_bitmap := (dk_bitmap w)[mb_pkt_id mb := True], dk_correct := u64_add (dk_correct w) 1,
       dk_timers := (dk_timers w)[(mb_pkt_id mb + b) mod dt_max_outstanding_pkts th := None]\<rparr>"

lemma core_accepted:
  fixes L mb b qs
  defines "q \<equiv> mb_pkt_id mb" and "qs' \<equiv> next_pkt b (ltus L) (mb_pkt_id mb) @ remove1 (mb_pkt_id mb) qs"
  assumes L: "layout_ok L" and inv: "dpdk_inv env th js L b p m0 f qs w" and burst: "burst_ok L js m0 f w (mb # mbs)"
    and acc: "acceptable js w mb"
  shows "dpdk_core env th js L b p m0 f qs' (accepted th L b mb w)" and "burst_ok L js m0 f (accepted th L b mb w) mbs"
    and "q \<in> set qs" and "set qs' \<subseteq> wire_ids w \<union> buffer_ids w \<union> set (next_pkt b (ltus L) q)"
proof -
  let ?N = "ltus L" and ?w = "accepted th L b mb w"
  have core: "dk_ppp w = p" "pkt_inv b ?N qs" "length (dk_bitmap w) = ?N"
    "\<forall>q < ?N. dk_bitmap w ! q \<longleftrightarrow> q \<in> pkt_done b ?N qs" "dk_received w = card (pkt_done b ?N qs)"
    "slot_data htonl f L m0 (words (dk_heap w)) {} {} (pkt_done b ?N qs)" "wire_ok env th js L m0 w" "buffer_ok env th js L m0 w"
    "wire_ids w \<subseteq> set qs \<union> pkt_done b ?N qs" "buffer_ids w \<subseteq> set qs" "wire_ids w \<inter> buffer_ids w = {}"
    "timers_ok th js b qs w" "counters_ok (de_tid env) (dk_stats w)" "set qs \<subseteq> wire_ids w \<union> buffer_ids w"
    using inv by (simp_all add: dpdk_inv_def dpdk_core_def)
  have mb: "pool_area L (mb_entries mb)" "q < ?N" "q \<in> wire_ids w"
    "\<forall>i < cnt L q. words (dk_heap w) (mb_entries mb + 4 * i) = htonl (f (q * l_n L + i) (m0 (src L q + 4 * i)))"
    using burst acc by (simp_all add: burst_ok_def q_def)
  have "q \<notin> pkt_done b ?N qs" using acc core(4) mb(2) by (simp add: acceptable_def q_def)
  then show q: "q \<in> set qs" using mb(3) core(9) by blast
  have q': "qs' = next_pkt b ?N q @ remove1 q qs" by (simp add: qs'_def q_def)
  note r = receive_outstanding[OF core(2) q, folded q']
  note store = int32.store_pool[OF L core(6) r(3) mb(1,4)]
  have heap: "words (dk_heap ?w) = transfer ntohl (mb_entries mb) (dst L q) (cnt L q) (words (dk_heap w))" by (simp add: q_def)
  have same: "elements (words (dk_heap ?w)) mb' i = elements (words (dk_heap w)) mb' i"
    if "pool_area L (mb_entries mb')" "i < cnt L q'" for mb' i q'
    unfolding heap using store(2)[OF that(1) cnt_le[OF that(2)]] .
  have "buffer_ok env th js L m0 ?w"
    using core(8) same unfolding buffer_ok_def holds_packet_def by auto
  moreover have "wire_ok env th js L m0 ?w" using core(7) by (simp add: wire_ok_def)
  moreover have "timers_ok th js b qs' ?w" using timers_stop[OF core(12) r(4), of ?w] by (simp add: q_def)
  moreover have "\<forall>k < ?N. dk_bitmap ?w ! k \<longleftrightarrow> k \<in> pkt_done b ?N qs'"
    unfolding r(2) using core(3,4) mb(2) by (auto simp: nth_list_update q_def)
  moreover have "dk_received ?w = card (pkt_done b ?N qs')" unfolding r(2) using core(5) r(3) by simp
  moreover have "slot_data htonl f L m0 (words (dk_heap ?w)) {} {} (pkt_done b ?N qs')" unfolding r(2) heap by (rule store(1))
  moreover have "wire_ids ?w \<subseteq> set qs' \<union> pkt_done b ?N qs'" using core(9) r(2,4) by auto
  moreover have "buffer_ids ?w \<subseteq> set qs'" using core(10,11) mb(3) r(4) by auto
  ultimately show "dpdk_core env th js L b p m0 f qs' ?w"
    using core r(1) unfolding dpdk_core_def by simp
  show "set qs' \<subseteq> wire_ids w \<union> buffer_ids w \<union> set (next_pkt b ?N q)" using r(5) core(14) by blast
  have weaken: "acceptable js w mb'" if "acceptable js ?w mb'" for mb'
    using that core(3) mb(2) by (cases "mb_pkt_id mb' = q") (simp_all add: acceptable_def q_def)
  show "burst_ok L js m0 f ?w mbs"
    using burst_ok_tl[OF burst] weaken same unfolding burst_ok_def by simp
qed

text \<open>The next packet, built in the mbuf and put into the transmission buffer.\<close>

abbreviation enqueued :: "layout \<Rightarrow> nat \<Rightarrow> rte_mbuf \<Rightarrow> dpdk_worker \<Rightarrow> dpdk_worker" where
  "enqueued L q mb w \<equiv>
     w\<lparr>dk_heap := (dk_heap w)\<lparr>words := transfer htonl (src L q) (mb_entries mb) (cnt L q) (words (dk_heap w))\<rparr>,
       dk_tx_buffer := dk_tx_buffer w @ [mb]\<rparr>"

lemma core_enqueued:
  assumes L: "layout_ok L" and core: "dpdk_core env th js L b p m0 f qs w" and burst: "burst_ok L js m0 f w mbs"
    and q: "q \<in> set qs" "q \<notin> wire_ids w" "q \<notin> buffer_ids w" "q < ltus L"
    and mb: "good_headers env th js (dk_shift w) mb" "mb_pkt_id mb = q" "pool_area L (mb_entries mb)"
    and free: "\<forall>mb' \<in> set mbs \<union> set (dk_tx_buffer w). areas_apart L (mb_entries mb) (mb_entries mb')"
  shows "dpdk_core env th js L b p m0 f qs (enqueued L q mb w)" and "burst_ok L js m0 f (enqueued L q mb w) mbs"
proof -
  let ?w = "enqueued L q mb w" and ?D = "pkt_done b (ltus L) qs"
  have c: "slot_data htonl f L m0 (words (dk_heap w)) {} {} ?D" "wire_ok env th js L m0 w" "buffer_ok env th js L m0 w"
    "wire_ids w \<subseteq> set qs \<union> ?D" "buffer_ids w \<subseteq> set qs" "wire_ids w \<inter> buffer_ids w = {}" "timers_ok th js b qs w"
    using core by (simp_all add: dpdk_core_def)
  have "q \<notin> ?D" using pkt_outstanding_not_done[OF q(1)] .
  note load = int32.load_pool[OF L c(1) this mb(3)]
  have same: "elements (words (dk_heap ?w)) mb' i = elements (words (dk_heap w)) mb' i"
    if "mb' \<in> set mbs \<union> set (dk_tx_buffer w)" "i < cnt L q'" for mb' i q'
    using int32.load_pool_other[OF free[rule_format, OF that(1)] cnt_le[OF that(2)]] by simp
  have own: "holds_packet L m0 q (elements (words (dk_heap ?w)) mb)" using load(2) by (simp add: holds_packet_def)
  have old: "holds_packet L m0 (mb_pkt_id mb') (elements (words (dk_heap ?w)) mb')" if "mb' \<in> set (dk_tx_buffer w)" for mb'
    using c(3) same that by (simp add: buffer_ok_def holds_packet_def)
  have sorted: "sorted_wrt (areas_apart L) (map mb_entries (mbs @ dk_tx_buffer w @ [mb]))"
    using burst free areas_apart_sym by (auto simp: burst_ok_def sorted_wrt_append)
  then have "buffer_ok env th js L m0 ?w"
    using c(3) mb q(3,4) own old by (auto simp: buffer_ok_def sorted_wrt_append)
  moreover have "wire_ok env th js L m0 ?w" using c(2) by (simp add: wire_ok_def)
  moreover have "timers_ok th js b qs ?w" using c(7) timers_ok_same[of ?w w] by simp
  ultimately show "dpdk_core env th js L b p m0 f qs ?w"
    using core load(1) q(1,2) mb(2) by (simp add: dpdk_core_def)
  show "burst_ok L js m0 f ?w mbs" using burst sorted same by (simp add: burst_ok_def acceptable_def)
qed

lemma core_timers:
  assumes "dpdk_core env th js L b p m0 f qs w" and "timers_ok th js b qs (w\<lparr>dk_args := a, dk_timers := t\<rparr>)"
  shows "dpdk_core env th js L b p m0 f qs (w\<lparr>dk_args := a, dk_timers := t\<rparr>)"
  using assms by (simp add: dpdk_core_def wire_ok_def buffer_ok_def)

lemma handle_packet_accepts:
  assumes set: "dpdk_setting env th js pool K b p T fuel" and core: "dk_ppp w = p" "dk_received w < ltus L" "length (dk_bitmap w) = ltus L"
    and mb: "mb_pkt_id mb < ltus L" "acceptable js w mb" and L: "L = dpdk_layout env js pool K"
  shows "handle_packet env th fuel js b (ltus L) mb w =
     (if mb_pkt_id mb + b < ltus L then send_next env th fuel js mb (mb_pkt_id mb + b) (accepted th L b mb w)
      else Some (Inr (accepted th L b mb w)))"
proof -
  let ?q = "mb_pkt_id mb"
  have job: "int32_ppp (slice js) (de_numel env) p" and lt: "ltus L + b < 2 ^ 32" using set by (simp_all add: dpdk_setting_def L)
  have u: "u32 (?q + b) = ?q + b" using lt mb(1) by (simp add: u32_def)
  have u2: "u32 (dk_received w + 1) = Suc (dk_received w)" using lt core(2) by (simp add: u32_def)
  have post: "PostprocessSingle ?q (mb_entries mb) (mb_extra mb) p (dk_heap w) = Inr (p, (dk_heap w)\<lparr>words :=
      transfer ntohl (mb_entries mb) (dst L ?q) (cnt L ?q) (words (dk_heap w))\<rparr>)"
    using postprocess_int32[OF job, of ?q pool K] mb(1) L by simp
  have w: "w\<lparr>dk_ppp := p\<rparr> = w" using core(1) by simp
  then have acc: "w\<lparr>dk_ppp := p, dk_heap := (dk_heap w)\<lparr>words := transfer ntohl (mb_entries mb) (dst L ?q) (cnt L ?q) (words (dk_heap w))\<rparr>,
      dk_received := Suc (dk_received w), dk_bitmap := (dk_bitmap w)[?q := True], dk_correct := u64_add (dk_correct w) 1,
      dk_timers := (dk_timers w)[(?q + b) mod dt_max_outstanding_pkts th := None]\<rparr> = accepted th L b mb w" by simp
  show ?thesis
    using mb core(1,3) unfolding handle_packet_def Let_def u u2 acceptable_def
    by (simp add: post acc not_le del: One_nat_def)
qed

lemma burst_transmitted:
  assumes "burst_ok L js m0 f w mbs"
  shows "burst_ok L js m0 f (transmitted env (dk_tx_buffer w) c (w\<lparr>dk_tx_buffer := []\<rparr>)) mbs"
  using assms by (auto simp: burst_ok_def transmitted_def acceptable_def sorted_wrt_append)

text \<open>A packet that has been put into the buffer is sent now or later.\<close>

lemma tx_buffer_ok:
  assumes set: "dpdk_setting env th js pool K b p T fuel" and L: "L = dpdk_layout env js pool K"
    and inv: "dpdk_inv env th js L b p m0 f qs (w\<lparr>dk_tx_buffer := dk_tx_buffer w @ [mb]\<rparr>)"
    and burst: "burst_ok L js m0 f (w\<lparr>dk_tx_buffer := dk_tx_buffer w @ [mb]\<rparr>) mbs"
  obtains n w' where "tx_buffer env fuel mb w = Some (Inr (n, w'))" "dpdk_inv env th js L b p m0 f qs w'" "burst_ok L js m0 f w' mbs"
    "dk_received w' = dk_received w" "dk_timers w' = dk_timers w" "dk_args w' = dk_args w" "dk_shift w' = dk_shift w"
proof -
  let ?w = "w\<lparr>dk_tx_buffer := dk_tx_buffer w @ [mb]\<rparr>"
  have s: "l_n L = de_numel env" "b < 2 ^ 16" "card_accepts env T" "T * 2 ^ 16 \<le> fuel"
    using dpdk_settingD[OF set] L by simp_all
  show thesis
  proof (cases "de_buffer_full env (dk_tx_buffer ?w)")
    case True
    obtain n c where fl: "tx_buffer_flush env fuel ?w = Some (Inr (n, transmitted env (dk_tx_buffer ?w) c (?w\<lparr>dk_tx_buffer := []\<rparr>)))"
      "dpdk_inv env th js L b p m0 f qs (transmitted env (dk_tx_buffer ?w) c (?w\<lparr>dk_tx_buffer := []\<rparr>))"
      using flush_inv[OF inv s] .
    have "tx_buffer env fuel mb w = Some (Inr (n, transmitted env (dk_tx_buffer ?w) c (?w\<lparr>dk_tx_buffer := []\<rparr>)))"
      using True fl(1) by (simp add: tx_buffer_def)
    from that[OF this fl(2) burst_transmitted[OF burst]] show thesis by (simp add: transmitted_def)
  next
    case False
    then show thesis using inv burst by (intro that[of 0 ?w]) (simp_all add: tx_buffer_def)
  qed
qed

lemma dpdk_send_next_ok:
  assumes set: "dpdk_setting env th js pool K b p T fuel" and L: "L = dpdk_layout env js pool K"
    and core: "dpdk_core env th js L b p m0 f qs w" and burst: "burst_ok L js m0 f w mbs"
    and q: "q \<in> set qs" "q \<notin> wire_ids w" "q \<notin> buffer_ids w" "q < ltus L" "set qs \<subseteq> wire_ids w \<union> buffer_ids w \<union> {q}"
    and mb: "mb_short_job_id mb = slice_job js mod 2 ^ 8" "pool_area L (mb_entries mb)"
    and free: "\<forall>mb' \<in> set mbs \<union> set (dk_tx_buffer w). areas_apart L (mb_entries mb) (mb_entries mb')"
    and b: "b = dt_max_outstanding_pkts th" "0 < b"
  shows "\<exists>w'. send_next env th fuel js mb q w = Some (Inr w') \<and> dpdk_inv env th js L b p m0 f qs w' \<and>
     burst_ok L js m0 f w' mbs \<and> dk_received w' = dk_received w"
proof -
  have job: "int32_ppp (slice js) (de_numel env) p" "layout_ok L" "dk_ppp w = p"
    using set core by (simp_all add: dpdk_setting_def L dpdk_core_def)
  let ?h = "(dk_heap w)\<lparr>words := transfer htonl (src L q) (mb_entries mb) (cnt L q) (words (dk_heap w))\<rparr>"
  let ?slot = "slot_of th (dk_shift w) q"
  obtain mb' where mb': "ReusePacket (de_cksum env) mb q (de_numel env) ?slot (de_switch_addr env) (dt_addr th) p (dk_heap w) = Inr (mb', ?h)"
    "good_headers env th js (dk_shift w) mb'" "mb_entries mb' = mb_entries mb" "mb_pkt_id mb' = q"
    using ReusePacket_int32[OF job(1) q(4)[unfolded L] mb(1), of "de_cksum env" th "dk_shift w" "dk_heap w"] unfolding L by blast
  let ?w1 = "w\<lparr>dk_heap := ?h\<rparr>"
  have enq: "?w1\<lparr>dk_tx_buffer := dk_tx_buffer ?w1 @ [mb']\<rparr> = enqueued L q mb' w" using mb'(3) by simp
  note e = core_enqueued[OF job(2) core burst q(1-4) mb'(2,4), unfolded mb'(3), OF mb(2) free]
  have "set qs \<subseteq> wire_ids (enqueued L q mb' w) \<union> buffer_ids (enqueued L q mb' w)" using q(5) mb'(4) by auto
  then have inv: "dpdk_inv env th js L b p m0 f qs (?w1\<lparr>dk_tx_buffer := dk_tx_buffer ?w1 @ [mb']\<rparr>)"
    unfolding enq dpdk_inv_def using e(1) mb'(3) by simp
  have bst: "burst_ok L js m0 f (?w1\<lparr>dk_tx_buffer := dk_tx_buffer ?w1 @ [mb']\<rparr>) mbs"
    unfolding enq using e(2) mb'(3) by simp
  obtain n w2 where w2: "tx_buffer env fuel mb' ?w1 = Some (Inr (n, w2))" "dpdk_inv env th js L b p m0 f qs w2" "burst_ok L js m0 f w2 mbs"
    "dk_received w2 = dk_received w" "dk_timers w2 = dk_timers w" "dk_args w2 = dk_args w" "dk_shift w2 = dk_shift w"
    using tx_buffer_ok[OF set L inv bst] by auto
  define w3 where "w3 = (if n \<noteq> 0 then w2\<lparr>dk_sent := u64_add (dk_sent w2) n, dk_prev_tsc := dk_cur_tsc w2\<rparr> else w2)"
  have w3: "dpdk_inv env th js L b p m0 f qs w3" "burst_ok L js m0 f w3 mbs" "dk_received w3 = dk_received w"
    using w2 by (simp_all add: w3_def burst_ok_def acceptable_def)
  define w4 where "w4 = w3\<lparr>dk_args := (dk_args w3)[q mod dt_max_outstanding_pkts th :=
      \<lparr>ra_job_id = slice_job js, ra_pkt_id = q, ra_pool_index = ?slot\<rparr>],
      dk_timers := (dk_timers w3)[q mod dt_max_outstanding_pkts th := Some (dk_timer_cycles w3)]\<rparr>"
  have run: "send_next env th fuel js mb q w = Some (Inr w4)"
    by (simp add: send_next_def Let_def job(3) mb'(1) w2(1) w3_def w4_def)
  have "timers_ok th js b qs w4"
    by (rule timers_start[where w = w3 and q = q and c = "dk_timer_cycles w3" and s = ?slot])
       (use w3(1) q(1) b in \<open>simp_all add: w4_def dpdk_inv_def dpdk_core_def\<close>)
  then have "dpdk_core env th js L b p m0 f qs w4"
    using core_timers w3(1) unfolding w4_def dpdk_inv_def by blast
  then have "dpdk_inv env th js L b p m0 f qs w4" using w3(1) by (simp add: dpdk_inv_def w4_def)
  then show ?thesis using run w3(2,3) by (simp add: w4_def burst_ok_def acceptable_def)
qed

text \<open>One received packet.\<close>

lemma handle_packet_ok:
  assumes set: "dpdk_setting env th js pool K b p T fuel" and L: "L = dpdk_layout env js pool K"
    and inv: "dpdk_inv env th js L b p m0 f qs w" and burst: "burst_ok L js m0 f w (mb # mbs)"
  shows "\<exists>w' qs'. handle_packet env th fuel js b (ltus L) mb w = Some (Inr w') \<and> dpdk_inv env th js L b p m0 f qs' w' \<and>
     burst_ok L js m0 f w' mbs \<and> dk_received w' = dk_received w + (if acceptable js w mb then 1 else 0) \<and>
     (\<not> acceptable js w mb \<longrightarrow> acceptable js w' = acceptable js w \<and> dk_tx_buffer w' = dk_tx_buffer w)"
proof (cases "acceptable js w mb")
  case False
  have "mb_pkt_id mb < length (dk_bitmap w)" using inv burst by (simp add: burst_ok_def dpdk_inv_def dpdk_core_def)
  then have "handle_packet env th fuel js b (ltus L) mb w = Some (Inr (w\<lparr>dk_wrong := u64_add (dk_wrong w) 1\<rparr>))"
    using False by (simp add: handle_packet_def acceptable_def Let_def)
  then show ?thesis using inv burst_ok_tl[OF burst] False by (auto simp: burst_ok_def acceptable_def fun_eq_iff)
next
  case True
  let ?q = "mb_pkt_id mb" and ?N = "ltus L" and ?w = "accepted th L b mb w"
  define qs' where "qs' = next_pkt b ?N ?q @ remove1 ?q qs"
  have Lok: "layout_ok L" and bdef: "b = min (dt_max_outstanding_pkts th) ?N" using set by (simp_all add: dpdk_setting_def L)
  have c: "dk_ppp w = p" "pkt_inv b ?N qs" "length (dk_bitmap w) = ?N" "dk_received w = card (pkt_done b ?N qs)"
    "wire_ids w \<subseteq> set qs \<union> pkt_done b ?N qs" "buffer_ids w \<subseteq> set qs"
    using inv by (simp_all add: dpdk_inv_def dpdk_core_def)
  have mb: "?q < ?N" "pool_area L (mb_entries mb)" using burst by (simp_all add: burst_ok_def)
  note acc = core_accepted[OF Lok inv burst True, folded qs'_def]
  note r = receive_outstanding[OF c(2) acc(3), folded qs'_def]
  have "pkt_done b ?N qs \<noteq> {..<?N}" using r(3) mb(1) by auto
  moreover have "pkt_done b ?N qs \<subseteq> {..<?N}" by (auto simp: pkt_done_def)
  ultimately have "dk_received w < ?N" using psubset_card_mono[of "{..<?N}" "pkt_done b ?N qs"] c(4) by auto
  note run = handle_packet_accepts[OF set c(1) this c(3) mb(1) True L]
  show ?thesis
  proof (cases "?q + b < ?N")
    case False
    then have "dpdk_inv env th js L b p m0 f qs' ?w" using acc(1,4) by (simp add: dpdk_inv_def next_pkt_def)
    then show ?thesis using run False True acc(2) by auto
  next
    case more: True
    have b: "b = dt_max_outstanding_pkts th" "0 < b" using bdef more c(2) by (auto simp: pkt_inv_def)
    have free: "\<forall>mb' \<in> set mbs \<union> set (dk_tx_buffer ?w). areas_apart L (mb_entries mb) (mb_entries mb')"
      using burst by (auto simp: burst_ok_def)
    have q: "?q + b \<in> set qs'" "?q + b \<notin> wire_ids ?w" "?q + b \<notin> buffer_ids ?w"
      "set qs' \<subseteq> wire_ids ?w \<union> buffer_ids ?w \<union> {?q + b}"
      using more acc(4) r(7) c(5,6) by (auto simp: qs'_def next_pkt_def)
    have short: "mb_short_job_id mb = slice_job js mod 2 ^ 8" using True by (simp add: acceptable_def)
    from dpdk_send_next_ok[OF set L acc(1,2) q(1-3) more q(4) short mb(2) free b]
    obtain w' where "send_next env th fuel js mb (?q + b) ?w = Some (Inr w')" "dpdk_inv env th js L b p m0 f qs' w'"
      "burst_ok L js m0 f w' mbs" "dk_received w' = dk_received ?w" by blast
    then show ?thesis using run more True by auto
  qed
qed

lemma handle_packets_ok:
  assumes set: "dpdk_setting env th js pool K b p T fuel" and L: "L = dpdk_layout env js pool K"
  shows "dpdk_inv env th js L b p m0 f qs w \<Longrightarrow> burst_ok L js m0 f w mbs \<Longrightarrow>
     \<exists>w' qs'. handle_packets env th fuel js b (ltus L) mbs w = Some (Inr w') \<and> dpdk_inv env th js L b p m0 f qs' w' \<and>
       dk_received w \<le> dk_received w' \<and> ((\<exists>mb \<in> set mbs. acceptable js w mb) \<longrightarrow> dk_received w < dk_received w') \<and>
       (dk_received w' = dk_received w \<longrightarrow> dk_tx_buffer w' = dk_tx_buffer w)"
proof (induction mbs arbitrary: w qs)
  case Nil
  then show ?case by auto
next
  case (Cons mb mbs)
  obtain w1 qs1 where w1: "handle_packet env th fuel js b (ltus L) mb w = Some (Inr w1)" "dpdk_inv env th js L b p m0 f qs1 w1"
    "burst_ok L js m0 f w1 mbs" "dk_received w1 = dk_received w + (if acceptable js w mb then 1 else 0)"
    "\<not> acceptable js w mb \<longrightarrow> acceptable js w1 = acceptable js w \<and> dk_tx_buffer w1 = dk_tx_buffer w"
    using handle_packet_ok[OF set L Cons.prems] by blast
  obtain w2 qs2 where w2: "handle_packets env th fuel js b (ltus L) mbs w1 = Some (Inr w2)" "dpdk_inv env th js L b p m0 f qs2 w2"
    "dk_received w1 \<le> dk_received w2" "(\<exists>mb \<in> set mbs. acceptable js w1 mb) \<longrightarrow> dk_received w1 < dk_received w2"
    "dk_received w2 = dk_received w1 \<longrightarrow> dk_tx_buffer w2 = dk_tx_buffer w1"
    using Cons.IH[OF w1(2,3)] by blast
  have "(\<exists>mb' \<in> set (mb # mbs). acceptable js w mb') \<longrightarrow> dk_received w < dk_received w2"
    using w1(4,5) w2(3,4) by (cases "acceptable js w mb") auto
  moreover have "dk_received w \<le> dk_received w2" using w1(4) w2(3) by simp
  moreover have "dk_received w2 = dk_received w \<longrightarrow> dk_tx_buffer w2 = dk_tx_buffer w"
    using w1(4,5) w2(3,5) by (cases "acceptable js w mb") auto
  ultimately show ?case using w1(1) w2(1,2) by auto
qed

section \<open>Resending a packet\<close>

text \<open>The mbufs that the pool hands out for retransmissions are not in use.\<close>

definition allocates :: "dpdk_env \<Rightarrow> layout \<Rightarrow> rte_mbuf list \<Rightarrow> bool" where
  "allocates env L used \<longleftrightarrow> (\<forall>k. \<exists>mb. de_alloc env k = Some mb \<and> pool_area L (mb_entries mb) \<and>
     (\<forall>mb' \<in> set used. areas_apart L (mb_entries mb) (mb_entries mb')))"

lemma inv_resent:
  assumes L: "layout_ok L" and n: "l_n L = de_numel env" and inv: "dpdk_inv env th js L b p m0 f qs w"
    and q: "q \<in> set qs" "q \<in> wire_ids w"
    and mb: "good_headers env th js (dk_shift w) mb" "mb_pkt_id mb = q" "pool_area L (mb_entries mb)"
    and free: "\<forall>mb' \<in> set (dk_tx_buffer w). areas_apart L (mb_entries mb) (mb_entries mb')"
    and w1: "w1 = w\<lparr>dk_timeouts_counter := y, dk_timeout_threshold := z, dk_timer_cycles := t, dk_allocs := x,
        dk_heap := (dk_heap w)\<lparr>words := transfer htonl (src L q) (mb_entries mb) (cnt L q) (words (dk_heap w))\<rparr>\<rparr>"
  shows "dpdk_inv env th js L b p m0 f qs (transmitted env [mb] c w1)"
proof -
  let ?D = "pkt_done b (ltus L) qs" and ?w = "transmitted env [mb] c w1"
  have core: "slot_data htonl f L m0 (words (dk_heap w)) {} {} ?D" "wire_ok env th js L m0 w" "buffer_ok env th js L m0 w"
    "wire_ids w \<inter> buffer_ids w = {}" "timers_ok th js b qs w" "pkt_inv b (ltus L) qs"
    using inv by (simp_all add: dpdk_inv_def dpdk_core_def)
  have qN: "q < ltus L" using core(6) q(1) by (simp add: pkt_inv_def)
  have "q \<notin> ?D" using pkt_outstanding_not_done[OF q(1)] .
  note load = int32.load_pool[OF L core(1) this mb(3)]
  have heap: "words (dk_heap ?w) = transfer htonl (src L q) (mb_entries mb) (cnt L q) (words (dk_heap w))"
    by (simp add: transmitted_def w1)
  have "holds_packet L m0 q (elements (words (dk_heap w1)) mb)" using load(2) by (simp add: holds_packet_def w1)
  then have "wire_ok env th js L m0 ?w"
    using core(2) mb(1,2) qN holds_payload[OF n] by (auto simp: wire_ok_def transmitted_def snap_def payload_def w1)
  moreover have "holds_packet L m0 (mb_pkt_id mb') (elements (words (dk_heap ?w)) mb')" if "mb' \<in> set (dk_tx_buffer w)" for mb'
    using core(3) that int32.load_pool_other[OF free[rule_format, OF that] cnt_le]
    unfolding heap by (simp add: buffer_ok_def holds_packet_def)
  then have "buffer_ok env th js L m0 ?w" using core(3) by (simp add: buffer_ok_def transmitted_def w1)
  moreover have "wire_ids ?w = wire_ids w" using q(2) mb(2) by (auto simp: transmitted_def snap_def w1)
  moreover have "timers_ok th js b qs ?w" using core(5) timers_ok_same[of ?w w] by (simp add: transmitted_def w1)
  ultimately show ?thesis using inv load(1) unfolding dpdk_inv_def dpdk_core_def by (simp add: transmitted_def w1)
qed

definition pending :: "dpdk_worker \<Rightarrow> nat \<Rightarrow> bool" where
  "pending w i \<longleftrightarrow> i < length (dk_timers w) \<and> dk_timers w ! i \<noteq> None"

lemma BuildPacket_any_slot:
  assumes "int32_ppp (slice js) (de_numel env) p" and "q < ltus (dpdk_layout env js e K)"
  obtains mb where "BuildPacket cksum mbuf (slice_job js) q s (de_numel env) (de_switch_addr env) (dt_addr th) p h =
      Inr (mb, h\<lparr>words := transfer htonl (src (dpdk_layout env js e K) q) (mb_entries mbuf) (cnt (dpdk_layout env js e K) q) (words h)\<rparr>)"
    and "mb_entries mb = mb_entries mbuf" "mb_pkt_id mb = q" "mb_short_job_id mb = slice_job js mod 2 ^ 8" "mb_pool_index mb = cpu_to_be_16 (of_nat s)"
    and "\<And>shift. s = slot_of th shift q \<Longrightarrow> good_headers env th js shift mb"
  by (simp add: BuildPacket_def Let_def preprocess_int32[OF assms] good_headers_def mb_entries_def mb_extra_def)

text \<open>The callback builds the packet that the arguments name for the slot that they name, sends it and starts the timer again.\<close>

lemma resend_sends:
  assumes set: "dpdk_setting env th js pool K b p T fuel" and L: "L = dpdk_layout env js pool K"
    and w: "dk_ppp w = p" "counters_ok (de_tid env) (dk_stats w)"
    and args: "dk_args w ! i = \<lparr>ra_job_id = slice_job js, ra_pkt_id = q, ra_pool_index = s\<rparr>" "q < ltus L"
    and mb0: "de_alloc env (dk_allocs w) = Some mb0"
  obtains y z t c mb st where "ResendPacketCallback env th fuel i w = Some (Inr (transmitted env [mb] c
      (w\<lparr>dk_timeouts_counter := y, dk_timeout_threshold := z, dk_timer_cycles := t, dk_allocs := Suc (dk_allocs w),
         dk_heap := (dk_heap w)\<lparr>words := transfer htonl (src L q) (mb_entries mb0) (cnt L q) (words (dk_heap w))\<rparr>\<rparr>)
      \<lparr>dk_timers := (dk_timers w)[i := Some t], dk_stats := st\<rparr>))"
    and "mb_entries mb = mb_entries mb0" "mb_pkt_id mb = q" "mb_short_job_id mb = slice_job js mod 2 ^ 8" "mb_pool_index mb = cpu_to_be_16 (of_nat s)"
    and "\<And>shift. s = slot_of th shift q \<Longrightarrow> good_headers env th js shift mb" and "counters_ok (de_tid env) st"
proof -
  note d = dpdk_settingD[OF set]
  obtain y z t where w1: "(if u64_add (dk_timeouts_counter w) 1 \<ge> dk_timeout_threshold w
      then w\<lparr>dk_timeouts_counter := 0,
             dk_timeout_threshold := u64_add (dk_timeout_threshold w) (gc_timeout_threshold_increment (general (de_config env))),
             dk_timer_cycles := u64_mul (dk_timer_cycles w) 2\<rparr>
      else w\<lparr>dk_timeouts_counter := u64_add (dk_timeouts_counter w) 1\<rparr>) =
      w\<lparr>dk_timeouts_counter := y, dk_timeout_threshold := z, dk_timer_cycles := t\<rparr>"
  proof (cases "u64_add (dk_timeouts_counter w) 1 \<ge> dk_timeout_threshold w")
    case False
    then show ?thesis by (intro that[of "dk_timer_cycles w" "dk_timeout_threshold w" "u64_add (dk_timeouts_counter w) 1"]) simp
  qed (auto intro: that)
  let ?h = "(dk_heap w)\<lparr>words := transfer htonl (src L q) (mb_entries mb0) (cnt L q) (words (dk_heap w))\<rparr>"
  obtain mb where mb: "BuildPacket (de_cksum env) mb0 (slice_job js) q s (de_numel env) (de_switch_addr env)
      (dt_addr th) p (dk_heap w) = Inr (mb, ?h)" "mb_entries mb = mb_entries mb0" "mb_pkt_id mb = q"
      "mb_short_job_id mb = slice_job js mod 2 ^ 8" "mb_pool_index mb = cpu_to_be_16 (of_nat s)" "\<And>shift. s = slot_of th shift q \<Longrightarrow> good_headers env th js shift mb"
    using BuildPacket_any_slot[OF d(5) args(2)[unfolded L], of "de_cksum env" mb0 s th "dk_heap w"] unfolding L by blast
  define w1' where "w1' = w\<lparr>dk_timeouts_counter := y, dk_timeout_threshold := z, dk_timer_cycles := t,
      dk_allocs := Suc (dk_allocs w), dk_heap := ?h\<rparr>"
  obtain c where c: "tx_loop env u32 fuel [mb] 0 w1' = Some (Inr (length [mb], transmitted env [mb] c w1'))"
    using tx_loop_ok[OF d(2) _ _ d(3), of "[mb]" u32 w1'] by (auto simp: u32_def)
  obtain s1 where s1: "AddTimeouts (de_tid env) 1 (dk_stats w) = Inr s1" "counters_ok (de_tid env) s1"
    using counters_ok_add(4)[OF w(2)] by blast
  obtain s2 where s2: "AddTotalPktsSent (de_tid env) 1 s1 = Inr s2" "counters_ok (de_tid env) s2"
    using counters_ok_add(1)[OF s1(2)] by blast
  have "ResendPacketCallback env th fuel i w =
      Some (Inr (transmitted env [mb] c w1'\<lparr>dk_timers := (dk_timers w)[i := Some t], dk_stats := s2\<rparr>))"
    using mb0 mb(1) c s1(1) s2(1) w(1)
    unfolding ResendPacketCallback_def Let_def w1 by (simp add: args w1'_def transmitted_def del: One_nat_def)
  then show thesis using that mb(2-6) s2(2) unfolding w1'_def by blast
qed

lemma resend_ok:
  assumes set: "dpdk_setting env th js pool K b p T fuel" and L: "L = dpdk_layout env js pool K"
    and inv: "dpdk_inv env th js L b p m0 f qs w" and i: "sound_timer th js w i" "ra_pkt_id (dk_args w ! i) \<in> wire_ids w"
    and alloc: "allocates env L (dk_tx_buffer w)"
  obtains w' where "ResendPacketCallback env th fuel i w = Some (Inr w')" "dpdk_inv env th js L b p m0 f qs w'"
    "dk_received w' = dk_received w" "dk_tx_buffer w' = dk_tx_buffer w" "wire_ids w' = wire_ids w"
    "dk_args w' = dk_args w" "sound_timer th js w' = sound_timer th js w" "pending w' = pending w"
proof -
  define q where "q = ra_pkt_id (dk_args w ! i)"
  have core: "dk_ppp w = p" "pkt_inv b (ltus L) qs" "timers_ok th js b qs w" "counters_ok (de_tid env) (dk_stats w)"
    using inv by (simp_all add: dpdk_inv_def dpdk_core_def)
  note d = dpdk_settingD[OF set]
  have q: "q \<in> set qs" "q < ltus L" using timers_okD(2)[OF core(3) i(1)] core(2) by (simp_all add: q_def pkt_inv_def)
  have args: "dk_args w ! i = \<lparr>ra_job_id = slice_job js, ra_pkt_id = q, ra_pool_index = slot_of th (dk_shift w) q\<rparr>"
    using i(1) by (simp add: sound_timer_def q_def)
  obtain mb0 where mb0: "de_alloc env (dk_allocs w) = Some mb0" "pool_area L (mb_entries mb0)"
    "\<forall>mb' \<in> set (dk_tx_buffer w). areas_apart L (mb_entries mb0) (mb_entries mb')"
    using alloc unfolding allocates_def by blast
  obtain y z t c mb st where run: "ResendPacketCallback env th fuel i w = Some (Inr (transmitted env [mb] c
      (w\<lparr>dk_timeouts_counter := y, dk_timeout_threshold := z, dk_timer_cycles := t, dk_allocs := Suc (dk_allocs w),
         dk_heap := (dk_heap w)\<lparr>words := transfer htonl (src L q) (mb_entries mb0) (cnt L q) (words (dk_heap w))\<rparr>\<rparr>)
      \<lparr>dk_timers := (dk_timers w)[i := Some t], dk_stats := st\<rparr>))"
    and mb: "mb_entries mb = mb_entries mb0" "mb_pkt_id mb = q" "good_headers env th js (dk_shift w) mb"
    and st: "counters_ok (de_tid env) st"
    using resend_sends[OF set L core(1,4) args q(2) mb0(1)] by metis
  define w2 where "w2 = transmitted env [mb] c
      (w\<lparr>dk_timeouts_counter := y, dk_timeout_threshold := z, dk_timer_cycles := t, dk_allocs := Suc (dk_allocs w),
         dk_heap := (dk_heap w)\<lparr>words := transfer htonl (src L q) (mb_entries mb0) (cnt L q) (words (dk_heap w))\<rparr>\<rparr>)"
  define w3 where "w3 = w2\<lparr>dk_timers := (dk_timers w)[i := Some t], dk_stats := st\<rparr>"
  have inv2: "dpdk_inv env th js L b p m0 f qs w2" unfolding w2_def
    by (rule inv_resent[where q = q and mb = mb]) (use d(4) L inv q i(2) mb mb0 q_def in simp_all)
  have w3: "dk_timers w3 = (dk_timers w)[i := Some t]" "dk_args w3 = dk_args w" "dk_shift w3 = dk_shift w"
    "dk_received w3 = dk_received w" "dk_tx_buffer w3 = dk_tx_buffer w"
    by (simp_all add: w3_def w2_def transmitted_def)
  have wires: "wire_ids w3 = wire_ids w"
    using i(2) mb(2) by (auto simp: w3_def w2_def transmitted_def snap_def q_def)
  have "sound_timer th js w3 j = sound_timer th js w j" for j
    using i(1) w3 by (cases "j = i") (auto simp: sound_timer_def)
  then have snd: "sound_timer th js w3 = sound_timer th js w" by (rule ext)
  then have "timers_ok th js b qs w3" using core(3) timers_ok_sound[OF _ w3(2) snd] w3(1) by simp
  then have "dpdk_inv env th js L b p m0 f qs w3"
    using inv2 st by (simp add: w3_def dpdk_inv_def dpdk_core_def wire_ok_def buffer_ok_def)
  moreover have "pending w3 = pending w" using i(1) w3(1) by (auto simp: pending_def fun_eq_iff nth_list_update sound_timer_def)
  moreover have "ResendPacketCallback env th fuel i w = Some (Inr w3)" using run by (simp only: w3_def w2_def)
  ultimately show thesis using that w3(2,4,5) wires snd by blast
qed

lemma timer_manage_ok:
  assumes set: "dpdk_setting env th js pool K b p T fuel" and L: "L = dpdk_layout env js pool K"
  shows "dpdk_inv env th js L b p m0 f qs w \<Longrightarrow>
     \<forall>i \<in> set expired. pending w i \<longrightarrow> sound_timer th js w i \<and> ra_pkt_id (dk_args w ! i) \<in> wire_ids w \<Longrightarrow>
     expired = [] \<or> allocates env L (dk_tx_buffer w) \<Longrightarrow>
     \<exists>w'. timer_manage env th fuel expired w = Some (Inr w') \<and> dpdk_inv env th js L b p m0 f qs w' \<and>
       dk_received w' = dk_received w \<and> dk_tx_buffer w' = dk_tx_buffer w"
proof (induction expired arbitrary: w)
  case (Cons i expired)
  show ?case
  proof (cases "pending w i")
    case True
    have i: "sound_timer th js w i" "ra_pkt_id (dk_args w ! i) \<in> wire_ids w" and al: "allocates env L (dk_tx_buffer w)"
      using Cons.prems(2,3) True by auto
    obtain w1 where w1: "ResendPacketCallback env th fuel i w = Some (Inr w1)" "dpdk_inv env th js L b p m0 f qs w1"
      "dk_received w1 = dk_received w" "dk_tx_buffer w1 = dk_tx_buffer w" "wire_ids w1 = wire_ids w"
      "dk_args w1 = dk_args w" "sound_timer th js w1 = sound_timer th js w" "pending w1 = pending w"
      using resend_ok[OF set L Cons.prems(1) i al] by metis
    show ?thesis using Cons.IH[OF w1(2)] Cons.prems(2) al w1 True by (auto simp: pending_def)
  next
    case False
    then show ?thesis using Cons by (auto simp: pending_def)
  qed
qed auto

section \<open>The contract of the network\<close>

text \<open>
  A burst fits into the array of the thread; memory has changed in unused buffers of the pool only; an acceptable packet is one
  that this worker has sent in this job slice, with its elements reduced (\<open>agg j\<close> for the element of index \<open>j\<close>), and its number is
  in the range of the bitmap, as is that of any other packet. A timer expires only after its packet has been
  transmitted, and only if it is set up for that packet; then the pool has a free mbuf. Packets may be lost, duplicated,
  reordered and delayed, also to another job slice.
\<close>

definition answer_ok ::
  "dpdk_env \<Rightarrow> dpdk_thread \<Rightarrow> JobSlice \<Rightarrow> layout \<Rightarrow> (nat \<Rightarrow> 32 word \<Rightarrow> 32 word) \<Rightarrow> dpdk_worker \<Rightarrow> rx_answer \<Rightarrow> bool"
where
  "answer_ok env th js L agg w a \<longleftrightarrow>
     length (rx_mbufs a) \<le> dt_max_outstanding_pkts th \<and>
     (rx_mbufs a \<noteq> [] \<longrightarrow>
        (\<forall>x. \<not> in_block (l_buf L) (l_B L * l_n L) x \<longrightarrow> words (rx_heap a) x = words (dk_heap w) x) \<and>
        (\<forall>mb \<in> set (dk_tx_buffer w). \<forall>i < l_n L. elements (words (rx_heap a)) mb i = elements (words (dk_heap w)) mb i) \<and>
        sorted_wrt (areas_apart L) (map mb_entries (rx_mbufs a @ dk_tx_buffer w)) \<and>
        (\<forall>mb \<in> set (rx_mbufs a). pool_area L (mb_entries mb) \<and> mb_pkt_id mb < length (dk_bitmap w) \<and>
           (acceptable js w mb \<longrightarrow> (\<exists>(sent, ps) \<in> set (dk_wire w). mb_pkt_id sent = mb_pkt_id mb \<and>
              (\<forall>i < l_n L. elements (words (rx_heap a)) mb i = agg (mb_pkt_id mb * l_n L + i) (ps ! i)))))) \<and>
     (\<forall>i \<in> set (rx_expired a). pending w i \<longrightarrow> sound_timer th js w i \<and> ra_pkt_id (dk_args w ! i) \<in> wire_ids w) \<and>
     (rx_expired a = [] \<or> allocates env L (dk_tx_buffer w))"

text \<open>
  The network delivers: infinitely many polls return a packet that can be accepted or, if there are packets in the
  transmission buffer, find that it is time to flush it, whenever one of the two is possible.
\<close>

definition delivers :: "dpdk_thread \<Rightarrow> JobSlice \<Rightarrow> dpdk_worker \<Rightarrow> rx_answer \<Rightarrow> bool" where
  "delivers th js w a \<longleftrightarrow>
     (dk_tx_buffer w \<noteq> [] \<or> (\<exists>q \<in> wire_ids w. q < length (dk_bitmap w) \<and> \<not> dk_bitmap w ! q)) \<longrightarrow>
     (\<exists>mb \<in> set (rx_mbufs a). acceptable js w mb) \<or>
     rx_mbufs a = [] \<and> dk_tx_buffer w \<noteq> [] \<and> u64_sub (rx_tsc a) (dk_prev_tsc w) > dt_drain_tsc th"

lemma burst_received:
  assumes inv: "dpdk_inv env th js L b p m0 f qs w" and L: "layout_ok L" "l_n L = de_numel env"
    and a: "answer_ok env th js L agg w a" "rx_mbufs a \<noteq> []" and agg: "\<And>j v. agg j (htonl v) = htonl (f j v)"
  shows "dpdk_inv env th js L b p m0 f qs (w\<lparr>dk_heap := rx_heap a\<rparr>)" and "burst_ok L js m0 f (w\<lparr>dk_heap := rx_heap a\<rparr>) (rx_mbufs a)"
proof -
  let ?w = "w\<lparr>dk_heap := rx_heap a\<rparr>"
  have core: "slot_data htonl f L m0 (words (dk_heap w)) {} {} (pkt_done b (ltus L) qs)" "wire_ok env th js L m0 w"
    "buffer_ok env th js L m0 w" "length (dk_bitmap w) = ltus L"
    using inv by (simp_all add: dpdk_inv_def dpdk_core_def)
  have c: "\<forall>x. \<not> in_block (l_buf L) (l_B L * l_n L) x \<longrightarrow> words (rx_heap a) x = words (dk_heap w) x"
    "\<forall>mb \<in> set (dk_tx_buffer w). \<forall>i < l_n L. elements (words (rx_heap a)) mb i = elements (words (dk_heap w)) mb i"
    "sorted_wrt (areas_apart L) (map mb_entries (rx_mbufs a @ dk_tx_buffer w))"
    "\<forall>mb \<in> set (rx_mbufs a). pool_area L (mb_entries mb) \<and> mb_pkt_id mb < length (dk_bitmap w) \<and>
       (acceptable js w mb \<longrightarrow> (\<exists>(sent, ps) \<in> set (dk_wire w). mb_pkt_id sent = mb_pkt_id mb \<and>
          (\<forall>i < l_n L. elements (words (rx_heap a)) mb i = agg (mb_pkt_id mb * l_n L + i) (ps ! i))))"
    using a unfolding answer_ok_def by blast+
  have "slot_data htonl f L m0 (words (rx_heap a)) {} {} (pkt_done b (ltus L) qs)" by (rule slot_data_pool[OF L(1) core(1) c(1)])
  moreover have "buffer_ok env th js L m0 ?w"
    using core(3) c(2) cnt_le unfolding buffer_ok_def holds_packet_def by simp
  moreover have "timers_ok th js b qs ?w = timers_ok th js b qs w" by (rule timers_ok_same) simp_all
  ultimately show "dpdk_inv env th js L b p m0 f qs ?w" using inv by (simp add: dpdk_inv_def dpdk_core_def wire_ok_def)
  have "mb_pkt_id mb \<in> wire_ids w \<and> (\<forall>i < cnt L (mb_pkt_id mb). words (rx_heap a) (mb_entries mb + 4 * i) =
      htonl (f (mb_pkt_id mb * l_n L + i) (m0 (src L (mb_pkt_id mb) + 4 * i))))"
    if "mb \<in> set (rx_mbufs a)" "acceptable js w mb" for mb
  proof -
    have "\<exists>(sent, ps) \<in> set (dk_wire w). mb_pkt_id sent = mb_pkt_id mb \<and>
        (\<forall>i < l_n L. elements (words (rx_heap a)) mb i = agg (mb_pkt_id mb * l_n L + i) (ps ! i))"
      using c(4) that by blast
    then obtain sent ps where s: "(sent, ps) \<in> set (dk_wire w)" "mb_pkt_id sent = mb_pkt_id mb"
      "\<forall>i < l_n L. elements (words (rx_heap a)) mb i = agg (mb_pkt_id mb * l_n L + i) (ps ! i)"
      by (elim bexE case_prodE conjE) simp
    have "case (sent, ps) of (mb, ps) \<Rightarrow> good_headers env th js (dk_shift w) mb \<and> mb_pkt_id mb < ltus L \<and> length ps = de_numel env \<and>
        holds_packet L m0 (mb_pkt_id mb) ((!) ps)"
      using core(2) s(1) unfolding wire_ok_def by (rule bspec)
    then have h: "\<forall>i < cnt L (mb_pkt_id mb). ps ! i = htonl (m0 (src L (mb_pkt_id mb) + 4 * i))"
      using s(2) by (simp add: holds_packet_def)
    show ?thesis
    proof (intro conjI allI impI)
      show "mb_pkt_id mb \<in> wire_ids w" using s(1,2) by (intro image_eqI[of _ _ "(sent, ps)"]) simp_all
      fix i assume i: "i < cnt L (mb_pkt_id mb)"
      then show "words (rx_heap a) (mb_entries mb + 4 * i) = htonl (f (mb_pkt_id mb * l_n L + i) (m0 (src L (mb_pkt_id mb) + 4 * i)))"
        using s(3) cnt_le[OF i] h agg by simp
    qed
  qed
  then show "burst_ok L js m0 f ?w (rx_mbufs a)"
    using c(3,4) core(4) by (simp add: burst_ok_def acceptable_def)
qed

lemma idle_ok:
  assumes set: "dpdk_setting env th js pool K b p T fuel" and L: "L = dpdk_layout env js pool K"
    and inv: "dpdk_inv env th js L b p m0 f qs w" and a: "answer_ok env th js L agg w a"
  shows "\<exists>w'. dpdk_idle env th fuel now (rx_expired a) w = Some (Inr w') \<and> dpdk_inv env th js L b p m0 f qs w' \<and>
     dk_received w' = dk_received w \<and>
     dk_tx_buffer w' = (if u64_sub now (dk_prev_tsc w) > dt_drain_tsc th then [] else dk_tx_buffer w)"
proof -
  note d = dpdk_settingD[OF set]
  let ?w1 = "w\<lparr>dk_cur_tsc := now\<rparr>" and ?due = "u64_sub now (dk_prev_tsc w) > dt_drain_tsc th"
  have inv1: "dpdk_inv env th js L b p m0 f qs ?w1" using inv by simp
  obtain w2 where w2: "(if ?due then bindO (tx_buffer_flush env fuel ?w1) (\<lambda>(nb_tx, w2).
      Some (Inr (w2\<lparr>dk_prev_tsc := now, dk_sent := u64_add (dk_sent w2) nb_tx\<rparr>))) else Some (Inr ?w1)) = Some (Inr w2)"
    "dpdk_inv env th js L b p m0 f qs w2" "dk_received w2 = dk_received w" "dk_args w2 = dk_args w"
    "dk_timers w2 = dk_timers w" "dk_shift w2 = dk_shift w" "wire_ids w \<subseteq> wire_ids w2"
    "dk_tx_buffer w2 = (if ?due then [] else dk_tx_buffer w)"
  proof (cases ?due)
    case True
    have n: "l_n L = de_numel env" by (simp add: L)
    obtain n c where fl: "tx_buffer_flush env fuel ?w1 = Some (Inr (n, transmitted env (dk_tx_buffer ?w1) c (?w1\<lparr>dk_tx_buffer := []\<rparr>)))"
      "dpdk_inv env th js L b p m0 f qs (transmitted env (dk_tx_buffer ?w1) c (?w1\<lparr>dk_tx_buffer := []\<rparr>))"
      using flush_inv[OF inv1 n d(1-3)] .
    let ?w2 = "transmitted env (dk_tx_buffer ?w1) c (?w1\<lparr>dk_tx_buffer := []\<rparr>)"
    have "dpdk_inv env th js L b p m0 f qs (?w2\<lparr>dk_prev_tsc := now, dk_sent := u64_add (dk_sent ?w2) n\<rparr>)" using fl(2) by simp
    from that[OF _ this] show thesis using True fl(1) by (auto simp: transmitted_def)
  qed (use that[OF _ inv1] in auto)
  have "\<forall>i \<in> set (rx_expired a). pending w2 i \<longrightarrow> sound_timer th js w2 i \<and> ra_pkt_id (dk_args w2 ! i) \<in> wire_ids w2"
  proof -
    have "sound_timer th js w2 = sound_timer th js w" "pending w2 = pending w"
      using w2(4-6) by (auto simp: fun_eq_iff sound_timer_def pending_def)
    moreover have "\<forall>i \<in> set (rx_expired a). pending w i \<longrightarrow> sound_timer th js w i \<and> ra_pkt_id (dk_args w ! i) \<in> wire_ids w"
      using a unfolding answer_ok_def by blast
    ultimately show ?thesis using subsetD[OF w2(7)] w2(4) by metis
  qed
  moreover have "rx_expired a = [] \<or> allocates env L (dk_tx_buffer w2)"
    using a w2(8) by (auto simp: answer_ok_def allocates_def)
  ultimately obtain w3 where w3: "timer_manage env th fuel (rx_expired a) w2 = Some (Inr w3)" "dpdk_inv env th js L b p m0 f qs w3"
    "dk_received w3 = dk_received w2" "dk_tx_buffer w3 = dk_tx_buffer w2"
    using timer_manage_ok[OF set L w2(2)] by blast
  show ?thesis
    using w2(1) w2(2,3,8) w3 by (cases "u64_sub now (dk_timer_prev_tsc w2) > dk_timer_cycles w2") (simp_all add: dpdk_idle_def)
qed

section \<open>The receive loop\<close>

definition rest :: "nat \<Rightarrow> dpdk_worker \<Rightarrow> nat" where
  "rest N w = 2 * (N - dk_received w) + (if dk_tx_buffer w = [] then 0 else 1)"

lemma received_bounds:
  assumes "dpdk_inv env th js L b p m0 f qs w"
  shows "dk_received w \<le> ltus L" and "dk_received w = ltus L \<longleftrightarrow> qs = []"
  using assms pkt_done_card[of b "ltus L" qs] by (simp_all add: dpdk_inv_def dpdk_core_def)

lemma outstanding_somewhere:
  assumes inv: "dpdk_inv env th js L b p m0 f qs w" and less: "dk_received w < ltus L"
  shows "dk_tx_buffer w \<noteq> [] \<or> (\<exists>q \<in> wire_ids w. q < length (dk_bitmap w) \<and> \<not> dk_bitmap w ! q)"
proof -
  have "qs \<noteq> []" using received_bounds(2)[OF inv] less by auto
  then obtain q where q: "q \<in> set qs" by (cases qs) auto
  have sub: "set qs \<subseteq> wire_ids w \<union> buffer_ids w" and "pkt_inv b (ltus L) qs" "length (dk_bitmap w) = ltus L"
    "\<forall>q < ltus L. dk_bitmap w ! q \<longleftrightarrow> q \<in> pkt_done b (ltus L) qs"
    using inv by (simp_all add: dpdk_inv_def dpdk_core_def)
  then have "q < length (dk_bitmap w) \<and> \<not> dk_bitmap w ! q" using q pkt_outstanding_not_done[OF q] by (simp add: pkt_inv_def)
  moreover have "q \<in> wire_ids w \<or> q \<in> buffer_ids w" using sub q by blast
  ultimately show ?thesis by (metis emptyE image_empty list.set(1))
qed

lemma iteration_ok:
  assumes set: "dpdk_setting env th js pool K b p T fuel" and L: "L = dpdk_layout env js pool K"
    and inv: "dpdk_inv env th js L b p m0 f qs w" and a: "answer_ok env th js L agg w a"
    and agg: "\<And>j v. agg j (htonl v) = htonl (f j v)" and less: "dk_received w < ltus L"
  shows "\<exists>w' qs'. dpdk_iteration env th fuel js b (ltus L) a w = Some (Inr w') \<and> dpdk_inv env th js L b p m0 f qs' w' \<and>
     rest (ltus L) w' \<le> rest (ltus L) w \<and> (delivers th js w a \<longrightarrow> rest (ltus L) w' < rest (ltus L) w)"
proof (cases "rx_mbufs a = []")
  case True
  obtain w' where w': "dpdk_idle env th fuel (rx_tsc a) (rx_expired a) w = Some (Inr w')" "dpdk_inv env th js L b p m0 f qs w'"
    "dk_received w' = dk_received w"
    "dk_tx_buffer w' = (if u64_sub (rx_tsc a) (dk_prev_tsc w) > dt_drain_tsc th then [] else dk_tx_buffer w)"
    using idle_ok[OF set L inv a, of "rx_tsc a"] by blast
  have "delivers th js w a \<longrightarrow> rest (ltus L) w' < rest (ltus L) w"
    using w'(3,4) True outstanding_somewhere[OF inv less] unfolding delivers_def rest_def by auto
  moreover have "rest (ltus L) w' \<le> rest (ltus L) w" using w'(3,4) by (simp add: rest_def)
  ultimately show ?thesis using w'(1,2) True by (auto simp: dpdk_iteration_def)
next
  case False
  have n: "layout_ok L" "l_n L = de_numel env" using dpdk_settingD(4)[OF set] by (simp_all add: L)
  let ?w = "w\<lparr>dk_heap := rx_heap a\<rparr>"
  note start = burst_received[OF inv n a False agg]
  obtain w' qs' where w': "handle_packets env th fuel js b (ltus L) (rx_mbufs a) ?w = Some (Inr w')" "dpdk_inv env th js L b p m0 f qs' w'"
    "dk_received ?w \<le> dk_received w'" "(\<exists>mb \<in> set (rx_mbufs a). acceptable js ?w mb) \<longrightarrow> dk_received ?w < dk_received w'"
    "dk_received w' = dk_received ?w \<longrightarrow> dk_tx_buffer w' = dk_tx_buffer ?w"
    using handle_packets_ok[OF set L start] by blast
  have len: "length (rx_mbufs a) \<le> dt_max_outstanding_pkts th" using a by (simp add: answer_ok_def)
  have le: "dk_received w' \<le> ltus L" by (rule received_bounds(1)[OF w'(2)])
  have strict: "rest (ltus L) w' < rest (ltus L) w" if "dk_received w < dk_received w'"
    using that le by (auto simp: rest_def)
  have "rest (ltus L) w' \<le> rest (ltus L) w"
    using strict w'(3,5) by (cases "dk_received w' = dk_received w") (auto simp: rest_def)
  moreover have "delivers th js w a \<longrightarrow> rest (ltus L) w' < rest (ltus L) w"
  proof
    assume "delivers th js w a"
    moreover have "dk_tx_buffer w \<noteq> [] \<or> (\<exists>q \<in> wire_ids w. q < length (dk_bitmap w) \<and> \<not> dk_bitmap w ! q)"
      using outstanding_somewhere[OF inv less] .
    ultimately have "\<exists>mb \<in> set (rx_mbufs a). acceptable js ?w mb" using False by (auto simp: delivers_def acceptable_def)
    then show "rest (ltus L) w' < rest (ltus L) w" using strict w'(4) by simp
  qed
  ultimately show ?thesis using w'(1,2) False len by (auto simp: dpdk_iteration_def)
qed

section \<open>The first batch\<close>

lemma slot_of_Suc:
  assumes "pool_fits start mop" and "Suc q + shift < 2 ^ 64"
  shows "PktId2PoolIndex q start shift mop \<noteq> PktId2PoolIndex (Suc q) start shift mop"
proof
  assume eq: "PktId2PoolIndex q start shift mop = PktId2PoolIndex (Suc q) start shift mop"
  have mop: "0 < mop" using assms(1) by (simp add: pool_fits_def)
  let ?x = "q + shift"
  have v: "x mod (2 * mop) = x mod mop + (if x mod (2 * mop) < mop then 0 else mop)" for x :: nat
  proof -
    have "x mod mop = x mod (2 * mop) mod mop" by (simp add: mod_mod_cancel)
    moreover have "x mod (2 * mop) < 2 * mop" using mop by simp
    ultimately show ?thesis by (auto simp: mod_if[of "x mod (2 * mop)" mop] mod_if[of "x mod (2 * mop) - mop" mop])
  qed
  have s: "Suc q + shift = Suc ?x" and b: "q + shift < 2 ^ 64" using assms(2) by simp_all
  have low: "?x mod mop = Suc ?x mod mop"
    using arg_cong[OF eq, of "\<lambda>n. n mod 2 ^ 15"]
    unfolding PktId2PoolIndex_low(1)[OF assms(1) b] PktId2PoolIndex_low(1)[OF assms] s by simp
  have high: "?x mod (2 * mop) < mop \<longleftrightarrow> Suc ?x mod (2 * mop) < mop"
    using arg_cong[OF eq, of "\<lambda>n. n div 2 ^ 15"]
    unfolding PktId2PoolIndex_low(2)[OF assms(1) b] PktId2PoolIndex_low(2)[OF assms] s by (auto split: if_splits)
  have "?x mod (2 * mop) = Suc ?x mod (2 * mop)" using v[of ?x] v[of "Suc ?x"] low high by simp
  then show False using mop by (auto simp: mod_Suc split: if_splits)
qed

text \<open>What a job slice of integers needs: sizes without overflow, disjoint buffers, and the thread's arrays.\<close>

definition dpdk_ready :: "dpdk_env \<Rightarrow> dpdk_thread \<Rightarrow> JobSlice \<Rightarrow> ptr \<Rightarrow> nat \<Rightarrow> nat \<Rightarrow> nat \<Rightarrow> dpdk_worker \<Rightarrow> bool" where
  "dpdk_ready env th js pool K T fuel w \<longleftrightarrow>
     (let L = dpdk_layout env js pool K; mop = dt_max_outstanding_pkts th
      in ppp_kind (dk_ppp w) = CpuExponentQuantizerPPP \<and> ppp_ltu_size (dk_ppp w) = 4 * de_numel env \<and>
         data_type (slice js) = INT32 \<and> 0 < de_numel env \<and> 0 < numel (slice js) \<and>
         4 * numel (slice js) + 4 * de_numel env < 2 ^ 64 \<and> layout_ok L \<and>
         pool_fits (dt_pool_index_start th) mop \<and> ltus L + mop < 2 ^ 32 \<and> dk_shift w < 2 ^ 32 \<and>
         length (dk_mbufs w) = mop \<and> sorted_wrt (areas_apart L) (map mb_entries (dk_mbufs w)) \<and>
         (\<forall>mb \<in> set (dk_mbufs w). pool_area L (mb_entries mb)) \<and> dk_tx_buffer w = [] \<and>
         length (dk_timers w) = mop \<and> length (dk_args w) = mop \<and>
         (\<forall>i. pending w i \<longrightarrow> ra_job_id (dk_args w ! i) \<noteq> slice_job js) \<and> counters_ok (de_tid env) (dk_stats w) \<and>
         de_bitmap_alloc env (ltus L) \<and> card_accepts env T \<and> T * 2 ^ 16 \<le> fuel)"

definition frozen :: "dpdk_worker \<Rightarrow> _" where
  "frozen w = (dk_ppp w, dk_bitmap w, dk_received w, dk_tx_buffer w, dk_wire w, dk_shift w, dk_stats w, dk_sent w)"

text \<open>The packets built so far; the timers that they have started are not sound.\<close>

definition built :: "dpdk_env \<Rightarrow> dpdk_thread \<Rightarrow> JobSlice \<Rightarrow> layout \<Rightarrow> memory \<Rightarrow> (nat \<Rightarrow> 32 word \<Rightarrow> 32 word) \<Rightarrow> nat \<Rightarrow> dpdk_worker \<Rightarrow> dpdk_worker \<Rightarrow> bool" where
  "built env th js L m0 f k w w' \<longleftrightarrow>
     frozen w' = frozen w \<and>
     map mb_entries (dk_mbufs w') = map mb_entries (dk_mbufs w) \<and>
     (\<forall>j < k. good_headers env th js (dk_shift w) (dk_mbufs w' ! j) \<and> mb_pkt_id (dk_mbufs w' ! j) = j \<and>
        holds_packet L m0 j (elements (words (dk_heap w')) (dk_mbufs w' ! j))) \<and>
     slot_data htonl f L m0 (words (dk_heap w')) {} {} {} \<and>
     length (dk_timers w') = length (dk_timers w) \<and> length (dk_args w') = length (dk_args w) \<and> (\<forall>i. \<not> sound_timer th js w' i)"

lemma first_batch_counters:
  assumes "k < ltus L" "ltus L < 2 ^ 32" "k < n" "n \<le> 2 ^ 15"
  shows "u32 k = k" "u64_add k 1 = Suc k" "u32 (Suc k) = Suc k" "u16 (Suc k mod n) = Suc k mod n"
proof -
  have "Suc k mod n < n" using assms(3) by simp
  then have "Suc k mod n < 2 ^ 15" using assms(4) by (rule less_le_trans)
  then show "u16 (Suc k mod n) = Suc k mod n" by (simp add: u16_def)
qed (use assms(1,2) in \<open>simp_all add: u32_def u64_add_def\<close>)

text \<open>One more packet of the first batch is built: \<open>mb\<close> is the packet, \<open>h\<close> the heap and \<open>arg\<close> the timer's argument.\<close>

lemma built_Suc:
  assumes bu: "built env th js L m0 f k w w1" and L: "layout_ok L" and kn: "k < ltus L" "k < n" and n: "length (dk_mbufs w) = n"
    and area: "pool_area L (mb_entries (dk_mbufs w1 ! k))"
    and apart: "\<And>j. j < k \<Longrightarrow> areas_apart L (mb_entries (dk_mbufs w1 ! k)) (mb_entries (dk_mbufs w1 ! j))"
    and mb: "good_headers env th js (dk_shift w) mb" "mb_entries mb = mb_entries (dk_mbufs w1 ! k)" "mb_pkt_id mb = k"
    and h: "words h = transfer htonl (src L k) (mb_entries (dk_mbufs w1 ! k)) (cnt L k) (words (dk_heap w1))"
    and w2: "w2 = w1\<lparr>dk_mbufs := (dk_mbufs w1)[k := mb], dk_heap := h, dk_args := as, dk_timers := ts\<rparr>"
    and tm: "length as = length (dk_args w1)" "length ts = length (dk_timers w1)" "\<forall>i. \<not> sound_timer th js w2 i"
  shows "built env th js L m0 f (Suc k) w w2"
proof -
  have ents: "map mb_entries (dk_mbufs w1) = map mb_entries (dk_mbufs w)"
    and old: "\<forall>j < k. good_headers env th js (dk_shift w) (dk_mbufs w1 ! j) \<and> mb_pkt_id (dk_mbufs w1 ! j) = j \<and>
        holds_packet L m0 j (elements (words (dk_heap w1)) (dk_mbufs w1 ! j))"
    and D: "slot_data htonl f L m0 (words (dk_heap w1)) {} {} {}"
    using bu by (simp_all add: built_def)
  have len: "length (dk_mbufs w1) = n" using ents n by (metis length_map)
  note load = int32.load_pool[OF L D _ area, of k, simplified]
  have "map mb_entries (dk_mbufs w2) = map mb_entries (dk_mbufs w1)"
    using mb(2) len kn(2) by (intro nth_equalityI) (auto simp: w2 nth_list_update)
  moreover have "good_headers env th js (dk_shift w) (dk_mbufs w2 ! j) \<and> mb_pkt_id (dk_mbufs w2 ! j) = j \<and>
      holds_packet L m0 j (elements (words (dk_heap w2)) (dk_mbufs w2 ! j))" if "j < Suc k" for j
  proof (cases "j = k")
    case True
    then show ?thesis using mb load(2) len kn(2) h by (simp add: w2 holds_packet_def)
  next
    case False
    then have j: "j < k" using that by simp
    have "elements (words (dk_heap w2)) (dk_mbufs w1 ! j) i = elements (words (dk_heap w1)) (dk_mbufs w1 ! j) i" if "i < cnt L j" for i
      using int32.load_pool_other[OF apart[OF j] cnt_le[OF that]] h by (simp add: w2)
    then show ?thesis using old j by (simp add: w2 holds_packet_def)
  qed
  moreover have "slot_data htonl f L m0 (words (dk_heap w2)) {} {} {}" using load(1) h by (simp add: w2)
  moreover have "frozen w2 = frozen w" using bu by (simp add: built_def frozen_def w2)
  ultimately show ?thesis using bu tm ents by (simp add: built_def w2)
qed

lemma build_first_batch_ok:
  assumes job: "int32_ppp (slice js) (de_numel env) (dk_ppp w)" and L: "L = dpdk_layout env js pool K" "layout_ok L"
    and mop: "pool_fits (dt_pool_index_start th) (dt_max_outstanding_pkts th)" "dk_shift w < 2 ^ 32" "ltus L < 2 ^ 32"
    and mbufs: "length (dk_mbufs w) = dt_max_outstanding_pkts th" "sorted_wrt (areas_apart L) (map mb_entries (dk_mbufs w))"
      "\<forall>mb \<in> set (dk_mbufs w). pool_area L (mb_entries mb)"
    and timers: "\<forall>i. \<not> sound_timer th js w i" "length (dk_args w) = length (dk_timers w)"
  shows "k \<le> dt_max_outstanding_pkts th \<Longrightarrow> k \<le> ltus L \<Longrightarrow>
     \<exists>w'. build_first_batch env th js k w = Inr w' \<and> built env th js L (words (dk_heap w)) f k w w'"
proof (induction k)
  case 0
  show ?case using timers by (auto simp: built_def slot_data_start)
next
  case (Suc k)
  let ?mop = "dt_max_outstanding_pkts th" and ?m0 = "words (dk_heap w)"
  obtain w1 where w1: "build_first_batch env th js k w = Inr w1" "built env th js L ?m0 f k w w1" using Suc by auto
  have fr: "dk_ppp w1 = dk_ppp w" "dk_shift w1 = dk_shift w"
    and ents: "map mb_entries (dk_mbufs w1) = map mb_entries (dk_mbufs w)"
    and tm: "length (dk_timers w1) = length (dk_timers w)" "length (dk_args w1) = length (dk_args w)" "\<forall>i. \<not> sound_timer th js w1 i"
    using w1(2) by (simp_all add: built_def frozen_def)
  have len: "length (dk_mbufs w1) = ?mop" using ents mbufs(1) by (metis length_map)
  have kn: "k < ltus L" "k < ?mop" "?mop \<le> 2 ^ 15" using Suc.prems mop(1) by (simp_all add: pool_fits_def)
  have ent: "mb_entries (dk_mbufs w1 ! j) = mb_entries (dk_mbufs w ! j)" if "j < ?mop" for j
    using arg_cong[OF ents, of "\<lambda>xs. xs ! j"] that len mbufs(1) by simp
  have area: "pool_area L (mb_entries (dk_mbufs w1 ! k))" using ent[OF kn(2)] mbufs(1,3) kn(2) by simp
  have apart: "areas_apart L (mb_entries (dk_mbufs w1 ! k)) (mb_entries (dk_mbufs w1 ! j))" if "j < k" for j
  proof -
    have "areas_apart L (mb_entries (dk_mbufs w ! j)) (mb_entries (dk_mbufs w ! k))"
      using sorted_wrt_nth_less[OF mbufs(2) that] mbufs(1) that kn(2) by simp
    then show ?thesis using that kn(2) mbufs(1) ent[of j] ent[OF kn(2)] areas_apart_sym by simp
  qed
  let ?h = "(dk_heap w1)\<lparr>words := transfer htonl (src L k) (mb_entries (dk_mbufs w1 ! k)) (cnt L k) (words (dk_heap w1))\<rparr>"
  obtain mb where mb: "BuildPacket (de_cksum env) (dk_mbufs w1 ! k) (slice_job js) k (slot_of th (dk_shift w) k) (de_numel env)
      (de_switch_addr env) (dt_addr th) (dk_ppp w) (dk_heap w1) = Inr (mb, ?h)" "good_headers env th js (dk_shift w) mb"
      "mb_entries mb = mb_entries (dk_mbufs w1 ! k)" "mb_pkt_id mb = k"
    using BuildPacket_int32[OF job kn(1)[unfolded L(1)], of "de_cksum env" "dk_mbufs w1 ! k" th "dk_shift w" "dk_heap w1"]
    unfolding L(1) by blast
  let ?idx = "Suc k mod ?mop" and ?arg = "\<lparr>ra_job_id = slice_job js, ra_pkt_id = Suc k, ra_pool_index = slot_of th (dk_shift w) k\<rparr>"
  define w2 where "w2 = w1\<lparr>dk_mbufs := (dk_mbufs w1)[k := mb], dk_heap := ?h, dk_args := (dk_args w1)[?idx := ?arg],
      dk_timers := (dk_timers w1)[?idx := Some (u64_mul (dk_timer_cycles w1) ?mop)]\<rparr>"
  have run: "build_first_batch env th js (Suc k) w = Inr w2"
    using w1(1) mb(1) kn(2) len fr(1,2) first_batch_counters[OF kn(1) mop(3) kn(2,3)]
    by (simp add: build_first_def Let_def w2_def)
  have "\<not> sound_timer th js w2 i" for i
  proof (cases "i = ?idx")
    case True
    have "Suc k + dk_shift w < 2 ^ 64" using kn(1) mop(2,3) by simp
    from slot_of_Suc[OF mop(1) this] show ?thesis
      using True tm(1,2) timers(2) fr(2) by (auto simp: sound_timer_def w2_def)
  next
    case False
    then show ?thesis using tm(3) by (simp add: sound_timer_def w2_def)
  qed
  then have "built env th js L ?m0 f (Suc k) w w2"
    by (intro built_Suc[OF w1(2) L(2) kn(1,2) mbufs(1) area apart mb(2-4) _ w2_def]) simp_all
  then show ?case using run by blast
qed

text \<open>The state when the receive loop starts.\<close>

lemma inv_first_batch:
  assumes bt: "built env th js L m0 f b w0 w1" and L: "l_n L = de_numel env"
    and b: "0 < b" "b \<le> ltus L" "b \<le> length (dk_mbufs w0)"
    and w0: "dk_ppp w0 = p" "dk_bitmap w0 = replicate (ltus L) False" "dk_received w0 = 0" "dk_wire w0 = []" "dk_tx_buffer w0 = []"
      "counters_ok (de_tid env) (dk_stats w0)"
      "length (dk_timers w0) = dt_max_outstanding_pkts th" "length (dk_args w0) = dt_max_outstanding_pkts th"
  shows "dpdk_inv env th js L b p m0 f [0..<b] (transmitted env (take b (dk_mbufs w1)) c w1)"
proof -
  let ?w = "transmitted env (take b (dk_mbufs w1)) c w1"
  have fr: "frozen w1 = frozen w0" and D: "slot_data htonl f L m0 (words (dk_heap w1)) {} {} {}"
    and pk: "\<forall>j < b. good_headers env th js (dk_shift w0) (dk_mbufs w1 ! j) \<and> mb_pkt_id (dk_mbufs w1 ! j) = j \<and>
        holds_packet L m0 j (elements (words (dk_heap w1)) (dk_mbufs w1 ! j))"
    and t: "length (dk_timers w1) = length (dk_timers w0)" "length (dk_args w1) = length (dk_args w0)" "\<forall>i. \<not> sound_timer th js w1 i"
    and len: "length (dk_mbufs w1) = length (dk_mbufs w0)"
    using bt by (simp_all add: built_def) (metis length_map)
  have f: "dk_ppp ?w = p" "dk_bitmap ?w = replicate (ltus L) False" "dk_received ?w = 0" "dk_tx_buffer ?w = []"
    "dk_stats ?w = dk_stats w0" "dk_shift ?w = dk_shift w0" "words (dk_heap ?w) = words (dk_heap w1)"
    "dk_wire ?w = map (snap env w1) (take b (dk_mbufs w1))"
    using fr w0 by (simp_all add: transmitted_def frozen_def)
  have wire: "dk_wire ?w = map (\<lambda>j. snap env w1 (dk_mbufs w1 ! j)) [0..<b]"
    unfolding f(8) using b(3) len by (intro nth_equalityI) simp_all
  have ids: "wire_ids ?w = {..<b}"
    unfolding wire using pk by (auto simp: snap_def image_image atLeast0LessThan intro!: image_eqI)
  have "wire_ok env th js L m0 ?w"
    unfolding wire_ok_def wire f(6) using pk b(2) holds_payload[OF L] by (auto simp: snap_def payload_def)
  moreover have "timers_ok th js b [0..<b] ?w"
  proof -
    have "timers_ok th js b [0..<b] w1" using t w0(7,8) by (simp add: timers_ok_def)
    then show ?thesis using timers_ok_same[of ?w w1] by (simp add: transmitted_def)
  qed
  moreover have "buffer_ok env th js L m0 ?w" by (simp add: buffer_ok_def f(4))
  ultimately have "dpdk_core env th js L b p m0 f [0..<b] ?w"
    using pkt_start[OF b(1,2)] D w0(6) f ids by (simp add: dpdk_core_def atLeast0LessThan)
  then show ?thesis by (simp add: dpdk_inv_def ids atLeast0LessThan)
qed

lemma begin_ok:
  assumes ready: "dpdk_ready env th js pool K T fuel w" and L: "L = dpdk_layout env js pool K"
  shows "\<exists>b p w1 qs. dpdk_setting env th js pool K b p T fuel \<and>
     dpdk_begin env th garbage fuel js w = Some (Inr (b, ltus L, w1)) \<and> dpdk_inv env th js L b p (words (dk_heap w)) f qs w1 \<and> dk_shift w1 = dk_shift w"
proof -
  let ?mop = "dt_max_outstanding_pkts th"
  define b where "b = min ?mop (ltus L)"
  have r: "ppp_kind (dk_ppp w) = CpuExponentQuantizerPPP" "ppp_ltu_size (dk_ppp w) = 4 * de_numel env"
    "data_type (slice js) = INT32" "0 < de_numel env" "0 < numel (slice js)" "4 * numel (slice js) + 4 * de_numel env < 2 ^ 64"
    "layout_ok L" "pool_fits (dt_pool_index_start th) ?mop" "ltus L + ?mop < 2 ^ 32" "dk_shift w < 2 ^ 32"
    "length (dk_mbufs w) = ?mop" "sorted_wrt (areas_apart L) (map mb_entries (dk_mbufs w))"
    "\<forall>mb \<in> set (dk_mbufs w). pool_area L (mb_entries mb)" "dk_tx_buffer w = []" "length (dk_timers w) = ?mop" "length (dk_args w) = ?mop"
    "\<forall>i. pending w i \<longrightarrow> ra_job_id (dk_args w ! i) \<noteq> slice_job js" "counters_ok (de_tid env) (dk_stats w)"
    "de_bitmap_alloc env (ltus L)" "card_accepts env T" "T * 2 ^ 16 \<le> fuel"
    using ready unfolding dpdk_ready_def Let_def L by blast+
  have mop: "0 < ?mop" "?mop \<le> 2 ^ 15" using r(8) by (simp_all add: pool_fits_def)
  have "0 < ltus L" using ltus_bounds(2)[of L] r(4,5) by (simp add: L)
  then have b: "0 < b" "b \<le> ltus L" "b \<le> ?mop" using mop(1) by (simp_all add: b_def)
  obtain p where p: "SetupJobSlice garbage (slice js) (dk_ppp w) = Inr (ltus L, p)" "int32_ppp (slice js) (de_numel env) p" "NeedsExtraBatch p = Inr False"
    using setup_int32[OF r(1-4,6), of garbage pool K] unfolding L by blast
  define w0 where "w0 = w\<lparr>dk_ppp := p, dk_bitmap := replicate (u32 (ltus L)) False, dk_received := 0, dk_wire := [],
      dk_timer_cycles := dt_initial_timer_cycles th, dk_wrong := 0, dk_correct := 0, dk_sent := 0\<rparr>"
  have lt: "ltus L < 2 ^ 32" using r(9) by simp
  have w0: "dk_ppp w0 = p" "dk_bitmap w0 = replicate (ltus L) False" "dk_received w0 = 0" "dk_wire w0 = []" "dk_tx_buffer w0 = []"
    "dk_stats w0 = dk_stats w" "dk_timers w0 = dk_timers w" "dk_args w0 = dk_args w" "dk_shift w0 = dk_shift w" "dk_mbufs w0 = dk_mbufs w"
    "dk_heap w0 = dk_heap w"
    using r(14) lt by (simp_all add: w0_def u32_def)
  have "\<forall>i. \<not> sound_timer th js w0 i" using r(17) w0(7,8) by (auto simp: sound_timer_def pending_def)
  from build_first_batch_ok[OF _ L r(7,8) _ lt _ _ _ this, of b f] p(2) r(10-13,15,16) w0 b(2,3)
  obtain w1 where w1: "build_first_batch env th js b w0 = Inr w1" "built env th js L (words (dk_heap w)) f b w0 w1" by auto
  have len: "length (take b (dk_mbufs w1)) = b" using w1(2) r(11) w0(10) b(3) by (simp add: built_def) (metis length_map min.absorb2)
  have b16: "b < 2 ^ 16" using b(3) mop(2) by simp
  have u: "\<forall>x \<le> length (take b (dk_mbufs w1)). u16 x = x" unfolding len using b16 by (simp add: u16_def)
  obtain c where c: "tx_loop env u16 fuel (take b (dk_mbufs w1)) 0 w1 = Some (Inr (b, transmitted env (take b (dk_mbufs w1)) c w1))"
    using tx_loop_ok[OF r(20) u _ r(21), of w1] len b16 by auto
  let ?w2 = "transmitted env (take b (dk_mbufs w1)) c w1"
  have inv: "dpdk_inv env th js L b p (words (dk_heap w)) f [0..<b] ?w2"
    by (rule inv_first_batch[OF w1(2)]) (use r b w0 L in simp_all)
  have set: "dpdk_setting env th js pool K b p T fuel"
    using p(2) r(7,9,20,21) mop(2) b(3) by (simp add: dpdk_setting_def L[symmetric] b_def)
  have "dpdk_begin env th garbage fuel js w = Some (Inr (b, ltus L, ?w2\<lparr>dk_sent := u64_add (dk_sent ?w2) b\<rparr>))"
    using p(1,3) r(19) w1(1) c by (simp add: dpdk_begin_def Let_def b_def[symmetric] fatal_if_def w0_def)
  moreover have "dk_shift ?w2 = dk_shift w" using w1(2) w0(9) by (simp add: built_def frozen_def transmitted_def)
  ultimately show ?thesis using set inv by (intro exI[of _ b] exI[of _ p] exI[of _ "?w2\<lparr>dk_sent := u64_add (dk_sent ?w2) b\<rparr>"] exI[of _ "[0..<b]"]) simp
qed

end
