(* ===== verification/Dpdk_Session.thy ===== *)
theory Dpdk_Session
  imports Dpdk_Allreduce
begin

text \<open>
  The worker threads of the DPDK backend from their start through a job slice of integers: the theorems on the
  reduction and on the packets, the slots of the switch that the threads are given, and what is wrong with the timers
  of the first batch.
\<close>

section \<open>The whole slice\<close>

lemma dpdk_loop_of:
  "oloop_of (\<lambda>k w. dk_received w < N \<and> running k) (\<lambda>k w. dpdk_iteration env th inner js b N (net k w) w)
     (dpdk_loop env th inner js b N net running)"
  by (simp add: oloop_of_def)

lemma finish_ok:
  assumes "counters_ok (de_tid env) (dk_stats w)"
  shows "\<exists>w'. dpdk_finish env th N w = Inr w' \<and> dk_heap w' = dk_heap w \<and> dk_wire w' = dk_wire w \<and> dk_tx_buffer w' = dk_tx_buffer w"
proof -
  obtain s1 where s1: "AddCorrectPktsReceived (de_tid env) (dk_correct w) (dk_stats w) = Inr s1" "counters_ok (de_tid env) s1"
    using counters_ok_add(2)[OF assms] by blast
  obtain s2 where s2: "AddTotalPktsSent (de_tid env) (dk_sent w) s1 = Inr s2" "counters_ok (de_tid env) s2"
    using counters_ok_add(1)[OF s1(2)] by blast
  obtain s3 where s3: "AddWrongPktsReceived (de_tid env) (dk_wrong w) s2 = Inr s3"
    using counters_ok_add(3)[OF s2(2)] by blast
  show ?thesis using s1(1) s2(1) s3 by (simp add: dpdk_finish_def)
qed

text \<open>What a run of the slice establishes: every step of the loop keeps the invariant.\<close>

lemma slice_safe:
  assumes ready: "dpdk_ready env th js pool K T inner w" and L: "L = dpdk_layout env js pool K"
    and net: "\<forall>k w. answer_ok env th js L agg w (net k w)" and agg: "\<And>j v. agg j (htonl v) = htonl (f j v)"
  obtains (runs) "dpdk_slice env th garbage net running inner fuel js w = None"
    | (returns) b p w1 w' qs where "dpdk_slice env th garbage net running inner fuel js w = Some (Inr w')"
      "dpdk_inv env th js L b p (words (dk_heap w)) f qs w1" "dk_received w1 = ltus L \<or> \<not> (\<forall>k. running k)"
      "dk_heap w' = dk_heap w1" "dk_wire w' = dk_wire w1" "dk_tx_buffer w' = dk_tx_buffer w1" "dk_shift w1 = dk_shift w"
proof -
  obtain b p w0 qs0 where set: "dpdk_setting env th js pool K b p T inner"
    and start: "dpdk_begin env th garbage inner js w = Some (Inr (b, ltus L, w0))"
    and inv0: "dpdk_inv env th js L b p (words (dk_heap w)) f qs0 w0" and shift: "dk_shift w0 = dk_shift w"
    using begin_ok[OF ready L, of garbage f] by blast
  let ?I = "\<lambda>w1. dk_shift w1 = dk_shift w \<and> (\<exists>qs. dpdk_inv env th js L b p (words (dk_heap w)) f qs w1)"
  have step: "\<exists>s'. dpdk_iteration env th inner js b (ltus L) (net k s) s = Some (Inr s') \<and> ?I s'"
    if I: "?I s" "dk_received s < ltus L \<and> running k" for k s
  proof -
    obtain qs where q: "dpdk_inv env th js L b p (words (dk_heap w)) f qs s" using conjunct2[OF I(1)] by (elim exE)
    obtain s' qs' where s': "dpdk_iteration env th inner js b (ltus L) (net k s) s = Some (Inr s')"
      "dpdk_inv env th js L b p (words (dk_heap w)) f qs' s'" "rest (ltus L) s' \<le> rest (ltus L) s"
      "delivers th js s (net k s) \<longrightarrow> rest (ltus L) s' < rest (ltus L) s"
      using iteration_ok[OF set L q net[rule_format, of s k] agg conjunct1[OF I(2)]] by (elim exE conjE)
    have "?I s'" using s'(2) iteration_shift[OF s'(1)] I(1) by (intro conjI exI[of _ qs']) simp_all
    from conjI[OF s'(1) this] show ?thesis by (rule exI)
  qed
  have I0: "?I w0" using inv0 shift by blast
  note loop = dpdk_loop_of[of "ltus L" running env th inner js b net]
  have "dpdk_loop env th inner js b (ltus L) net running fuel 0 w0 = None \<or>
      (\<exists>w1 k. dpdk_loop env th inner js b (ltus L) net running fuel 0 w0 = Some (Inr w1) \<and> ?I w1 \<and>
        \<not> (dk_received w1 < ltus L \<and> running k))"
    by (rule oloop_safe[where I = ?I and fuel = fuel and k = 0, OF loop _ I0]) (rule step)
  then consider "dpdk_loop env th inner js b (ltus L) net running fuel 0 w0 = None"
    | w1 k qs where "dpdk_loop env th inner js b (ltus L) net running fuel 0 w0 = Some (Inr w1)" "dk_shift w1 = dk_shift w"
      "dpdk_inv env th js L b p (words (dk_heap w)) f qs w1" "\<not> (dk_received w1 < ltus L \<and> running k)"
    by (elim disjE exE conjE)
  then show ?thesis
  proof cases
    case 1
    then show thesis using start by (intro runs) (simp add: dpdk_slice_def)
  next
    case (2 w1 k qs)
    note inv = 2(3)
    obtain w' where w': "dpdk_finish env th (ltus L) w1 = Inr w'" "dk_heap w' = dk_heap w1" "dk_wire w' = dk_wire w1" "dk_tx_buffer w' = dk_tx_buffer w1"
      using finish_ok[of env w1 th "ltus L"] inv by (auto simp: dpdk_inv_def dpdk_core_def)
    have "dk_received w1 = ltus L \<or> \<not> (\<forall>k. running k)" using received_bounds(1)[OF inv] 2(4) by auto
    moreover have "dpdk_slice env th garbage net running inner fuel js w = Some (Inr w')"
      using start 2(1) w'(1) by (simp add: dpdk_slice_def)
    ultimately show thesis using inv w'(2-4) 2(2) by (intro returns)
  qed
qed

lemma slice_returns:
  assumes ready: "dpdk_ready env th js pool K T inner w" and L: "L = dpdk_layout env js pool K"
    and net: "\<forall>k w. answer_ok env th js L agg w (net k w)" and fair: "\<forall>k. \<exists>j \<ge> k. \<forall>w. delivers th js w (net j w)"
    and agg: "\<And>j v. agg j (htonl v) = htonl (f j v)"
  shows "\<exists>fuel. dpdk_slice env th garbage net running inner fuel js w \<noteq> None"
proof -
  obtain b p w0 qs0 where set: "dpdk_setting env th js pool K b p T inner"
    and start: "dpdk_begin env th garbage inner js w = Some (Inr (b, ltus L, w0))"
    and inv0: "dpdk_inv env th js L b p (words (dk_heap w)) f qs0 w0"
    using begin_ok[OF ready L, of garbage f] by blast
  let ?I = "\<lambda>w1. \<exists>qs. dpdk_inv env th js L b p (words (dk_heap w)) f qs w1"
  have step: "\<exists>s'. dpdk_iteration env th inner js b (ltus L) (net k s) s = Some (Inr s') \<and> ?I s' \<and>
      rest (ltus L) s' \<le> rest (ltus L) s \<and> ((\<forall>w. delivers th js w (net k w)) \<longrightarrow> rest (ltus L) s' < rest (ltus L) s)"
    if I: "?I s" "dk_received s < ltus L \<and> running k" for k s
  proof -
    obtain qs where q: "dpdk_inv env th js L b p (words (dk_heap w)) f qs s" using I(1) by (elim exE)
    obtain s' qs' where s': "dpdk_iteration env th inner js b (ltus L) (net k s) s = Some (Inr s')"
      "dpdk_inv env th js L b p (words (dk_heap w)) f qs' s'" "rest (ltus L) s' \<le> rest (ltus L) s"
      "delivers th js s (net k s) \<longrightarrow> rest (ltus L) s' < rest (ltus L) s"
      using iteration_ok[OF set L q net[rule_format, of s k] agg conjunct1[OF I(2)]] by (elim exE conjE)
    have "?I s'" using s'(2) by (rule exI)
    moreover have "(\<forall>w. delivers th js w (net k w)) \<longrightarrow> rest (ltus L) s' < rest (ltus L) s" using s'(4) by (rule rev_mp) simp
    ultimately show ?thesis using s'(1,3) by (intro exI[of _ s'] conjI)
  qed
  have I0: "?I w0" using inv0 by blast
  note loop = dpdk_loop_of[of "ltus L" running env th inner js b net]
  have "\<exists>fuel. dpdk_loop env th inner js b (ltus L) net running fuel 0 w0 \<noteq> None"
    by (rule oloop_returns[where I = ?I and rest = "rest (ltus L)" and good = "\<lambda>k. \<forall>w. delivers th js w (net k w)" and k = 0,
        OF loop _ fair[rule_format] I0]) (rule step)
  then obtain fuel where "dpdk_loop env th inner js b (ltus L) net running fuel 0 w0 \<noteq> None" by (elim exE)
  then obtain r where "dpdk_loop env th inner js b (ltus L) net running fuel 0 w0 = Some r" by blast
  then show ?thesis using start by (intro exI[of _ fuel]) (cases r; simp add: dpdk_slice_def)
qed



section \<open>Starting the threads\<close>

definition dpdk_mop :: "dpdk_env \<Rightarrow> nat" where
  "dpdk_mop env = gc_max_outstanding_packets (general (de_config env)) div gc_num_worker_threads (general (de_config env))"

text \<open>A validated configuration whose slots fit the switch: at least one packet for each thread, at most \<open>2 ^ 14\<close> in all.\<close>

definition switch_fits :: "dpdk_env \<Rightarrow> bool" where
  "switch_fits env \<longleftrightarrow> 0 < dpdk_mop env \<and> 2 * gc_max_outstanding_packets (general (de_config env)) \<le> 2 ^ 15 \<and>
     de_tid env < gc_num_worker_threads (general (de_config env))"

lemma start_thread:
  assumes "dpdk_start env addr a h s = Inr (th, w)"
  shows "dt_max_outstanding_pkts th = dpdk_mop env" "dt_pool_index_start th = u32 (u32 (dpdk_mop env * 2) * de_tid env)"
    "length (dk_timers w) = dpdk_mop env" "length (dk_args w) = dpdk_mop env" "\<forall>i. \<not> pending w i" "dk_tx_buffer w = []"
    "dk_shift w = 0" "dk_stats w = s" "dk_heap w = h" "da_mbufs a = Some (dk_mbufs w)"
    "CreatePPP (gc_prepostprocessor (general (de_config env))) (gc_num_workers (general (de_config env))) (de_tid env)
       (u64_mul (de_numel env) 4) (dpdk_mop env) = Inr (dk_ppp w)"
  using assms by (auto simp: dpdk_start_def dpdk_mop_def Let_def pending_def bindE_eq_Inr fatal_if_def split: if_splits option.splits)

lemma slots_of_thread:
  assumes "switch_fits env"
  shows "u32 (u32 (dpdk_mop env * 2) * de_tid env) = 2 * dpdk_mop env * de_tid env"
    and "pool_fits (2 * dpdk_mop env * de_tid env) (dpdk_mop env)"
proof -
  let ?m = "dpdk_mop env" and ?g = "general (de_config env)" and ?t = "de_tid env"
  have f: "0 < ?m" "2 * gc_max_outstanding_packets ?g \<le> 2 ^ 15" "?t < gc_num_worker_threads ?g"
    using assms by (simp_all add: switch_fits_def)
  have "?m * Suc ?t \<le> ?m * gc_num_worker_threads ?g" using f(3) by (intro mult_le_mono2) simp
  also have "\<dots> \<le> gc_max_outstanding_packets ?g" unfolding dpdk_mop_def by simp
  finally have b: "2 * ?m * ?t + 2 * ?m \<le> 2 ^ 15" using f(2) by (simp add: algebra_simps)
  then show "pool_fits (2 * ?m * ?t) ?m" using f(1) by (simp add: pool_fits_def)
  have "?m * 2 < 2 ^ 32" "2 * ?m * ?t < 2 ^ 32" using b by simp_all
  then show "u32 (u32 (?m * 2) * ?t) = 2 * ?m * ?t" by (simp add: u32_def mult.commute)
qed

text \<open>What the allocations give the thread: as many mbufs as it may have outstanding packets, disjoint, in the pool.\<close>

definition mbufs_ok :: "dpdk_env \<Rightarrow> layout \<Rightarrow> dpdk_allocations \<Rightarrow> bool" where
  "mbufs_ok env L a \<longleftrightarrow> (\<exists>ms. da_mbufs a = Some ms \<and> length ms = dpdk_mop env \<and>
     sorted_wrt (areas_apart L) (map mb_entries ms) \<and> (\<forall>mb \<in> set ms. pool_area L (mb_entries mb)))"

text \<open>The sizes of a job slice, and the environment of the thread.\<close>

definition slice_fits :: "dpdk_env \<Rightarrow> JobSlice \<Rightarrow> ptr \<Rightarrow> nat \<Rightarrow> bool" where
  "slice_fits env js pool K \<longleftrightarrow>
     (let L = dpdk_layout env js pool K
      in data_type (slice js) = INT32 \<and> 0 < de_numel env \<and> 0 < numel (slice js) \<and>
         4 * numel (slice js) + 4 * de_numel env < 2 ^ 64 \<and> layout_ok L \<and> ltus L + dpdk_mop env < 2 ^ 32 \<and> de_bitmap_alloc env (ltus L))"

text \<open>A thread whose start succeeds on a validated configuration with the exponent quantizer is ready for a job slice
  of integers: its arrays have the size of the batch, no timer is pending, nothing waits for transmission, and its slots fit
  the 15 bits that are left beside the pool.\<close>
theorem dpdk_start_ready:
  assumes "dpdk_start env addr a h s = Inr (th, w)" and "switch_fits env"
    and "gc_prepostprocessor (general (de_config env)) = ''cpu_exponent_quantizer''"
    and "mbufs_ok env (dpdk_layout env js pool K) a" and "slice_fits env js pool K" and "counters_ok (de_tid env) s"
    and "card_accepts env T" and "T * 2 ^ 16 \<le> inner"
  shows "dpdk_ready env th js pool K T inner w \<and> dk_heap w = h \<and> dk_shift w = 0"
proof -
  note st = start_thread[OF assms(1)]
  have f: "data_type (slice js) = INT32" "0 < de_numel env" "0 < numel (slice js)" "4 * numel (slice js) + 4 * de_numel env < 2 ^ 64"
    "layout_ok (dpdk_layout env js pool K)" "ltus (dpdk_layout env js pool K) + dpdk_mop env < 2 ^ 32"
    "de_bitmap_alloc env (ltus (dpdk_layout env js pool K))"
    using assms(5) by (simp_all add: slice_fits_def Let_def)
  have "u64_mul (de_numel env) 4 = 4 * de_numel env" using f(4) by (simp add: u64_mul_def u64_def)
  then have "dk_ppp w = new_PPP CpuExponentQuantizerPPP (gc_num_workers (general (de_config env))) (de_tid env) (4 * de_numel env) (dpdk_mop env)"
    using st(11) assms(3) by (simp add: CreatePPP_def)
  then have "ppp_kind (dk_ppp w) = CpuExponentQuantizerPPP" "ppp_ltu_size (dk_ppp w) = 4 * de_numel env" by (simp_all add: new_PPP_def)
  moreover have "pool_fits (dt_pool_index_start th) (dt_max_outstanding_pkts th)"
    using slots_of_thread[OF assms(2)] st(1,2) by simp
  moreover have "length (dk_mbufs w) = dpdk_mop env" "sorted_wrt (areas_apart (dpdk_layout env js pool K)) (map mb_entries (dk_mbufs w))"
    "\<forall>mb \<in> set (dk_mbufs w). pool_area (dpdk_layout env js pool K) (mb_entries mb)"
    using assms(4) st(10) by (simp_all add: mbufs_ok_def)
  ultimately show ?thesis using f st(1,3-9) assms(6-8) by (simp add: dpdk_ready_def Let_def)
qed


section \<open>The timers of the first batch\<close>

text \<open>Each packet of the first batch is given the timer, and the callback the number, of the packet after it.\<close>

lemma build_first_timers:
  assumes "build_first_batch env th js k w = Inr w'" and "k \<le> dt_max_outstanding_pkts th" and "dt_max_outstanding_pkts th \<le> 2 ^ 15"
    and "length (dk_timers w) = dt_max_outstanding_pkts th" and "length (dk_args w) = dt_max_outstanding_pkts th"
  shows "length (dk_timers w') = dt_max_outstanding_pkts th \<and> length (dk_args w') = dt_max_outstanding_pkts th \<and>
     dk_shift w' = dk_shift w \<and>
     (\<forall>j < k. dk_timers w' ! (Suc j mod dt_max_outstanding_pkts th) \<noteq> None \<and>
        dk_args w' ! (Suc j mod dt_max_outstanding_pkts th) =
          \<lparr>ra_job_id = slice_job js, ra_pkt_id = Suc j, ra_pool_index = slot_of th (dk_shift w) j\<rparr>)"
  using assms(1,2)
proof (induction k arbitrary: w')
  case 0
  then show ?case using assms(4,5) by simp
next
  case (Suc k)
  let ?mop = "dt_max_outstanding_pkts th"
  obtain wk where wk: "build_first_batch env th js k w = Inr wk" "build_first env th js k wk = Inr w'"
    using Suc.prems(1) by (auto simp: bindE_eq_Inr)
  note IH = Suc.IH[OF wk(1) Suc_leD[OF Suc.prems(2)]]
  have k: "k < ?mop" "?mop \<le> 2 ^ 15" using Suc.prems(2) assms(3) by simp_all
  then have u: "u64_add k 1 = Suc k" "u32 (Suc k) = Suc k" "u16 (Suc k mod ?mop) = Suc k mod ?mop" "Suc k mod ?mop < ?mop"
    using order.strict_trans2[of "Suc k mod ?mop" ?mop "2 ^ 15"] by (simp_all add: u64_add_def u32_def u16_def)
  have w': "dk_timers w' = (dk_timers wk)[Suc k mod ?mop := Some (u64_mul (dk_timer_cycles wk) ?mop)]" "dk_shift w' = dk_shift wk"
    "dk_args w' = (dk_args wk)[Suc k mod ?mop := \<lparr>ra_job_id = slice_job js, ra_pkt_id = Suc k, ra_pool_index = slot_of th (dk_shift wk) k\<rparr>]"
    using wk(2) u unfolding build_first_def Let_def by (auto simp: bindE_eq_Inr split: if_splits simp del: One_nat_def)
  have "Suc j mod ?mop \<noteq> Suc k mod ?mop" if "j < k" for j
    using that k(1) by (cases "Suc k = ?mop") auto
  then have "Suc k mod ?mop \<noteq> Suc j mod ?mop" if "j < k" for j using that by metis
  then show ?case using IH u(4) by (auto simp: w' less_Suc_eq)
qed

lemma tx_loop_timers: "tx_loop env narrow fuel pkts sent w = Some (Inr (n, w')) \<Longrightarrow>
    dk_timers w' = dk_timers w \<and> dk_args w' = dk_args w"
proof (induction fuel arbitrary: sent w)
  case (Suc fuel)
  then show ?case by (fastforce simp: Let_def tx_burst_transmitted transmitted_def split: if_splits)
qed simp

lemma begin_timers:
  assumes "dpdk_begin env th garbage fuel js w = Some (Inr (b, N, w1))" and "dt_max_outstanding_pkts th \<le> 2 ^ 15"
    and "length (dk_timers w) = dt_max_outstanding_pkts th" and "length (dk_args w) = dt_max_outstanding_pkts th" and "j < b"
  shows "dk_timers w1 ! (Suc j mod dt_max_outstanding_pkts th) \<noteq> None"
    and "dk_args w1 ! (Suc j mod dt_max_outstanding_pkts th) =
      \<lparr>ra_job_id = slice_job js, ra_pkt_id = Suc j, ra_pool_index = slot_of th (dk_shift w) j\<rparr>"
proof -
  obtain p wb where b: "b \<le> dt_max_outstanding_pkts th" "build_first_batch env th js b
      (w\<lparr>dk_ppp := p, dk_bitmap := replicate (u32 N) False, dk_received := 0, dk_wire := [],
         dk_timer_cycles := dt_initial_timer_cycles th, dk_wrong := 0, dk_correct := 0, dk_sent := 0\<rparr>) = Inr wb"
    "dk_timers w1 = dk_timers wb" "dk_args w1 = dk_args wb"
    using assms(1) unfolding dpdk_begin_def
    by (auto simp: Let_def elim!: bindO_SomeE dest!: tx_loop_timers split: prod.splits if_splits)
  from build_first_timers[OF b(2,1)] assms(2-5)
  show "dk_timers w1 ! (Suc j mod dt_max_outstanding_pkts th) \<noteq> None"
    and "dk_args w1 ! (Suc j mod dt_max_outstanding_pkts th) =
      \<lparr>ra_job_id = slice_job js, ra_pkt_id = Suc j, ra_pool_index = slot_of th (dk_shift w) j\<rparr>"
    unfolding b(3,4) by simp_all
qed

lemma cpu_to_be_16_twice: "cpu_to_be_16 (cpu_to_be_16 x) = x"
proof (rule bit_word_eqI)
  fix n assume "n < LENGTH(16)"
  then show "bit (cpu_to_be_16 (cpu_to_be_16 x)) n = bit x n"
    by (auto simp: cpu_to_be_16_def bit_or_iff bit_push_bit_iff bit_drop_bit_eq dest: bit_imp_le_length)
qed

lemma pool_field_inj:
  assumes "cpu_to_be_16 (of_nat (slot_of th s q)) = cpu_to_be_16 (of_nat (slot_of th s' q'))"
  shows "slot_of th s q = slot_of th s' q'"
proof -
  have "slot_of th s q < 2 ^ 16" for s q by (simp add: PktId2PoolIndex_def u16_def Let_def)
  moreover have "(of_nat (slot_of th s q) :: 16 word) = of_nat (slot_of th s' q')" using assms cpu_to_be_16_twice by metis
  ultimately show ?thesis by (simp add: word_of_nat_eq_iff take_bit_nat_eq_self)
qed

text \<open>The expiry of the timer that packet \<open>j\<close> started sends packet \<open>j + 1\<close> with the pool index of packet \<open>j\<close>, which is not its own.\<close>

definition resends_wrong_slot :: "dpdk_env \<Rightarrow> dpdk_thread \<Rightarrow> JobSlice \<Rightarrow> nat \<Rightarrow> nat \<Rightarrow> dpdk_worker \<Rightarrow> nat \<Rightarrow> bool" where
  "resends_wrong_slot env th js shift fuel w j \<longleftrightarrow>
     (let i = Suc j mod dt_max_outstanding_pkts th in
        dk_timers w ! i \<noteq> None \<and> (\<exists>w' mb ps. ResendPacketCallback env th fuel i w = Some (Inr w') \<and>
          dk_wire w' = dk_wire w @ [(mb, ps)] \<and> mb_pkt_id mb = Suc j \<and> mb_short_job_id mb = slice_job js mod 2 ^ 8 \<and>
          mb_pool_index mb = cpu_to_be_16 (of_nat (slot_of th shift j)) \<and>
          mb_pool_index mb \<noteq> cpu_to_be_16 (of_nat (slot_of th shift (Suc j)))))"

text \<open>C30: Once the first batch is sent, when the timer of one of its packets expires it is the next packet that is sent again, in the
  slot of the packet before it: the pool index of the new packet is not the one of its number.\<close>
theorem first_batch_resends_wrong_slot:
  assumes "dpdk_ready env th js pool K T inner w" and "\<forall>k. de_alloc env k \<noteq> None"
  shows "\<exists>b w1. dpdk_begin env th garbage inner js w = Some (Inr (b, ltus (dpdk_layout env js pool K), w1)) \<and> 0 < b \<and>
     (\<forall>j. j < b \<and> Suc j < ltus (dpdk_layout env js pool K) \<longrightarrow> resends_wrong_slot env th js (dk_shift w) inner w1 j)"
proof -
  let ?L = "dpdk_layout env js pool K" and ?mop = "dt_max_outstanding_pkts th"
  have r: "pool_fits (dt_pool_index_start th) ?mop" "ltus ?L + ?mop < 2 ^ 32" "dk_shift w < 2 ^ 32"
    "length (dk_timers w) = ?mop" "length (dk_args w) = ?mop"
    using assms(1) unfolding dpdk_ready_def Let_def by blast+
  then have mop: "?mop \<le> 2 ^ 15" by (simp add: pool_fits_def)
  obtain b p w1 qs where set: "dpdk_setting env th js pool K b p T inner"
    and start: "dpdk_begin env th garbage inner js w = Some (Inr (b, ltus ?L, w1))"
    and inv: "dpdk_inv env th js ?L b p (words (dk_heap w)) (\<lambda>_ v. v) qs w1"
    using begin_ok[OF assms(1) refl, of garbage "\<lambda>_ v. v"] by blast
  have core: "dk_ppp w1 = p" "counters_ok (de_tid env) (dk_stats w1)" using inv by (simp_all add: dpdk_inv_def dpdk_core_def)
  have "0 < ltus ?L" using assms(1) ltus_bounds(2)[of ?L] by (simp add: dpdk_ready_def Let_def)
  then have "0 < b" using dpdk_settingD(6)[OF set] r(1) by (simp add: pool_fits_def)
  moreover have "\<exists>w2 mb ps. ResendPacketCallback env th inner (Suc j mod ?mop) w1 = Some (Inr w2) \<and>
      dk_wire w2 = dk_wire w1 @ [(mb, ps)] \<and> mb_pkt_id mb = Suc j \<and> mb_short_job_id mb = slice_job js mod 2 ^ 8 \<and>
      mb_pool_index mb = cpu_to_be_16 (of_nat (slot_of th (dk_shift w) j)) \<and>
      mb_pool_index mb \<noteq> cpu_to_be_16 (of_nat (slot_of th (dk_shift w) (Suc j)))" if j: "j < b" "Suc j < ltus ?L" for j
  proof -
    obtain mb0 where mb0: "de_alloc env (dk_allocs w1) = Some mb0" using assms(2) by blast
    obtain y z t c mb st where run: "ResendPacketCallback env th inner (Suc j mod ?mop) w1 = Some (Inr (transmitted env [mb] c
        (w1\<lparr>dk_timeouts_counter := y, dk_timeout_threshold := z, dk_timer_cycles := t, dk_allocs := Suc (dk_allocs w1),
          dk_heap := (dk_heap w1)\<lparr>words := transfer htonl (src ?L (Suc j)) (mb_entries mb0) (cnt ?L (Suc j)) (words (dk_heap w1))\<rparr>\<rparr>)
        \<lparr>dk_timers := (dk_timers w1)[Suc j mod ?mop := Some t], dk_stats := st\<rparr>))"
      and mb: "mb_pkt_id mb = Suc j" "mb_short_job_id mb = slice_job js mod 2 ^ 8" "mb_pool_index mb = cpu_to_be_16 (of_nat (slot_of th (dk_shift w) j))"
      using resend_sends[OF set refl core begin_timers(2)[OF start mop r(4,5) j(1)] j(2) mb0] by metis
    have "Suc j + dk_shift w < 2 ^ 64" using j(2) r(2,3) by simp
    then have "mb_pool_index mb \<noteq> cpu_to_be_16 (of_nat (slot_of th (dk_shift w) (Suc j)))"
      using slot_of_Suc[OF r(1)] pool_field_inj unfolding mb(3) by blast
    then show ?thesis using run mb by (intro exI conjI) (assumption | simp add: transmitted_def snap_def)+
  qed
  moreover have "dk_timers w1 ! (Suc j mod ?mop) \<noteq> None" if "j < b" for j by (rule begin_timers(1)[OF start mop r(4,5) that])
  ultimately show ?thesis using start unfolding resends_wrong_slot_def Let_def by blast
qed

section \<open>A concrete run\<close>

text \<open>
  Two outstanding packets for each of two threads, packets of 64 elements, and a job slice of 1000 elements at address 0,
  which is reduced in place. The card accepts one packet for each call. The pool begins at \<open>2 ^ 20\<close>.
\<close>

definition sample_mbuf :: "ptr \<Rightarrow> rte_mbuf" where
  "sample_mbuf data =
     \<lparr>mb_data = data, mb_data_len = 0, mb_pkt_len = 0, mb_tx_offload = False, mb_src_mac = 0, mb_dst_mac = 0, mb_ether_type = 0,
      mb_version_ihl = 0, mb_total_length = 0, mb_ttl = 0, mb_proto = 0, mb_hdr_checksum = 0, mb_src_ip = 0, mb_dst_ip = 0,
      mb_src_port = 0, mb_dst_port = 0, mb_dgram_len = 0, mb_dgram_cksum = 0, mb_job_type_size = 0, mb_short_job_id = 0,
      mb_pkt_id = 0, mb_pool_index = 0\<rparr>"

definition sample_dpdk_env :: "nat \<Rightarrow> dpdk_env" where
  "sample_dpdk_env tid =
     \<lparr>de_config = default_Config\<lparr>general := default_GeneralConfig\<lparr>gc_num_worker_threads := 2, gc_max_outstanding_packets := 4,
                    gc_packet_numel := 64\<rparr>\<rparr>,
      de_tid = tid, de_switch_addr = \<lparr>e2e_mac = 1, e2e_ip = 2, e2e_port = 3\<rparr>, de_cksum = (\<lambda>_. 0), de_accept = (\<lambda>_. 1),
      de_buffer_full = (\<lambda>b. length b = 2), de_alloc = (\<lambda>_. Some (sample_mbuf (2 ^ 20 + 3072))), de_bitmap_alloc = (\<lambda>_. True)\<rparr>"

definition sample_allocs :: dpdk_allocations where
  "sample_allocs =
     \<lparr>da_tx_mempool = True, da_tx_array = True, da_mbufs = Some [sample_mbuf (2 ^ 20), sample_mbuf (2 ^ 20 + 1024)],
      da_tx_buffer = True, da_tx_callback = 0, da_rx_array = True, da_tsc_hz = 1000000000, da_timer_hz = 1000000000\<rparr>"

definition sample_dpdk_slice :: JobSlice where
  "sample_dpdk_slice = \<lparr>slice_job = 259, slice = Tensor.make 0 0 1000 INT32\<rparr>"

definition sample_dpdk_heap :: heap where
  "sample_dpdk_heap = \<lparr>words = (\<lambda>a. of_nat a), bytes = (\<lambda>_. 0)\<rparr>"

definition sample_dpdk_stats :: Stats where
  "sample_dpdk_stats = new_Stats\<lparr>total_pkts_sent := Some [0, 0], wrong_pkts_received := Some [0, 0],
     correct_pkts_received := Some [0, 0], timeouts_num := Some [0, 0]\<rparr>"

text \<open>
  A network that returns one outstanding packet after the other, in an mbuf of its own with data at \<open>data\<close>, whenever nothing
  waits for transmission; then it lets the time for flushing pass.
\<close>

definition serial_answer :: "nat \<Rightarrow> dpdk_thread \<Rightarrow> JobSlice \<Rightarrow> ptr \<Rightarrow> (nat \<Rightarrow> 32 word \<Rightarrow> 32 word) \<Rightarrow> dpdk_net" where
  "serial_answer n th js data agg k w =
     (let late = u64_add (dk_prev_tsc w) (dt_drain_tsc th + 1);
          out = filter (\<lambda>(sent, ps). mb_pkt_id sent < length (dk_bitmap w) \<and> \<not> dk_bitmap w ! mb_pkt_id sent) (dk_wire w)
      in if dk_tx_buffer w \<noteq> [] \<or> out = [] then \<lparr>rx_mbufs = [], rx_heap = dk_heap w, rx_tsc = late, rx_expired = []\<rparr>
         else let (sent, ps) = hd out; mb = sent\<lparr>mb_data := data, mb_short_job_id := slice_job js mod 2 ^ 8\<rparr>;
                  e = mb_entries mb; h = dk_heap w
              in \<lparr>rx_mbufs = [mb],
                  rx_heap = h\<lparr>words := (\<lambda>a. if e \<le> a \<and> a < e + 4 * n \<and> 4 dvd (a - e)
                                           then agg (mb_pkt_id mb * n + (a - e) div 4) (ps ! ((a - e) div 4)) else words h a)\<rparr>,
                  rx_tsc = late, rx_expired = []\<rparr>)"

lemma serial_answer_cases:
  obtains (idle) "serial_answer n th js data agg k w = \<lparr>rx_mbufs = [], rx_heap = dk_heap w,
      rx_tsc = u64_add (dk_prev_tsc w) (dt_drain_tsc th + 1), rx_expired = []\<rparr>"
      "dk_tx_buffer w \<noteq> [] \<or> \<not> (\<exists>q \<in> wire_ids w. q < length (dk_bitmap w) \<and> \<not> dk_bitmap w ! q)"
  | (packet) sent ps mb e t where "dk_tx_buffer w = []" "(sent, ps) \<in> set (dk_wire w)"
      "mb_pkt_id sent < length (dk_bitmap w)" "\<not> dk_bitmap w ! mb_pkt_id sent"
      "mb = sent\<lparr>mb_data := data, mb_short_job_id := slice_job js mod 2 ^ 8\<rparr>" "e = mb_entries mb"
      "serial_answer n th js data agg k w = \<lparr>rx_mbufs = [mb],
         rx_heap = (dk_heap w)\<lparr>words := (\<lambda>a. if e \<le> a \<and> a < e + 4 * n \<and> 4 dvd (a - e)
                      then agg (mb_pkt_id mb * n + (a - e) div 4) (ps ! ((a - e) div 4)) else words (dk_heap w) a)\<rparr>,
         rx_tsc = t, rx_expired = []\<rparr>"
proof -
  let ?P = "\<lambda>(sent, ps). mb_pkt_id sent < length (dk_bitmap w) \<and> \<not> dk_bitmap w ! mb_pkt_id sent"
  let ?out = "filter ?P (dk_wire w)"
  show thesis
  proof (cases "dk_tx_buffer w \<noteq> [] \<or> ?out = []")
    case True
    moreover have "?out = [] \<longrightarrow> \<not> (\<exists>q \<in> wire_ids w. q < length (dk_bitmap w) \<and> \<not> dk_bitmap w ! q)"
      by (auto simp: filter_empty_conv)
    ultimately show thesis by (intro idle) (auto simp: serial_answer_def Let_def)
  next
    case False
    obtain sent ps where x: "hd ?out = (sent, ps)" by (cases "hd ?out") simp
    have "hd ?out \<in> set ?out" using False by (intro hd_in_set) simp
    then have "(sent, ps) \<in> set (dk_wire w)" "?P (sent, ps)" unfolding x by simp_all
    then show thesis using False x by (intro packet) (auto simp: serial_answer_def Let_def)
  qed
qed

lemma serial_answer_ok:
  assumes "l_n L = n" and "pool_area L (data + 52)" and "0 < dt_max_outstanding_pkts th"
  shows "answer_ok env th js L agg w (serial_answer n th js data agg k w)"
proof (cases rule: serial_answer_cases[of n th js data agg k w])
  case idle
  then show ?thesis by (simp add: answer_ok_def)
next
  case (packet sent ps mb e t)
  have e: "e = data + 52" using packet(5,6) by (simp add: mb_entries_def mb_extra_def)
  have out: "\<not> (e \<le> x \<and> x < e + 4 * n \<and> 4 dvd (x - e))" if "\<not> in_block (l_buf L) (l_B L * l_n L) x" for x
  proof
    assume x: "e \<le> x \<and> x < e + 4 * n \<and> 4 dvd (x - e)"
    then obtain i where "x - e = 4 * i" by (elim conjE dvdE)
    then have "x = e + 4 * i" "i < n" using x by linarith+
    then show False using in_pool[OF assms(2), of i] assms(1) e that by simp
  qed
  have mb: "mb_entries mb = e" "mb_pkt_id mb = mb_pkt_id sent" using packet(5,6) by simp_all
  have "pool_area L e" using assms(2) e by simp
  then show ?thesis
    using packet(1-3) out assms(1,3) unfolding packet(7) answer_ok_def by (auto simp: mb intro!: bexI[of _ "(sent, ps)"])
qed

lemma u64_sub_add:
  assumes "d < 2 ^ 64"
  shows "u64_sub (u64_add p d) p = d"
proof -
  let ?M = "2 ^ 64 :: nat"
  have r: "p mod ?M < ?M" by simp
  have "u64_sub (u64_add p d) p = ((p + d) mod ?M + (?M - p mod ?M)) mod ?M" by (simp only: u64_sub_def u64_add_def)
  also have "\<dots> = ((p mod ?M + d) + (?M - p mod ?M)) mod ?M" by (metis mod_add_left_eq)
  also have "(p mod ?M + d) + (?M - p mod ?M) = d + ?M" using r by linarith
  finally show ?thesis using assms by simp
qed

lemma serial_answer_delivers:
  assumes "dt_drain_tsc th + 1 < 2 ^ 64"
  shows "delivers th js w (serial_answer n th js data agg k w)"
proof (cases rule: serial_answer_cases[of n th js data agg k w])
  case idle
  then show ?thesis using u64_sub_add[OF assms] by (auto simp: delivers_def)
next
  case (packet sent ps mb e t)
  then show ?thesis by (simp add: delivers_def acceptable_def)
qed

lemma sample_dpdk_config:
  "dpdk_mop (sample_dpdk_env t) = 2" "de_numel (sample_dpdk_env t) = 64" "de_tid (sample_dpdk_env t) = t"
  "gc_prepostprocessor (general (de_config (sample_dpdk_env t))) = ''cpu_exponent_quantizer''"
  "t < 2 \<Longrightarrow> switch_fits (sample_dpdk_env t)"
  by (simp_all add: dpdk_mop_def switch_fits_def sample_dpdk_env_def default_GeneralConfig_def)

lemma sample_dpdk_thread:
  "\<exists>th w. dpdk_start (sample_dpdk_env t) addr sample_allocs sample_dpdk_heap sample_dpdk_stats = Inr (th, w) \<and>
     dt_drain_tsc th = 100000"
  by (simp add: dpdk_start_def sample_dpdk_env_def default_GeneralConfig_def default_Config_def default_DpdkBackendConfig_def
      sample_allocs_def CreatePPP_def fatal_if_def Let_def u64_simps)

abbreviation sample_dpdk_layout :: layout where
  "sample_dpdk_layout \<equiv> dpdk_layout (sample_dpdk_env 0) sample_dpdk_slice (2 ^ 20) 16"

lemma sample_pool_area: "k + 13 + 64 \<le> 16 * 64 \<Longrightarrow> pool_area sample_dpdk_layout (2 ^ 20 + 4 * k + 52)"
  by (auto simp: pool_area_def sample_dpdk_config intro!: exI[of _ "k + 13"])

lemma sample_areas:
  "mbufs_ok (sample_dpdk_env 0) sample_dpdk_layout sample_allocs"
  "pool_area sample_dpdk_layout (2 ^ 20 + 2048 + 52)"
proof -
  have "areas_apart sample_dpdk_layout (2 ^ 20 + 52) (2 ^ 20 + 1024 + 52)"
    by (auto simp: areas_apart_def in_block_def sample_dpdk_config)
  then show "mbufs_ok (sample_dpdk_env 0) sample_dpdk_layout sample_allocs"
    using sample_pool_area[of 0] sample_pool_area[of 256]
    by (simp add: mbufs_ok_def sample_allocs_def sample_mbuf_def mb_entries_def mb_extra_def sample_dpdk_config add.commute)
  show "pool_area sample_dpdk_layout (2 ^ 20 + 2048 + 52)" using sample_pool_area[of 512] by simp
qed

lemma sample_slice_fits: "slice_fits (sample_dpdk_env 0) sample_dpdk_slice (2 ^ 20) 16"
  by (simp add: slice_fits_def Let_def layout_ok_def apart_def ltus_def sample_dpdk_config)
    (simp add: sample_dpdk_slice_def Tensor.make_def sample_dpdk_env_def)

lemma sample_dpdk_ready:
  obtains th w where "dpdk_start (sample_dpdk_env 0) addr sample_allocs sample_dpdk_heap sample_dpdk_stats = Inr (th, w)"
    and "dpdk_ready (sample_dpdk_env 0) th sample_dpdk_slice (2 ^ 20) 16 1 (2 ^ 16) w" and "dk_heap w = sample_dpdk_heap"
    and "dt_drain_tsc th = 100000" and "dt_max_outstanding_pkts th = 2" and "dk_shift w = 0"
proof -
  obtain th w where s: "dpdk_start (sample_dpdk_env 0) addr sample_allocs sample_dpdk_heap sample_dpdk_stats = Inr (th, w)"
    "dt_drain_tsc th = 100000" using sample_dpdk_thread[of 0 addr] by blast
  have "counters_ok (de_tid (sample_dpdk_env 0)) sample_dpdk_stats" by (simp add: counters_ok_def sample_dpdk_stats_def sample_dpdk_config)
  moreover have "card_accepts (sample_dpdk_env 0) 1" by (simp add: card_accepts_def sample_dpdk_env_def)
  ultimately show thesis
    using dpdk_start_ready[OF s(1) sample_dpdk_config(5,4) sample_areas(1) sample_slice_fits, of 1 "2 ^ 16"]
      start_thread(1)[OF s(1)] sample_dpdk_config(1) s that by simp
qed

abbreviation sample_net :: "dpdk_thread \<Rightarrow> dpdk_net" where
  "sample_net th \<equiv> serial_answer 64 th sample_dpdk_slice (2 ^ 20 + 2048) (\<lambda>j v. htonl (ntohl v * 2))"

lemma sample_net_ok:
  assumes "dt_drain_tsc th = 100000" and "dt_max_outstanding_pkts th = 2"
  shows "\<forall>k w. answer_ok (sample_dpdk_env 0) th sample_dpdk_slice sample_dpdk_layout (\<lambda>j v. htonl (ntohl v * 2)) w (sample_net th k w)"
    and "\<forall>k. \<exists>j \<ge> k. \<forall>w. delivers th sample_dpdk_slice w (sample_net th j w)"
  using assms serial_answer_ok[of sample_dpdk_layout 64 "2 ^ 20 + 2048" th] sample_areas(2)
    serial_answer_delivers[of th sample_dpdk_slice _ 64] by (auto simp: sample_dpdk_config)




lemma first_batch_resends_wrong_slot_witness:
  "\<exists>th w b w1 w2 mb ps. dpdk_start (sample_dpdk_env 0) \<lparr>e2e_mac = 4, e2e_ip = 5, e2e_port = 6\<rparr> sample_allocs sample_dpdk_heap
       sample_dpdk_stats = Inr (th, w) \<and>
     dpdk_begin (sample_dpdk_env 0) th (\<lambda>_. NaN) (2 ^ 16) sample_dpdk_slice w = Some (Inr (b, 16, w1)) \<and>
     ResendPacketCallback (sample_dpdk_env 0) th (2 ^ 16) 1 w1 = Some (Inr w2) \<and> dk_wire w2 = dk_wire w1 @ [(mb, ps)] \<and>
     mb_pkt_id mb = 1 \<and> mb_pool_index mb = cpu_to_be_16 (of_nat (slot_of th 0 0))"
proof -
  obtain th w where s: "dpdk_start (sample_dpdk_env 0) \<lparr>e2e_mac = 4, e2e_ip = 5, e2e_port = 6\<rparr> sample_allocs sample_dpdk_heap
      sample_dpdk_stats = Inr (th, w)"
    and r: "dpdk_ready (sample_dpdk_env 0) th sample_dpdk_slice (2 ^ 20) 16 1 (2 ^ 16) w"
    and t: "dt_max_outstanding_pkts th = 2" "dk_shift w = 0" by (rule sample_dpdk_ready)
  have "\<forall>k. de_alloc (sample_dpdk_env 0) k \<noteq> None" by (simp add: sample_dpdk_env_def)
  moreover have N: "ltus sample_dpdk_layout = 16"
    by (simp add: ltus_def sample_dpdk_config sample_dpdk_slice_def Tensor.make_def)
  ultimately obtain b w1 where b: "dpdk_begin (sample_dpdk_env 0) th (\<lambda>_. NaN) (2 ^ 16) sample_dpdk_slice w = Some (Inr (b, 16, w1))"
      "resends_wrong_slot (sample_dpdk_env 0) th sample_dpdk_slice 0 (2 ^ 16) w1 0"
    using first_batch_resends_wrong_slot[OF r, of "\<lambda>_. NaN"] unfolding t(2) N by force
  have "\<exists>w2 mb ps. ResendPacketCallback (sample_dpdk_env 0) th (2 ^ 16) 1 w1 = Some (Inr w2) \<and>
      dk_wire w2 = dk_wire w1 @ [(mb, ps)] \<and> mb_pkt_id mb = 1 \<and> mb_pool_index mb = cpu_to_be_16 (of_nat (slot_of th 0 0))"
    using b(2) t(1) unfolding resends_wrong_slot_def by (auto simp: Let_def)
  then show ?thesis using s b(1) by (elim exE conjE) (intro exI conjI)
qed

end
