(* ===== verification/Worker_Threads.thy ===== *)
theory Worker_Threads
  imports Switchml_Prelude
begin

text \<open>
  The worker thread objects of the dummy and the RDMA backend (dummy_backend.cc, rdma_backend.cc and the constructors, Start and Join of
  dummy_worker_thread.cc and rdma_worker_thread.cc; the two backends have the same code for this): the identifiers that a static
  counter gives out, and the pointer to the system's thread.
\<close>

text \<open>The pointer to the system's thread object.\<close>

datatype thread_pointer = NullThread | RunningThread | DanglingThread

record WorkerThread =
  wt_tid :: nat
  wt_thread :: thread_pointer

text \<open>The constructor reads and increments the counter, a signed integer of 16 bits (from \<open>2\<^sup>1\<^sup>5\<close> on its value stands for a negative one).\<close>

definition new_WorkerThread :: "nat \<Rightarrow> WorkerThread \<times> nat" where
  "new_WorkerThread next_tid = (\<lparr>wt_tid = next_tid, wt_thread = NullThread\<rparr>, (next_tid + 1) mod 2 ^ 16)"

definition WorkerThread_Start :: "WorkerThread \<Rightarrow> WorkerThread outcome" where
  "WorkerThread_Start t =
     (if wt_thread t \<noteq> NullThread then Inl (Fatal ''Trying to start a thread twice.'')
      else Inr (t\<lparr>wt_thread := RunningThread\<rparr>))"

text \<open>The thread is deleted, but the pointer keeps its value.\<close>

definition WorkerThread_Join :: "WorkerThread \<Rightarrow> WorkerThread outcome" where
  "WorkerThread_Join t =
     (case wt_thread t of
        NullThread \<Rightarrow> Inl (Fatal ''Trying to join a thread that has not started or has already been joined.'')
      | RunningThread \<Rightarrow> Inr (t\<lparr>wt_thread := DanglingThread\<rparr>)
      | DanglingThread \<Rightarrow> Inl (Crash ''join of a deleted thread''))"

text \<open>The loop over the threads: each is appended to the vector, and the element at the loop's index is started.\<close>

definition setup_thread :: "nat \<Rightarrow> WorkerThread list \<times> nat \<Rightarrow> (WorkerThread list \<times> nat) outcome" where
  "setup_thread i s =
     (let (t, next_tid) = new_WorkerThread (snd s); ts = fst s @ [t]
      in if i < length ts then bindE (WorkerThread_Start (ts ! i)) (\<lambda>t'. Inr (ts[i := t'], next_tid)) else Inl (Crash ''worker_threads_[i]''))"

definition setup_threads :: "nat \<Rightarrow> nat \<Rightarrow> (WorkerThread list \<times> nat) outcome" where
  "setup_threads n next_tid = for_each [0..<n] setup_thread ([], next_tid)"

definition cleanup_thread :: "nat \<Rightarrow> WorkerThread list \<Rightarrow> WorkerThread list outcome" where
  "cleanup_thread i ts = (if i < length ts then bindE (WorkerThread_Join (ts ! i)) (\<lambda>t. Inr (ts[i := t])) else Inl (Crash ''worker_threads_[i]''))"

definition cleanup_threads :: "nat \<Rightarrow> WorkerThread list \<Rightarrow> WorkerThread list outcome" where
  "cleanup_threads n ts = for_each [0..<n] cleanup_thread ts"

section \<open>The life of the threads\<close>

text \<open>SetupWorker starts threads with consecutive identifiers, CleanupWorker joins each of them once.\<close>

lemma setup_threads_run:
  assumes "t0 + n < 2 ^ 15"
  shows "setup_threads n t0 = Inr (map (\<lambda>i. \<lparr>wt_tid = t0 + i, wt_thread = RunningThread\<rparr>) [0..<n], t0 + n)"
proof -
  let ?st = "\<lambda>i. (map (\<lambda>i. \<lparr>wt_tid = t0 + i, wt_thread = RunningThread\<rparr>) [0..<i], t0 + i)"
  have "for_each [0..<n] setup_thread (?st 0) = Inr (?st n)"
  proof (rule for_each_fill)
    fix i assume "i < n"
    then have "(t0 + i + 1) mod 2 ^ 16 = t0 + Suc i" using assms by simp
    then show "setup_thread i (?st i) = Inr (?st (Suc i))"
      by (simp add: setup_thread_def new_WorkerThread_def WorkerThread_Start_def nth_append list_update_append Let_def)
  qed
  then show ?thesis by (simp add: setup_threads_def)
qed

lemma cleanup_threads_run:
  assumes "length ts = n" and "\<forall>t \<in> set ts. wt_thread t = RunningThread"
  shows "cleanup_threads n ts = Inr (map (\<lambda>t. t\<lparr>wt_thread := DanglingThread\<rparr>) ts)"
proof -
  let ?st = "fill n (\<lambda>i. (ts ! i)\<lparr>wt_thread := DanglingThread\<rparr>) (\<lambda>i. ts ! i)"
  have "for_each [0..<n] cleanup_thread (?st 0) = Inr (?st n)"
    using assms by (intro for_each_fill) (simp add: cleanup_thread_def WorkerThread_Join_def)
  moreover have "?st 0 = ts" "?st n = map (\<lambda>t. t\<lparr>wt_thread := DanglingThread\<rparr>) ts"
    using assms(1) by (auto intro: nth_equalityI)
  ultimately show ?thesis by (simp add: cleanup_threads_def)
qed

text \<open>A second CleanupWorker would use the deleted threads.\<close>

lemma cleanup_twice_crashes:
  assumes "0 < n" and "length ts = n" and "\<forall>t \<in> set ts. wt_thread t = DanglingThread"
  shows "cleanup_threads n ts = Inl (Crash ''join of a deleted thread'')"
  using assms by (simp add: cleanup_threads_def cleanup_thread_def WorkerThread_Join_def upt_conv_Cons)

end
