(* ===== verification/Dpdk_Backend.thy ===== *)
theory Dpdk_Backend
  imports Dpdk_Session Grpc_Client Rdma_Utils Worker_Threads
begin

unbundle bit_operations_syntax

text \<open>
  The DPDK backend and its master thread (client_lib/src/backends/dpdk/dpdk_backend.cc, dpdk_master_thread.cc and
  dpdk_master_thread_utils.inc): setting up the worker, the switch and the port, launching the worker threads and
  shutting everything down. The DPDK library, the network card and the controller are parameters; the calls that
  configure the port or control threads are recorded in order. Starting and joining system threads is left to the
  operating system, except for the life of the master's thread object.
\<close>

section \<open>State\<close>

record DpdkBackend =
  db_config :: Config
  db_switch_addr :: E2eAddress
  db_worker_addr :: E2eAddress
  db_master :: "thread_pointer option"
  db_calls :: "grpc_call list"

datatype offload = Ipv4Cksum | UdpCksum | MbufFastFree

record rte_eth_dev_info =
  rx_offload_capa :: "offload list"
  tx_offload_capa :: "offload list"
  rx_desc_max :: nat
  tx_desc_max :: nat

text \<open>A rule that directs the UDP packets of a destination port to a queue; the fields of the packets are masked.\<close>

record flow_rule =
  fr_queue :: nat
  fr_proto :: nat
  fr_proto_mask :: nat
  fr_dst_port :: "16 word"
  fr_dst_port_mask :: "16 word"

datatype dpdk_call =
    IsolatePort
  | ConfigurePort nat "offload list" "offload list"
  | RxQueueSetup nat nat
  | TxQueueSetup nat nat
  | StartPort
  | FlowCreate flow_rule
  | LaunchWorker nat nat
  | RunWorker nat
  | WaitLcore nat
  | FlowFlush
  | StopPort
  | ClosePort

text \<open>The library and the card; \<open>el_link k\<close> is the status of the link at the \<open>k\<close>-th poll.\<close>

record dpdk_library =
  el_eal_init :: "string list \<Rightarrow> int"
  el_slaves :: "nat list"
  el_ports :: "nat list"
  el_dev_info :: rte_eth_dev_info
  el_configure :: "nat \<Rightarrow> offload list \<Rightarrow> offload list \<Rightarrow> int"
  el_adjust :: "nat \<Rightarrow> nat \<Rightarrow> int \<times> nat \<times> nat"
  el_rx_pool :: "nat \<Rightarrow> bool"
  el_rx_queue :: "nat \<Rightarrow> nat \<Rightarrow> int"
  el_tx_queue :: "nat \<Rightarrow> nat \<Rightarrow> int"
  el_dev_start :: int
  el_link :: "nat \<Rightarrow> bool"
  el_flow_validate :: "flow_rule \<Rightarrow> bool"
  el_mac :: "64 word option"
  el_waiting :: "nat \<Rightarrow> bool"

section \<open>The backend\<close>

text \<open>
  The addresses are in network byte order, the host is little-endian; \<open>inet_aton\<close> is the C library's function. The master
  thread is started with a null pointer to its thread object.
\<close>

definition MasterThread_Start :: "thread_pointer \<Rightarrow> thread_pointer outcome" where
  "MasterThread_Start t = (if t \<noteq> NullThread then Inl (Fatal ''Trying to start a thread twice'') else Inr RunningThread)"

definition MasterThread_Join :: "thread_pointer \<Rightarrow> thread_pointer outcome" where
  "MasterThread_Join t =
     (case t of
        NullThread \<Rightarrow> Inl (Fatal ''Trying to join a thread that hasn't started'')
      | RunningThread \<Rightarrow> Inr DanglingThread
      | _ \<Rightarrow> Inl (Crash ''join of a deleted thread''))"

text \<open>The destructor deletes the thread object; deleting one that still runs terminates the process.\<close>

definition MasterThread_delete :: "thread_pointer \<Rightarrow> unit outcome" where
  "MasterThread_delete t =
     (case t of NullThread \<Rightarrow> Inr () | DanglingThread \<Rightarrow> Inl (Crash ''double free of thread_'') | _ \<Rightarrow> Inl (Crash ''std::terminate''))"

definition Dpdk_SetupWorker :: "(string \<Rightarrow> 32 word option) \<Rightarrow> DpdkBackend \<Rightarrow> DpdkBackend outcome" where
  "Dpdk_SetupWorker inet_aton s =
     (let d = bc_dpdk (backend_cfg (db_config s))
      in case inet_aton (dpdk_worker_ip_str d) of
           None \<Rightarrow> Inl (Fatal ''Failed to parse ip address'')
         | Some ip \<Rightarrow>
             let addr = (db_worker_addr s)\<lparr>e2e_ip := ip, e2e_port := cpu_to_be_16 (of_nat (dpdk_worker_port d))\<rparr>
             in bindE (MasterThread_Start NullThread) (\<lambda>t. Inr (s\<lparr>db_worker_addr := addr, db_master := Some t\<rparr>)))"

definition udp_request :: "nat \<Rightarrow> DpdkBackend \<Rightarrow> UdpSessionRequest" where
  "udp_request session_id s =
     (let g = general (db_config s)
      in \<lparr>uq_session_id = session_id, uq_rank = gc_rank g, uq_num_workers = gc_num_workers g,
          uq_mac = ChangeMacEndianness (e2e_mac (db_worker_addr s)), uq_ipv4 = ntohl (e2e_ip (db_worker_addr s)),
          uq_packet_size = pkt_len_enum (gc_packet_numel g)\<rparr>)"

text \<open>\<open>now\<close> is the time in nanoseconds; the port of the switch is fixed.\<close>

definition SetupSwitch :: "controller \<Rightarrow> nat \<Rightarrow> DpdkBackend \<Rightarrow> DpdkBackend outcome" where
  "SetupSwitch ct now s =
     (let g = general (db_config s);
          session_id = (if gc_rank g = 0 then u64 now else 0);
          bcast = \<lparr>br_value = session_id, br_rank = gc_rank g, br_num_workers = gc_num_workers g, br_root = 0\<rparr>
      in bindE (Grpc_Broadcast ct bcast (db_calls s)) (\<lambda>(session_id', c1).
         let request = udp_request session_id' s
         in bindE (if gc_rank g = 0
                   then bindE (CreateUdpSession ct request c1) (\<lambda>(response, c2).
                        bindE (Grpc_Barrier ct (gc_num_workers g) c2) (\<lambda>c3. Inr (response, c3)))
                   else bindE (Grpc_Barrier ct (gc_num_workers g) c1) (CreateUdpSession ct request)) (\<lambda>(response, c3).
            bindE (Grpc_Barrier ct (gc_num_workers g) c3) (\<lambda>c4.
              Inr (s\<lparr>db_switch_addr := \<lparr>e2e_mac = ChangeMacEndianness (us_mac response), e2e_ip = htonl (us_ipv4 response),
                                        e2e_port = cpu_to_be_16 48864\<rparr>,
                     db_calls := c4\<rparr>)))))"

definition Dpdk_CleanupWorker :: "DpdkBackend \<Rightarrow> DpdkBackend outcome" where
  "Dpdk_CleanupWorker s =
     (case db_master s of
        None \<Rightarrow> Inl (Crash ''null master_thread_'')
      | Some t \<Rightarrow> bindE (MasterThread_Join t) (\<lambda>t'. Inr (s\<lparr>db_master := Some t'\<rparr>)))"

text \<open>Deleting the backend deletes its master thread object.\<close>

definition Dpdk_delete :: "DpdkBackend \<Rightarrow> unit outcome" where
  "Dpdk_delete s = (case db_master s of None \<Rightarrow> Inr () | Some t \<Rightarrow> MasterThread_delete t)"

section \<open>The port\<close>

text \<open>The status of the link is polled 91 times; \<open>k\<close> is the number of polls so far.\<close>

fun poll_link :: "dpdk_library \<Rightarrow> nat \<Rightarrow> nat \<Rightarrow> unit outcome" where
  "poll_link el 0 k = Inl (Fatal ''Link Down'')"
| "poll_link el (Suc left) k = (if el_link el k then Inr () else poll_link el left (Suc k))"

definition CheckPortLinkStatus :: "dpdk_library \<Rightarrow> unit outcome" where
  "CheckPortLinkStatus el = poll_link el 91 0"

text \<open>The UDP port has 16 bits.\<close>

definition flow_rule_for :: "nat \<Rightarrow> nat \<Rightarrow> flow_rule" where
  "flow_rule_for rx_q udp_dst_port =
     \<lparr>fr_queue = rx_q, fr_proto = 17, fr_proto_mask = 0xFF, fr_dst_port = cpu_to_be_16 (of_nat udp_dst_port), fr_dst_port_mask = 0xFFFF\<rparr>"

definition InsertFlowRule :: "dpdk_library \<Rightarrow> nat \<Rightarrow> nat \<Rightarrow> dpdk_call list \<Rightarrow> dpdk_call list outcome" where
  "InsertFlowRule el rx_q udp_dst_port cl =
     (let rule = flow_rule_for rx_q udp_dst_port
      in bindE (fatal_if (\<not> el_flow_validate el rule) ''Flow rule can't be added'') (\<lambda>_. Inr (cl @ [FlowCreate rule])))"

definition setup_queues :: "dpdk_library \<Rightarrow> nat \<Rightarrow> nat \<Rightarrow> nat \<Rightarrow> dpdk_call list \<Rightarrow> dpdk_call list outcome" where
  "setup_queues el rx_ring tx_ring i cl =
     bindE (fatal_if (\<not> el_rx_pool el i) ''Cannot init mbuf pool'') (\<lambda>_.
     bindE (fatal_if (el_rx_queue el i rx_ring < 0) ''RX queue setup error'') (\<lambda>_.
     bindE (fatal_if (el_tx_queue el i tx_ring < 0) ''TX queue setup error'') (\<lambda>_.
       Inr (cl @ [RxQueueSetup i rx_ring, TxQueueSetup i tx_ring]))))"

text \<open>A failure of the isolated mode is only logged. The receive offloads are the checksums of IPv4 and UDP, those of sending also the fast
  release of mbufs, as far as the card has them.\<close>

definition InitPort :: "dpdk_library \<Rightarrow> DpdkBackendConfig \<Rightarrow> nat \<Rightarrow> dpdk_call list \<Rightarrow> dpdk_call list outcome" where
  "InitPort el d num_queues cl =
     (let di = el_dev_info el;
          rxm = filter (\<lambda>f. f \<in> set (rx_offload_capa di)) [Ipv4Cksum, UdpCksum];
          txm = filter (\<lambda>f. f \<in> set (tx_offload_capa di)) [Ipv4Cksum, UdpCksum, MbufFastFree];
          (ret, rx_ring, tx_ring) = el_adjust el (min (rx_desc_max di) 1024) (min (tx_desc_max di) 1024)
      in bindE (fatal_if (el_ports el = []) ''No Ethernet ports'') (\<lambda>_.
         bindE (fatal_if (dpdk_port_id d \<notin> set (el_ports el)) ''Port ID is not available'') (\<lambda>_.
         bindE (fatal_if (el_configure el num_queues rxm txm < 0) ''Cannot configure port'') (\<lambda>_.
         bindE (fatal_if (ret < 0) ''Cannot adjust number of descriptors'') (\<lambda>_.
         bindE (for_each [0..<num_queues] (setup_queues el rx_ring tx_ring) (cl @ [IsolatePort, ConfigurePort num_queues rxm txm])) (\<lambda>cl1.
         bindE (fatal_if (el_dev_start el < 0) ''Error starting the port'') (\<lambda>_.
         bindE (CheckPortLinkStatus el) (\<lambda>_.
           for_each [0..<num_queues] (\<lambda>i. InsertFlowRule el i (u16 (dpdk_worker_port d + i))) (cl1 @ [StartPort])))))))))"

section \<open>The master thread\<close>

definition eal_tokens :: "DpdkBackendConfig \<Rightarrow> string list" where
  "eal_tokens d = getlines (CHR '' '') (''switchml -l '' @ dpdk_cores_str d @ '' '' @ dpdk_extra_eal_options d)"

text \<open>
  The bytes that are allocated for an argument of the EAL, and those that are written to it: with the terminating null
  there is one more.
\<close>

definition eal_arg :: "string \<Rightarrow> nat \<times> nat" where
  "eal_arg token = (length token, length token + 1)"

text \<open>Six bytes of the address are copied; the other two stay what they were.\<close>

definition set_mac :: "64 word \<Rightarrow> E2eAddress \<Rightarrow> E2eAddress" where
  "set_mac mac a = a\<lparr>e2e_mac := take_bit 48 mac OR push_bit 48 (drop_bit 48 (e2e_mac a))\<rparr>"

text \<open>The worker threads are created in the order of the cores; \<open>next_tid\<close> is the static counter of the class.\<close>

definition launch_calls :: "nat list \<Rightarrow> nat \<Rightarrow> dpdk_call list" where
  "launch_calls slaves next_tid =
     map (\<lambda>i. LaunchWorker (slaves ! i) (next_tid + i)) [0..<length slaves] @ [RunWorker (next_tid + length slaves)]"

definition master_thread ::
  "dpdk_library \<Rightarrow> controller \<Rightarrow> nat \<Rightarrow> nat \<Rightarrow> DpdkBackend \<Rightarrow> (DpdkBackend \<times> dpdk_call list) outcome"
where
  "master_thread el ct now next_tid s =
     (let d = bc_dpdk (backend_cfg (db_config s)); slaves = el_slaves el; num_cores = u16 (1 + length slaves)
      in bindE (fatal_if (el_eal_init el (eal_tokens d) < 0) ''EAL init failed'') (\<lambda>_.
         bindE (fatal_if (num_cores \<noteq> gc_num_worker_threads (general (db_config s))) ''number of cores'') (\<lambda>_.
         bindE (InitPort el d num_cores []) (\<lambda>cl.
         bindE (case el_mac el of None \<Rightarrow> Inl (Fatal ''Failed to get mac address'') | Some mac \<Rightarrow> Inr mac) (\<lambda>mac.
         bindE (SetupSwitch ct now (s\<lparr>db_worker_addr := set_mac mac (db_worker_addr s)\<rparr>)) (\<lambda>s1.
         bindE (fatal_if (\<not> list_all (el_waiting el) slaves) ''Core in state'') (\<lambda>_.
           Inr (s1, cl @ launch_calls slaves next_tid @ map WaitLcore slaves @ [FlowFlush, StopPort, ClosePort]))))))))"

section \<open>Setting up\<close>

definition udp_controller_ok :: "controller \<Rightarrow> bool" where
  "udp_controller_ok ct \<longleftrightarrow> (\<forall>calls k. ct_barrier ct calls k \<noteq> None) \<and> (\<forall>calls r. ct_broadcast ct calls r \<noteq> None) \<and>
     (\<forall>calls r. ct_udp ct calls r \<noteq> None)"

definition library_ok :: "dpdk_library \<Rightarrow> Config \<Rightarrow> bool" where
  "library_ok el c \<longleftrightarrow> (\<forall>args. 0 \<le> el_eal_init el args) \<and> Suc (length (el_slaves el)) = gc_num_worker_threads (general c) \<and>
     gc_num_worker_threads (general c) < 2 ^ 16 \<and>
     dpdk_port_id (bc_dpdk (backend_cfg c)) \<in> set (el_ports el) \<and> (\<forall>n rx tx. 0 \<le> el_configure el n rx tx) \<and>
     (\<forall>rx tx. 0 \<le> fst (el_adjust el rx tx)) \<and> (\<forall>i. el_rx_pool el i) \<and> (\<forall>i k. 0 \<le> el_rx_queue el i k \<and> 0 \<le> el_tx_queue el i k) \<and>
     0 \<le> el_dev_start el \<and> (\<exists>k \<le> 90. el_link el k) \<and> (\<forall>r. el_flow_validate el r) \<and> el_mac el \<noteq> None \<and> list_all (el_waiting el) (el_slaves el)"

lemma poll_link_up: "k \<le> j \<Longrightarrow> j < k + n \<Longrightarrow> el_link el j \<Longrightarrow> poll_link el n k = Inr ()"
proof (induction n arbitrary: k)
  case (Suc n)
  show ?case
  proof (cases "el_link el k")
    case False
    then have "k \<noteq> j" using Suc.prems(3) by blast
    then show ?thesis using Suc.IH[of "Suc k"] Suc.prems False by simp
  qed simp
qed simp

lemma link_up: "j \<le> 90 \<Longrightarrow> el_link el j \<Longrightarrow> CheckPortLinkStatus el = Inr ()"
  unfolding CheckPortLinkStatus_def by (rule poll_link_up[of 0 j]) simp_all

text \<open>A loop that records calls.\<close>

lemma for_each_log:
  assumes "\<And>i cl. i < n \<Longrightarrow> f i cl = Inr (cl @ calls i)"
  shows "for_each [0..<n] f cl = Inr (cl @ concat (map calls [0..<n]))"
  using for_each_fill[of n f "\<lambda>i. cl @ concat (map calls [0..<i])"] assms by simp

lemma InitPort_ok:
  assumes "library_ok el c" and "d = bc_dpdk (backend_cfg c)"
  shows "\<exists>rx tx rx_ring tx_ring. InitPort el d n cl = Inr (cl @ [IsolatePort, ConfigurePort n rx tx] @
     concat (map (\<lambda>i. [RxQueueSetup i rx_ring, TxQueueSetup i tx_ring]) [0..<n]) @ [StartPort] @
     map (\<lambda>i. FlowCreate (flow_rule_for i (u16 (dpdk_worker_port d + i)))) [0..<n])"
proof -
  obtain k where k: "k \<le> 90" "el_link el k" using assms(1) by (auto simp: library_ok_def)
  have "concat (map (\<lambda>i. [g i]) xs) = map g xs" for g :: "nat \<Rightarrow> dpdk_call" and xs by (induction xs) simp_all
  then have rules: "for_each [0..<n] (\<lambda>i. InsertFlowRule el i (u16 (dpdk_worker_port d + i))) l =
      Inr (l @ map (\<lambda>i. FlowCreate (flow_rule_for i (u16 (dpdk_worker_port d + i)))) [0..<n])" for l
    using for_each_log[of n "\<lambda>i. InsertFlowRule el i (u16 (dpdk_worker_port d + i))" "\<lambda>i. [FlowCreate (flow_rule_for i (u16 (dpdk_worker_port d + i)))]"]
      assms(1) by (simp add: InsertFlowRule_def library_ok_def fatal_if_def)
  have queues: "for_each [0..<n] (setup_queues el rx tx) l = Inr (l @ concat (map (\<lambda>i. [RxQueueSetup i rx, TxQueueSetup i tx]) [0..<n]))"
    for rx tx l by (rule for_each_log) (use assms(1) in \<open>simp add: setup_queues_def library_ok_def fatal_if_def linorder_not_less\<close>)
  obtain ret rx_ring tx_ring where adj: "el_adjust el (min (rx_desc_max (el_dev_info el)) 1024) (min (tx_desc_max (el_dev_info el)) 1024) = (ret, rx_ring, tx_ring)"
    by (metis prod_cases3)
  have "0 \<le> ret" using assms(1) adj by (metis fst_conv library_ok_def)
  then show ?thesis using assms rules queues adj link_up[OF k]
    by (auto simp: InitPort_def library_ok_def fatal_if_def Let_def linorder_not_less)
qed

lemma SetupSwitch_ok:
  assumes "udp_controller_ok ct"
  shows "\<exists>v (response :: UdpSessionResponse) cs. SetupSwitch ct now s = Inr (s\<lparr>db_switch_addr := \<lparr>e2e_mac = ChangeMacEndianness (us_mac response),
       e2e_ip = htonl (us_ipv4 response), e2e_port = cpu_to_be_16 48864\<rparr>, db_calls := db_calls s @ cs\<rparr>) \<and>
     map event_of cs = session_program (gc_rank (general (db_config s))) \<and> UdpSessionCall (udp_request v s) \<in> set cs"
proof -
  let ?g = "general (db_config s)"
  have ct: "\<exists>u. ct_barrier ct c k = Some u" "\<exists>v. ct_broadcast ct c r = Some v" "\<exists>w. ct_udp ct c q = Some w" for c k r q
    using assms unfolding udp_controller_ok_def by blast+
  have bar: "Grpc_Barrier ct k c = Inr (c @ [BarrierCall k])" for k c using ct(1)[of c k] by (auto simp: Grpc_Barrier_def check_status_def)
  define b where "b = \<lparr>br_value = if gc_rank ?g = 0 then u64 now else 0, br_rank = gc_rank ?g, br_num_workers = gc_num_workers ?g, br_root = 0\<rparr>"
  obtain v where v: "Grpc_Broadcast ct b (db_calls s) = Inr (v, db_calls s @ [BroadcastCall b])"
    using ct(2)[of "db_calls s" b] by (auto simp: Grpc_Broadcast_def check_status_def)
  have udp: "\<exists>w. CreateUdpSession ct (udp_request v s) c = Inr (w, c @ [UdpSessionCall (udp_request v s)])" for c
    using ct(3)[of c "udp_request v s"] by (auto simp: CreateUdpSession_def check_status_def)
  have session_result: ?thesis
    if "SetupSwitch ct now s = Inr (s\<lparr>db_switch_addr := \<lparr>e2e_mac = ChangeMacEndianness (us_mac w),
        e2e_ip = htonl (us_ipv4 w), e2e_port = cpu_to_be_16 48864\<rparr>, db_calls := db_calls s @ cs\<rparr>)"
      and "map event_of cs = session_program (gc_rank ?g)" and "UdpSessionCall (udp_request v s) \<in> set cs" for w :: UdpSessionResponse and cs
    using that by blast
  show ?thesis
  proof (cases "gc_rank ?g = 0")
    case True
    obtain w where "CreateUdpSession ct (udp_request v s) (db_calls s @ [BroadcastCall b]) =
        Inr (w, db_calls s @ [BroadcastCall b] @ [UdpSessionCall (udp_request v s)])"
      using udp[of "db_calls s @ [BroadcastCall b]"] by auto
    then have "SetupSwitch ct now s = Inr (s\<lparr>db_switch_addr := \<lparr>e2e_mac = ChangeMacEndianness (us_mac w),
        e2e_ip = htonl (us_ipv4 w), e2e_port = cpu_to_be_16 48864\<rparr>, db_calls := db_calls s @ [BroadcastCall b, UdpSessionCall (udp_request v s), BarrierCall (gc_num_workers ?g), BarrierCall (gc_num_workers ?g)]\<rparr>)"
      using True v by (simp add: SetupSwitch_def b_def bar Let_def)
    then show ?thesis by (rule session_result) (use True in \<open>simp_all add: session_program_def\<close>)
  next
    case False
    obtain w where "CreateUdpSession ct (udp_request v s) (db_calls s @ [BroadcastCall b, BarrierCall (gc_num_workers ?g)]) =
        Inr (w, db_calls s @ [BroadcastCall b, BarrierCall (gc_num_workers ?g), UdpSessionCall (udp_request v s)])"
      using udp[of "db_calls s @ [BroadcastCall b, BarrierCall (gc_num_workers ?g)]"] by auto
    then have "SetupSwitch ct now s = Inr (s\<lparr>db_switch_addr := \<lparr>e2e_mac = ChangeMacEndianness (us_mac w),
        e2e_ip = htonl (us_ipv4 w), e2e_port = cpu_to_be_16 48864\<rparr>, db_calls := db_calls s @ [BroadcastCall b, BarrierCall (gc_num_workers ?g), UdpSessionCall (udp_request v s), BarrierCall (gc_num_workers ?g)]\<rparr>)"
      using False v by (simp add: SetupSwitch_def b_def bar Let_def)
    then show ?thesis by (rule session_result) (use False in \<open>simp_all add: session_program_def\<close>)
  qed
qed


section \<open>Which packets a worker thread receives\<close>

definition flow_matches :: "flow_rule \<Rightarrow> rte_mbuf \<Rightarrow> bool" where
  "flow_matches r mb \<longleftrightarrow> mb_proto mb AND fr_proto_mask r = fr_proto r \<and> mb_dst_port mb AND fr_dst_port_mask r = fr_dst_port r"

lemma cpu_to_be_16_eq [simp]: "cpu_to_be_16 x = cpu_to_be_16 y \<longleftrightarrow> x = y"
  using cpu_to_be_16_twice by metis

text \<open>The port of a thread is the one of the rule for the thread's queue.\<close>

lemma thread_port:
  assumes "Dpdk_SetupWorker inet_aton s = Inr s1" and "dpdk_start env (db_worker_addr s1) a h st = Inr (th, w)"
  shows "e2e_port (dt_addr th) = cpu_to_be_16 (of_nat (dpdk_worker_port (bc_dpdk (backend_cfg (db_config s))) + de_tid env))"
proof -
  have "e2e_port (db_worker_addr s1) = cpu_to_be_16 (of_nat (dpdk_worker_port (bc_dpdk (backend_cfg (db_config s)))))"
    using assms(1) by (auto simp: Dpdk_SetupWorker_def Let_def bindE_eq_Inr split: option.splits)
  moreover have "e2e_port (dt_addr th) = cpu_to_be_16 (cpu_to_be_16 (e2e_port (db_worker_addr s1)) + of_nat (de_tid env))"
    using assms(2) by (auto simp: dpdk_start_def Let_def bindE_eq_Inr fatal_if_def split: if_splits option.splits)
  ultimately show ?thesis by (simp add: cpu_to_be_16_twice)
qed

text \<open>C32: A UDP packet that is addressed to the port of a worker thread is put into that thread's receive queue and into no other: of the
  rules that the set-up creates, exactly the thread's own matches it.\<close>
theorem flow_rules_dispatch:
  assumes "Dpdk_SetupWorker inet_aton s = Inr s1" and "dpdk_start env (db_worker_addr s1) a h st = Inr (th, w)"
    and "n \<le> 2 ^ 16" and "de_tid env < n" and "mb_proto mb = 17" and "mb_dst_port mb = e2e_port (dt_addr th)"
  shows "\<forall>i < n. flow_matches (flow_rule_for i (u16 (dpdk_worker_port (bc_dpdk (backend_cfg (db_config s))) + i))) mb \<longleftrightarrow> i = de_tid env"
proof (intro allI impI)
  fix i assume i: "i < n"
  let ?p = "dpdk_worker_port (bc_dpdk (backend_cfg (db_config s)))"
  have "(0xFFFF :: 16 word) = - 1" by simp
  then have mask: "x AND 0xFFFF = (x :: 16 word)" for x by (metis and.right_neutral)
  have "(of_nat (?p + de_tid env) :: 16 word) = of_nat (u16 (?p + i)) \<longleftrightarrow> (?p + de_tid env) mod 2 ^ 16 = (?p + i) mod 2 ^ 16"
    by (simp only: word_of_nat_eq_iff take_bit_eq_mod u16_def) simp
  also have "\<dots> \<longleftrightarrow> i = de_tid env"
    using mod_shift_inj[of "de_tid env" ?p "2 ^ 16" i] assms(3,4) i by (auto simp: add.commute)
  finally show "flow_matches (flow_rule_for i (u16 (?p + i))) mb \<longleftrightarrow> i = de_tid env"
    unfolding flow_matches_def flow_rule_for_def using assms(5,6) thread_port[OF assms(1,2)] by (simp add: mask)
qed

section \<open>Shutting down\<close>

text \<open>After a clean shutdown the pointer to the deleted thread object is still set: deleting the backend deletes it again.\<close>

lemma dpdk_stop_double_free:
  assumes "Dpdk_SetupWorker inet_aton s = Inr s1" and "db_master s2 = db_master s1"
  shows "\<exists>s3. Dpdk_CleanupWorker s2 = Inr s3 \<and> Dpdk_delete s3 = Inl (Crash ''double free of thread_'')"
proof -
  have "db_master s2 = Some RunningThread"
    using assms by (auto simp: Dpdk_SetupWorker_def MasterThread_Start_def Let_def split: option.splits)
  then show ?thesis by (simp add: Dpdk_CleanupWorker_def Dpdk_delete_def MasterThread_Join_def MasterThread_delete_def)
qed

section \<open>A concrete backend\<close>

definition sample_library :: dpdk_library where
  "sample_library =
     \<lparr>el_eal_init = (\<lambda>args. int (length args)), el_slaves = [1], el_ports = [0, 1],
      el_dev_info = \<lparr>rx_offload_capa = [UdpCksum], tx_offload_capa = [MbufFastFree, Ipv4Cksum], rx_desc_max = 512, tx_desc_max = 4096\<rparr>,
      el_configure = (\<lambda>n rx tx. 0), el_adjust = (\<lambda>rx tx. (0, rx, tx)), el_rx_pool = (\<lambda>_. True), el_rx_queue = (\<lambda>_ _. 0),
      el_tx_queue = (\<lambda>_ _. 0), el_dev_start = 0, el_link = (\<lambda>k. k = 7), el_flow_validate = (\<lambda>_. True), el_mac = Some 0x1234,
      el_waiting = (\<lambda>_. True)\<rparr>"

definition sample_udp_controller :: controller where
  "sample_udp_controller =
     \<lparr>ct_barrier = (\<lambda>_ _. Some ()), ct_broadcast = (\<lambda>_ r. Some (br_value r)), ct_rdma = (\<lambda>_ _. None),
      ct_udp = (\<lambda>_ r. Some \<lparr>us_session_id = uq_session_id r, us_mac = 0x99, us_ipv4 = 7\<rparr>)\<rparr>"

definition sample_backend :: DpdkBackend where
  "sample_backend =
     \<lparr>db_config = de_config (sample_dpdk_env 0), db_switch_addr = \<lparr>e2e_mac = 0, e2e_ip = 0, e2e_port = 0\<rparr>,
      db_worker_addr = \<lparr>e2e_mac = 0, e2e_ip = 0, e2e_port = 0\<rparr>, db_master = None, db_calls = []\<rparr>"


lemma flow_rules_dispatch_witness:
  "\<exists>s1 th w. Dpdk_SetupWorker (\<lambda>_. Some 5) sample_backend = Inr s1 \<and>
     dpdk_start (sample_dpdk_env 1) (db_worker_addr s1) sample_allocs sample_dpdk_heap sample_dpdk_stats = Inr (th, w) \<and>
     flow_matches (flow_rule_for 1 4001) ((sample_mbuf 0)\<lparr>mb_proto := 17, mb_dst_port := e2e_port (dt_addr th)\<rparr>) \<and>
     \<not> flow_matches (flow_rule_for 0 4000) ((sample_mbuf 0)\<lparr>mb_proto := 17, mb_dst_port := e2e_port (dt_addr th)\<rparr>)"
proof -
  obtain s1 where s1: "Dpdk_SetupWorker (\<lambda>_. Some 5) sample_backend = Inr s1"
    by (simp add: Dpdk_SetupWorker_def MasterThread_Start_def Let_def)
  obtain th w where st: "dpdk_start (sample_dpdk_env 1) (db_worker_addr s1) sample_allocs sample_dpdk_heap sample_dpdk_stats = Inr (th, w)"
    using sample_dpdk_thread by blast
  let ?mb = "(sample_mbuf 0)\<lparr>mb_proto := 17, mb_dst_port := e2e_port (dt_addr th)\<rparr>"
  have p: "dpdk_worker_port (bc_dpdk (backend_cfg (db_config sample_backend))) = 4000"
    by (simp add: sample_backend_def sample_dpdk_env_def default_Config_def default_DpdkBackendConfig_def)
  have "\<forall>i < 2. flow_matches (flow_rule_for i (u16 (4000 + i))) ?mb \<longleftrightarrow> i = 1"
    using flow_rules_dispatch[OF s1 st, of 2 ?mb] unfolding p by (simp add: sample_dpdk_config)
  from this[rule_format, of 0] this[rule_format, of 1] show ?thesis using s1 st by (simp add: u16_def)
qed

end
