(* ===== verification/Dpdk_Typing.thy ===== *)
theory Dpdk_Typing
  imports Dpdk_Session
begin

text \<open>
  The model of the DPDK worker keeps the machine integers as natural numbers with explicit wrap-around. Here it is shown
  that all of them stay within the widths of the code's types, whatever the network and the card do.
\<close>

section \<open>Widths\<close>

definition mbuf_typed :: "rte_mbuf \<Rightarrow> bool" where
  "mbuf_typed mb \<longleftrightarrow> mb_pkt_id mb < 2 ^ 32 \<and> mb_short_job_id mb < 2 ^ 8 \<and> mb_job_type_size mb < 2 ^ 8 \<and>
     mb_data_len mb < 2 ^ 16 \<and> mb_pkt_len mb < 2 ^ 32 \<and> mb_version_ihl mb < 2 ^ 8 \<and> mb_ttl mb < 2 ^ 8 \<and> mb_proto mb < 2 ^ 8"

definition args_typed :: "ResendPacketCallbackArgs \<Rightarrow> bool" where
  "args_typed a \<longleftrightarrow> ra_pkt_id a < 2 ^ 32 \<and> ra_pool_index a < 2 ^ 16"

definition timer_typed :: "nat option \<Rightarrow> bool" where
  "timer_typed c \<longleftrightarrow> (case c of None \<Rightarrow> True | Some t \<Rightarrow> t < 2 ^ 64)"

definition worker_typed :: "dpdk_worker \<Rightarrow> bool" where
  "worker_typed w \<longleftrightarrow> dk_received w < 2 ^ 32 \<and> dk_shift w < 2 ^ 32 \<and>
     dk_wrong w < 2 ^ 64 \<and> dk_correct w < 2 ^ 64 \<and> dk_sent w < 2 ^ 64 \<and> dk_timer_cycles w < 2 ^ 64 \<and>
     dk_timeouts_counter w < 2 ^ 64 \<and> dk_timeout_threshold w < 2 ^ 64 \<and>
     list_all timer_typed (dk_timers w) \<and>
     length (dk_timers w) = length (dk_args w) \<and> list_all args_typed (dk_args w) \<and> list_all mbuf_typed (dk_mbufs w) \<and> list_all mbuf_typed (dk_tx_buffer w) \<and>
     list_all mbuf_typed (map fst (dk_wire w))"

text \<open>What the environment hands over.\<close>

definition env_typed :: "dpdk_env \<Rightarrow> bool" where
  "env_typed env \<longleftrightarrow> (\<forall>k mb. de_alloc env k = Some mb \<longrightarrow> mbuf_typed mb)"

lemma u_bounds [simp]:
  "u64_add a b < 2 ^ 64" "u64_mul a b < 2 ^ 64" "u64 a < 2 ^ 64" "u32 a < 2 ^ 32" "u16 a < 2 ^ 16"
  "u64_add a b < 18446744073709551616" "u64_mul a b < 18446744073709551616" "u64 a < 18446744073709551616"
  "u32 a < 4294967296" "u16 a < 65536" "u16 a < 4294967296"
  by (simp_all add: u64_add_def u64_mul_def u64_def u32_def u16_def)

lemma pool_index_bound [simp]: "PktId2PoolIndex q s sh mop < 65536"
  by (simp add: PktId2PoolIndex_def Let_def)

lemma list_all_update: "list_all P xs \<Longrightarrow> P x \<Longrightarrow> list_all P (xs[i := x])"
  using set_update_subset_insert[of xs i x] by (auto simp: list_all_iff)

lemma timer_typed_simps [simp]:
  "timer_typed None" "timer_typed (Some (u64_mul a b))" "t < 2 ^ 64 \<Longrightarrow> timer_typed (Some t)"
  by (simp_all add: timer_typed_def)

lemma list_all_sub: "list_all P xs \<Longrightarrow> list_all P (take n xs)" "list_all P xs \<Longrightarrow> list_all P (drop n xs)"
  by (auto simp: list_all_iff dest: in_set_takeD in_set_dropD)

section \<open>Packets\<close>

lemma len_enum_bound: "pkt_len_enum n < 240"
  by (simp add: pkt_len_enum_def)

lemma BuildPacket_typed:
  "BuildPacket ck mb jid q s n sa wa p h = Inr (mb', h') \<Longrightarrow> q < 2 ^ 32 \<Longrightarrow> mbuf_typed mb'"
  using len_enum_bound[of n]
  by (auto simp: BuildPacket_def Let_def bindE_eq_Inr mbuf_typed_def)

lemma ReusePacket_typed:
  "ReusePacket ck mb q n s sa wa p h = Inr (mb', h') \<Longrightarrow> q < 2 ^ 32 \<Longrightarrow> mbuf_typed mb \<Longrightarrow> mbuf_typed mb'"
  by (auto simp: ReusePacket_def Let_def bindE_eq_Inr mbuf_typed_def)

section \<open>Operations\<close>

lemma tx_burst_typed:
  "tx_burst env pkts w = (n, w') \<Longrightarrow> worker_typed w \<Longrightarrow> list_all mbuf_typed pkts \<Longrightarrow> worker_typed w'"
  by (auto simp: tx_burst_def Let_def worker_typed_def list_all_sub comp_def)

lemma tx_loop_typed:
  "tx_loop env narrow fuel pkts sent w = Some (Inr (n, w')) \<Longrightarrow> worker_typed w \<Longrightarrow> list_all mbuf_typed pkts \<Longrightarrow> worker_typed w'"
proof (induction fuel arbitrary: sent w)
  case (Suc fuel)
  obtain n1 w1 where t: "tx_burst env (take (u16 (length pkts - sent)) (drop sent pkts)) w = (n1, w1)" by fastforce
  have "list_all mbuf_typed (take (u16 (length pkts - sent)) (drop sent pkts))"
    using Suc.prems(3) by (intro list_all_sub)
  then have "worker_typed w1" by (rule tx_burst_typed[OF t Suc.prems(2)])
  then show ?case using Suc.IH Suc.prems(1,3) t by (auto simp: Let_def split: if_splits)
qed simp

lemma flush_typed:
  assumes "tx_buffer_flush env fuel w = Some (Inr (n, w'))" and w: "worker_typed w"
  shows "worker_typed w'"
proof (cases "dk_tx_buffer w = []")
  case False
  let ?p = "dk_tx_buffer w"
  obtain k w1 where t: "tx_burst env ?p (w\<lparr>dk_tx_buffer := []\<rparr>) = (k, w1)" by fastforce
  have p: "list_all mbuf_typed ?p" "list_all mbuf_typed (drop k ?p)"
    using w by (simp_all add: worker_typed_def list_all_sub)
  have "worker_typed (w\<lparr>dk_tx_buffer := []\<rparr>)" using w by (simp add: worker_typed_def)
  then have w1: "worker_typed w1" by (rule tx_burst_typed[OF t _ p(1)])
  show ?thesis using assms(1) False t w1 tx_loop_typed[OF _ w1 p(2)]
    by (auto simp: tx_buffer_flush_def TxBufferCallback_def Let_def split: if_splits elim!: bindO_SomeE)
qed (use assms in \<open>simp add: tx_buffer_flush_def\<close>)

lemma tx_buffer_typed:
  assumes "tx_buffer env fuel mb w = Some (Inr (n, w'))" and w: "worker_typed w" and "mbuf_typed mb"
  shows "worker_typed w'"
proof -
  have "worker_typed (w\<lparr>dk_tx_buffer := dk_tx_buffer w @ [mb]\<rparr>)" using w assms(3) by (simp add: worker_typed_def)
  then show ?thesis using assms(1) by (auto simp: tx_buffer_def Let_def split: if_splits dest: flush_typed)
qed

lemma worker_typed_updates [simp]:
  "worker_typed w \<Longrightarrow> worker_typed (w\<lparr>dk_heap := h\<rparr>)" "worker_typed w \<Longrightarrow> worker_typed (w\<lparr>dk_ppp := p\<rparr>)"
  "worker_typed w \<Longrightarrow> worker_typed (w\<lparr>dk_stats := s\<rparr>)" "worker_typed w \<Longrightarrow> worker_typed (w\<lparr>dk_allocs := n\<rparr>)"
  "worker_typed w \<Longrightarrow> worker_typed (w\<lparr>dk_prev_tsc := n\<rparr>)" "worker_typed w \<Longrightarrow> worker_typed (w\<lparr>dk_cur_tsc := n\<rparr>)"
  "worker_typed w \<Longrightarrow> worker_typed (w\<lparr>dk_timer_prev_tsc := n\<rparr>)" "worker_typed w \<Longrightarrow> worker_typed (w\<lparr>dk_bitmap := bs\<rparr>)"
  "worker_typed w \<Longrightarrow> worker_typed (w\<lparr>dk_wrong := u64_add a b\<rparr>)" "worker_typed w \<Longrightarrow> worker_typed (w\<lparr>dk_correct := u64_add a b\<rparr>)"
  "worker_typed w \<Longrightarrow> worker_typed (w\<lparr>dk_sent := u64_add a b\<rparr>)" "worker_typed w \<Longrightarrow> worker_typed (w\<lparr>dk_received := u32 n\<rparr>)"
  "worker_typed w \<Longrightarrow> worker_typed (w\<lparr>dk_timers := (dk_timers w)[i := None]\<rparr>)"
  by (simp_all add: worker_typed_def list_all_update)

lemma resend_typed:
  assumes run: "ResendPacketCallback env th fuel i w = Some (Inr w')" and w: "worker_typed w"
    and i: "i < length (dk_timers w)"
  shows "worker_typed w'"
proof -
  define w1 where "w1 = (if u64_add (dk_timeouts_counter w) 1 \<ge> dk_timeout_threshold w
      then w\<lparr>dk_timeouts_counter := 0,
             dk_timeout_threshold := u64_add (dk_timeout_threshold w) (gc_timeout_threshold_increment (general (de_config env))),
             dk_timer_cycles := u64_mul (dk_timer_cycles w) 2\<rparr>
      else w\<lparr>dk_timeouts_counter := u64_add (dk_timeouts_counter w) 1\<rparr>)"
  have w1: "worker_typed w1" "dk_args w1 = dk_args w" using w by (simp_all add: w1_def worker_typed_def)
  have "args_typed (dk_args w ! i)" using w i by (simp add: worker_typed_def list_all_length)
  then have q: "ra_pkt_id (dk_args w ! i) < 2 ^ 32" by (simp add: args_typed_def)
  obtain mb0 mb h n w2 s where b: "BuildPacket (de_cksum env) mb0 (ra_job_id (dk_args w ! i)) (ra_pkt_id (dk_args w ! i)) (ra_pool_index (dk_args w ! i))
        (de_numel env) (de_switch_addr env) (dt_addr th) (dk_ppp w1) (dk_heap w1) = Inr (mb, h)"
    and t: "tx_loop env u32 fuel [mb] 0 (w1\<lparr>dk_allocs := Suc (dk_allocs w1), dk_heap := h\<rparr>) = Some (Inr (n, w2))"
    and w': "w' = w2\<lparr>dk_timers := (dk_timers w2)[i := Some (dk_timer_cycles w2)], dk_stats := s\<rparr>"
    using run unfolding ResendPacketCallback_def Let_def w1_def[symmetric]
    by (auto split: option.splits elim!: bindO_SomeE)
  have "worker_typed w2" by (rule tx_loop_typed[OF t]) (simp_all add: w1(1) BuildPacket_typed[OF b q])
  then show "worker_typed w'" by (simp add: w' worker_typed_def list_all_update)
qed

lemma timer_manage_typed:
  "timer_manage env th fuel expired w = Some (Inr w') \<Longrightarrow> worker_typed w \<Longrightarrow> worker_typed w'"
  by (induction expired arbitrary: w) (auto split: if_splits elim!: bindO_SomeE dest: resend_typed)

lemma send_next_typed:
  assumes run: "send_next env th fuel js mb q w = Some (Inr w')" and w: "worker_typed w" and mb: "mbuf_typed mb" "q < 2 ^ 32"
  shows "worker_typed w'"
proof -
  let ?pool = "PktId2PoolIndex q (dt_pool_index_start th) (dk_shift w) (dt_max_outstanding_pkts th)"
  obtain mb1 h n w1 where r: "ReusePacket (de_cksum env) mb q (de_numel env) ?pool (de_switch_addr env) (dt_addr th) (dk_ppp w) (dk_heap w) = Inr (mb1, h)"
    and t: "tx_buffer env fuel mb1 (w\<lparr>dk_heap := h\<rparr>) = Some (Inr (n, w1))"
    and w': "let w2 = (if n \<noteq> 0 then w1\<lparr>dk_sent := u64_add (dk_sent w1) n, dk_prev_tsc := dk_cur_tsc w1\<rparr> else w1)
      in w' = w2\<lparr>dk_args := (dk_args w2)[q mod dt_max_outstanding_pkts th := \<lparr>ra_job_id = slice_job js, ra_pkt_id = q, ra_pool_index = ?pool\<rparr>],
               dk_timers := (dk_timers w2)[q mod dt_max_outstanding_pkts th := Some (dk_timer_cycles w2)]\<rparr>"
    using run unfolding send_next_def Let_def by (auto elim!: bindO_SomeE)
  have w1: "worker_typed w1" by (rule tx_buffer_typed[OF t]) (simp_all add: w ReusePacket_typed[OF r mb(2,1)])
  have "args_typed \<lparr>ra_job_id = slice_job js, ra_pkt_id = q, ra_pool_index = ?pool\<rparr>" using mb(2) by (simp add: args_typed_def)
  then show ?thesis using w' w1 by (auto simp: Let_def worker_typed_def list_all_update split: if_splits)
qed

lemma handle_packet_typed:
  assumes "handle_packet env th fuel js batch N mb w = Some (Inr w')" and "worker_typed w" and "mbuf_typed mb"
  shows "worker_typed w'"
proof -
  have acc: "worker_typed (w\<lparr>dk_ppp := p, dk_heap := h, dk_received := u32 n, dk_bitmap := bs, dk_correct := u64_add c d,
      dk_timers := (dk_timers w)[i := None]\<rparr>)" for p h n bs c d i
    using assms(2) by (simp add: worker_typed_def list_all_update)
  then show ?thesis using assms send_next_typed[OF _ acc assms(3)] unfolding handle_packet_def Let_def
    by (auto split: if_splits elim!: bindO_SomeE)
qed

lemma handle_packets_typed:
  "handle_packets env th fuel js batch N mbs w = Some (Inr w') \<Longrightarrow> worker_typed w \<Longrightarrow> list_all mbuf_typed mbs \<Longrightarrow> worker_typed w'"
  by (induction mbs arbitrary: w) (auto elim!: bindO_SomeE dest: handle_packet_typed)

lemma dpdk_idle_typed: "dpdk_idle env th fuel now expired w = Some (Inr w') \<Longrightarrow> worker_typed w \<Longrightarrow> worker_typed w'"
  unfolding dpdk_idle_def Let_def
  by (auto split: if_splits elim!: bindO_SomeE dest!: flush_typed timer_manage_typed)

lemma iteration_typed:
  "dpdk_iteration env th fuel js batch N a w = Some (Inr w') \<Longrightarrow> worker_typed w \<Longrightarrow> list_all mbuf_typed (rx_mbufs a) \<Longrightarrow> worker_typed w'"
  by (auto simp: dpdk_iteration_def split: if_splits dest: dpdk_idle_typed handle_packets_typed)

lemma loop_typed:
  "dpdk_loop env th inner js batch N net running fuel k w = Some (Inr w') \<Longrightarrow> worker_typed w \<Longrightarrow>
     (\<And>k w. list_all mbuf_typed (rx_mbufs (net k w))) \<Longrightarrow> worker_typed w'"
proof (induction fuel arbitrary: k w)
  case (Suc fuel)
  then show ?case by (auto split: if_splits elim!: bindO_SomeE dest: iteration_typed)
qed simp

lemma build_first_typed:
  assumes run: "build_first env th js j w = Inr w'" and w: "worker_typed w"
  shows "worker_typed w'"
proof -
  let ?mop = "dt_max_outstanding_pkts th"
  let ?pool = "PktId2PoolIndex j (dt_pool_index_start th) (dk_shift w) ?mop"
  obtain mb h where b: "BuildPacket (de_cksum env) (dk_mbufs w ! j) (slice_job js) (u32 j) ?pool (de_numel env)
      (de_switch_addr env) (dt_addr th) (dk_ppp w) (dk_heap w) = Inr (mb, h)"
    and w': "w' = (let q = u64_add j 1; i = u16 (q mod ?mop) in
       w\<lparr>dk_mbufs := (dk_mbufs w)[j := mb], dk_heap := h,
         dk_args := (dk_args w)[i := \<lparr>ra_job_id = slice_job js, ra_pkt_id = u32 q, ra_pool_index = ?pool\<rparr>],
         dk_timers := (dk_timers w)[i := Some (u64_mul (dk_timer_cycles w) ?mop)]\<rparr>)"
    using run unfolding build_first_def Let_def by (auto simp: bindE_eq_Inr split: if_splits)
  have "mbuf_typed mb" by (rule BuildPacket_typed[OF b]) simp
  then show ?thesis using w unfolding w' Let_def by (simp add: worker_typed_def args_typed_def list_all_update)
qed

lemma build_first_batch_typed: "build_first_batch env th js k w = Inr w' \<Longrightarrow> worker_typed w \<Longrightarrow> worker_typed w'"
proof (induction k arbitrary: w')
  case (Suc k)
  then show ?case by (auto simp: bindE_eq_Inr dest: build_first_typed)
qed simp

lemma begin_typed:
  assumes "dpdk_begin env th garbage fuel js w = Some (Inr (b, N, w'))" and "worker_typed w" and "dt_initial_timer_cycles th < 2 ^ 64"
  shows "worker_typed w'"
proof -
  obtain p wb n w2 where wb: "build_first_batch env th js b (w\<lparr>dk_ppp := p, dk_bitmap := replicate (u32 N) False, dk_received := 0, dk_wire := [],
       dk_timer_cycles := dt_initial_timer_cycles th, dk_wrong := 0, dk_correct := 0, dk_sent := 0\<rparr>) = Inr wb"
    and t: "tx_loop env u16 fuel (take b (dk_mbufs wb)) 0 wb = Some (Inr (n, w2))" and w': "w' = w2\<lparr>dk_sent := u64_add (dk_sent w2) n\<rparr>"
    using assms(1) unfolding dpdk_begin_def by (auto simp: Let_def elim!: bindO_SomeE split: prod.splits if_splits)
  have "worker_typed wb" by (rule build_first_batch_typed[OF wb]) (use assms(2,3) in \<open>simp add: worker_typed_def\<close>)
  moreover from this have "list_all mbuf_typed (take b (dk_mbufs wb))" by (intro list_all_sub) (simp add: worker_typed_def)
  ultimately show ?thesis using tx_loop_typed[OF t] by (simp add: w')
qed

section \<open>The worker\<close>

text \<open>Started with well-typed buffers, the worker's state is well typed: the lengths of its arrays agree, and every counter, packet
  number, pool index, timer and header field is in the range of its type.\<close>

lemma start_typed:
  assumes "dpdk_start env addr a h s = Inr (th, w)" and "\<And>ms. da_mbufs a = Some ms \<Longrightarrow> list_all mbuf_typed ms"
    and "gc_timeout_threshold (general (de_config env)) < 2 ^ 64"
  shows "worker_typed w \<and> dt_initial_timer_cycles th < 2 ^ 64 \<and> dt_pool_index_start th < 2 ^ 32"
  using assms by (auto simp: dpdk_start_def Let_def bindE_eq_Inr fatal_if_def worker_typed_def args_typed_def list_all_length
      split: if_splits option.splits)


lemma serial_answer_typed:
  assumes "list_all mbuf_typed (map fst (dk_wire w))"
  shows "list_all mbuf_typed (rx_mbufs (serial_answer n th js data agg k w))"
proof (cases rule: serial_answer_cases[of n th js data agg k w])
  case (packet sent ps mb e t)
  then have "mbuf_typed sent" using assms by (force simp: list_all_iff)
  then show ?thesis unfolding packet(7) using packet(5) by (simp add: mbuf_typed_def)
qed simp

text \<open>A network that only ever returns well-typed packets.\<close>

abbreviation typed_net :: "dpdk_thread \<Rightarrow> dpdk_net" where
  "typed_net th k w \<equiv> (if list_all mbuf_typed (map fst (dk_wire w)) then sample_net th k w
     else \<lparr>rx_mbufs = [], rx_heap = dk_heap w, rx_tsc = 0, rx_expired = []\<rparr>)"


end
