(* ===== verification/Nccl_Plugin.thy ===== *)
theory Nccl_Plugin
  imports Client_Context Prepostprocessor "HOL-Library.Signed_Division"
begin

text \<open>
  The plugin for NCCL (frameworks_integration/nccl_plugin/switchml_plugin.cc): a collective network whose allreduce is a job of
  the SwitchML context. NCCL's own network, to which the other operations are passed on, and the allocator are
  parameters. The objects that the plugin allocates are kept in a store: using one that is not there is a crash.
\<close>

section \<open>State\<close>

datatype ncclDataType = ncclInt8 | ncclUint8 | ncclInt32 | ncclUint32 | ncclInt64 | ncclUint64 | ncclFloat16 | ncclFloat32 | ncclFloat64 | ncclOtherType nat

datatype ncclRedOp = ncclSum | ncclProd | ncclMax | ncclMin

datatype ncclResult = ncclSuccess | ncclSystemError | ncclInternalError | ncclInvalidArgument

record SwitchMLListenComm =
  lc_dev :: int
  lc_p2p_listen_comm :: ptr

record SwitchMLCollComm =
  cc_rank :: int
  cc_nranks :: int
  cc_sendcomm :: ptr
  cc_recvcomm :: ptr

record SwitchMLRequest =
  rq_dataType :: ncclDataType
  rq_sendData :: ptr
  rq_recvData :: ptr
  rq_count :: int
  rq_job :: JobId

datatype nccl_object =
    ListenObject SwitchMLListenComm
  | CollObject SwitchMLCollComm
  | MemHandle int
  | RequestObject SwitchMLRequest
  | Int32Array nat

text \<open>NCCL's network: results of its functions.\<close>

record nccl_net =
  nn_init :: ncclResult
  nn_getProperties :: "int \<Rightarrow> ncclResult"
  nn_listen :: "int \<Rightarrow> ncclResult \<times> ptr"
  nn_closeListen :: "ptr \<Rightarrow> ncclResult"
  nn_connect :: "int \<Rightarrow> ptr \<Rightarrow> ncclResult \<times> ptr"
  nn_accept :: "ptr \<Rightarrow> ncclResult \<times> ptr"
  nn_closeRecv :: "ptr \<Rightarrow> ncclResult"
  nn_closeSend :: "ptr \<Rightarrow> ncclResult"
  nn_flush :: "ptr \<Rightarrow> ptr \<Rightarrow> int \<Rightarrow> ncclResult"

text \<open>\<open>ne_address k\<close> is the address of the \<open>k\<close>-th allocation, and \<open>ne_malloc k\<close> whether NcclIbMalloc succeeds there.\<close>

record nccl_env =
  ne_net :: nccl_net
  ne_address :: "nat \<Rightarrow> ptr"
  ne_malloc :: "nat \<Rightarrow> bool"

record nccl_plugin =
  np_ctx :: Context
  np_heap :: heap
  np_objects :: "ptr \<rightharpoonup> nccl_object"
  np_allocs :: nat

definition nccl_new :: "nccl_env \<Rightarrow> nccl_object \<Rightarrow> nccl_plugin \<Rightarrow> ptr \<times> nccl_plugin" where
  "nccl_new env ob s =
     (let a = ne_address env (np_allocs s)
      in (a, s\<lparr>np_objects := (np_objects s)(a \<mapsto> ob), np_allocs := Suc (np_allocs s)\<rparr>))"

text \<open>The allocator rounds the size up to pages, clears the object and fails with a system error (nccl_plugin/utils.h).\<close>

definition NcclIbMalloc :: "nccl_env \<Rightarrow> nccl_object \<Rightarrow> nccl_plugin \<Rightarrow> (ptr \<times> nccl_plugin) option" where
  "NcclIbMalloc env ob s = (if ne_malloc env (np_allocs s) then Some (nccl_new env ob s) else None)"

definition nccl_free :: "ptr \<Rightarrow> nccl_plugin \<Rightarrow> nccl_plugin" where
  "nccl_free a s = s\<lparr>np_objects := (np_objects s)(a := None)\<rparr>"

section \<open>Types and operations\<close>

definition TypeCheck :: "ncclDataType \<Rightarrow> bool" where
  "TypeCheck type = (case type of ncclInt32 \<Rightarrow> True | ncclUint8 \<Rightarrow> True | ncclFloat32 \<Rightarrow> True | _ \<Rightarrow> False)"

definition OpCheck :: "ncclRedOp \<Rightarrow> bool" where
  "OpCheck op = (case op of ncclSum \<Rightarrow> True | _ \<Rightarrow> False)"

definition TypeSize :: "ncclDataType \<Rightarrow> int" where
  "TypeSize type =
     (case type of
        ncclInt8 \<Rightarrow> 1 | ncclUint8 \<Rightarrow> 1 | ncclFloat16 \<Rightarrow> 2 | ncclInt32 \<Rightarrow> 4 | ncclUint32 \<Rightarrow> 4 | ncclFloat32 \<Rightarrow> 4
      | ncclInt64 \<Rightarrow> 8 | ncclUint64 \<Rightarrow> 8 | ncclFloat64 \<Rightarrow> 8 | _ \<Rightarrow> -1)"

definition ncclSwitchMLReduceSupport :: "ncclDataType \<Rightarrow> ncclRedOp \<Rightarrow> ncclResult \<times> bool" where
  "ncclSwitchMLReduceSupport type op = (ncclSuccess, TypeCheck type \<and> OpCheck op)"

section \<open>Communicators\<close>

definition ncclSwitchMLInit ::
  "nccl_env \<Rightarrow> (Context \<Rightarrow> (bool \<times> Context) outcome) \<Rightarrow> nccl_plugin \<Rightarrow> (ncclResult \<times> nccl_plugin) outcome"
where
  "ncclSwitchMLInit env start s =
     bindE (start (np_ctx s)) (\<lambda>(started, c). Inr (nn_init (ne_net env), s\<lparr>np_ctx := c\<rparr>))"

definition ncclSwitchMLDevices :: "ncclResult \<times> nat" where
  "ncclSwitchMLDevices = (ncclSuccess, 1)"

text \<open>The result is also the maximal number of communicators.\<close>

definition ncclSwitchMLGetProperties :: "nccl_env \<Rightarrow> int \<Rightarrow> ncclResult \<times> nat option" where
  "ncclSwitchMLGetProperties env dev =
     (let res = nn_getProperties (ne_net env) dev in if res \<noteq> ncclSuccess then (res, None) else (ncclSuccess, Some 1))"

text \<open>Errors of the network are returned, but the object is made all the same; NcclIbMalloc fails with a system error.\<close>

definition ncclSwitchMLListen :: "nccl_env \<Rightarrow> int \<Rightarrow> nccl_plugin \<Rightarrow> (ncclResult \<times> ptr option) \<times> nccl_plugin" where
  "ncclSwitchMLListen env dev s =
     (let (status, p2p) = nn_listen (ne_net env) dev
      in case NcclIbMalloc env (ListenObject \<lparr>lc_dev = dev, lc_p2p_listen_comm = p2p\<rparr>) s of
           None \<Rightarrow> ((ncclSystemError, None), s)
         | Some (lcomm, s1) \<Rightarrow> ((status, Some lcomm), s1))"

definition ncclSwitchMLCloseListen :: "nccl_env \<Rightarrow> ptr \<Rightarrow> nccl_plugin \<Rightarrow> (ncclResult \<times> nccl_plugin) outcome" where
  "ncclSwitchMLCloseListen env listen_comm s =
     (case np_objects s listen_comm of
        Some (ListenObject l) \<Rightarrow> Inr (nn_closeListen (ne_net env) (lc_p2p_listen_comm l), nccl_free listen_comm s)
      | _ \<Rightarrow> Inl (Crash ''listen_comm''))"

text \<open>On an error the new object is not freed.\<close>

definition ncclSwitchMLConnect ::
  "nccl_env \<Rightarrow> ptr list \<Rightarrow> int \<Rightarrow> int \<Rightarrow> ptr \<Rightarrow> nccl_plugin \<Rightarrow> ((ncclResult \<times> ptr option) \<times> nccl_plugin) outcome"
where
  "ncclSwitchMLConnect env handles nranks rank listen_comm s =
     (case NcclIbMalloc env (CollObject \<lparr>cc_rank = rank, cc_nranks = nranks, cc_sendcomm = 0, cc_recvcomm = 0\<rparr>) s of
        None \<Rightarrow> Inr ((ncclSystemError, None), s)
      | Some (cc, s1) \<Rightarrow>
           if rank = -1 then Inr ((ncclInternalError, None), s1)
              else if nranks = 0 then Inl (Crash ''division by zero'')
              else case np_objects s listen_comm of
                Some (ListenObject l) \<Rightarrow>
                  let next = (rank + 1) smod nranks
                  in if next < 0 \<or> \<not> nat next < length handles then Inl (Crash ''handles[next]'')
                     else let (r1, send) = nn_connect (ne_net env) (lc_dev l) (handles ! nat next)
                          in if r1 \<noteq> ncclSuccess then Inr ((r1, None), s1)
                             else let (r2, recv) = nn_accept (ne_net env) (lc_p2p_listen_comm l)
                                  in if r2 \<noteq> ncclSuccess then Inr ((r2, None), s1)
                                     else Inr ((ncclSuccess, Some cc), s1\<lparr>np_objects := (np_objects s1)(cc \<mapsto>
                                       CollObject \<lparr>cc_rank = rank, cc_nranks = nranks, cc_sendcomm = send, cc_recvcomm = recv\<rparr>)\<rparr>)
              | _ \<Rightarrow> Inl (Crash ''listen_comm''))"

definition ncclSwitchMLCloseColl :: "nccl_env \<Rightarrow> ptr \<Rightarrow> nccl_plugin \<Rightarrow> (ncclResult \<times> nccl_plugin) outcome" where
  "ncclSwitchMLCloseColl env coll_comm s =
     (case np_objects s coll_comm of
        Some (CollObject c) \<Rightarrow>
          let r1 = nn_closeRecv (ne_net env) (cc_recvcomm c); r2 = nn_closeSend (ne_net env) (cc_sendcomm c)
          in Inr (if r1 \<noteq> ncclSuccess then (r1, s) else if r2 \<noteq> ncclSuccess then (r2, s)
                  else (ncclSuccess, nccl_free coll_comm s))
      | _ \<Rightarrow> Inl (Crash ''coll_comm''))"

definition ncclSwitchMLRegMr :: "nccl_env \<Rightarrow> int \<Rightarrow> nccl_plugin \<Rightarrow> (ncclResult \<times> ptr option) \<times> nccl_plugin" where
  "ncclSwitchMLRegMr env type s =
     (case NcclIbMalloc env (MemHandle type) s of
        None \<Rightarrow> ((ncclSystemError, None), s)
      | Some (mh, s1) \<Rightarrow> ((ncclSuccess, Some mh), s1))"

definition ncclSwitchMLDeregMr :: "ptr \<Rightarrow> nccl_plugin \<Rightarrow> (ncclResult \<times> nccl_plugin) outcome" where
  "ncclSwitchMLDeregMr mhandle s =
     (case np_objects s mhandle of
        Some (MemHandle _) \<Rightarrow> Inr (ncclSuccess, nccl_free mhandle s)
      | _ \<Rightarrow> Inl (Crash ''mhandle''))"

definition ncclSwitchMLFlush :: "nccl_env \<Rightarrow> ptr \<Rightarrow> ptr \<Rightarrow> int \<Rightarrow> nccl_plugin \<Rightarrow> ncclResult outcome" where
  "ncclSwitchMLFlush env coll_comm data sz s =
     (case np_objects s coll_comm of
        Some (CollObject c) \<Rightarrow> Inr (nn_flush (ne_net env) (cc_recvcomm c) data sz)
      | _ \<Rightarrow> Inl (Crash ''coll_comm''))"

section \<open>Allreduce\<close>

text \<open>Bytes are widened to 32 bits, and elements cut to bytes.\<close>

fun widen :: "ptr \<Rightarrow> ptr \<Rightarrow> nat \<Rightarrow> heap \<Rightarrow> heap" where
  "widen src dst 0 h = h"
| "widen src dst (Suc i) h = (let h1 = widen src dst i h in h1\<lparr>words := (words h1)(dst + 4 * i := ucast (bytes h1 (src + i)))\<rparr>)"

fun narrow :: "ptr \<Rightarrow> ptr \<Rightarrow> nat \<Rightarrow> heap \<Rightarrow> heap" where
  "narrow src dst 0 h = h"
| "narrow src dst (Suc i) h = (let h1 = narrow src dst i h in h1\<lparr>bytes := (bytes h1)(dst + i := ucast (words h1 (src + 4 * i)))\<rparr>)"

definition nccl_type :: "ncclDataType \<Rightarrow> DataType option" where
  "nccl_type t = (case t of ncclUint8 \<Rightarrow> Some INT32 | ncclInt32 \<Rightarrow> Some INT32 | ncclFloat32 \<Rightarrow> Some FLOAT32 | _ \<Rightarrow> None)"

definition nccl_op :: "ncclRedOp \<Rightarrow> AllReduceOperation option" where
  "nccl_op op = (case op of ncclSum \<Rightarrow> Some OP_SUM | _ \<Rightarrow> None)"

text \<open>The number of elements is converted to 64 bits; a negative length of an array throws.\<close>

definition ncclSwitchMLIallreduce ::
  "nccl_env \<Rightarrow> ptr \<Rightarrow> ptr \<Rightarrow> int \<Rightarrow> ncclDataType \<Rightarrow> ncclRedOp \<Rightarrow> nccl_plugin \<Rightarrow> ((ncclResult \<times> ptr option) \<times> nccl_plugin) outcome"
where
  "ncclSwitchMLIallreduce env sendData recvData n dataType redOp s =
     (case nccl_type dataType of
        None \<Rightarrow> Inr ((ncclInvalidArgument, None), s)
      | Some dt \<Rightarrow>
     (case nccl_op redOp of
        None \<Rightarrow> Inr ((ncclInvalidArgument, None), s)
      | Some op \<Rightarrow>
          let smlr = \<lparr>rq_dataType = dataType, rq_sendData = sendData, rq_recvData = recvData, rq_count = n, rq_job = 0\<rparr>;
              (r, s1) = nccl_new env (RequestObject smlr) s
          in bindE (if dataType = ncclUint8
                    then if n < 0 then Inl (Crash ''std::bad_array_new_length'')
                         else let (a, s2) = nccl_new env (Int32Array (nat n)) s1
                              in Inr (a, a, s2\<lparr>np_heap := widen sendData a (nat n) (np_heap s2)\<rparr>)
                    else Inr (sendData, recvData, s1)) (\<lambda>(inp, outp, s2).
             bindE (AllReduceAsync inp outp (nat (n mod 2 ^ 64)) dt op (np_ctx s2)) (\<lambda>(i, c).
               Inr ((ncclSuccess, Some r),
                    s2\<lparr>np_ctx := c, np_objects := (np_objects s2)(r \<mapsto> RequestObject (smlr\<lparr>rq_job := i\<rparr>))\<rparr>)))))"

text \<open>
  The results are \<open>done\<close> and \<open>size\<close>, an integer of 32 bits. The temporary array is the output of the job's tensor. The request is freed with the
  array.
\<close>

definition ncclSwitchMLTest :: "ptr \<Rightarrow> nccl_plugin \<Rightarrow> ((bool \<times> int option) \<times> nccl_plugin) outcome" where
  "ncclSwitchMLTest request s =
     (case np_objects s request of
        Some (RequestObject smlr) \<Rightarrow>
          (case ctx_jobs (np_ctx s) (rq_job smlr) of
             None \<Rightarrow> Inl (Crash ''switchml_job_ref'')
           | Some job \<Rightarrow>
               if GetJobStatus job = FINISHED
               then let n = signed_take_bit 31 (rq_count smlr * TypeSize (rq_dataType smlr))
                    in bindE (if rq_dataType smlr = ncclUint8
                              then let a = out_ptr (job_tensor job)
                                   in if np_objects s a = Some (Int32Array (nat (rq_count smlr)))
                                      then Inr (nccl_free a (s\<lparr>np_heap := narrow a (rq_recvData smlr) (nat (rq_count smlr)) (np_heap s)\<rparr>))
                                      else Inl (Crash ''int32_recv_data'')
                              else Inr s) (\<lambda>s1. Inr ((True, Some n), nccl_free request s1))
               else Inr ((False, None), s))
      | _ \<Rightarrow> Inl (Crash ''request''))"

section \<open>Properties\<close>

lemma widen_words:
  "words (widen src dst n h) a = (if \<exists>i < n. a = dst + 4 * i then ucast (bytes h (src + (a - dst) div 4)) else words h a)"
  "bytes (widen src dst n h) = bytes h"
proof -
  show b: "bytes (widen src dst n h) = bytes h" for n by (induction n) (simp_all add: Let_def)
  show "words (widen src dst n h) a = (if \<exists>i < n. a = dst + 4 * i then ucast (bytes h (src + (a - dst) div 4)) else words h a)"
    by (induction n) (auto simp: Let_def b less_Suc_eq)
qed

lemma narrow_bytes:
  "bytes (narrow src dst n h) a = (if dst \<le> a \<and> a < dst + n then ucast (words h (src + 4 * (a - dst))) else bytes h a)"
  "words (narrow src dst n h) = words h"
proof -
  show w: "words (narrow src dst n h) = words h" for n by (induction n) (simp_all add: Let_def)
  show "bytes (narrow src dst n h) a = (if dst \<le> a \<and> a < dst + n then ucast (words h (src + 4 * (a - dst))) else bytes h a)"
    by (induction n) (auto simp: Let_def w less_Suc_eq)
qed

text \<open>Cutting to bytes commutes with sums, and undoes the widening.\<close>

lemma ucast_byte_sum: "(ucast (\<Sum>w < k. (ucast (B w :: 8 word) :: 32 word)) :: 8 word) = (\<Sum>w < (k :: nat). B w)"
proof -
  have "take_bit 8 (x + y) = take_bit 8 (take_bit 32 x + take_bit 32 y)" for x y :: int
    using take_bit_add[of 8 "take_bit 32 x" "take_bit 32 y"] take_bit_add[of 8 x y] by simp
  from this[symmetric] have add: "(ucast (x + y :: 32 word) :: 8 word) = ucast x + ucast y" for x y
    by transfer (simp add: take_bit_add)
  have byte: "(ucast (ucast (x :: 8 word) :: 32 word) :: 8 word) = x" for x by transfer simp
  show ?thesis by (induction k) (simp_all add: add byte)
qed

text \<open>New objects get addresses that are not in use.\<close>

definition fresh_addresses :: "nccl_env \<Rightarrow> nccl_plugin \<Rightarrow> bool" where
  "fresh_addresses env s \<longleftrightarrow> inj (ne_address env) \<and> (\<forall>k \<ge> np_allocs s. np_objects s (ne_address env k) = None)"

lemma Iallreduce_uint8:
  assumes fresh: "fresh_addresses env s" and n: "n \<ge> 0" "n < 2 ^ 31"
    and run: "ncclSwitchMLIallreduce env sd rd n ncclUint8 ncclSum s = Inr ((ncclSuccess, Some r), s1)"
  obtains a i j where "r \<noteq> a" "np_objects s r = None" "np_objects s a = None"
    "np_objects s1 = (np_objects s)(r \<mapsto> RequestObject \<lparr>rq_dataType = ncclUint8, rq_sendData = sd, rq_recvData = rd, rq_count = n, rq_job = i\<rparr>,
       a \<mapsto> Int32Array (nat n))"
    "np_heap s1 = widen sd a (nat n) (np_heap s)" "ctx_jobs (np_ctx s1) i = Some j" "job_status j = QUEUED"
    "job_tensor j = \<lparr>in_ptr = a, out_ptr = a, numel = nat n, data_type = INT32\<rparr>"
proof -
  let ?r = "ne_address env (np_allocs s)" and ?a = "ne_address env (Suc (np_allocs s))"
  have d: "?r \<noteq> ?a" "np_objects s ?r = None" "np_objects s ?a = None"
    using fresh by (auto simp: fresh_addresses_def dest: injD)
  obtain i c where ar: "AllReduceAsync ?a ?a (nat n) INT32 OP_SUM (np_ctx s) = Inr (i, c)"
    and s1: "r = ?r" "np_ctx s1 = c" "np_heap s1 = widen sd ?a (nat n) (np_heap s)"
    "np_objects s1 = (np_objects s)(?r \<mapsto> RequestObject \<lparr>rq_dataType = ncclUint8, rq_sendData = sd, rq_recvData = rd, rq_count = n, rq_job = 0\<rparr>,
       ?a \<mapsto> Int32Array (nat n), ?r \<mapsto> RequestObject \<lparr>rq_dataType = ncclUint8, rq_sendData = sd, rq_recvData = rd, rq_count = n, rq_job = i\<rparr>)"
    using run n by (auto simp: ncclSwitchMLIallreduce_def nccl_type_def nccl_op_def nccl_new_def Let_def bindE_eq_Inr mod_pos_pos_trivial)
  obtain j where "ctx_jobs c i = Some j" "job_status j = QUEUED" "job_tensor j = \<lparr>in_ptr = ?a, out_ptr = ?a, numel = nat n, data_type = INT32\<rparr>"
    using AllReduceAsync_job[OF ar] by blast
  moreover have "np_objects s1 = (np_objects s)(?r \<mapsto> RequestObject \<lparr>rq_dataType = ncclUint8, rq_sendData = sd, rq_recvData = rd, rq_count = n, rq_job = i\<rparr>,
       ?a \<mapsto> Int32Array (nat n))" using s1(4) d(1) by (auto simp: fun_eq_iff)
  ultimately show thesis using that[of ?a i j] d s1 by simp
qed

lemma Test_uint8:
  assumes r: "np_objects s r = Some (RequestObject \<lparr>rq_dataType = ncclUint8, rq_sendData = sd, rq_recvData = rd, rq_count = n, rq_job = i\<rparr>)"
    and a: "np_objects s a = Some (Int32Array (nat n))" and j: "ctx_jobs (np_ctx s) i = Some j" "job_status j = FINISHED" "out_ptr (job_tensor j) = a"
    and n: "0 \<le> n" "n < 2 ^ 31"
  shows "ncclSwitchMLTest r s = Inr ((True, Some n), nccl_free r (nccl_free a (s\<lparr>np_heap := narrow a rd (nat n) (np_heap s)\<rparr>)))"
proof -
  have "signed_take_bit 31 n = n" using n by (simp add: signed_take_bit_int_eq_self_iff)
  then show ?thesis using assms by (simp add: ncclSwitchMLTest_def GetJobStatus_def TypeSize_def)
qed


definition sample_nccl_env :: nccl_env where
  "sample_nccl_env =
     \<lparr>ne_net = \<lparr>nn_init = ncclSuccess, nn_getProperties = (\<lambda>_. ncclSuccess), nn_listen = (\<lambda>_. (ncclSuccess, 1)),
        nn_closeListen = (\<lambda>_. ncclSuccess), nn_connect = (\<lambda>_ _. (ncclSuccess, 2)), nn_accept = (\<lambda>_. (ncclSuccess, 3)),
        nn_closeRecv = (\<lambda>_. ncclSuccess), nn_closeSend = (\<lambda>_. ncclSuccess), nn_flush = (\<lambda>_ _ _. ncclSuccess)\<rparr>,
      ne_address = (\<lambda>k. 4096 * (k + 1)), ne_malloc = (\<lambda>_. True)\<rparr>"

definition sample_plugin :: nccl_plugin where
  "sample_plugin =
     \<lparr>np_ctx = (new_Context default_Config)\<lparr>context_state := CTX_RUNNING, ctx_scheduler := Some (new_FifoScheduler 2)\<rparr>,
      np_heap = \<lparr>words = (\<lambda>_. 0), bytes = (\<lambda>a. of_nat a)\<rparr>, np_objects = Map.empty, np_allocs = 0\<rparr>"


text \<open>The test of a request whose job has failed is negative for ever: it changes nothing.\<close>

lemma failed_request_never_done:
  assumes "np_objects s r = Some (RequestObject q)" and "ctx_jobs (np_ctx s) (rq_job q) = Some j" and "job_status j = FAILED"
  shows "ncclSwitchMLTest r s = Inr ((False, None), s)"
  using assms by (simp add: ncclSwitchMLTest_def GetJobStatus_def)

text \<open>Exactly the reductions that ReduceSupport reports are accepted.\<close>

lemma support_matches: "TypeCheck t \<and> OpCheck op \<longleftrightarrow> nccl_type t \<noteq> None \<and> nccl_op op \<noteq> None"
  by (auto simp: TypeCheck_def OpCheck_def nccl_type_def nccl_op_def split: ncclDataType.splits ncclRedOp.splits)

text \<open>The network is opened and closed again without leaving an object; the handle that is connected is that of the next rank.\<close>

lemma nccl_ring:
  assumes "0 \<le> rank" "rank < nranks" "length handles = nat nranks" "ne_malloc env (np_allocs s)"
    and "np_objects s lc = Some (ListenObject l)" "lc \<noteq> ne_address env (np_allocs s)"
    and "nn_connect (ne_net env) (lc_dev l) (handles ! (if rank + 1 = nranks then 0 else nat rank + 1)) = (ncclSuccess, send)"
    and "nn_accept (ne_net env) (lc_p2p_listen_comm l) = (ncclSuccess, recv)"
  shows "ncclSwitchMLConnect env handles nranks rank lc s =
     (let cc = ne_address env (np_allocs s)
      in Inr ((ncclSuccess, Some cc), s\<lparr>np_allocs := Suc (np_allocs s), np_objects := (np_objects s)(cc \<mapsto>
           CollObject \<lparr>cc_rank = rank, cc_nranks = nranks, cc_sendcomm = send, cc_recvcomm = recv\<rparr>)\<rparr>))"
proof -
  have "nat ((rank + 1) smod nranks) = (if rank + 1 = nranks then 0 else nat rank + 1)" "\<not> (rank + 1) smod nranks < 0"
    "(rank + 1) smod nranks < nranks"
    using assms(1,2) pos_mod_sign[of nranks "rank + 1"] by (auto simp: smod_int_alt_def sgn_if nat_add_distrib linorder_not_less)
  then show ?thesis using assms by (auto simp: ncclSwitchMLConnect_def NcclIbMalloc_def nccl_new_def Let_def)
qed

lemma nccl_closes:
  assumes "np_objects s a = None" "a = ne_address env (np_allocs s)"
    and "ncclSwitchMLListen env dev s = ((ncclSuccess, Some a), s1)"
  obtains "ncclSwitchMLCloseListen env a s1 = Inr (nn_closeListen (ne_net env) (snd (nn_listen (ne_net env) dev)), s1\<lparr>np_objects := np_objects s\<rparr>)"
  using assms by (auto simp: ncclSwitchMLListen_def NcclIbMalloc_def ncclSwitchMLCloseListen_def nccl_new_def nccl_free_def Let_def
      fun_upd_idem split: if_splits prod.splits)

lemma nccl_connect_leaks:
  assumes "ne_malloc env (np_allocs s)" and "rank = -1"
  shows "\<exists>s1. ncclSwitchMLConnect env handles nranks rank lc s = Inr ((ncclInternalError, None), s1) \<and>
     np_objects s1 (ne_address env (np_allocs s)) \<noteq> None"
  using assms by (simp add: ncclSwitchMLConnect_def NcclIbMalloc_def nccl_new_def Let_def)

end
