(* ===== verification/Torch_Plugin.thy ===== *)
theory Torch_Plugin
  imports Client_Context Prepostprocessor
begin

text \<open>
  The process group for PyTorch (frameworks_integration/pytorch_plugin/ProcessGroupSML.cpp): an allreduce is a job on the
  tensor's data, or on a copy in pinned host memory of a tensor on the GPU, which is copied back afterwards. The
  constructor of the work blocks until the job is done; it is split there. Tensors are contiguous and have
  elements of 4 bytes; streams and events order the copies and only the number of events is kept.
\<close>

section \<open>State\<close>

datatype ScalarType = kFloat | kInt | OtherScalar nat

datatype ReduceOp = ReduceSum | OtherReduce nat

record torch_tensor =
  tt_cuda :: bool
  tt_type :: ScalarType
  tt_numel :: nat
  tt_data :: ptr

text \<open>The vectors of tensors belong to the callers; one that has been deallocated is not in the store.\<close>

record torch_state =
  ts_ctx :: Context
  ts_host :: memory
  ts_device :: memory
  ts_vectors :: "ptr \<rightharpoonup> torch_tensor list"

record WorkSML =
  wk_tensors :: ptr
  wk_host_tensors :: "torch_tensor list"
  wk_events :: nat
  wk_job :: JobId
  wk_on_cuda :: bool

section \<open>Operations\<close>

definition getSmlDataType :: "ScalarType \<Rightarrow> DataType outcome" where
  "getSmlDataType t =
     (case t of kFloat \<Rightarrow> Inr FLOAT32 | kInt \<Rightarrow> Inr INT32 | _ \<Rightarrow> Inl (Fatal ''Input tensor data type is not supported''))"

definition first_tensor :: "ptr \<Rightarrow> torch_state \<Rightarrow> torch_tensor outcome" where
  "first_tensor v s =
     (case ts_vectors s v of
        None \<Rightarrow> Inl (Crash ''dangling tensors_'')
      | Some ts \<Rightarrow> (case ts of [] \<Rightarrow> Inl (Crash ''tensors_[0]'') | t # _ \<Rightarrow> Inr t))"

text \<open>A host tensor like the given one, in pinned memory at \<open>pinned\<close>.\<close>

definition pinnedLike :: "ptr \<Rightarrow> torch_tensor \<Rightarrow> torch_tensor" where
  "pinnedLike pinned t = t\<lparr>tt_cuda := False, tt_data := pinned\<rparr>"

text \<open>The constructor up to the wait for the job.\<close>

definition WorkSML_submit :: "ptr \<Rightarrow> ptr \<Rightarrow> torch_state \<Rightarrow> (WorkSML \<times> torch_state) outcome" where
  "WorkSML_submit pinned v s =
     bindE (first_tensor v s) (\<lambda>t.
       let (hosts, events, s1) =
             (if tt_cuda t then ([pinnedLike pinned t], 1, s\<lparr>ts_host := copy_elements (ts_device s) (tt_data t) pinned (tt_numel t) (ts_host s)\<rparr>)
              else ([], 0, s));
           data_ptr = (if tt_cuda t then pinned else tt_data t)
       in bindE (getSmlDataType (tt_type t)) (\<lambda>dt.
          bindE (AllReduceAsync data_ptr data_ptr (tt_numel t) dt OP_SUM (ts_ctx s1)) (\<lambda>(i, c).
            Inr (\<lparr>wk_tensors = v, wk_host_tensors = hosts, wk_events = events, wk_job = i, wk_on_cuda = tt_cuda t\<rparr>,
                 s1\<lparr>ts_ctx := c\<rparr>))))"

text \<open>The rest of the constructor, once the job is done: \<open>None\<close> while it is not.\<close>

definition WorkSML_finish :: "WorkSML \<Rightarrow> torch_state \<Rightarrow> torch_state outcome option" where
  "WorkSML_finish wk s =
     (case ctx_jobs (ts_ctx s) (wk_job wk) of
        None \<Rightarrow> Some (Inl (Crash ''sml_job_''))
      | Some j \<Rightarrow>
          if \<not> WaitToComplete_done j then None
          else Some (if wk_on_cuda wk
            then bindE (first_tensor (wk_tensors wk) s) (\<lambda>t.
                   case wk_host_tensors wk of
                     [] \<Rightarrow> Inl (Crash ''host_tensors_[0]'')
                   | h # _ \<Rightarrow> Inr (s\<lparr>ts_device := copy_elements (ts_host s) (tt_data h) (tt_data t) (tt_numel t) (ts_device s)\<rparr>))
            else Inr s))"

text \<open>\<open>ready\<close> is the answer of the first event, if there is one.\<close>

definition query_event :: "bool \<Rightarrow> WorkSML \<Rightarrow> bool outcome" where
  "query_event ready wk = (if wk_events wk = 0 then Inl (Crash ''events_[0]'') else Inr ready)"

definition work_status :: "WorkSML \<Rightarrow> torch_state \<Rightarrow> JobStatus outcome" where
  "work_status wk s =
     (case ctx_jobs (ts_ctx s) (wk_job wk) of None \<Rightarrow> Inl (Crash ''sml_job_'') | Some j \<Rightarrow> Inr (GetJobStatus j))"

definition WorkSML_isCompleted :: "bool \<Rightarrow> WorkSML \<Rightarrow> torch_state \<Rightarrow> bool outcome" where
  "WorkSML_isCompleted ready wk s =
     bindE (work_status wk s) (\<lambda>st. if st = FINISHED \<or> st = FAILED then query_event ready wk else Inr False)"

definition WorkSML_isSuccess :: "bool \<Rightarrow> WorkSML \<Rightarrow> torch_state \<Rightarrow> bool outcome" where
  "WorkSML_isSuccess ready wk s =
     bindE (work_status wk s) (\<lambda>st. if st = FINISHED then query_event ready wk else Inr False)"

definition WorkSML_wait :: "WorkSML \<Rightarrow> torch_state \<Rightarrow> bool" where
  "WorkSML_wait wk s = True"

text \<open>The result reads the caller's vector again.\<close>

definition WorkSML_result :: "WorkSML \<Rightarrow> torch_state \<Rightarrow> torch_tensor list outcome" where
  "WorkSML_result wk s = (case ts_vectors s (wk_tensors wk) of None \<Rightarrow> Inl (Crash ''dangling tensors_'') | Some ts \<Rightarrow> Inr ts)"

definition WorkSML_getFuture :: "unit outcome" where
  "WorkSML_getFuture = Inl (Fatal ''ProcessGroupSML does not support the getFuture API'')"

text \<open>The constructor of the group starts the context; whether it was already started is ignored.\<close>

definition new_ProcessGroupSML :: "(Context \<Rightarrow> (bool \<times> Context) outcome) \<Rightarrow> torch_state \<Rightarrow> torch_state outcome" where
  "new_ProcessGroupSML start s = bindE (start (ts_ctx s)) (\<lambda>(started, c). Inr (s\<lparr>ts_ctx := c\<rparr>))"

definition ProcessGroupSML_allreduce :: "ptr \<Rightarrow> ptr \<Rightarrow> ReduceOp \<Rightarrow> torch_state \<Rightarrow> (WorkSML \<times> torch_state) outcome" where
  "ProcessGroupSML_allreduce pinned v op s =
     (case ts_vectors s v of
        None \<Rightarrow> Inl (Crash ''dangling tensors'')
      | Some ts \<Rightarrow>
          if length ts \<noteq> 1 then Inl (Fatal ''The number of tensors must be equal to 1'')
          else if op \<noteq> ReduceSum then Inl (Fatal ''Switchml only supports summation allreduce'')
          else WorkSML_submit pinned v s)"

section \<open>Properties\<close>

lemma torch_submitted:
  assumes "ProcessGroupSML_allreduce pinned v op s = Inr (wk, s1)"
  obtains t dt i c where "ts_vectors s v = Some [t]" "op = ReduceSum" "getSmlDataType (tt_type t) = Inr dt"
    "AllReduceAsync (if tt_cuda t then pinned else tt_data t) (if tt_cuda t then pinned else tt_data t) (tt_numel t) dt OP_SUM (ts_ctx s) = Inr (i, c)"
    "wk = \<lparr>wk_tensors = v, wk_host_tensors = (if tt_cuda t then [pinnedLike pinned t] else []), wk_events = (if tt_cuda t then 1 else 0),
       wk_job = i, wk_on_cuda = tt_cuda t\<rparr>"
    "s1 = s\<lparr>ts_host := (if tt_cuda t then copy_elements (ts_device s) (tt_data t) pinned (tt_numel t) (ts_host s) else ts_host s), ts_ctx := c\<rparr>"
proof -
  obtain t where t: "ts_vectors s v = Some [t]" "op = ReduceSum"
    using assms by (auto simp: ProcessGroupSML_allreduce_def length_Suc_conv split: option.splits if_splits)
  then have run: "WorkSML_submit pinned v s = Inr (wk, s1)" using assms by (simp add: ProcessGroupSML_allreduce_def)
  show thesis
  proof (cases "tt_cuda t")
    case True
    then show thesis using run t that by (auto simp: WorkSML_submit_def first_tensor_def Let_def bindE_eq_Inr)
  next
    case False
    then show thesis using run t that by (auto simp: WorkSML_submit_def first_tensor_def Let_def bindE_eq_Inr)
  qed
qed


text \<open>C35: For a tensor in host memory no event is made, but the status functions ask the first event once the job is done: they read
  beyond an empty vector. Waiting reports success all the same, also when the job has failed.\<close>
theorem torch_cpu_status_crashes:
  assumes "ProcessGroupSML_allreduce pinned v op s = Inr (wk, s1)" and "ts_vectors s v = Some [t]" and "\<not> tt_cuda t"
    and "ctx_jobs (ts_ctx s2) (wk_job wk) = Some j" and "WaitToComplete_done j"
  shows "WorkSML_finish wk s2 = Some (Inr s2) \<and> WorkSML_wait wk s2 \<and>
     WorkSML_isCompleted ready wk s2 = Inl (Crash ''events_[0]'') \<and>
     WorkSML_isSuccess ready wk s2 = (if job_status j = FINISHED then Inl (Crash ''events_[0]'') else Inr False)"
proof -
  have "wk_events wk = 0 \<and> \<not> wk_on_cuda wk" by (rule torch_submitted[OF assms(1)]) (use assms(2,3) in auto)
  then show ?thesis using assms(4,5)
    by (auto simp: WorkSML_finish_def WorkSML_wait_def WorkSML_isCompleted_def WorkSML_isSuccess_def work_status_def query_event_def
        GetJobStatus_def WaitToComplete_done_def)
qed

text \<open>The caller's vector is gone after the call: the result cannot be read.\<close>

lemma torch_result_dangles:
  assumes "ProcessGroupSML_allreduce pinned v op s = Inr (wk, s1)" and "ts_vectors s2 v = None"
  shows "WorkSML_result wk s2 = Inl (Crash ''dangling tensors_'')"
  by (rule torch_submitted[OF assms(1)]) (use assms(2) in \<open>simp add: WorkSML_result_def\<close>)

section \<open>Concrete runs\<close>

definition sample_torch :: "bool \<Rightarrow> torch_state" where
  "sample_torch cuda =
     \<lparr>ts_ctx = (new_Context default_Config)\<lparr>context_state := CTX_RUNNING, ctx_scheduler := Some (new_FifoScheduler 2)\<rparr>,
      ts_host = (\<lambda>_. 0), ts_device = (\<lambda>a. of_nat a),
      ts_vectors = [8 \<mapsto> [\<lparr>tt_cuda = cuda, tt_type = kInt, tt_numel = 5, tt_data = 400\<rparr>]]\<rparr>"

lemma sample_torch_runs: "\<exists>wk s1. ProcessGroupSML_allreduce 1000 8 ReduceSum (sample_torch cuda) = Inr (wk, s1)"
  by (cases cuda; simp add: ProcessGroupSML_allreduce_def WorkSML_submit_def first_tensor_def getSmlDataType_def AllReduceAsync_def
      AllReduceAsync_create_def AllReduceAsync_enqueue_def on_scheduler_def EnqueueJob_def set_job_status_def SetJobStatus_def new_Job_def
      sample_torch_def new_Context_def less_JobStatus_def Let_def)


lemma torch_cpu_status_crashes_witness:
  "\<exists>wk s1 s2. ProcessGroupSML_allreduce 1000 8 ReduceSum (sample_torch False) = Inr (wk, s1) \<and>
     WorkSML_isCompleted True wk s2 = Inl (Crash ''events_[0]'')"
proof -
  obtain wk s1 where run: "ProcessGroupSML_allreduce 1000 8 ReduceSum (sample_torch False) = Inr (wk, s1)" using sample_torch_runs by blast
  define j where "j = (fst (new_Job 0 \<lparr>in_ptr = 1000, out_ptr = 1000, numel = 5, data_type = INT32\<rparr> ALLREDUCE (allreduce_operation OP_SUM)))\<lparr>job_status := FAILED\<rparr>"
  define s2 where "s2 = s1\<lparr>ts_ctx := (ts_ctx s1)\<lparr>ctx_jobs := [wk_job wk \<mapsto> j]\<rparr>\<rparr>"
  have "WorkSML_isCompleted True wk s2 = Inl (Crash ''events_[0]'')"
    using torch_cpu_status_crashes[OF run, of _ s2 j True] by (simp add: sample_torch_def s2_def j_def WaitToComplete_done_def)
  then show ?thesis using run by blast
qed

end
