(* ===== verification/Stats_Report.thy ===== *)
theory Stats_Report
  imports Client_Stats Ieee_Float Grpc_Client Dpdk_Utils
begin

text \<open>
  What the library prints: the report of the statistics (client_lib/src/stats.cc: LogStats, DescribeIntList, DescribeFloatList,
  List2Str) and the messages to and from the controller (client_lib/src/grpc_client.cc). Doubles are the numbers of
  \<open>Ieee_Float\<close>; the square root is rounded correctly, as IEEE 754 requires.
\<close>

section \<open>Square roots\<close>

text \<open>The integer square root of \<open>n\<close>, bit by bit from bit \<open>k - 1\<close>.\<close>

fun isqrt :: "nat \<Rightarrow> nat \<Rightarrow> nat \<Rightarrow> nat" where
  "isqrt 0 n a = a"
| "isqrt (Suc k) n a = isqrt k n (if (a + 2 ^ k) * (a + 2 ^ k) \<le> n then a + 2 ^ k else a)"

text \<open>The number is scaled by a power of four to 121 or 122 bits; half a unit stands for the rest of an inexact root, of which 61 bits are
  computed. Only 53 are kept.\<close>

definition sqrt_approx :: "rat \<Rightarrow> rat" where
  "sqrt_approx x =
     (let j = (ilog2_up 2098 (- 1074) x - 120) div 2;
          y = x / pow2 (2 * j);
          r = isqrt 61 (nat \<lfloor>y\<rfloor>) 0
      in (of_nat r + (if of_nat (r * r) = y then 0 else 1 / 2)) * pow2 j)"

fun fp_sqrt :: "fp \<Rightarrow> fp" where
  "fp_sqrt NaN = NaN"
| "fp_sqrt (Inf s) = (if s then NaN else Inf False)"
| "fp_sqrt (Fin s x) = (if x = 0 then Fin s 0 else if s then NaN else round64 False (sqrt_approx x))"

section \<open>Numbers as text\<close>

text \<open>\<open>%ld\<close> prints its argument as a signed number; \<open>%.4f\<close> rounds the exact value to four digits.\<close>

definition long_text :: "nat \<Rightarrow> string" where
  "long_text n = (if n < 2 ^ 63 then nat_string n else CHR ''-'' # nat_string (2 ^ 64 - n))"

definition digit_text :: "nat \<Rightarrow> char" where
  "digit_text d = char_of (48 + d mod 10)"

definition fixed4 :: "fp \<Rightarrow> string" where
  "fixed4 v =
     (case v of
        NaN \<Rightarrow> ''nan''
      | Inf s \<Rightarrow> (if s then ''-inf'' else ''inf'')
      | Fin s x \<Rightarrow>
          (let n = nat (rne (x * 10000))
           in (if s then ''-'' else '''') @ nat_string (n div 10000) @ ''.'' @
              map digit_text [n div 1000, n div 100, n div 10, n]))"

text \<open>Left-justified in a field of ten characters.\<close>

definition field10 :: "string \<Rightarrow> string" where
  "field10 s = s @ replicate (10 - length s) CHR '' ''"

text \<open>A buffer of 200 characters, with the terminating null.\<close>

definition into_buffer :: "string \<Rightarrow> string outcome" where
  "into_buffer s = (if length s < 200 then Inr s else Inl (Crash ''buffer overflow''))"

section \<open>Lists\<close>

definition List2Str :: "nat list \<Rightarrow> string" where
  "List2Str xs = ''['' @ concat (map (\<lambda>n. nat_string n @ '','') xs) @ '']''"

definition std_dev :: "fp \<Rightarrow> fp list \<Rightarrow> fp" where
  "std_dev mean xs =
     (let diff = map (\<lambda>x. fp_sub round64 x mean) xs;
          sq_sum = foldl (\<lambda>acc d. fp_add round64 acc (fp_mul round64 d d)) (Fin False 0) diff
      in fp_sqrt (fp_div round64 sq_sum (fp_of_int round64 (int (length xs)))))"

definition DescribeIntList_text :: "nat list \<Rightarrow> string outcome" where
  "DescribeIntList_text xs =
     (case DescribeIntList xs of
        None \<Rightarrow> Inr ''''
      | Some d \<Rightarrow>
          let mean = fp_of_int round64 (int (d_mean d))
          in into_buffer (''Sum: '' @ field10 (long_text (d_sum d)) @ '' Mean: '' @ field10 (fixed4 mean) @
               '' Max: '' @ field10 (long_text (d_max d)) @ '' Min: '' @ field10 (long_text (d_min d)) @
               '' Median: '' @ field10 (long_text (d_median d)) @
               '' Stdev: '' @ field10 (fixed4 (std_dev mean (map (\<lambda>x. fp_of_int round64 (int x)) xs)))))"

text \<open>The greatest and the least element as the library finds them: the first one that no later one exceeds.\<close>

definition fp_max_element :: "fp \<Rightarrow> fp list \<Rightarrow> fp" where
  "fp_max_element x xs = foldl (\<lambda>m y. if fp_greater y m then y else m) x xs"

definition fp_min_element :: "fp \<Rightarrow> fp list \<Rightarrow> fp" where
  "fp_min_element x xs = foldl (\<lambda>m y. if fp_greater m y then y else m) x xs"

fun fp_insort :: "fp \<Rightarrow> fp list \<Rightarrow> fp list" where
  "fp_insort x [] = [x]"
| "fp_insort x (y # ys) = (if fp_greater x y then y # fp_insort x ys else x # y # ys)"

definition DescribeFloatList :: "fp list \<Rightarrow> string outcome" where
  "DescribeFloatList xs =
     (case xs of
        [] \<Rightarrow> Inr ''''
      | x # rest \<Rightarrow>
          let sum = foldl (fp_add round64) (Fin False 0) xs;
              mean = fp_div round64 sum (fp_of_int round64 (int (length xs)));
              median = foldr fp_insort xs [] ! (length xs div 2)
          in into_buffer (''Sum: '' @ field10 (fixed4 sum) @ '' Mean: '' @ field10 (fixed4 mean) @
               '' Max: '' @ field10 (fixed4 (fp_max_element x rest)) @ '' Min: '' @ field10 (fixed4 (fp_min_element x rest)) @
               '' Median: '' @ field10 (fixed4 median) @ '' Stdev: '' @ field10 (fixed4 (std_dev mean xs))))"

section \<open>The report\<close>

definition counter_text :: "nat list option \<Rightarrow> nat \<Rightarrow> nat outcome" where
  "counter_text arr i =
     (case arr of None \<Rightarrow> Inl (Crash ''null array'')
      | Some xs \<Rightarrow> if i < length xs then Inr (xs ! i) else Inl (Crash ''array index out of bounds''))"

definition newline :: string where
  "newline = [char_of (10 :: nat)]"

definition worker_report :: "Stats \<Rightarrow> nat \<Rightarrow> string outcome" where
  "worker_report s i =
     bindE (counter_text (total_pkts_sent s) i) (\<lambda>sent.
     bindE (counter_text (wrong_pkts_received s) i) (\<lambda>wrong.
     bindE (counter_text (correct_pkts_received s) i) (\<lambda>correct.
     bindE (counter_text (timeouts_num s) i) (\<lambda>timeouts.
       Inr (newline @ ''    Worker thread: #'' @ nat_string i @ ''#'' @
            newline @ ''        Total packets sent: #'' @ nat_string sent @ ''#'' @
            newline @ ''        Total packets received: #'' @ nat_string (u64_add wrong correct) @ ''#'' @
            newline @ ''        Wrong packets received: #'' @ nat_string wrong @ ''#'' @
            newline @ ''        Correct packets received: #'' @ nat_string correct @ ''#'' @
            newline @ ''        Number of timeouts: #'' @ nat_string timeouts @ ''#'')))))"

fun worker_reports :: "Stats \<Rightarrow> nat \<Rightarrow> string outcome" where
  "worker_reports s 0 = Inr ''''"
| "worker_reports s (Suc i) = bindE (worker_reports s i) (\<lambda>t. bindE (worker_report s i) (\<lambda>u. Inr (t @ u)))"

definition LogStats :: "Stats \<Rightarrow> string outcome" where
  "LogStats s =
     bindE (DescribeIntList_text (jobs_submitted_numel s)) (\<lambda>sizes.
     bindE (worker_reports s (st_num_worker_threads s)) (\<lambda>workers.
       Inr (''Stats: '' @
            newline @ ''    Submitted jobs: #'' @ nat_string (jobs_submitted_num s) @ ''#'' @
            newline @ ''    Submitted jobs sizes: #'' @ List2Str (jobs_submitted_numel s) @ ''#'' @
            newline @ ''    Submitted jobs sizes distribution: #'' @ sizes @ ''#'' @
            newline @ ''    Finished jobs: #'' @ nat_string (jobs_finished_num s) @ ''#'' @ workers)))"

section \<open>Messages\<close>

text \<open>After the first \<open>std::hex\<close> every number is hexadecimal. The loop over the queue pair numbers indexes the sequence numbers too.\<close>

definition print_BarrierRequest :: "nat \<Rightarrow> string" where
  "print_BarrierRequest n = ''<BarrierRequest num_workers=0x'' @ hex_string n @ ''>''"

definition print_BarrierResponse :: string where
  "print_BarrierResponse = ''<BarrierResponse>''"

definition print_BroadcastRequest :: "BroadcastRequest \<Rightarrow> string" where
  "print_BroadcastRequest r =
     ''<BroadcastRequest value=0x'' @ hex_string (br_value r) @ '' rank=0x'' @ hex_string (br_rank r) @
     '' num_workers=0x'' @ hex_string (br_num_workers r) @ '' root=0x'' @ hex_string (br_root r) @ ''>''"

definition print_BroadcastResponse :: "nat \<Rightarrow> string" where
  "print_BroadcastResponse v = ''<BcastResponse value=0x'' @ hex_string v @ ''>''"

fun print_pairs :: "32 word list \<Rightarrow> 32 word list \<Rightarrow> string outcome" where
  "print_pairs [] psns = Inr ''''"
| "print_pairs (q # qpns) [] = Inl (Crash ''psns index out of bounds'')"
| "print_pairs (q # qpns) (p # psns) =
     bindE (print_pairs qpns psns) (\<lambda>t. Inr ('' qpn=0x'' @ hex_string (unat q) @ '' psn=0x'' @ hex_string (unat p) @ t))"

definition print_RdmaSessionRequest :: "RdmaSessionRequest \<Rightarrow> string outcome" where
  "print_RdmaSessionRequest r =
     bindE (print_pairs (rq_qpns r) (rq_psns r)) (\<lambda>t.
       Inr (''<RDMASessionRequest session_id='' @ hex_string (rq_session_id r) @ '' rank='' @ hex_string (rq_rank r) @
            '' num_workers='' @ hex_string (rq_num_workers r) @ '' mac=0x'' @ hex_string (unat (rq_mac r)) @
            '' ipv4=0x'' @ hex_string (unat (rq_ipv4 r)) @ '' rkey=0x'' @ hex_string (unat (rq_rkey r)) @
            '' packet_size=0x'' @ hex_string (rq_packet_size r) @ '' message_size=0x'' @ hex_string (rq_message_size r) @ t @ ''>''))"

definition print_RdmaSessionResponse :: "RdmaSessionResponse \<Rightarrow> string outcome" where
  "print_RdmaSessionResponse r =
     bindE (print_pairs (rs_qpns r) (rs_psns r)) (\<lambda>t.
       Inr (''<RDMASesssionResponse session_id='' @ hex_string (rs_session_id r) @ '' mac='' @ hex_string (unat (rs_mac r)) @
            '' ipv4='' @ hex_string (unat (rs_ipv4 r)) @ '' rkey='' @ hex_string (unat (rs_rkey r)) @ t @ ''>''))"

definition print_UdpSessionRequest :: "UdpSessionRequest \<Rightarrow> string" where
  "print_UdpSessionRequest r =
     ''<UDPSessionRequest session_id='' @ hex_string (uq_session_id r) @ '' rank='' @ hex_string (uq_rank r) @
     '' num_workers='' @ hex_string (uq_num_workers r) @ '' mac=0x'' @ hex_string (unat (uq_mac r)) @
     '' ipv4=0x'' @ hex_string (unat (uq_ipv4 r)) @ '' packet_size=0x'' @ hex_string (uq_packet_size r) @ ''>''"

definition print_UdpSessionResponse :: "UdpSessionResponse \<Rightarrow> string" where
  "print_UdpSessionResponse r =
     ''<UDPSessionResponse session_id='' @ hex_string (us_session_id r) @ '' mac='' @ hex_string (unat (us_mac r)) @
     '' ipv4='' @ hex_string (unat (us_ipv4 r)) @ ''>''"

section \<open>Lengths of numbers\<close>

declare nat_string.simps [simp del]

lemma nat_string_length: "n < 10 ^ k \<Longrightarrow> 0 < k \<Longrightarrow> length (nat_string n) \<le> k"
proof (induction k arbitrary: n)
  case (Suc k)
  show ?case
  proof (cases "n < 10")
    case False
    then have "0 < k" using Suc.prems(1) by (cases k) auto
    moreover have "n div 10 < 10 ^ k" using Suc.prems(1) by (simp add: div_less_iff_less_mult mult.commute)
    ultimately show ?thesis using Suc.IH[of "n div 10"] False by (simp add: nat_string.simps[of n])
  qed (simp add: nat_string.simps[of n])
qed simp

lemma nat_string_longer: "10 ^ k \<le> n \<Longrightarrow> k < length (nat_string n)"
proof (induction k arbitrary: n)
  case 0
  show ?case by (subst nat_string.simps) simp
next
  case (Suc k)
  then have "10 ^ k \<le> n div 10" by (simp add: less_eq_div_iff_mult_less_eq mult.commute)
  moreover have "1 * 10 \<le> (10 :: nat) ^ k * 10" by (intro mult_le_mono1 one_le_power) simp
  then have "10 \<le> n" using Suc.prems unfolding power_Suc by linarith
  ultimately show ?case using Suc.IH[of "n div 10"] by (simp add: nat_string.simps[of n])
qed

lemma long_text_length: "n < 2 ^ 64 \<Longrightarrow> length (long_text n) \<le> 20"
  using nat_string_length[of n 19] nat_string_length[of "2 ^ 64 - n" 19] by (auto simp: long_text_def)

lemma fixed4_length:
  assumes "x \<le> 2 ^ 64"
  shows "length (fixed4 (Fin s x)) \<le> 26"
proof -
  let ?n = "nat (rne (x * 10000))"
  have "rne (x * 10000) \<le> 2 ^ 64 * 10000" using assms by (intro rne_le) simp
  then have "?n \<le> 2 ^ 64 * 10000" by simp
  then have "?n div 10000 \<le> 2 ^ 64 * 10000 div 10000" by (rule div_le_mono)
  then have "length (nat_string (?n div 10000)) \<le> 20" by (intro nat_string_length) simp_all
  then show ?thesis by (simp add: fixed4_def Let_def)
qed

lemma field10_length: "length s \<le> k \<Longrightarrow> 10 \<le> k \<Longrightarrow> length (field10 s) \<le> k"
  by (simp add: field10_def)

section \<open>Bounds of the standard deviation\<close>

text \<open>Non-negative numbers up to a bound.\<close>

definition fp_upto :: "rat \<Rightarrow> fp \<Rightarrow> bool" where
  "fp_upto B v \<longleftrightarrow> (\<exists>y. v = Fin False y \<and> 0 \<le> y \<and> y \<le> B)"

lemma round64_upto:
  assumes "0 \<le> x" and "x \<le> B" and "representable 53 (-1074) B" and "B < pow2 1024"
  shows "\<exists>y. round64 s x = Fin s y \<and> 0 \<le> y \<and> y \<le> B"
proof -
  have x: "x < pow2 1024" using assms(2,4) by linarith
  have "round_mag 53 (-1074) 1024 x \<le> B" using assms(2,3) x by (intro b64.round_mag_le)
  moreover have "0 \<le> round_mag 53 (-1074) 1024 x" using assms(1) x by (rule b64.round_mag_nonneg)
  ultimately show ?thesis using assms(4) by (simp add: round64_def round_fp_def Let_def)
qed

lemma representable_scaled: "n \<le> 2 ^ 53 \<Longrightarrow> representable 53 (-1074) (of_nat n * pow2 (int k))"
proof (rule representableI[of _ "int n" "int k"])
  assume "n \<le> 2 ^ 53"
  then show "int n \<le> 2 ^ 53" by (metis of_nat_le_iff of_nat_numeral of_nat_power)
qed simp_all

lemma scaled_small: "n \<le> 2 ^ 53 \<Longrightarrow> k \<le> 900 \<Longrightarrow> of_nat n * pow2 (int k) < pow2 1024"
proof -
  assume "n \<le> 2 ^ 53" "k \<le> 900"
  then have "(of_nat n :: rat) \<le> of_nat (2 ^ 53)" by (simp only: of_nat_le_iff)
  then have "of_nat n * pow2 (int k) \<le> of_nat (2 ^ 53) * pow2 (int k)" by (intro mult_right_mono) simp_all
  also have "\<dots> = pow2 (int k + 53)" using int_power_pow2[of 53 "int k"] by simp
  also have "\<dots> < pow2 1024" using \<open>k \<le> 900\<close> by (intro pow2_strict_mono) simp
  finally show ?thesis .
qed

lemma round64_scaled:
  assumes "0 \<le> x" and "x \<le> of_nat n * pow2 (int k)" and "n \<le> 2 ^ 53" and "k \<le> 900"
  shows "\<exists>y. round64 s x = Fin s y \<and> 0 \<le> y \<and> y \<le> of_nat n * pow2 (int k)"
  using assms by (intro round64_upto representable_scaled scaled_small)

lemma isqrt_le: "a * a \<le> n \<Longrightarrow> isqrt k n a * isqrt k n a \<le> n"
  by (induction k n a rule: isqrt.induct) auto

lemma isqrt_exact: "a * a \<le> n \<Longrightarrow> n < (a + 2 ^ k) * (a + 2 ^ k) \<Longrightarrow> n < Suc (isqrt k n a) * Suc (isqrt k n a)"
proof (induction k n a rule: isqrt.induct)
  case (2 k n a)
  then show ?case by (auto simp: mult_2 not_le add.assoc)
qed simp

text \<open>The root of a number up to \<open>4\<^sup>m\<close> is at most \<open>2\<^sup>m\<close>.\<close>

lemma sqrt_approx_le:
  assumes "0 \<le> x" and "x \<le> pow2 (2 * m)" and "0 \<le> m"
  shows "0 \<le> sqrt_approx x" and "sqrt_approx x \<le> pow2 m"
proof -
  define e where "e = ilog2_up 2098 (- 1074) x"
  define j where "j = (e - 120) div 2"
  define y where "y = x / pow2 (2 * j)"
  define r where "r = isqrt 61 (nat \<lfloor>y\<rfloor>) 0"
  have v: "sqrt_approx x = (of_nat r + (if of_nat (r * r) = y then 0 else 1 / 2)) * pow2 j"
    by (simp add: sqrt_approx_def e_def j_def y_def r_def Let_def)
  show "0 \<le> sqrt_approx x" unfolding v by (intro mult_nonneg_nonneg) auto
  have "e = - 1074 \<or> pow2 e \<le> pow2 (2 * m)" using ilog2_up_low[of 2098 "- 1074" x] assms(2) unfolding e_def by (metis order_trans)
  then have "j \<le> m" using assms(3) by (auto simp: j_def pow2_le_iff)
  then obtain d where d: "m = j + int d" by (metis zle_iff_zadd)
  have y0: "0 \<le> y" using assms(1) by (simp add: y_def)
  have "2 * m = 2 * j + int (2 * d)" using d by simp
  then have yd: "y \<le> of_nat (2 ^ d * 2 ^ d)" using assms(2) pow2_nat[of "2 * d"]
    by (simp add: y_def pow2_add pos_divide_le_eq mult.commute flip: power_add mult_2_right)
  have "r * r \<le> nat \<lfloor>y\<rfloor>" unfolding r_def by (rule isqrt_le) simp
  then have ry: "of_nat (r * r) \<le> y" using y0 by (meson le_nat_floor of_nat_le_iff order_trans of_nat_floor)
  then have "(of_nat (r * r) :: rat) \<le> of_nat (2 ^ d * 2 ^ d)" using yd by linarith
  then have "r * r \<le> 2 ^ d * 2 ^ d" by (simp only: of_nat_le_iff)
  then have le: "r \<le> 2 ^ d" by (metis power2_eq_square power2_nat_le_eq_le)
  have "of_nat r + (if of_nat (r * r) = y then 0 else 1 / 2) \<le> (of_nat (2 ^ d) :: rat)"
  proof (cases "r = 2 ^ d")
    case True
    then have "of_nat (r * r) = y" using ry yd by simp
    then show ?thesis using True by simp
  next
    case False
    then have "(of_nat (Suc r) :: rat) \<le> of_nat (2 ^ d)" using le by (simp only: of_nat_le_iff)
    then show ?thesis using le by simp
  qed
  then have "sqrt_approx x \<le> of_nat (2 ^ d) * pow2 j" unfolding v by (intro mult_right_mono) simp_all
  then show "sqrt_approx x \<le> pow2 m" by (simp add: d pow2_add pow2_nat mult.commute)
qed

lemma fp_sqrt_upto: "fp_upto (pow2 128) v \<Longrightarrow> fp_upto (pow2 64) (fp_sqrt v)"
proof -
  assume "fp_upto (pow2 128) v"
  then obtain y where y: "v = Fin False y" "0 \<le> y" "y \<le> pow2 (2 * 64)" by (auto simp: fp_upto_def)
  show ?thesis
  proof (cases "y = 0")
    case False
    have "\<exists>z. round64 False (sqrt_approx y) = Fin False z \<and> 0 \<le> z \<and> z \<le> of_nat 1 * pow2 (int 64)"
      using sqrt_approx_le[OF y(2,3)] by (intro round64_scaled) simp_all
    then show ?thesis using False by (simp add: y(1) fp_upto_def)
  qed (simp add: y(1) fp_upto_def)
qed

lemma fp_of_int_upto: "n < 2 ^ 64 \<Longrightarrow> fp_upto (pow2 64) (fp_of_int round64 (int n))"
proof -
  assume "n < 2 ^ 64"
  then have "(of_nat n :: rat) < of_nat (2 ^ 64)" by (simp only: of_nat_less_iff)
  then have "\<exists>y. round64 False (of_nat n) = Fin False y \<and> 0 \<le> y \<and> y \<le> of_nat 1 * pow2 (int 64)"
    using pow2_nat[of 64] by (intro round64_scaled) simp_all
  then show ?thesis by (simp add: fp_upto_def fp_of_int_def)
qed

lemma fp_sub_abs:
  assumes "fp_upto (pow2 64) u" and "fp_upto (pow2 64) v"
  shows "\<exists>s y. fp_sub round64 u v = Fin s y \<and> 0 \<le> y \<and> y \<le> pow2 64"
proof -
  obtain x y where uv: "u = Fin False x" "v = Fin False y" "0 \<le> x" "0 \<le> y" "x \<le> pow2 64" "y \<le> pow2 64"
    using assms by (auto simp: fp_upto_def)
  then have "0 \<le> \<bar>x - y\<bar>" "\<bar>x - y\<bar> \<le> of_nat 1 * pow2 (int 64)" by (auto simp: abs_if)
  from round64_scaled[OF this, of "x - y < 0"] show ?thesis using uv by (auto simp: Let_def)
qed

lemma fp_square_upto:
  assumes "d = Fin s y" and "0 \<le> y" and "y \<le> pow2 64"
  shows "fp_upto (pow2 128) (fp_mul round64 d d)"
proof -
  have "y * y \<le> pow2 64 * pow2 64" using assms(2,3) by (intro mult_mono) simp_all
  then have "y * y \<le> of_nat 1 * pow2 (int 128)" using pow2_add[of 64 64] by simp
  with assms(2) have "\<exists>z. round64 False (y * y) = Fin False z \<and> 0 \<le> z \<and> z \<le> of_nat 1 * pow2 (int 128)"
    by (intro round64_scaled) simp_all
  then show ?thesis using assms(1) by (simp add: fp_upto_def)
qed

lemma fp_add_upto:
  assumes "fp_upto (of_nat n * pow2 128) u" and "fp_upto (pow2 128) v" and "Suc n \<le> 2 ^ 53"
  shows "fp_upto (of_nat (Suc n) * pow2 128) (fp_add round64 u v)"
proof -
  obtain x y where uv: "u = Fin False x" "v = Fin False y" "0 \<le> x" "0 \<le> y" "x \<le> of_nat n * pow2 128" "y \<le> pow2 128"
    using assms(1,2) by (auto simp: fp_upto_def)
  then have "x + y \<le> of_nat (Suc n) * pow2 (int 128)" by (simp add: algebra_simps)
  with uv(3,4) assms(3) have "\<exists>z. round64 False (x + y) = Fin False z \<and> 0 \<le> z \<and> z \<le> of_nat (Suc n) * pow2 (int 128)"
    by (intro round64_scaled) simp_all
  moreover have "\<not> x + y < 0" using uv(3,4) by linarith
  ultimately show ?thesis using uv by (auto simp: fp_add_def fp_upto_def Let_def)
qed

lemma square_sum_upto:
  assumes "fp_upto (of_nat n * pow2 128) acc" and "\<forall>d \<in> set ds. \<exists>s y. d = Fin s y \<and> 0 \<le> y \<and> y \<le> pow2 64" and "n + length ds \<le> 2 ^ 53"
  shows "fp_upto (of_nat (n + length ds) * pow2 128) (foldl (\<lambda>acc d. fp_add round64 acc (fp_mul round64 d d)) acc ds)"
  using assms
proof (induction ds arbitrary: n acc)
  case (Cons d ds)
  obtain s y where "d = Fin s y" "0 \<le> y" "y \<le> pow2 64" using Cons.prems(2) by auto
  then have "fp_upto (pow2 128) (fp_mul round64 d d)" by (rule fp_square_upto)
  then have "fp_upto (of_nat (Suc n) * pow2 128) (fp_add round64 acc (fp_mul round64 d d))"
    using Cons.prems(1,3) by (intro fp_add_upto) simp_all
  from Cons.IH[OF this] show ?case using Cons.prems(2,3) by simp
qed simp

lemma std_dev_upto:
  assumes "fp_upto (pow2 64) mean" and "\<forall>x \<in> set xs. fp_upto (pow2 64) x" and "xs \<noteq> []" and "length xs \<le> 2 ^ 53"
  shows "fp_upto (pow2 64) (std_dev mean xs)"
proof -
  let ?n = "length xs" and ?diff = "map (\<lambda>x. fp_sub round64 x mean) xs"
  let ?sum = "foldl (\<lambda>acc d. fp_add round64 acc (fp_mul round64 d d)) (Fin False 0) ?diff"
  have "\<forall>d \<in> set ?diff. \<exists>s y. d = Fin s y \<and> 0 \<le> y \<and> y \<le> pow2 64" using fp_sub_abs assms(1,2) by auto
  moreover have "fp_upto (of_nat 0 * pow2 128) (Fin False 0)" by (simp add: fp_upto_def)
  ultimately have "fp_upto (of_nat (0 + length ?diff) * pow2 128) ?sum"
    using assms(4) by (intro square_sum_upto) simp_all
  then obtain y where y: "?sum = Fin False y" "0 \<le> y" "y \<le> of_nat ?n * pow2 128" by (auto simp: fp_upto_def)
  have n: "(0 :: rat) < of_nat ?n" using assms(3) by simp
  have "representable 53 (-1074) (of_nat ?n)" "of_nat ?n < pow2 1024"
    using representable_scaled[OF assms(4), of 0] scaled_small[OF assms(4), of 0] by simp_all
  then have len: "fp_of_int round64 (int ?n) = Fin False (of_nat ?n)"
    using b64.round_mag_exact by (simp add: fp_of_int_def round64_def round_fp_def Let_def linorder_not_le)
  have "y / of_nat ?n \<le> of_nat 1 * pow2 (int 128)" using y(3) n by (simp add: pos_divide_le_eq mult.commute)
  then have "\<exists>z. round64 False (y / of_nat ?n) = Fin False z \<and> 0 \<le> z \<and> z \<le> of_nat 1 * pow2 (int 128)"
    using y(2) n by (intro round64_scaled) simp_all
  then have "fp_upto (pow2 128) (fp_div round64 ?sum (fp_of_int round64 (int ?n)))"
    using n by (simp add: y(1) len fp_upto_def)
  then show ?thesis unfolding std_dev_def Let_def by (rule fp_sqrt_upto)
qed

lemma fixed4_upto: "fp_upto (pow2 64) v \<Longrightarrow> length (fixed4 v) \<le> 26"
  using fixed4_length pow2_nat[of 64] by (auto simp: fp_upto_def)

lemma foldl_u64_less: "a < 2 ^ 64 \<Longrightarrow> foldl u64_add a xs < 2 ^ 64"
  by (simp add: foldl_u64_add)

lemma description_fits:
  assumes "\<forall>x \<in> set xs. x < 2 ^ 64" and "length xs \<le> 2 ^ 53"
  shows "\<exists>t. DescribeIntList_text xs = Inr t \<and> length t < 200"
proof (cases "xs = []")
  case False
  obtain d where d: "DescribeIntList xs = Some d" "d_sum d = foldl u64_add 0 xs" "d_mean d = foldl u64_add 0 xs div length xs"
    "d_max d = Max (set xs)" "d_min d = Min (set xs)" "d_median d = sort xs ! (length xs div 2)"
    using False that[of "the (DescribeIntList xs)"] by (simp add: DescribeIntList_def Let_def)
  have "sort xs ! (length xs div 2) \<in> set (sort xs)" using False by (intro nth_mem) simp
  then have small: "d_sum d < 2 ^ 64" "d_max d < 2 ^ 64" "d_min d < 2 ^ 64" "d_median d < 2 ^ 64"
    using assms(1) False foldl_u64_less[of 0 xs] d(2,4-6) by simp_all
  have "d_mean d \<le> d_sum d" using d(2,3) by simp
  then have mean: "fp_upto (pow2 64) (fp_of_int round64 (int (d_mean d)))" using small(1) by (intro fp_of_int_upto) simp
  have "fp_upto (pow2 64) (std_dev (fp_of_int round64 (int (d_mean d))) (map (\<lambda>x. fp_of_int round64 (int x)) xs))"
    using mean assms False fp_of_int_upto by (intro std_dev_upto) auto
  note lens = field10_length[OF fixed4_upto[OF this]] field10_length[OF fixed4_upto[OF mean]] small[THEN long_text_length, THEN field10_length]
  show ?thesis using lens by (simp add: DescribeIntList_text_def d(1) into_buffer_def Let_def)
qed (simp add: DescribeIntList_text_def DescribeIntList_def)

text \<open>C36: The description of any list of 64-bit sizes fits the buffer it is printed into (for lists of up to \<open>2\<^sup>5\<^sup>3\<close> elements, more than any
  memory holds).\<close>
theorem DescribeIntList_fits:
  assumes "\<forall>x \<in> set xs. x < 2 ^ 64" and "length xs \<le> 2 ^ 53"
  shows "\<exists>t. DescribeIntList_text xs = Inr t \<and> length t < 200"
  using assms by (rule description_fits)

theorem DescribeIntList_fits_witness:
  "\<exists>t. DescribeIntList_text [5, 2 ^ 64 - 1, 4] = Inr t \<and> length t < 200"
  using DescribeIntList_fits[of "[5, 2 ^ 64 - 1, 4]"] by simp

text \<open>A list of doubles need not fit: one large number does not.\<close>

lemma into_buffer_long: "200 \<le> length t \<Longrightarrow> into_buffer (''Sum: '' @ t @ u) = Inl (Crash ''buffer overflow'')"
  by (simp add: into_buffer_def)

lemma DescribeFloatList_overflows:
  assumes "representable 53 (-1074) (of_nat n)" and "of_nat n < pow2 1024" and "10 ^ 200 \<le> n"
  shows "DescribeFloatList [Fin False (of_nat n)] = Inl (Crash ''buffer overflow'')"
proof -
  have sum: "foldl (fp_add round64) (Fin False 0) [Fin False (of_nat n)] = Fin False (of_nat n)"
    using b64.round_mag_exact[OF assms(1,2)] assms(2) by (auto simp: fp_add_def round64_def round_fp_def Let_def linorder_not_le)
  have "rne (of_nat n * 10000) = int n * 10000" using rne_of_int[of "int n * 10000"] by simp
  then have "nat (rne (of_nat n * 10000)) div 10000 = n" by (simp add: nat_mult_distrib)
  then have "200 \<le> length (field10 (fixed4 (Fin False (of_nat n))))"
    using nat_string_longer[OF assms(3)] by (simp add: fixed4_def Let_def field10_def)
  then show ?thesis unfolding DescribeFloatList_def list.case Let_def sum by (rule into_buffer_long)
qed

lemma large_double_overflows: "DescribeFloatList [Fin False (of_nat (2 ^ 1000))] = Inl (Crash ''buffer overflow'')"
proof (rule DescribeFloatList_overflows)
  show "representable 53 (-1074) (of_nat (2 ^ 1000))" using pow2_nat[of 1000] by (intro representableI[of _ 1 1000]) simp_all
  show "of_nat (2 ^ 1000) < pow2 1024" using pow2_nat[of 1000] pow2_strict_mono[of 1000 1024] by simp
qed simp

text \<open>The list of sizes can be read back from the report.\<close>

fun read_numbers :: "nat \<Rightarrow> string \<Rightarrow> nat list" where
  "read_numbers v [] = []"
| "read_numbers v (c # cs) =
     (if c = CHR '','' then v # read_numbers 0 cs
      else if c = CHR '']'' then [] else read_numbers (10 * v + (of_char c - 48)) cs)"

definition read_list :: "string \<Rightarrow> nat list" where
  "read_list s = read_numbers 0 (tl s)"

lemma digit_char: "d < 10 \<Longrightarrow> (of_char (char_of (48 + d) :: char) :: nat) = 48 + d"
  by simp

lemma digit_not_mark:
  fixes d :: nat
  shows "d < 10 \<Longrightarrow> char_of (48 + d) \<noteq> CHR '',''" and "d < 10 \<Longrightarrow> char_of (48 + d) \<noteq> CHR '']''"
  by (auto dest: arg_cong[of _ _ "of_char :: char \<Rightarrow> nat"])

lemma read_nat_string: "\<exists>k. read_numbers v (nat_string n @ rest) = read_numbers (v * 10 ^ k + n) rest \<and> 0 < k"
proof (induction n arbitrary: v rest rule: nat_string.induct)
  case (1 n)
  show ?case
  proof (cases "n < 10")
    case True
    then show ?thesis using digit_char[of n] digit_not_mark[of n] by (intro exI[of _ 1]) (simp add: nat_string.simps[of n] mult.commute)
  next
    case False
    obtain k where "read_numbers v (nat_string (n div 10) @ char_of (48 + n mod 10) # rest) =
        read_numbers (v * 10 ^ k + n div 10) (char_of (48 + n mod 10) # rest)"
      using "1.IH"[OF False] by blast
    moreover have "n mod 10 < 10" by simp
    ultimately show ?thesis using False digit_char[of "n mod 10"] digit_not_mark[of "n mod 10"]
      by (intro exI[of _ "Suc k"]) (simp add: nat_string.simps[of n] algebra_simps)
  qed
qed

lemma read_concat: "read_numbers 0 (concat (map (\<lambda>n. nat_string n @ '','') xs) @ '']'') = xs"
proof (induction xs)
  case (Cons x xs)
  then show ?case using read_nat_string[of 0 x "'','' @ concat (map (\<lambda>n. nat_string n @ '','') xs) @ '']''"] by auto
qed simp

text \<open>Reading the printed list of sizes gives the sizes back.\<close>
theorem List2Str_roundtrip: "read_list (List2Str xs) = xs"
  by (simp add: read_list_def List2Str_def read_concat)

section \<open>The report and the messages\<close>

lemma worker_reports_run:
  assumes "\<forall>arr \<in> {total_pkts_sent s, wrong_pkts_received s, correct_pkts_received s, timeouts_num s}. \<exists>xs. arr = Some xs \<and> n \<le> length xs"
  shows "k \<le> n \<Longrightarrow> \<exists>t. worker_reports s k = Inr t"
proof (induction k)
  case (Suc k)
  then obtain t where "worker_reports s k = Inr t" by auto
  moreover have counter: "\<exists>v. counter_text arr k = Inr v"
    if "arr \<in> {total_pkts_sent s, wrong_pkts_received s, correct_pkts_received s, timeouts_num s}" for arr
    using assms that Suc.prems by (fastforce simp: counter_text_def)
  obtain v w x y where "counter_text (total_pkts_sent s) k = Inr v" "counter_text (wrong_pkts_received s) k = Inr w"
    "counter_text (correct_pkts_received s) k = Inr x" "counter_text (timeouts_num s) k = Inr y"
    using counter[of "total_pkts_sent s"] counter[of "wrong_pkts_received s"] counter[of "correct_pkts_received s"] counter[of "timeouts_num s"]
    by auto
  then have "\<exists>u. worker_report s k = Inr u" by (simp add: worker_report_def)
  ultimately show ?case by auto
qed simp

text \<open>The report is printed without touching memory outside the arrays, before the statistics are initialised as well as after.\<close>

lemma LogStats_runs:
  assumes "\<forall>x \<in> set (jobs_submitted_numel s). x < 2 ^ 64" and "length (jobs_submitted_numel s) \<le> 2 ^ 53"
    and "st_num_worker_threads s = 0 \<or>
      (\<forall>arr \<in> {total_pkts_sent s, wrong_pkts_received s, correct_pkts_received s, timeouts_num s}.
         \<exists>xs. arr = Some xs \<and> st_num_worker_threads s \<le> length xs)"
  shows "\<exists>t. LogStats s = Inr t"
proof -
  obtain sizes where "DescribeIntList_text (jobs_submitted_numel s) = Inr sizes" using description_fits[OF assms(1,2)] by blast
  moreover obtain workers where "worker_reports s (st_num_worker_threads s) = Inr workers"
    using assms(3) worker_reports_run[of s "st_num_worker_threads s" "st_num_worker_threads s"] by auto
  ultimately show ?thesis by (simp add: LogStats_def)
qed

lemma print_pairs_iff: "(\<exists>t. print_pairs qpns psns = Inr t) \<longleftrightarrow> length qpns \<le> length psns"
proof (induction qpns psns rule: print_pairs.induct)
  case (3 q qpns p psns)
  then show ?case by (cases "print_pairs qpns psns") auto
qed auto

text \<open>A response with fewer sequence numbers than queue pairs cannot be printed.\<close>

lemma short_response_crashes: "length (rs_psns r) < length (rs_qpns r) \<Longrightarrow> \<not> (\<exists>t. print_RdmaSessionResponse r = Inr t)"
  using print_pairs_iff[of "rs_qpns r" "rs_psns r"] by (auto simp: print_RdmaSessionResponse_def bindE_eq_Inr)

end
