(* ===== verification/Benchmark_Common.thy ===== *)
theory Benchmark_Common
  imports Client_Context Ieee_Float
begin

text \<open>
  What the two benchmark programs (benchmarks/allreduce_benchmark/main.cc and benchmarks/dnn_benchmark/main.cc) share: the
  state of the main thread, the data the buffers are filled with, the comparison of results with
  what is expected, and the statistics. The random numbers, the clock, the effect of the other
  threads while the main thread waits and the flag that the signal handler sets are parameters.
\<close>

section \<open>Running\<close>

text \<open>A program ends early by aborting or by exit.\<close>

datatype bench_end = Aborted abort | Exited nat

definition bindX :: "bench_end + 'a \<Rightarrow> ('a \<Rightarrow> bench_end + 'b) \<Rightarrow> bench_end + 'b" where
  "bindX m f = (case m of Inl e \<Rightarrow> Inl e | Inr x \<Rightarrow> f x)"

lemma bindX_simps [simp]: "bindX (Inl e) f = Inl e" "bindX (Inr x) f = f x"
  by (simp_all add: bindX_def)

definition in_program :: "'a outcome \<Rightarrow> bench_end + 'a" where
  "in_program m = (case m of Inl e \<Rightarrow> Inl (Aborted e) | Inr x \<Rightarrow> Inr x)"

lemma in_program_simps [simp]: "in_program (Inl e) = Inl (Aborted e)" "in_program (Inr x) = Inr x"
  by (simp_all add: in_program_def)

text \<open>
  \<open>be_wait\<close> is what the other threads have made of the context and the memory when a wait for all jobs returns, \<open>be_wait_job\<close>
  when a wait for one job returns. \<open>be_stop k\<close> and \<open>be_clock k\<close> are the results of reading the flag and the clock for
  the \<open>k\<close>-th time.
\<close>

record bench_env =
  be_start :: "Context \<Rightarrow> (bool \<times> Context) outcome"
  be_wait :: "Context \<Rightarrow> memory \<Rightarrow> Context \<times> memory"
  be_wait_job :: "JobId \<Rightarrow> Context \<Rightarrow> memory \<Rightarrow> Context \<times> memory"
  be_clock :: "nat \<Rightarrow> nat"
  be_stop :: "nat \<Rightarrow> bool"
  be_rand :: "nat \<Rightarrow> int"

record bench_state =
  bs_ctx :: Context
  bs_mem :: memory
  bs_begin :: nat
  bs_durations :: "nat list"
  bs_clocks :: nat
  bs_stops :: nat

definition read_stop :: "bench_env \<Rightarrow> bench_state \<Rightarrow> bench_end + bench_state" where
  "read_stop env s =
     (if be_stop env (bs_stops s) then Inl (Exited 0) else Inr (s\<lparr>bs_stops := Suc (bs_stops s)\<rparr>))"

definition read_clock :: "bench_env \<Rightarrow> bench_state \<Rightarrow> nat \<times> bench_state" where
  "read_clock env s = (be_clock env (bs_clocks s), s\<lparr>bs_clocks := Suc (bs_clocks s)\<rparr>)"

definition bench_submit :: "ptr \<Rightarrow> ptr \<Rightarrow> nat \<Rightarrow> DataType \<Rightarrow> bench_state \<Rightarrow> bench_end + JobId \<times> bench_state" where
  "bench_submit src dst n dt s =
     bindX (in_program (AllReduceAsync src dst n dt OP_SUM (bs_ctx s))) (\<lambda>(i, c). Inr (i, s\<lparr>bs_ctx := c\<rparr>))"

definition bench_wait :: "bench_env \<Rightarrow> bench_state \<Rightarrow> bench_end + bench_state" where
  "bench_wait env s =
     bindX (in_program (WaitForAllJobs (bs_ctx s))) (\<lambda>_.
       let (c, m) = be_wait env (bs_ctx s) (bs_mem s) in Inr (s\<lparr>bs_ctx := c, bs_mem := m\<rparr>))"

text \<open>The jobs that wait in the queue of the scheduler.\<close>

definition queued_jobs :: "Context \<Rightarrow> JobId list" where
  "queued_jobs c = (case ctx_scheduler c of None \<Rightarrow> [] | Some s \<Rightarrow> fs_queue s)"

text \<open>The thread that handles signals stops the context and then sets the flag; the two steps are not atomic.\<close>

definition signal_stop :: "bench_state \<Rightarrow> bench_end + bench_state" where
  "signal_stop s = bindX (in_program (Context_Stop (bs_ctx s))) (\<lambda>c. Inr (s\<lparr>bs_ctx := c\<rparr>))"

section \<open>Data\<close>

text \<open>Elements whose signs alternate: element \<open>i\<close> is written by \<open>f\<close> from its index and sign.\<close>

fun alternate :: "(int \<Rightarrow> int \<Rightarrow> 32 word) \<Rightarrow> ptr \<Rightarrow> nat \<Rightarrow> memory \<Rightarrow> memory \<times> int" where
  "alternate f p 0 m = (m, 1)"
| "alternate f p (Suc i) m = (let (m1, s) = alternate f p i m in (m1(p + 4 * i := f (int i) s), s * - 1))"

fun fill_with :: "(nat \<Rightarrow> 32 word) \<Rightarrow> ptr \<Rightarrow> nat \<Rightarrow> memory \<Rightarrow> memory" where
  "fill_with f p 0 m = m"
| "fill_with f p (Suc i) m = (fill_with f p i m)(p + 4 * i := f i)"

definition random_float_bits :: "int \<Rightarrow> 32 word" where
  "random_float_bits r =
     or (or (push_bit 31 (word_of_int (r mod 2))) (push_bit 23 (word_of_int (r mod 254)))) (word_of_int (r mod 2 ^ 23))"

definition signed_float :: "int \<Rightarrow> int \<Rightarrow> 32 word" where
  "signed_float i s = encode32 (fp_mul round32 (fp_of_int round32 i) (fp_of_int round32 s))"

definition signed_int :: "int \<Rightarrow> int \<Rightarrow> 32 word" where
  "signed_int i s = word_of_int (i * s)"

definition float_data :: "bool \<Rightarrow> (nat \<Rightarrow> int) \<Rightarrow> ptr \<Rightarrow> nat \<Rightarrow> memory \<Rightarrow> memory" where
  "float_data random rand p n m =
     (if random then fill_with (\<lambda>i. random_float_bits (rand i)) p n m else fst (alternate signed_float p n m))"

section \<open>Verification\<close>

definition epsilon32 :: fp where
  "epsilon32 = Fin False (1 / 2 ^ 23)"

definition error_percentage :: "fp \<Rightarrow> fp \<Rightarrow> fp" where
  "error_percentage diff expected = fp_mul round32 (fp_div round32 diff expected) (fp_of_int round32 100)"

text \<open>The power is computed in double precision, assumed to be rounded correctly. Converting a double that does not fit to \<open>int32_t\<close> gives
  the smallest integer on x86-64.\<close>

definition pow_double :: "nat \<Rightarrow> nat \<Rightarrow> fp" where
  "pow_double b k = round64 False (of_nat b ^ k)"

fun double_to_int32 :: "fp \<Rightarrow> 32 word" where
  "double_to_int32 (Fin s x) =
     (if x < 2 ^ 31 then word_of_int (if s then - \<lfloor>x\<rfloor> else \<lfloor>x\<rfloor>) else 0x80000000)"
| "double_to_int32 _ = 0x80000000"

definition int_output_error :: "32 word \<Rightarrow> 32 word \<Rightarrow> 32 word \<Rightarrow> fp" where
  "int_output_error multiplier expected_input found =
     (let expected = expected_input * multiplier
      in error_percentage (fp_of_int round32 (sint (expected - found))) (fp_of_int round32 (sint expected)))"

definition int_input_error :: "32 word \<Rightarrow> 32 word \<Rightarrow> fp" where
  "int_input_error expected found =
     error_percentage (fp_of_int round32 (sint (expected - found))) (fp_add round32 (fp_of_int round32 (sint expected)) epsilon32)"

definition float_output_error :: "fp \<Rightarrow> 32 word \<Rightarrow> 32 word \<Rightarrow> fp" where
  "float_output_error multiplier expected_input found =
     (let expected = fp_mul round32 (decode32 expected_input) multiplier
      in error_percentage (fp_sub round32 expected (decode32 found)) expected)"

definition float_input_error :: "32 word \<Rightarrow> 32 word \<Rightarrow> fp" where
  "float_input_error expected found =
     error_percentage (fp_sub round32 (decode32 expected) (decode32 found)) (fp_add round32 (decode32 expected) epsilon32)"

text \<open>The loop stops when ten errors are reported; \<open>reports j\<close> is the number of errors reported for element \<open>j\<close>.\<close>

fun verify_loop :: "(nat \<Rightarrow> nat) \<Rightarrow> nat \<Rightarrow> nat \<Rightarrow> int \<Rightarrow> int" where
  "verify_loop reports j 0 left = left"
| "verify_loop reports j (Suc k) left =
     (if left > 0 then verify_loop reports (Suc j) k (left - int (reports j)) else left)"

definition verified :: "(nat \<Rightarrow> nat) \<Rightarrow> nat \<Rightarrow> bool" where
  "verified reports n \<longleftrightarrow> verify_loop reports 0 n 10 = 10"

section \<open>Statistics\<close>

record bench_report =
  br_min :: nat
  br_max :: nat
  br_median :: nat
  br_mean :: fp

text \<open>The least element of an empty vector is read through its end iterator.\<close>

definition bench_statistics :: "nat list \<Rightarrow> bench_report outcome" where
  "bench_statistics durations =
     (if durations = [] then Inl (Crash ''*durations_ns.end()'')
      else Inr \<lparr>br_min = Min (set durations), br_max = Max (set durations), br_median = sort durations ! (length durations div 2),
                br_mean = fp_div round64 (fp_of_int round64 (int (u64 (sum_list durations)))) (fp_of_int round64 (int (length durations)))\<rparr>)"

section \<open>Lemmas\<close>

text \<open>Arrays of \<open>n\<close> elements that do not overlap.\<close>

definition separate :: "nat \<Rightarrow> ptr \<Rightarrow> ptr \<Rightarrow> bool" where
  "separate n p q \<longleftrightarrow> (\<forall>i < n. \<forall>j < n. p + 4 * i \<noteq> q + 4 * j)"

lemma separateD:
  assumes "separate n p q" and "i < n"
  shows "\<not> (\<exists>k < n. p + 4 * i = q + 4 * k)" and "\<not> (\<exists>k < n. q + 4 * i = p + 4 * k)"
  using assms by (force simp: separate_def)+

lemma alternate_at:
  "alternate f p n m = ((\<lambda>a. if \<exists>i < n. a = p + 4 * i then f (int ((a - p) div 4)) ((- 1) ^ ((a - p) div 4)) else m a), (- 1) ^ n)"
  by (induction n) (auto simp: fun_eq_iff Let_def less_Suc_eq)

lemma fill_with_at:
  "fill_with f p n m a = (if \<exists>i < n. a = p + 4 * i then f ((a - p) div 4) else m a)"
  by (induction n) (auto simp: less_Suc_eq)

lemma verify_loop_le: "verify_loop reports j k left \<le> left"
  by (induction reports j k left rule: verify_loop.induct) (auto intro: order_trans)

text \<open>Verification succeeds if and only if nothing is reported.\<close>

lemma verify_loop_all: "left > 0 \<Longrightarrow> verify_loop reports j k left = left \<longleftrightarrow> (\<forall>i < k. reports (j + i) = 0)"
proof (induction reports j k left rule: verify_loop.induct)
  case (2 reports j k left)
  have "verify_loop reports (Suc j) k (left - int (reports j)) \<le> left - int (reports j)" by (rule verify_loop_le)
  then show ?case using 2 by (cases "reports j = 0") (auto simp: All_less_Suc2)
qed simp

lemma verified_iff: "verified reports n \<longleftrightarrow> (\<forall>i < n. reports i = 0)"
  using verify_loop_all[of 10 reports 0 n] by (simp add: verified_def)

text \<open>Signs of floating point results: \<open>fp_sign b v\<close> looks at the sign of a zero, \<open>fp_signed b v\<close> does not.\<close>

fun fp_sign :: "bool \<Rightarrow> fp \<Rightarrow> bool" where
  "fp_sign b NaN = True"
| "fp_sign b (Inf s) = (s = b)"
| "fp_sign b (Fin s x) = (s = b \<and> 0 \<le> x)"

fun fp_zero :: "fp \<Rightarrow> bool" where
  "fp_zero NaN = True"
| "fp_zero (Inf s) = False"
| "fp_zero (Fin s x) = (x = 0)"

definition fp_signed :: "bool \<Rightarrow> fp \<Rightarrow> bool" where
  "fp_signed b v \<longleftrightarrow> fp_sign b v \<or> fp_zero v"

lemma nonpos_accepted: "fp_signed True v \<Longrightarrow> \<not> fp_greater (Fin False 0) allowed \<Longrightarrow> \<not> fp_greater v allowed"
  by (cases v; cases allowed) (auto simp: fp_signed_def split: if_splits)

lemma round32_0 [simp]: "round32 s 0 = Fin s 0"
  by (simp add: round32_def round_fp_def round_mag_def rne_def Let_def linorder_not_le)

lemma round32_sign: "0 \<le> x \<Longrightarrow> fp_sign s (round32 s x)"
proof -
  assume "0 \<le> x"
  then have "0 \<le> rne (x / pow2 (ulp_exp 24 (-149) 128 x))" by (intro rne_ge) simp
  then show ?thesis by (simp add: round32_def round_fp_def round_mag_def Let_def)
qed

lemma fp_div_signed: "fp_signed a u \<Longrightarrow> fp_sign b v \<Longrightarrow> fp_signed (a \<noteq> b) (fp_div round32 u v)"
  by (cases u; cases v) (auto simp: fp_signed_def intro!: round32_sign)

lemma fp_mul_signed: "fp_signed a u \<Longrightarrow> fp_sign b v \<Longrightarrow> fp_signed (a \<noteq> b) (fp_mul round32 u v)"
  by (cases u; cases v) (auto simp: fp_signed_def intro!: round32_sign)

lemma fp_of_int_sign: "fp_sign (i < 0) (fp_of_int round32 i)"
  unfolding fp_of_int_def by (rule round32_sign) simp

lemma error_percentage_nonpos:
  assumes "fp_signed (\<not> b) diff" and "fp_sign b expected" and "\<not> fp_greater (Fin False 0) allowed"
  shows "\<not> fp_greater (error_percentage diff expected) allowed"
proof -
  have "fp_signed ((\<not> b) \<noteq> b) (fp_div round32 diff expected)" using assms(1,2) by (rule fp_div_signed)
  moreover have "fp_sign False (fp_of_int round32 100)" using fp_of_int_sign[of 100] by simp
  ultimately have "fp_signed (((\<not> b) \<noteq> b) \<noteq> False) (error_percentage diff expected)"
    unfolding error_percentage_def by (rule fp_mul_signed)
  then show ?thesis using assms(3) nonpos_accepted by simp
qed

text \<open>What is equal to the expectation is accepted.\<close>

lemma error_percentage_zero:
  assumes "fp_zero diff" and "\<not> fp_greater (Fin False 0) allowed"
  shows "\<not> fp_greater (error_percentage diff expected) allowed"
proof -
  have zero: "fp_zero (fp_div round32 diff expected)" using assms(1) by (cases diff; cases expected) auto
  have "fp_sign False (fp_of_int round32 100)" using fp_of_int_sign[of 100] by simp
  moreover have "fp_signed True (fp_div round32 diff expected)" using zero by (simp add: fp_signed_def)
  ultimately have "fp_signed (True \<noteq> False) (error_percentage diff expected)"
    unfolding error_percentage_def by (intro fp_mul_signed)
  then show ?thesis using assms(2) nonpos_accepted by simp
qed

lemma fp_of_int_0 [simp]: "fp_of_int rnd 0 = rnd False 0"
  by (simp add: fp_of_int_def)

lemma int_output_exact:
  assumes "\<not> fp_greater (Fin False 0) allowed"
  shows "\<not> fp_greater (int_output_error factor x (x * factor)) allowed"
  unfolding int_output_error_def Let_def by (rule error_percentage_zero) (simp_all add: assms)

lemma int_input_exact:
  assumes "\<not> fp_greater (Fin False 0) allowed"
  shows "\<not> fp_greater (int_input_error x x) allowed"
  unfolding int_input_error_def by (rule error_percentage_zero) (simp_all add: assms)

lemma fp_sub_self: "fp_zero (fp_sub rnd v v)"
  by (cases v) (auto simp: Let_def)

lemma float_output_exact:
  assumes "\<not> fp_greater (Fin False 0) allowed" and "decode32 found = fp_mul round32 (decode32 x) factor"
  shows "\<not> fp_greater (float_output_error factor x found) allowed"
  unfolding float_output_error_def Let_def by (rule error_percentage_zero) (simp_all add: assms fp_sub_self)

text \<open>A result that is too large in magnitude is accepted as well.\<close>

lemma int_output_large:
  assumes "\<not> fp_greater (Fin False 0) allowed" and "0 \<le> sint (x * factor)" and "sint (x * factor) \<le> sint found"
  shows "\<not> fp_greater (int_output_error factor x found) allowed"
proof -
  let ?e = "x * factor"
  have "sint (?e - found) \<le> 0"
  proof -
    have "- (2 ^ 31) \<le> sint ?e - sint found" "sint ?e - sint found < 2 ^ 31"
      using assms(2,3) sint_range_size[of found] by (simp_all add: word_size)
    then have "sint (?e - found) = sint ?e - sint found" by (simp add: sint_word_ariths signed_take_bit_int_eq_self_iff)
    then show ?thesis using assms(3) by simp
  qed
  then have "fp_signed True (fp_of_int round32 (sint (?e - found)))"
    using fp_of_int_sign[of "sint (?e - found)"] by (cases "sint (?e - found) = 0") (auto simp: fp_signed_def)
  moreover have "fp_sign False (fp_of_int round32 (sint ?e))" using fp_of_int_sign[of "sint ?e"] assms(2) by simp
  ultimately show ?thesis
    unfolding int_output_error_def Let_def using assms(1) by (intro error_percentage_nonpos[of False]) auto
qed

text \<open>Powers that fit, and powers that do not.\<close>

lemma pow_double_exact:
  assumes "b ^ k < 2 ^ 53"
  shows "pow_double b k = Fin False (of_nat (b ^ k))"
proof -
  have rep: "representable 53 (-1074) (of_nat (b ^ k))"
    using assms by (intro representableI[of _ "int (b ^ k)" 0]) (simp_all, metis of_nat_less_iff of_nat_numeral of_nat_power order.strict_implies_order)
  have "pow2 53 = 2 ^ 53" using pow2_nat[of 53] by simp
  moreover have "(of_nat (b ^ k) :: rat) < of_nat (2 ^ 53)" using assms by (simp only: of_nat_less_iff)
  ultimately have "of_nat (b ^ k) < pow2 53" by simp
  also have "pow2 53 \<le> pow2 1024" by (intro pow2_mono) simp
  finally have lt: "of_nat (b ^ k) < pow2 1024" .
  then show ?thesis using b64.round_mag_exact[OF rep lt] by (simp add: pow_double_def round64_def round_fp_def Let_def linorder_not_le)
qed

lemma double_to_int32_exact:
  assumes "n < 2 ^ 31"
  shows "double_to_int32 (Fin False (of_nat n)) = word_of_int (int n)"
proof -
  have "(of_nat n :: rat) < of_nat (2 ^ 31)" using assms by (simp only: of_nat_less_iff)
  then show ?thesis by simp
qed

lemma pow_double_large:
  assumes "2 ^ 31 \<le> b ^ k" and "b ^ k < 2 ^ 1024"
  shows "double_to_int32 (pow_double b k) = 0x80000000"
proof -
  have "(of_nat (b ^ k) :: rat) < of_nat (2 ^ 1024)" using assms(2) by (simp only: of_nat_less_iff)
  then have lt: "of_nat b ^ k < pow2 1024" using pow2_nat[of 1024] by simp
  have "(of_nat (2 ^ 31) :: rat) \<le> of_nat (b ^ k)" using assms(1) by (simp only: of_nat_le_iff)
  then have le: "pow2 31 \<le> of_nat b ^ k" using pow2_nat[of 31] by simp
  have "representable 53 (-1074) (pow2 31)" by (intro representableI[of _ 1 31]) simp_all
  then have "pow2 31 \<le> round_mag 53 (-1074) 1024 (of_nat b ^ k)" using le lt by (intro b64.round_mag_ge)
  moreover have "pow2 31 = 2 ^ 31" using pow2_nat[of 31] by simp
  ultimately show ?thesis by (auto simp: pow_double_def round64_def round_fp_def Let_def)
qed

lemma round32_of_int:
  assumes "0 \<le> i" and "i \<le> 2 ^ 24" and "k \<le> 100"
  shows "round32 s (of_int i * pow2 (int k)) = Fin s (of_int i * pow2 (int k))"
proof -
  have rep: "representable 24 (-149) (of_int i * pow2 (int k))" using assms by (intro representableI[of _ i "int k"]) simp_all
  have "of_int i * pow2 (int k) \<le> of_int (2 ^ 24) * pow2 (int k)" using assms(2) by (intro mult_right_mono) (simp_all only: of_int_le_iff pow2_nonneg)
  also have "\<dots> = pow2 (int k + 24)" using int_power_pow2[of 24 "int k"] by simp
  also have "\<dots> < pow2 128" using assms(3) by (intro pow2_strict_mono) simp
  finally have lt: "of_int i * pow2 (int k) < pow2 128" .
  then show ?thesis using b32.round_mag_exact[OF rep lt] by (simp add: round32_def round_fp_def Let_def linorder_not_le)
qed

text \<open>Where the smallest integer was expected and zero found, the error is 100 percent.\<close>

lemma int_output_all_wrong:
  assumes "x * factor = 0x80000000"
  shows "int_output_error factor x 0 = Fin False 100"
proof -
  have s: "sint (0x80000000 :: 32 word) = - (2 ^ 31)" by (simp add: sint_uint)
  have p: "round32 True 2147483648 = Fin True 2147483648" "round32 False 100 = Fin False 100" "round32 False 1 = Fin False 1"
    using round32_of_int[of 1 31 True] round32_of_int[of 100 0 False] round32_of_int[of 1 0 False] pow2_nat[of 31] by simp_all
  show ?thesis by (simp add: int_output_error_def error_percentage_def Let_def fp_of_int_def assms s p)
qed

text \<open>The statistics are in order.\<close>

lemma statistics_ordered:
  assumes "bench_statistics ds = Inr r"
  shows "br_min r \<le> br_median r" and "br_median r \<le> br_max r" and "br_median r \<in> set ds"
proof -
  have r: "ds \<noteq> []" "r = \<lparr>br_min = Min (set ds), br_max = Max (set ds), br_median = sort ds ! (length ds div 2), br_mean = br_mean r\<rparr>"
    using assms by (auto simp: bench_statistics_def split: if_splits)
  have "sort ds ! (length ds div 2) \<in> set (sort ds)" using r(1) by (intro nth_mem) simp
  then show "br_median r \<in> set ds" by (subst r(2)) simp
  then show "br_min r \<le> br_median r" "br_median r \<le> br_max r" by (subst (1) r(2), simp)+
qed

end
