(* ===== verification/Allreduce_Benchmark.thy ===== *)
theory Allreduce_Benchmark
  imports Benchmark_Common
begin

text \<open>
  The allreduce benchmark (benchmarks/allreduce_benchmark/main.cc), built without CUDA: it submits the same tensor again and again,
  waits after every \<open>sync_every\<close> jobs, checks the result and reports the times between the waits. The arrays that \<open>new\<close>
  returns are parameters; what is printed is the result of the program.
\<close>

section \<open>The program\<close>

record TestConfig =
  tc_tensor_numel :: nat
  tc_tensor_type :: string
  tc_device :: string
  tc_num_jobs :: nat
  tc_num_warmup :: nat
  tc_inplace :: bool
  tc_sync_every :: nat
  tc_verify :: bool
  tc_allowed_error_percentage :: fp
  tc_random :: bool
  tc_dump_stats :: bool

definition default_TestConfig :: TestConfig where
  "default_TestConfig =
     \<lparr>tc_tensor_numel = 268435456, tc_tensor_type = ''int32'', tc_device = ''cpu'', tc_num_jobs = 10, tc_num_warmup = 5,
      tc_inplace = True, tc_sync_every = 1, tc_verify = False, tc_allowed_error_percentage = Fin False 1, tc_random = False,
      tc_dump_stats = False\<rparr>"

definition check_arguments :: "TestConfig \<Rightarrow> bench_end + unit" where
  "check_arguments tc =
     (if tc_tensor_numel tc = 0 then Inl (Exited 1)
      else if tc_tensor_type tc \<noteq> ''float'' \<and> tc_tensor_type tc \<noteq> ''int32'' then Inl (Exited 1)
      else if tc_device tc \<noteq> ''cpu'' then Inl (Exited 1)
      else if tc_num_jobs tc = 0 then Inl (Exited 1)
      else if fp_greater (Fin False 0) (tc_allowed_error_percentage tc) then Inl (Exited 1)
      else Inr ())"

text \<open>The bound of the loop that writes the integers is converted to a signed integer of 32 bits.\<close>

definition int_data :: "bool \<Rightarrow> (nat \<Rightarrow> int) \<Rightarrow> ptr \<Rightarrow> nat \<Rightarrow> memory \<Rightarrow> memory" where
  "int_data random rand p n m =
     (if random then fill_with (\<lambda>i. word_of_int (rand (2 * i) + rand (2 * i + 1))) p n m
      else fst (alternate signed_int p (nat (signed_take_bit 31 (int n))) m))"

definition prepare_data ::
  "bench_env \<Rightarrow> TestConfig \<Rightarrow> ptr \<Rightarrow> ptr \<Rightarrow> ptr \<Rightarrow> memory \<Rightarrow> bench_end + DataType \<times> memory"
where
  "prepare_data env tc src dst ctrl m =
     (let n = tc_tensor_numel tc;
          finish = (\<lambda>dt pattern m1.
            let m2 = (if tc_inplace tc then m1 else fill_with (\<lambda>_. pattern) dst n m1)
            in Inr (dt, copy_elements m2 src ctrl n m2))
      in if tc_tensor_type tc = ''float''
         then finish FLOAT32 (encode32 (fp_of_int round32 123456789)) (float_data (tc_random tc) (be_rand env) src n m)
         else if tc_tensor_type tc = ''int32''
         then finish INT32 123456789 (int_data (tc_random tc) (be_rand env) src n m)
         else Inl (Exited 1))"

fun submit_warmup :: "bench_env \<Rightarrow> Tensor \<Rightarrow> nat \<Rightarrow> bench_state \<Rightarrow> bench_end + bench_state" where
  "submit_warmup env t 0 s = Inr s"
| "submit_warmup env t (Suc k) s =
     bindX (read_stop env s) (\<lambda>s1.
     bindX (bench_submit (in_ptr t) (out_ptr t) (numel t) (data_type t) s1) (\<lambda>(_, s2). submit_warmup env t k s2))"

definition dump_stats :: "bool \<Rightarrow> bench_state \<Rightarrow> bench_state" where
  "dump_stats dump s = (if dump then s\<lparr>bs_ctx := (bs_ctx s)\<lparr>ctx_stats := ResetStats (ctx_stats (bs_ctx s))\<rparr>\<rparr> else s)"

text \<open>After the wait: the duration since the last wait is recorded and a new one begins.\<close>

definition record_duration :: "bench_env \<Rightarrow> bool \<Rightarrow> bench_state \<Rightarrow> bench_state" where
  "record_duration env dump s =
     (let (now, s1) = read_clock env s;
          s2 = dump_stats dump (s1\<lparr>bs_durations := bs_durations s1 @ [now - bs_begin s1]\<rparr>);
          (b, s3) = read_clock env s2
      in s3\<lparr>bs_begin := b\<rparr>)"

text \<open>The loop over the timed jobs, with \<open>k\<close> jobs left from job \<open>i\<close> on.\<close>

fun timed_jobs :: "bench_env \<Rightarrow> TestConfig \<Rightarrow> Tensor \<Rightarrow> nat \<Rightarrow> nat \<Rightarrow> bench_state \<Rightarrow> bench_end + bench_state" where
  "timed_jobs env tc t 0 i s = Inr s"
| "timed_jobs env tc t (Suc k) i s =
     bindX (read_stop env s) (\<lambda>s1.
     bindX (bench_submit (in_ptr t) (out_ptr t) (numel t) (data_type t) s1) (\<lambda>(_, s2).
     bindX (if tc_sync_every tc = 0 then Inl (Aborted (Crash ''(i+1)%sync_every''))
            else if u32 (i + 1) mod tc_sync_every tc = 0
            then bindX (bench_wait env s2) (\<lambda>s3. bindX (read_stop env s3) (\<lambda>s4. Inr (record_duration env (tc_dump_stats tc) s4)))
            else Inr s2) (timed_jobs env tc t k (i + 1))))"

definition submitted_jobs :: "TestConfig \<Rightarrow> nat" where
  "submitted_jobs tc = u32 (tc_num_jobs tc + tc_num_warmup tc)"

definition float_multiplier :: "TestConfig \<Rightarrow> nat \<Rightarrow> fp" where
  "float_multiplier tc W =
     (if tc_inplace tc then fp_convert round32 (pow_double W (submitted_jobs tc)) else fp_of_int round32 (int W))"

definition int_multiplier :: "TestConfig \<Rightarrow> nat \<Rightarrow> 32 word" where
  "int_multiplier tc W =
     (if tc_inplace tc then double_to_int32 (pow_double W (submitted_jobs tc)) else word_of_int (int W))"

text \<open>The number of errors printed for element \<open>j\<close>.\<close>

definition element_errors :: "TestConfig \<Rightarrow> nat \<Rightarrow> ptr \<Rightarrow> ptr \<Rightarrow> ptr \<Rightarrow> memory \<Rightarrow> nat \<Rightarrow> nat" where
  "element_errors tc W src dst ctrl m j =
     (let x = m (ctrl + 4 * j);
          output = (if tc_tensor_type tc = ''float'' then float_output_error (float_multiplier tc W) x (m (dst + 4 * j))
                    else int_output_error (int_multiplier tc W) x (m (dst + 4 * j)));
          input = (if tc_tensor_type tc = ''float'' then float_input_error x (m (src + 4 * j)) else int_input_error x (m (src + 4 * j)))
      in of_bool (fp_greater output (tc_allowed_error_percentage tc)) +
         (if tc_inplace tc then 0 else of_bool (fp_greater input (tc_allowed_error_percentage tc))))"

definition verify_results :: "TestConfig \<Rightarrow> nat \<Rightarrow> ptr \<Rightarrow> ptr \<Rightarrow> ptr \<Rightarrow> memory \<Rightarrow> bool" where
  "verify_results tc W src dst ctrl m = verified (element_errors tc W src dst ctrl m) (tc_tensor_numel tc)"

text \<open>The program with the array of the source at \<open>src\<close>, of the destination at \<open>new_dst\<close> unless in place, and of the control data at
  \<open>ctrl\<close>. The results are that of the verification, if there is one, the statistics and the final state.\<close>

definition allreduce_benchmark ::
  "bench_env \<Rightarrow> TestConfig \<Rightarrow> ptr \<Rightarrow> ptr \<Rightarrow> ptr \<Rightarrow> Context \<Rightarrow> memory \<Rightarrow> bench_end + bool option \<times> bench_report \<times> bench_state"
where
  "allreduce_benchmark env tc src new_dst ctrl ctx m =
     bindX (check_arguments tc) (\<lambda>_.
     let dst = (if tc_inplace tc then src else new_dst) in
     bindX (prepare_data env tc src dst ctrl m) (\<lambda>(dt, m1).
     bindX (in_program (be_start env ctx)) (\<lambda>(_, ctx1).
     let t = \<lparr>in_ptr = src, out_ptr = dst, numel = tc_tensor_numel tc, data_type = dt\<rparr>;
         s1 = \<lparr>bs_ctx = ctx1, bs_mem = m1, bs_begin = 0, bs_durations = [], bs_clocks = 0, bs_stops = 0\<rparr> in
     bindX (submit_warmup env t (tc_num_warmup tc) s1) (\<lambda>s2.
     bindX (bench_wait env s2) (\<lambda>s3.
     let (b, s4) = read_clock env s3 in
     bindX (timed_jobs env tc t (tc_num_jobs tc) 0 (s4\<lparr>bs_begin := b\<rparr>)) (\<lambda>s5.
     bindX (bench_wait env s5) (\<lambda>s6.
     bindX (read_stop env s6) (\<lambda>s7.
     let verdict = (if tc_verify tc
                    then Some (verify_results tc (gc_num_workers (general (GetConfig (bs_ctx s7)))) src dst ctrl (bs_mem s7))
                    else None) in
     bindX (in_program (bench_statistics (bs_durations s7))) (\<lambda>report.
     bindX (in_program (Context_Stop (bs_ctx s7))) (\<lambda>ctx2.
       Inr (verdict, report, s7\<lparr>bs_ctx := ctx2\<rparr>)))))))))))"

section \<open>The other threads\<close>

text \<open>The sum over \<open>W\<close> workers that all have the same integers.\<close>

definition reduce_same :: "nat \<Rightarrow> Tensor \<Rightarrow> memory \<Rightarrow> memory" where
  "reduce_same W t m =
     (\<lambda>a. if \<exists>k < numel t. a = out_ptr t + 4 * k then of_nat W * m (in_ptr t + (a - out_ptr t)) else m a)"

definition job_effect :: "nat \<Rightarrow> Context \<Rightarrow> JobId \<Rightarrow> memory \<Rightarrow> memory" where
  "job_effect W c i = (case ctx_jobs c i of None \<Rightarrow> (\<lambda>m. m) | Some j \<Rightarrow> reduce_same W (job_tensor j))"

text \<open>While the main thread waits, the jobs are done in the order of their submission. (The workers may begin before; the main
  thread touches the buffers only after the waits.)\<close>

definition works_alike :: "nat \<Rightarrow> bench_env \<Rightarrow> bool" where
  "works_alike W env \<longleftrightarrow>
     (\<forall>c m. context_state c = CTX_RUNNING \<and> ctx_scheduler c \<noteq> None \<longrightarrow>
        (\<exists>c'. be_wait env c m = (c', fold (job_effect W c) (queued_jobs c) m) \<and> context_state c' = CTX_RUNNING \<and>
              ctx_scheduler c' \<noteq> None \<and> queued_jobs c' = [] \<and> ctx_config c' = ctx_config c \<and> number_of_current_jobs c' = 0))"

definition starts_with :: "nat \<Rightarrow> bench_env \<Rightarrow> Context \<Rightarrow> bool" where
  "starts_with W env c \<longleftrightarrow>
     (\<exists>b c'. be_start env c = Inr (b, c') \<and> context_state c' = CTX_RUNNING \<and> ctx_scheduler c' \<noteq> None \<and> queued_jobs c' = [] \<and>
        gc_num_workers (general (ctx_config c')) = W)"

section \<open>The loops\<close>

text \<open>The context runs and all queued jobs are on the same tensor.\<close>

definition bench_ok :: "Tensor \<Rightarrow> bench_state \<Rightarrow> bool" where
  "bench_ok t s \<longleftrightarrow> context_state (bs_ctx s) = CTX_RUNNING \<and> ctx_scheduler (bs_ctx s) \<noteq> None \<and>
     (\<forall>i \<in> set (queued_jobs (bs_ctx s)). \<exists>j. ctx_jobs (bs_ctx s) i = Some j \<and> job_tensor j = t)"

text \<open>The memory as it will be when all \<open>n\<close> jobs submitted so far are done.\<close>

definition bench_at :: "nat \<Rightarrow> Tensor \<Rightarrow> Config \<Rightarrow> memory \<Rightarrow> nat \<Rightarrow> bench_state \<Rightarrow> bool" where
  "bench_at W t cfg m0 n s \<longleftrightarrow> bench_ok t s \<and> ctx_config (bs_ctx s) = cfg \<and>
     (reduce_same W t ^^ length (queued_jobs (bs_ctx s))) (bs_mem s) = (reduce_same W t ^^ n) m0"

lemma submit_ok:
  assumes "bench_at W t cfg m0 n s"
  shows "\<exists>i s'. bench_submit (in_ptr t) (out_ptr t) (numel t) (data_type t) s = Inr (i, s') \<and> bench_at W t cfg m0 (Suc n) s' \<and>
     bs_durations s' = bs_durations s"
proof -
  obtain sc where sc: "ctx_scheduler (bs_ctx s) = Some sc" "context_state (bs_ctx s) = CTX_RUNNING"
    "\<forall>i \<in> set (fs_queue sc). \<exists>j. ctx_jobs (bs_ctx s) i = Some j \<and> job_tensor j = t"
    using assms by (auto simp: bench_at_def bench_ok_def queued_jobs_def)
  have t: "\<lparr>in_ptr = in_ptr t, out_ptr = out_ptr t, numel = numel t, data_type = data_type t\<rparr> = t" by simp
  show ?thesis using sc assms
    by (auto simp: bench_submit_def AllReduceAsync_def AllReduceAsync_create_def AllReduceAsync_enqueue_def on_scheduler_def EnqueueJob_def
        set_job_status_def SetJobStatus_def new_Job_def less_JobStatus_def Let_def bench_at_def bench_ok_def queued_jobs_def t)
qed

lemma fold_same: "(\<forall>i \<in> set is. f i = g) \<Longrightarrow> fold f is m = (g ^^ length is) m"
  by (induction "is" arbitrary: m) (simp_all add: funpow_swap1)

lemma wait_ok:
  assumes "bench_at W t cfg m0 n s" and "works_alike W env"
  shows "\<exists>s'. bench_wait env s = Inr s' \<and> bench_at W t cfg m0 n s' \<and> queued_jobs (bs_ctx s') = [] \<and>
     bs_durations s' = bs_durations s"
proof -
  let ?c = "bs_ctx s"
  have ok: "context_state ?c = CTX_RUNNING" "ctx_scheduler ?c \<noteq> None" using assms(1) by (auto simp: bench_at_def bench_ok_def)
  obtain c' where c': "be_wait env ?c (bs_mem s) = (c', fold (job_effect W ?c) (queued_jobs ?c) (bs_mem s))" "context_state c' = CTX_RUNNING"
    "ctx_scheduler c' \<noteq> None" "queued_jobs c' = []" "ctx_config c' = ctx_config ?c"
    using assms(2) ok unfolding works_alike_def by blast
  have same: "\<forall>i \<in> set (queued_jobs ?c). job_effect W ?c i = reduce_same W t"
    using assms(1) by (auto simp: bench_at_def bench_ok_def job_effect_def)
  have "fold (job_effect W ?c) (queued_jobs ?c) (bs_mem s) = (reduce_same W t ^^ n) m0"
    using assms(1) by (simp add: fold_same[OF same] bench_at_def)
  then show ?thesis using c' ok assms(1)
    by (simp add: bench_wait_def WaitForAllJobs_def bench_at_def bench_ok_def)
qed

lemma bench_at_cong:
  "bench_at W t cfg m0 n (s\<lparr>bs_stops := x\<rparr>) = bench_at W t cfg m0 n s" "bench_at W t cfg m0 n (s\<lparr>bs_begin := y\<rparr>) = bench_at W t cfg m0 n s"
  "bench_at W t cfg m0 n (s\<lparr>bs_clocks := x\<rparr>) = bench_at W t cfg m0 n s" "bench_at W t cfg m0 n (s\<lparr>bs_durations := d\<rparr>) = bench_at W t cfg m0 n s"
  "bench_at W t cfg m0 n (s\<lparr>bs_ctx := (bs_ctx s)\<lparr>ctx_stats := st\<rparr>\<rparr>) = bench_at W t cfg m0 n s"
  by (simp_all add: bench_at_def bench_ok_def queued_jobs_def)

lemma record_duration_ok:
  "bench_at W t cfg m0 n (record_duration env dump s) = bench_at W t cfg m0 n s"
  "length (bs_durations (record_duration env dump s)) = Suc (length (bs_durations s))"
  by (simp_all add: record_duration_def read_clock_def dump_stats_def bench_at_def bench_ok_def queued_jobs_def Let_def)

lemma warmup_ok:
  assumes "\<forall>k. \<not> be_stop env k"
  shows "bench_at W t cfg m0 n s \<Longrightarrow> \<exists>s'. submit_warmup env t k s = Inr s' \<and> bench_at W t cfg m0 (n + k) s' \<and> bs_durations s' = bs_durations s"
proof (induction k arbitrary: n s)
  case (Suc k)
  obtain i s2 where s2: "bench_submit (in_ptr t) (out_ptr t) (numel t) (data_type t) (s\<lparr>bs_stops := Suc (bs_stops s)\<rparr>) = Inr (i, s2)"
    "bench_at W t cfg m0 (Suc n) s2" "bs_durations s2 = bs_durations s"
    using submit_ok[of W t cfg m0 n "s\<lparr>bs_stops := Suc (bs_stops s)\<rparr>"] Suc.prems by (auto simp: bench_at_cong)
  show ?case using Suc.IH[OF s2(2)] s2 assms by (auto simp: read_stop_def)
qed auto

text \<open>A duration is recorded for each multiple of \<open>sync_every\<close>.\<close>

lemma timed_ok:
  assumes "\<forall>k. \<not> be_stop env k" and "works_alike W env" and "0 < tc_sync_every tc"
  shows "bench_at W t cfg m0 n s \<Longrightarrow> i + k < 2 ^ 32 \<Longrightarrow>
     \<exists>s'. timed_jobs env tc t k i s = Inr s' \<and> bench_at W t cfg m0 (n + k) s' \<and>
       length (bs_durations s') + i div tc_sync_every tc = length (bs_durations s) + (i + k) div tc_sync_every tc"
proof (induction k arbitrary: n s i)
  case (Suc k)
  obtain j s2 where s2: "bench_submit (in_ptr t) (out_ptr t) (numel t) (data_type t) (s\<lparr>bs_stops := Suc (bs_stops s)\<rparr>) = Inr (j, s2)"
    "bench_at W t cfg m0 (Suc n) s2" "bs_durations s2 = bs_durations s"
    using submit_ok[of W t cfg m0 n "s\<lparr>bs_stops := Suc (bs_stops s)\<rparr>"] Suc.prems by (auto simp: bench_at_cong)
  have u: "u32 (i + 1) = i + 1" using Suc.prems(2) by (simp add: u32_id)
  show ?case
  proof (cases "(i + 1) mod tc_sync_every tc = 0")
    case True
    obtain s3 where s3: "bench_wait env s2 = Inr s3" "bench_at W t cfg m0 (Suc n) s3" "bs_durations s3 = bs_durations s2"
      using wait_ok[OF s2(2) assms(2)] by blast
    define s4 where "s4 = record_duration env (tc_dump_stats tc) (s3\<lparr>bs_stops := Suc (bs_stops s3)\<rparr>)"
    have "bench_at W t cfg m0 (Suc n) s4" "length (bs_durations s4) = Suc (length (bs_durations s))"
      using s3 s2(3) by (simp_all add: s4_def record_duration_ok bench_at_cong)
    moreover have "(i + 1) div tc_sync_every tc = Suc (i div tc_sync_every tc)" using True by (simp add: div_Suc)
    ultimately show ?thesis using Suc.IH[of "Suc n" s4 "i + 1"] Suc.prems(2) s2(1) s3(1) assms(1,3) True u
      by (auto simp: read_stop_def s4_def)
  next
    case False
    then have "(i + 1) div tc_sync_every tc = i div tc_sync_every tc" by (simp add: div_Suc)
    then show ?thesis using Suc.IH[OF s2(2), of "i + 1"] Suc.prems(2) s2(1,3) assms(1,3) False u
      by (auto simp: read_stop_def)
  qed
qed auto

lemma stop_ok:
  assumes "bench_at W t cfg m0 n s" and "queued_jobs (bs_ctx s) = []"
  shows "\<exists>c. Context_Stop (bs_ctx s) = Inr c \<and> context_state c = STOPPED"
  using assms
  by (auto simp: bench_at_def bench_ok_def queued_jobs_def Context_Stop_def Context_Stop_begin_def Context_Stop_flag_def Scheduler_Stop_def
      Context_Stop_clear_def on_scheduler_def FifoScheduler_Stop_clear_def Context_Stop_end_def)

text \<open>The whole program without signals; the memory holds the result of all jobs.\<close>

lemma benchmark_run:
  assumes args: "check_arguments tc = Inr ()" and data: "prepare_data env tc src (if tc_inplace tc then src else new_dst) ctrl m = Inr (dt, m1)"
    and start: "starts_with W env ctx" and env: "\<forall>k. \<not> be_stop env k" "works_alike W env"
    and jobs: "tc_num_jobs tc + tc_num_warmup tc < 2 ^ 32" "0 < tc_sync_every tc"
    and t: "t = \<lparr>in_ptr = src, out_ptr = (if tc_inplace tc then src else new_dst), numel = tc_tensor_numel tc, data_type = dt\<rparr>"
  obtains s where "bs_mem s = (reduce_same W t ^^ (tc_num_jobs tc + tc_num_warmup tc)) m1"
    "length (bs_durations s) = tc_num_jobs tc div tc_sync_every tc" "\<exists>c. Context_Stop (bs_ctx s) = Inr c \<and> context_state c = STOPPED"
    "allreduce_benchmark env tc src new_dst ctrl ctx m =
       bindX (in_program (bench_statistics (bs_durations s))) (\<lambda>report. bindX (in_program (Context_Stop (bs_ctx s))) (\<lambda>c.
         Inr (if tc_verify tc then Some (verify_results tc W src (out_ptr t) ctrl (bs_mem s)) else None, report, s\<lparr>bs_ctx := c\<rparr>)))"
proof -
  obtain b c where c: "be_start env ctx = Inr (b, c)" "context_state c = CTX_RUNNING" "ctx_scheduler c \<noteq> None" "queued_jobs c = []"
    "gc_num_workers (general (ctx_config c)) = W"
    using start unfolding starts_with_def by blast
  define cfg where "cfg = ctx_config c"
  define s1 where "s1 = \<lparr>bs_ctx = c, bs_mem = m1, bs_begin = 0, bs_durations = [], bs_clocks = 0, bs_stops = 0\<rparr>"
  have "bench_at W t cfg m1 0 s1" using c by (simp add: s1_def bench_at_def bench_ok_def cfg_def)
  then obtain s2 where s2: "submit_warmup env t (tc_num_warmup tc) s1 = Inr s2" "bench_at W t cfg m1 (0 + tc_num_warmup tc) s2" "bs_durations s2 = []"
    using warmup_ok[OF env(1), of W t cfg m1 0 s1 "tc_num_warmup tc"] by (auto simp: s1_def)
  obtain s3 where s3: "bench_wait env s2 = Inr s3" "bench_at W t cfg m1 (0 + tc_num_warmup tc) s3" "bs_durations s3 = []"
    using wait_ok[OF s2(2) env(2)] s2(3) by auto
  define s4 where "s4 = s3\<lparr>bs_clocks := Suc (bs_clocks s3), bs_begin := be_clock env (bs_clocks s3)\<rparr>"
  have s4: "bench_at W t cfg m1 (0 + tc_num_warmup tc) s4" "bs_durations s4 = []" using s3(2,3) by (simp_all add: s4_def bench_at_cong)
  obtain s5 where s5: "timed_jobs env tc t (tc_num_jobs tc) 0 s4 = Inr s5" "bench_at W t cfg m1 (0 + tc_num_warmup tc + tc_num_jobs tc) s5"
    "length (bs_durations s5) = tc_num_jobs tc div tc_sync_every tc"
    using timed_ok[OF env jobs(2) s4(1), of 0 "tc_num_jobs tc"] jobs(1) s4(2) by auto
  obtain s6 where s6: "bench_wait env s5 = Inr s6" "bench_at W t cfg m1 (0 + tc_num_warmup tc + tc_num_jobs tc) s6" "queued_jobs (bs_ctx s6) = []"
    "bs_durations s6 = bs_durations s5"
    using wait_ok[OF s5(2) env(2)] by auto
  define s7 where "s7 = s6\<lparr>bs_stops := Suc (bs_stops s6)\<rparr>"
  have "bs_mem s7 = (reduce_same W t ^^ (tc_num_jobs tc + tc_num_warmup tc)) m1" "gc_num_workers (general (ctx_config (bs_ctx s7))) = W"
    using s6(2,3) c(5) by (simp_all add: s7_def bench_at_def cfg_def add.commute)
  moreover have "\<exists>c. Context_Stop (bs_ctx s7) = Inr c \<and> context_state c = STOPPED" using stop_ok[OF s6(2,3)] by (simp add: s7_def)
  moreover have "allreduce_benchmark env tc src new_dst ctrl ctx m =
       bindX (in_program (bench_statistics (bs_durations s7))) (\<lambda>report. bindX (in_program (Context_Stop (bs_ctx s7))) (\<lambda>c.
         Inr (if tc_verify tc then Some (verify_results tc W src (out_ptr t) ctrl (bs_mem s7)) else None, report, s7\<lparr>bs_ctx := c\<rparr>)))"
    using args data c(1) s2(1) s3(1) s5(1) s6(1) env(1) calculation(2)
    by (simp add: allreduce_benchmark_def Let_def t[symmetric] s1_def[symmetric] read_clock_def s4_def read_stop_def s7_def GetConfig_def)
       (simp add: t)
  moreover have "length (bs_durations s7) = tc_num_jobs tc div tc_sync_every tc" using s5(3) s6(4) by (simp add: s7_def)
  ultimately show thesis using that by blast
qed

section \<open>Results\<close>

lemma reduce_outside: "\<not> (\<exists>k < numel t. a = out_ptr t + 4 * k) \<Longrightarrow> (reduce_same W t ^^ n) m a = m a"
  by (induction n) (auto simp: reduce_same_def)

lemma reduce_inplace:
  assumes "out_ptr t = in_ptr t" and "j < numel t"
  shows "(reduce_same W t ^^ n) m (in_ptr t + 4 * j) = of_nat (W ^ n) * m (in_ptr t + 4 * j)"
  using assms by (induction n) (auto simp: reduce_same_def)

lemma reduce_to_other:
  assumes "separate (numel t) (in_ptr t) (out_ptr t)" and "j < numel t" and "0 < n"
  shows "(reduce_same W t ^^ n) m (out_ptr t + 4 * j) = of_nat W * m (in_ptr t + 4 * j)"
proof -
  obtain k where n: "n = Suc k" using assms(3) by (cases n) auto
  have "(reduce_same W t ^^ k) m (in_ptr t + 4 * j) = m (in_ptr t + 4 * j)"
    using assms(1,2) by (intro reduce_outside) (auto simp: separate_def)
  then show ?thesis using assms(2) by (auto simp: n reduce_same_def)
qed

lemma prepare_int:
  assumes "tc_tensor_type tc = ''int32''" and "separate (tc_tensor_numel tc) src ctrl"
  obtains m1 where "prepare_data env tc src dst ctrl m = Inr (INT32, m1)" "\<forall>j < tc_tensor_numel tc. m1 (ctrl + 4 * j) = m1 (src + 4 * j)"
    "tc_inplace tc \<longrightarrow> (\<forall>j < tc_tensor_numel tc.
       m1 (src + 4 * j) = int_data (tc_random tc) (be_rand env) src (tc_tensor_numel tc) m (src + 4 * j))"
proof -
  define m2 where "m2 = (if tc_inplace tc then int_data (tc_random tc) (be_rand env) src (tc_tensor_numel tc) m
     else fill_with (\<lambda>_. 123456789) dst (tc_tensor_numel tc) (int_data (tc_random tc) (be_rand env) src (tc_tensor_numel tc) m))"
  have run: "prepare_data env tc src dst ctrl m = Inr (INT32, copy_elements m2 src ctrl (tc_tensor_numel tc) m2)"
    using assms(1) by (simp add: prepare_data_def m2_def Let_def)
  moreover have "\<forall>j < tc_tensor_numel tc. copy_elements m2 src ctrl (tc_tensor_numel tc) m2 (src + 4 * j) = m2 (src + 4 * j)"
    using assms(2) by (auto simp: copy_elements_at separate_def)
  moreover have "\<forall>j < tc_tensor_numel tc. copy_elements m2 src ctrl (tc_tensor_numel tc) m2 (ctrl + 4 * j) = m2 (src + 4 * j)"
    by (simp add: copy_elements_at)
  moreover have "tc_inplace tc \<longrightarrow> m2 = int_data (tc_random tc) (be_rand env) src (tc_tensor_numel tc) m" by (simp add: m2_def)
  ultimately show thesis by (intro that) auto
qed

lemma int_multiplier_exact:
  assumes "tc_num_jobs tc + tc_num_warmup tc < 2 ^ 32" and "tc_inplace tc \<Longrightarrow> W ^ (tc_num_jobs tc + tc_num_warmup tc) < 2 ^ 31"
  shows "int_multiplier tc W = of_nat (if tc_inplace tc then W ^ (tc_num_jobs tc + tc_num_warmup tc) else W)"
  using assms pow_double_exact[of W "tc_num_jobs tc + tc_num_warmup tc"] double_to_int32_exact[of "W ^ (tc_num_jobs tc + tc_num_warmup tc)"]
  by (auto simp: int_multiplier_def submitted_jobs_def u32_id simp flip: of_nat_power)

text \<open>The buffers after all jobs.\<close>

lemma int_run:
  assumes args: "check_arguments tc = Inr ()" "tc_tensor_type tc = ''int32''"
    and env: "starts_with W env ctx" "\<forall>k. \<not> be_stop env k" "works_alike W env"
    and jobs: "tc_num_jobs tc + tc_num_warmup tc < 2 ^ 32" "0 < tc_sync_every tc"
    and sep: "separate (tc_tensor_numel tc) src ctrl" "separate (tc_tensor_numel tc) new_dst ctrl" "separate (tc_tensor_numel tc) src new_dst"
  obtains s x where
    "\<forall>j < tc_tensor_numel tc. bs_mem s ((if tc_inplace tc then src else new_dst) + 4 * j) =
       x j * of_nat (if tc_inplace tc then W ^ (tc_num_jobs tc + tc_num_warmup tc) else W)"
    "\<forall>j < tc_tensor_numel tc. bs_mem s (ctrl + 4 * j) = x j"
    "\<forall>j < tc_tensor_numel tc. \<not> tc_inplace tc \<longrightarrow> bs_mem s (src + 4 * j) = x j"
    "\<forall>j < tc_tensor_numel tc. tc_inplace tc \<longrightarrow> x j = int_data (tc_random tc) (be_rand env) src (tc_tensor_numel tc) m (src + 4 * j)"
    "length (bs_durations s) = tc_num_jobs tc div tc_sync_every tc" "\<exists>c. Context_Stop (bs_ctx s) = Inr c \<and> context_state c = STOPPED"
    "allreduce_benchmark env tc src new_dst ctrl ctx m =
       bindX (in_program (bench_statistics (bs_durations s))) (\<lambda>report. bindX (in_program (Context_Stop (bs_ctx s))) (\<lambda>c.
         Inr (if tc_verify tc then Some (verify_results tc W src (if tc_inplace tc then src else new_dst) ctrl (bs_mem s)) else None,
              report, s\<lparr>bs_ctx := c\<rparr>)))"
proof -
  let ?dst = "if tc_inplace tc then src else new_dst" and ?n = "tc_tensor_numel tc" and ?k = "tc_num_jobs tc + tc_num_warmup tc"
  define t where "t = \<lparr>in_ptr = src, out_ptr = ?dst, numel = ?n, data_type = INT32\<rparr>"
  have t: "in_ptr t = src" "out_ptr t = ?dst" "numel t = ?n" by (simp_all add: t_def)
  obtain m1 where m1: "prepare_data env tc src ?dst ctrl m = Inr (INT32, m1)" "\<forall>j < ?n. m1 (ctrl + 4 * j) = m1 (src + 4 * j)"
    "tc_inplace tc \<longrightarrow> (\<forall>j < ?n. m1 (src + 4 * j) = int_data (tc_random tc) (be_rand env) src ?n m (src + 4 * j))"
    by (rule prepare_int[OF args(2) sep(1)])
  obtain s where s: "bs_mem s = (reduce_same W t ^^ ?k) m1" "length (bs_durations s) = tc_num_jobs tc div tc_sync_every tc"
    "\<exists>c. Context_Stop (bs_ctx s) = Inr c \<and> context_state c = STOPPED"
    "allreduce_benchmark env tc src new_dst ctrl ctx m =
       bindX (in_program (bench_statistics (bs_durations s))) (\<lambda>report. bindX (in_program (Context_Stop (bs_ctx s))) (\<lambda>c.
         Inr (if tc_verify tc then Some (verify_results tc W src ?dst ctrl (bs_mem s)) else None, report, s\<lparr>bs_ctx := c\<rparr>)))"
    by (rule benchmark_run[OF args(1) m1(1) env jobs t_def, unfolded t])
  have pos: "0 < ?k" using args(1) by (auto simp: check_arguments_def split: if_splits)
  have "bs_mem s (?dst + 4 * j) = m1 (src + 4 * j) * of_nat (if tc_inplace tc then W ^ ?k else W)" if "j < ?n" for j
    using that reduce_inplace[of t j ?k W m1] reduce_to_other[of t j ?k W m1] sep(3) pos unfolding s(1) t
    by (cases "tc_inplace tc") (simp_all add: mult.commute)
  moreover have "bs_mem s (ctrl + 4 * j) = m1 (src + 4 * j)" if "j < ?n" for j
    using reduce_outside[of t "ctrl + 4 * j" ?k W m1] that m1(2) separateD(2)[OF sep(1)] separateD(2)[OF sep(2)]
    unfolding s(1) t by (cases "tc_inplace tc") auto
  moreover have "bs_mem s (src + 4 * j) = m1 (src + 4 * j)" if "j < ?n" "\<not> tc_inplace tc" for j
    using reduce_outside[of t "src + 4 * j" ?k W m1] that separateD(1)[OF sep(3)] unfolding s(1) t by auto
  ultimately show thesis using s(2-4) m1(3) by (intro that[of s "\<lambda>j. m1 (src + 4 * j)"]) auto
qed

text \<open>C38: With integers, a correct allreduce among workers that all have the same data is verified successfully, in place or not, and a duration
  is reported for every \<open>sync_every\<close> jobs; in place, provided the product of the numbers of workers over all jobs is below
  \<open>2\<^sup>3\<^sup>1\<close>.\<close>
theorem benchmark_verifies:
  assumes "check_arguments tc = Inr ()" and "tc_tensor_type tc = ''int32''" and "tc_verify tc"
    and "starts_with W env ctx" and "\<forall>k. \<not> be_stop env k" and "works_alike W env"
    and "tc_num_jobs tc + tc_num_warmup tc < 2 ^ 32" and "0 < tc_sync_every tc" and "tc_sync_every tc \<le> tc_num_jobs tc"
    and "separate (tc_tensor_numel tc) src ctrl" and "separate (tc_tensor_numel tc) new_dst ctrl" and "separate (tc_tensor_numel tc) src new_dst"
    and "tc_inplace tc \<longrightarrow> W ^ (tc_num_jobs tc + tc_num_warmup tc) < 2 ^ 31"
  shows "\<exists>report s. allreduce_benchmark env tc src new_dst ctrl ctx m = Inr (Some True, report, s) \<and>
     length (bs_durations s) = tc_num_jobs tc div tc_sync_every tc \<and> bench_statistics (bs_durations s) = Inr report \<and>
     context_state (bs_ctx s) = STOPPED"
proof -
  let ?dst = "if tc_inplace tc then src else new_dst" and ?n = "tc_tensor_numel tc"
  obtain s x where s: "\<forall>j < ?n. bs_mem s (?dst + 4 * j) = x j * of_nat (if tc_inplace tc then W ^ (tc_num_jobs tc + tc_num_warmup tc) else W)"
    "\<forall>j < ?n. bs_mem s (ctrl + 4 * j) = x j" "\<forall>j < ?n. \<not> tc_inplace tc \<longrightarrow> bs_mem s (src + 4 * j) = x j"
    "length (bs_durations s) = tc_num_jobs tc div tc_sync_every tc" "\<exists>c. Context_Stop (bs_ctx s) = Inr c \<and> context_state c = STOPPED"
    "allreduce_benchmark env tc src new_dst ctrl ctx m =
       bindX (in_program (bench_statistics (bs_durations s))) (\<lambda>report. bindX (in_program (Context_Stop (bs_ctx s))) (\<lambda>c.
         Inr (if tc_verify tc then Some (verify_results tc W src ?dst ctrl (bs_mem s)) else None, report, s\<lparr>bs_ctx := c\<rparr>)))"
    by (rule int_run[OF assms(1,2,4-8,10-12)])
  have ok: "\<not> fp_greater (Fin False 0) (tc_allowed_error_percentage tc)"
    using assms(1) by (auto simp: check_arguments_def split: if_splits)
  have "verify_results tc W src ?dst ctrl (bs_mem s)"
    using assms(2,7,13) s(1-3) int_multiplier_exact[of tc W] int_output_exact[OF ok] int_input_exact[OF ok]
    by (auto simp: verify_results_def verified_iff element_errors_def Let_def)
  moreover have "bs_durations s \<noteq> []" using s(4) assms(8,9) by (auto simp: div_eq_0_iff dest: arg_cong[of _ _ length])
  then obtain report where "bench_statistics (bs_durations s) = Inr report" by (simp add: bench_statistics_def)
  ultimately show ?thesis using s(4-6) assms(3) by auto
qed

lemma multiplier_overflow:
  assumes "0 < W" and "8 dvd W" and "11 \<le> tc_num_jobs tc + tc_num_warmup tc" and "W ^ (tc_num_jobs tc + tc_num_warmup tc) < 2 ^ 1024"
    and "tc_num_jobs tc + tc_num_warmup tc < 2 ^ 32" and "tc_inplace tc"
  shows "int_multiplier tc W = 0x80000000" and "(of_nat (W ^ (tc_num_jobs tc + tc_num_warmup tc)) :: 32 word) = 0"
proof -
  let ?k = "tc_num_jobs tc + tc_num_warmup tc"
  have "(8 :: nat) ^ 11 dvd W ^ 11" using assms(2) by (rule dvd_power_same)
  also have "W ^ 11 dvd W ^ ?k" using assms(3) by (rule le_imp_power_dvd)
  finally have d: "2 ^ 33 dvd W ^ ?k" by simp
  then have "2 ^ 33 \<le> W ^ ?k" using assms(1) by (intro dvd_imp_le) auto
  then show "int_multiplier tc W = 0x80000000"
    using pow_double_large[of W ?k] assms(4-6) by (simp add: int_multiplier_def submitted_jobs_def u32_id)
  have "2 ^ 32 dvd W ^ ?k" using d by (rule dvd_trans[rotated]) simp
  then have "2 ^ LENGTH(32) dvd W ^ ?k" by simp
  then show "(of_nat (W ^ ?k) :: 32 word) = 0" by (simp only: word_of_nat_eq_0_iff)
qed

text \<open>C39: In place, the multiplier that the verification uses is limited to 32 bits while the results wrap around: with the default 15 jobs and 8 workers (more
  generally, when 8 divides the number of workers and there are at least 11 jobs) all sums are right and the verification fails.\<close>
theorem benchmark_false_alarm:
  assumes "check_arguments tc = Inr ()" and "tc_tensor_type tc = ''int32''" and "tc_verify tc" and "tc_inplace tc" and "\<not> tc_random tc"
    and "starts_with W env ctx" and "\<forall>k. \<not> be_stop env k" and "works_alike W env"
    and "tc_num_jobs tc + tc_num_warmup tc < 2 ^ 32" and "0 < tc_sync_every tc" and "tc_sync_every tc \<le> tc_num_jobs tc"
    and "separate (tc_tensor_numel tc) src ctrl" and "separate (tc_tensor_numel tc) new_dst ctrl" and "separate (tc_tensor_numel tc) src new_dst"
    and "0 < W" and "8 dvd W" and "11 \<le> tc_num_jobs tc + tc_num_warmup tc" and "W ^ (tc_num_jobs tc + tc_num_warmup tc) < 2 ^ 1024"
    and "2 \<le> tc_tensor_numel tc" and "tc_tensor_numel tc < 2 ^ 31" and "fp_greater (Fin False 100) (tc_allowed_error_percentage tc)"
  shows "\<exists>report s. allreduce_benchmark env tc src new_dst ctrl ctx m = Inr (Some False, report, s) \<and>
     (\<forall>j < tc_tensor_numel tc. bs_mem s (src + 4 * j) = bs_mem s (ctrl + 4 * j) * of_nat (W ^ (tc_num_jobs tc + tc_num_warmup tc)))"
proof -
  let ?n = "tc_tensor_numel tc"
  have flags: "tc_verify tc = True" "tc_inplace tc = True" "tc_random tc = False" using assms(3-5) by simp_all
  obtain s x where s: "\<forall>j < ?n. bs_mem s (src + 4 * j) = x j * of_nat (W ^ (tc_num_jobs tc + tc_num_warmup tc))"
    "\<forall>j < ?n. bs_mem s (ctrl + 4 * j) = x j" "\<forall>j < ?n. x j = int_data False (be_rand env) src ?n m (src + 4 * j)"
    "length (bs_durations s) = tc_num_jobs tc div tc_sync_every tc" "\<exists>c. Context_Stop (bs_ctx s) = Inr c \<and> context_state c = STOPPED"
    "allreduce_benchmark env tc src new_dst ctrl ctx m =
       bindX (in_program (bench_statistics (bs_durations s))) (\<lambda>report. bindX (in_program (Context_Stop (bs_ctx s))) (\<lambda>c.
         Inr (Some (verify_results tc W src src ctrl (bs_mem s)), report, s\<lparr>bs_ctx := c\<rparr>)))"
    by (rule int_run[OF assms(1,2,6-10,12-14), unfolded flags if_True simp_thms])
  note mo = multiplier_overflow[OF assms(15-18,9,4)]
  have "signed_take_bit 31 (int ?n) = int ?n" using assms(20) by (simp add: signed_take_bit_int_eq_self_iff)
  then have "x 1 = - 1" using s(3) assms(19) by (simp add: int_data_def alternate_at signed_int_def)
  then have "x 1 * int_multiplier tc W = 0x80000000" by (simp add: mo)
  then have "int_output_error (int_multiplier tc W) (x 1) 0 = Fin False 100" by (rule int_output_all_wrong)
  moreover have "1 < ?n" "bs_mem s (ctrl + 4 * 1) = x 1" "bs_mem s (src + 4 * 1) = 0"
    using spec[OF s(1), of 1] spec[OF s(2), of 1] assms(19) by (simp_all add: mo(2) del: of_nat_power)
  ultimately have "element_errors tc W src src ctrl (bs_mem s) 1 \<noteq> 0" "1 < ?n"
    using assms(2,21) by (auto simp: element_errors_def Let_def)
  then have "\<not> verify_results tc W src src ctrl (bs_mem s)" by (auto simp: verify_results_def verified_iff)
  moreover have "bs_durations s \<noteq> []" using s(4) assms(10,11) by (auto simp: div_eq_0_iff dest: arg_cong[of _ _ length])
  then obtain report where "bench_statistics (bs_durations s) = Inr report" by (simp add: bench_statistics_def)
  ultimately show ?thesis using s(1,2,5,6) by auto
qed

text \<open>Only errors in one direction are found: in place, any output that is at least as large as a non-negative expectation is accepted.\<close>

lemma verification_one_sided:
  assumes "check_arguments tc = Inr ()" and "tc_tensor_type tc = ''int32''" and "tc_inplace tc"
    and "\<forall>j < tc_tensor_numel tc. 0 \<le> sint (m (ctrl + 4 * j) * int_multiplier tc W) \<and>
       sint (m (ctrl + 4 * j) * int_multiplier tc W) \<le> sint (m (dst + 4 * j))"
  shows "verify_results tc W src dst ctrl m"
proof -
  have "\<not> fp_greater (Fin False 0) (tc_allowed_error_percentage tc)"
    using assms(1) by (auto simp: check_arguments_def split: if_splits)
  then show ?thesis using assms(2-4) int_output_large by (auto simp: verify_results_def verified_iff element_errors_def Let_def)
qed

text \<open>After the signal handler has stopped the context, and before the flag is set, submitting a job and waiting abort the program.\<close>

lemma signal_race:
  assumes "signal_stop s = Inr s1"
  shows "\<exists>m1 m2. bench_submit src dst n dt s1 = Inl (Aborted (Fatal m1)) \<and> bench_wait env s1 = Inl (Aborted (Fatal m2))"
proof -
  obtain c where "Context_Stop (bs_ctx s) = Inr c" "s1 = s\<lparr>bs_ctx := c\<rparr>"
    using assms by (cases "Context_Stop (bs_ctx s)") (auto simp: signal_stop_def)
  moreover from this(1) have "context_state c = STOPPED" by (auto simp: Context_Stop_def Context_Stop_end_def bindE_eq_Inr)
  ultimately show ?thesis by (simp add: bench_submit_def bench_wait_def AllReduceAsync_def AllReduceAsync_create_def WaitForAllJobs_def)
qed

lemma sync_zero:
  assumes args: "check_arguments tc = Inr ()" and data: "prepare_data env tc src (if tc_inplace tc then src else new_dst) ctrl m = Inr (dt, m1)"
    and start: "starts_with W env ctx" and env: "\<forall>k. \<not> be_stop env k" "works_alike W env" and zero: "tc_sync_every tc = 0"
  shows "allreduce_benchmark env tc src new_dst ctrl ctx m = Inl (Aborted (Crash ''(i+1)%sync_every''))"
proof -
  define t where "t = \<lparr>in_ptr = src, out_ptr = (if tc_inplace tc then src else new_dst), numel = tc_tensor_numel tc, data_type = dt\<rparr>"
  obtain b c where c: "be_start env ctx = Inr (b, c)" "context_state c = CTX_RUNNING" "ctx_scheduler c \<noteq> None" "queued_jobs c = []"
    using start unfolding starts_with_def by blast
  define s1 where "s1 = \<lparr>bs_ctx = c, bs_mem = m1, bs_begin = 0, bs_durations = [], bs_clocks = 0, bs_stops = 0\<rparr>"
  have "bench_at W t (ctx_config c) m1 0 s1" using c by (simp add: s1_def bench_at_def bench_ok_def)
  then obtain s2 where s2: "submit_warmup env t (tc_num_warmup tc) s1 = Inr s2" "bench_at W t (ctx_config c) m1 (0 + tc_num_warmup tc) s2"
    using warmup_ok[OF env(1)] by blast
  obtain s3 where s3: "bench_wait env s2 = Inr s3" "bench_at W t (ctx_config c) m1 (0 + tc_num_warmup tc) s3" using wait_ok[OF s2(2) env(2)] by blast
  define s4 where "s4 = s3\<lparr>bs_clocks := Suc (bs_clocks s3), bs_begin := be_clock env (bs_clocks s3)\<rparr>"
  have s4: "bench_at W t (ctx_config c) m1 (0 + tc_num_warmup tc) (s4\<lparr>bs_stops := Suc (bs_stops s4)\<rparr>)"
    using s3(2) by (simp add: s4_def bench_at_cong)
  obtain k where k: "tc_num_jobs tc = Suc k" using args by (cases "tc_num_jobs tc") (auto simp: check_arguments_def split: if_splits)
  have "timed_jobs env tc t (tc_num_jobs tc) 0 s4 = Inl (Aborted (Crash ''(i+1)%sync_every''))"
    using submit_ok[OF s4] env(1) zero by (auto simp: k read_stop_def)
  then show ?thesis using args data c(1) s2(1) s3(1)
    by (simp add: allreduce_benchmark_def Let_def t_def[symmetric] s1_def[symmetric] read_clock_def s4_def)
qed

text \<open>Not waiting at all, which the option's description allows, divides by zero; waiting less often than there are jobs leaves no duration.\<close>
theorem benchmark_sync_crashes:
  assumes "check_arguments tc = Inr ()" and "tc_tensor_type tc = ''int32''"
    and "starts_with W env ctx" and "\<forall>k. \<not> be_stop env k" and "works_alike W env"
    and "tc_num_jobs tc + tc_num_warmup tc < 2 ^ 32" and "tc_sync_every tc = 0 \<or> tc_num_jobs tc < tc_sync_every tc"
    and "separate (tc_tensor_numel tc) src ctrl" and "separate (tc_tensor_numel tc) new_dst ctrl" and "separate (tc_tensor_numel tc) src new_dst"
  shows "allreduce_benchmark env tc src new_dst ctrl ctx m =
     Inl (Aborted (Crash (if tc_sync_every tc = 0 then ''(i+1)%sync_every'' else ''*durations_ns.end()'')))"
proof (cases "tc_sync_every tc = 0")
  case False
  then have pos: "0 < tc_sync_every tc" by simp
  obtain s where s: "length (bs_durations s) = tc_num_jobs tc div tc_sync_every tc"
    "allreduce_benchmark env tc src new_dst ctrl ctx m =
       bindX (in_program (bench_statistics (bs_durations s))) (\<lambda>report. bindX (in_program (Context_Stop (bs_ctx s))) (\<lambda>c.
         Inr (if tc_verify tc then Some (verify_results tc W src (if tc_inplace tc then src else new_dst) ctrl (bs_mem s)) else None,
              report, s\<lparr>bs_ctx := c\<rparr>)))"
    by (rule int_run[OF assms(1-6) pos assms(8-10)])
  then have "bs_durations s = []" using False assms(7) by (auto simp flip: length_0_conv)
  then show ?thesis using s(2) False by (simp add: bench_statistics_def)
next
  case True
  let ?dst = "if tc_inplace tc then src else new_dst"
  obtain m1 where m1: "prepare_data env tc src ?dst ctrl m = Inr (INT32, m1)" by (rule prepare_int[OF assms(2,8)])
  show ?thesis using sync_zero[OF assms(1) m1 assms(3-5) True] True by simp
qed

section \<open>Concrete runs\<close>

text \<open>Workers that do all jobs while the main thread waits.\<close>

definition bench_sample_env :: "nat \<Rightarrow> bench_env" where
  "bench_sample_env W =
     \<lparr>be_start = (\<lambda>c. Inr (True, c\<lparr>context_state := CTX_RUNNING, ctx_scheduler := Some (new_FifoScheduler 2),
        ctx_config := default_Config\<lparr>general := (general default_Config)\<lparr>gc_num_workers := W\<rparr>\<rparr>\<rparr>)),
      be_wait = (\<lambda>c m. (c\<lparr>ctx_scheduler := map_option (\<lambda>s. s\<lparr>fs_queue := []\<rparr>) (ctx_scheduler c), number_of_current_jobs := 0\<rparr>,
        fold (job_effect W c) (queued_jobs c) m)),
      be_wait_job = (\<lambda>_ c m. (c, m)), be_clock = (\<lambda>k. 100 * k), be_stop = (\<lambda>_. False), be_rand = (\<lambda>_. 0)\<rparr>"

lemma bench_env_ok:
  "works_alike W (bench_sample_env W)" "starts_with W (bench_sample_env W) c" "\<forall>k. \<not> be_stop (bench_sample_env W) k"
  by (auto simp: works_alike_def starts_with_def bench_sample_env_def queued_jobs_def new_FifoScheduler_def split: option.splits)

lemma sample_separate: "separate 3 0 100" "separate 3 200 100" "separate 3 0 200"
  by (auto simp: separate_def)

definition sample_tc :: "nat \<Rightarrow> nat \<Rightarrow> TestConfig" where
  "sample_tc jobs sync = default_TestConfig\<lparr>tc_tensor_numel := 3, tc_num_jobs := jobs, tc_sync_every := sync, tc_verify := True\<rparr>"

lemma sample_tc_ok: "0 < jobs \<Longrightarrow> check_arguments (sample_tc jobs sync) = Inr ()"
  by (simp add: check_arguments_def sample_tc_def default_TestConfig_def)

lemma sample_tc_simps [simp]:
  "tc_tensor_type (sample_tc j y) = ''int32''" "tc_verify (sample_tc j y)" "tc_num_jobs (sample_tc j y) = j" "tc_num_warmup (sample_tc j y) = 5"
  "tc_sync_every (sample_tc j y) = y" "tc_tensor_numel (sample_tc j y) = 3" "tc_inplace (sample_tc j y)" "\<not> tc_random (sample_tc j y)"
  "tc_allowed_error_percentage (sample_tc j y) = Fin False 1"
  by (simp_all add: sample_tc_def default_TestConfig_def)

theorem benchmark_verifies_witness:
  "\<exists>report s. allreduce_benchmark (bench_sample_env 4) (sample_tc 10 3) 0 200 100 (new_Context default_Config) (\<lambda>_. 7) = Inr (Some True, report, s) \<and>
     length (bs_durations s) = 3"
  using benchmark_verifies[where tc = "sample_tc 10 3" and W = 4 and env = "bench_sample_env 4" and src = 0 and new_dst = 200 and ctrl = 100
      and ctx = "new_Context default_Config" and m = "\<lambda>_. 7"] sample_separate bench_env_ok[of 4] sample_tc_ok[of 10 3] by auto

theorem benchmark_false_alarm_witness:
  "\<exists>report s. allreduce_benchmark (bench_sample_env 8) (sample_tc 10 1) 0 200 100 (new_Context default_Config) (\<lambda>_. 7) = Inr (Some False, report, s)"
  using benchmark_false_alarm[where tc = "sample_tc 10 1" and W = 8 and env = "bench_sample_env 8" and src = 0 and new_dst = 200 and ctrl = 100
      and ctx = "new_Context default_Config" and m = "\<lambda>_. 7"] sample_separate bench_env_ok[of 8] sample_tc_ok[of 10 1] by auto

theorem benchmark_sync_crashes_witness:
  "allreduce_benchmark (bench_sample_env 4) (sample_tc 10 0) 0 200 100 (new_Context default_Config) (\<lambda>_. 7) = Inl (Aborted (Crash ''(i+1)%sync_every''))"
  using benchmark_sync_crashes[where tc = "sample_tc 10 0" and W = 4 and env = "bench_sample_env 4" and src = 0 and new_dst = 200 and ctrl = 100
      and ctx = "new_Context default_Config" and m = "\<lambda>_. 7"] sample_separate bench_env_ok[of 4] sample_tc_ok[of 10 0] by auto

end
