(* ===== verification/Csv_Model.thy ===== *)
theory Csv_Model
  imports Grpc_Client Common_Types Rdma_Utils
begin

text \<open>
  The description of the model that the DNN benchmark trains (benchmarks/dnn_benchmark/main.cc: read_csv, Layer, Model and the first
  part of main): a file with a line of column names and one line per layer, with the index, the number of elements and the two
  durations. Lines are read by \<open>std::getline\<close> (getlines of
  Rdma_Utils), numbers by the extraction of an \<open>int\<close> from a stream.
\<close>

section \<open>Reading the file\<close>

definition line_end :: char where
  "line_end = CHR 0x0A"

text \<open>\<open>ss >> val\<close> for an \<open>int\<close>: the value and what is left, or a failure, also when the value does not fit.\<close>

definition read_int :: "string \<Rightarrow> (int \<times> string) option" where
  "read_int s =
     (let s1 = dropWhile is_space s;
          neg = (s1 \<noteq> [] \<and> hd s1 = CHR ''-'');
          s2 = (if neg \<or> (s1 \<noteq> [] \<and> hd s1 = CHR ''+'') then tl s1 else s1);
          ds = takeWhile is_digit s2;
          v = (if neg then - digits_value ds else digits_value ds)
      in if ds = [] \<or> v < - (2 ^ 31) \<or> 2 ^ 31 \<le> v then None else Some (v, dropWhile is_digit s2))"

text \<open>The next character is skipped if it is a comma.\<close>

definition skip_comma :: "string \<Rightarrow> string" where
  "skip_comma s = (if s \<noteq> [] \<and> hd s = CHR '','' then tl s else s)"

lemma read_int_shorter:
  assumes "read_int s = Some (v, r)"
  shows "length (skip_comma r) < length s"
proof -
  define s1 where "s1 = dropWhile is_space s"
  define s2 where "s2 = (if s1 \<noteq> [] \<and> (hd s1 = CHR ''-'' \<or> hd s1 = CHR ''+'') then tl s1 else s1)"
  have r: "takeWhile is_digit s2 \<noteq> []" "r = dropWhile is_digit s2"
    using assms by (auto simp: read_int_def Let_def s1_def[symmetric] s2_def split: if_splits)
  have "length s2 \<le> length s" using length_dropWhile_le[of is_space s] by (auto simp: s2_def s1_def)
  moreover have "length s2 = length (takeWhile is_digit s2) + length r"
    unfolding r(2) by (metis length_append takeWhile_dropWhile_id)
  moreover have "length (skip_comma r) \<le> length r" by (simp add: skip_comma_def)
  ultimately show ?thesis using r(1) by (cases "takeWhile is_digit s2") auto
qed

function row_ints :: "string \<Rightarrow> int list" where
  "row_ints s = (case read_int s of None \<Rightarrow> [] | Some (v, r) \<Rightarrow> v # row_ints (skip_comma r))"
  by pat_completeness auto
termination by (relation "measure length") (auto dest: read_int_shorter)

declare row_ints.simps [simp del]

type_synonym columns = "(string \<times> nat list) list"

text \<open>The numbers of a line go to the columns from \<open>k\<close> on, as unsigned numbers.\<close>

fun add_row :: "nat \<Rightarrow> int list \<Rightarrow> columns \<Rightarrow> columns outcome" where
  "add_row k [] cols = Inr cols"
| "add_row k (v # vs) cols =
     (if k < length cols
      then add_row (k + 1) vs (cols[k := (fst (cols ! k), snd (cols ! k) @ [nat (v mod 2 ^ 64)])])
      else Inl (Crash ''result.at(colIdx)''))"

fun add_rows :: "int list list \<Rightarrow> columns \<Rightarrow> columns outcome" where
  "add_rows [] cols = Inr cols"
| "add_rows (r # rs) cols = bindE (add_row 0 r cols) (add_rows rs)"

text \<open>\<open>None\<close> is a file that cannot be opened.\<close>

definition read_csv :: "string option \<Rightarrow> columns outcome" where
  "read_csv file =
     (case file of
        None \<Rightarrow> Inl (Crash ''Could not open file'')
      | Some s \<Rightarrow>
          (case getlines line_end s of
             [] \<Rightarrow> Inr []
           | h # rows \<Rightarrow> add_rows (map row_ints rows) (map (\<lambda>n. (n, [])) (getlines CHR '','' h))))"

section \<open>The model\<close>

record Layer =
  ly_numel :: nat
  ly_forward_pass_ns :: nat
  ly_backward_pass_ns :: nat
  ly_allreduce_job :: "JobId option"
  ly_data :: ptr

record Model =
  mo_total_numel :: nat
  mo_num_layers :: nat
  mo_layers :: "Layer list"

definition cell :: "columns \<Rightarrow> nat \<Rightarrow> nat \<Rightarrow> nat outcome" where
  "cell cols k i =
     (if k < length cols \<and> i < length (snd (cols ! k)) then Inr (snd (cols ! k) ! i) else Inl (Crash ''csv_model[]''))"

fun build_layers :: "columns \<Rightarrow> nat \<Rightarrow> (Layer list \<times> nat) outcome" where
  "build_layers cols 0 = Inr ([], 0)"
| "build_layers cols (Suc i) =
     bindE (build_layers cols i) (\<lambda>(ls, total).
     bindE (cell cols 1 i) (\<lambda>n. bindE (cell cols 2 i) (\<lambda>f. bindE (cell cols 3 i) (\<lambda>b.
       Inr (ls @ [\<lparr>ly_numel = n, ly_forward_pass_ns = f, ly_backward_pass_ns = b, ly_allreduce_job = None, ly_data = 0\<rparr>],
            u64_add total n)))))"

definition build_model :: "columns \<Rightarrow> Model outcome" where
  "build_model cols =
     (if cols = [] then Inl (Crash ''csv_model[]'')
      else let n = length (snd (cols ! 0))
           in bindE (build_layers cols n) (\<lambda>(ls, total).
                Inr \<lparr>mo_total_numel = total, mo_num_layers = n, mo_layers = ls\<rparr>))"

text \<open>The layers share one array of floats.\<close>

fun place_layers :: "ptr \<Rightarrow> nat \<Rightarrow> Layer list \<Rightarrow> Layer list" where
  "place_layers data offset [] = []"
| "place_layers data offset (l # ls) =
     l\<lparr>ly_data := data + 4 * offset\<rparr> # place_layers data (u64_add offset (ly_numel l)) ls"

section \<open>Text and back\<close>

text \<open>How such a file is written: the fields of a line are separated by commas, the lines by line ends.\<close>

fun join :: "char \<Rightarrow> string list \<Rightarrow> string" where
  "join d [] = []"
| "join d [x] = x"
| "join d (x # xs) = x @ d # join d xs"

definition row_text :: "nat list \<Rightarrow> string" where
  "row_text r = join CHR '','' (map nat_string r)"

definition csv_text :: "string list \<Rightarrow> nat list list \<Rightarrow> string" where
  "csv_text names rows = join line_end (join CHR '','' names # map row_text rows)"

declare nat_string.simps [simp del]

lemma split_at_separator:
  assumes "\<forall>c \<in> set xs. P c" and "s = [] \<or> \<not> P (hd s)"
  shows "takeWhile P (xs @ s) = xs" and "dropWhile P (xs @ s) = s"
  using assms by (cases s; simp add: takeWhile_append dropWhile_append)+

lemma getlines_Nil: "getlines d [] = []"
  by (subst getlines.simps) simp

lemma getlines_cons:
  assumes "d \<notin> set x" and "x \<noteq> []"
  shows "getlines d x = [x]" and "getlines d (x @ d # s) = x # getlines d s"
proof -
  have x: "\<forall>c \<in> set x. c \<noteq> d" using assms(1) by blast
  have all: "takeWhile (\<lambda>c. c \<noteq> d) x = x" "dropWhile (\<lambda>c. c \<noteq> d) x = []"
    using x by (simp_all add: takeWhile_eq_all_conv dropWhile_eq_Nil_conv)
  show "getlines d x = [x]"
    by (subst getlines.simps) (simp only: all assms(2) if_False drop_Nil getlines_Nil)
  show "getlines d (x @ d # s) = x # getlines d s"
    using split_at_separator[OF x, of "d # s"] by (subst getlines.simps) simp
qed

lemma getlines_join:
  "\<forall>x \<in> set xs. d \<notin> set x \<and> x \<noteq> [] \<Longrightarrow> getlines d (join d xs) = xs"
  by (induction d xs rule: join.induct) (simp_all add: getlines_cons getlines_Nil)

lemma digit_of_char: "is_digit c \<longleftrightarrow> (\<exists>d < 10. c = char_of (48 + d :: nat))"
proof
  assume "is_digit c"
  then have "c = char_of (48 + ((of_char c :: nat) - 48))" "(of_char c :: nat) - 48 < 10" unfolding is_digit_def by (simp, linarith)
  then show "\<exists>d < 10. c = char_of (48 + d :: nat)" by blast
next
  assume "\<exists>d < 10. c = char_of (48 + d :: nat)"
  then obtain d :: nat where "d < 10" "c = char_of (48 + d)" by blast
  moreover have "(of_char (char_of (48 + d) :: char) :: nat) = 48 + d" using \<open>d < 10\<close> by simp
  ultimately show "is_digit c" by (simp only: is_digit_def) simp
qed

lemma not_digits: "\<not> is_digit CHR '',''" "\<not> is_digit line_end" "\<not> is_digit CHR ''-''" "\<not> is_digit CHR ''+''" "is_space c \<Longrightarrow> \<not> is_digit c"
  by (auto simp: is_digit_def line_end_def is_space_def)

lemma nat_string_digits: "nat_string n \<noteq> [] \<and> (\<forall>c \<in> set (nat_string n). is_digit c) \<and> digits_value (nat_string n) = int n"
proof (induction n rule: nat_string.induct)
  case (1 n)
  have c: "(of_char (char_of (48 + d) :: char) :: int) = 48 + int d" "is_digit (char_of (48 + d))" if "d < 10" for d
    using that digit_of_char of_nat_of_char[of "char_of (48 + d)", where ?'a = int, symmetric] by auto
  show ?case
  proof (cases "n < 10")
    case True
    then show ?thesis using c[of n] by (simp add: nat_string.simps[of n] digits_value_def)
  next
    case False
    then show ?thesis using "1.IH"[OF False] c[of "n mod 10"]
      by (simp add: nat_string.simps[of n] digits_value_def zdiv_int zmod_int)
  qed
qed

text \<open>A number that fits is read back; one that does not fit ends the line.\<close>

lemma read_int_nat_string:
  assumes "s = [] \<or> \<not> is_digit (hd s)"
  shows "read_int (nat_string n @ s) = (if n < 2 ^ 31 then Some (int n, s) else None)"
proof -
  note ds = nat_string_digits[of n]
  obtain c cs where c: "nat_string n = c # cs" "is_digit c" using ds by (cases "nat_string n") auto
  have c': "\<not> is_space c" "c \<noteq> CHR ''-''" "c \<noteq> CHR ''+''" using c(2) not_digits by blast+
  have "takeWhile is_digit (nat_string n @ s) = nat_string n" "dropWhile is_digit (nat_string n @ s) = s"
    using split_at_separator[of "nat_string n" is_digit s] ds assms by blast+
  then show ?thesis using ds c c' by (simp add: read_int_def Let_def)
qed

lemma row_ints_text:
  "row_ints (row_text r) = map int (takeWhile (\<lambda>n. n < 2 ^ 31) r)"
proof (induction r)
  case Nil
  then show ?case by (subst row_ints.simps) (simp add: row_text_def read_int_def Let_def)
next
  case (Cons n r)
  have nil: "row_ints [] = []" by (subst row_ints.simps) (simp add: read_int_def Let_def)
  show ?case
  proof (cases r)
    case Nil
    then show ?thesis using read_int_nat_string[of "[]" n] nil
      by (subst row_ints.simps) (simp add: row_text_def skip_comma_def)
  next
    case (Cons m ms)
    have "row_text (n # r) = nat_string n @ CHR '','' # row_text r" by (simp add: row_text_def Cons)
    moreover have "read_int (nat_string n @ CHR '','' # row_text r) = (if n < 2 ^ 31 then Some (int n, CHR '','' # row_text r) else None)"
      by (rule read_int_nat_string) (simp add: not_digits)
    ultimately show ?thesis using Cons.IH by (subst row_ints.simps) (simp add: skip_comma_def)
  qed
qed

text \<open>The numbers that are in each column afterwards.\<close>

lemma add_row_columns:
  "k + length vs \<le> length cols \<Longrightarrow>
     add_row k vs cols = Inr (map (\<lambda>j. (fst (cols ! j),
       if k \<le> j \<and> j < k + length vs then snd (cols ! j) @ [nat (vs ! (j - k) mod 2 ^ 64)] else snd (cols ! j))) [0..<length cols])"
proof (induction vs arbitrary: k cols)
  case Nil
  show ?case by (simp, rule nth_equalityI) auto
next
  case (Cons v vs)
  let ?cols = "cols[k := (fst (cols ! k), snd (cols ! k) @ [nat (v mod 2 ^ 64)])]"
  have k: "k < length cols" "k + 1 + length vs \<le> length ?cols" using Cons.prems by simp_all
  have "(fst (?cols ! j), if k + 1 \<le> j \<and> j < k + 1 + length vs then snd (?cols ! j) @ [nat (vs ! (j - (k + 1)) mod 2 ^ 64)] else snd (?cols ! j)) =
    (fst (cols ! j), if k \<le> j \<and> j < k + length (v # vs) then snd (cols ! j) @ [nat ((v # vs) ! (j - k) mod 2 ^ 64)] else snd (cols ! j))"
    if "j < length cols" for j
    using k(1) that by (cases j k rule: linorder_cases) (simp_all add: nth_Cons')
  then show ?case using Cons.IH[OF k(2)] k(1) by simp
qed

lemma add_rows_columns:
  "\<forall>r \<in> set rs. length r \<le> length cols \<Longrightarrow>
     add_rows rs cols = Inr (map (\<lambda>j. (fst (cols ! j),
       snd (cols ! j) @ map (\<lambda>r. nat (r ! j mod 2 ^ 64)) (filter (\<lambda>r. j < length r) rs))) [0..<length cols])"
proof (induction rs arbitrary: cols)
  case Nil
  show ?case by (simp, rule nth_equalityI) auto
next
  case (Cons r rs)
  have r: "length r \<le> length cols" using Cons.prems by simp
  let ?cols = "map (\<lambda>j. (fst (cols ! j), if j < length r then snd (cols ! j) @ [nat (r ! j mod 2 ^ 64)] else snd (cols ! j))) [0..<length cols]"
  have "add_row 0 r cols = Inr ?cols" using add_row_columns[of 0 r cols] r by simp
  moreover have "\<forall>r \<in> set rs. length r \<le> length ?cols" using Cons.prems by simp
  ultimately show ?case using Cons.IH[of ?cols] by (simp add: bindE_def)
qed

text \<open>A file of \<open>length names\<close> columns: a number that does not fit an \<open>int\<close> is dropped with the rest of its line.\<close>

lemma read_csv_text:
  assumes names: "names \<noteq> []" "\<forall>x \<in> set names. x \<noteq> [] \<and> CHR '','' \<notin> set x \<and> line_end \<notin> set x"
    and rows: "\<forall>r \<in> set rows. r \<noteq> [] \<and> length r \<le> length names"
  shows "read_csv (Some (csv_text names rows)) =
     Inr (map (\<lambda>j. (names ! j, map (\<lambda>r. r ! j) (filter (\<lambda>r. j < length r) (map (takeWhile (\<lambda>n. n < 2 ^ 31)) rows)))) [0..<length names])"
proof -
  have in_join: "c \<in> set (join d xs) \<Longrightarrow> c = d \<or> (\<exists>x \<in> set xs. c \<in> set x)" for c d xs
    by (induction d xs rule: join.induct) auto
  have no_end: "line_end \<notin> set (nat_string n)" for n using nat_string_digits[of n] not_digits(2) by blast
  have comma: "line_end \<noteq> CHR '',''" by (simp add: line_end_def)
  have ne: "join d (x # xs) \<noteq> []" if "x \<noteq> []" for d x xs using that by (cases xs) auto
  have "row_text r \<noteq> [] \<and> line_end \<notin> set (row_text r)" if r: "r \<in> set rows" for r
  proof -
    obtain n ns where r: "r = n # ns" using rows r by (cases r) auto
    then have "row_text r \<noteq> []" using ne[of "nat_string n"] nat_string_digits[of n] by (simp add: row_text_def)
    moreover have "line_end \<notin> set (row_text r)"
      using in_join[of line_end "CHR '',''" "map nat_string r"] no_end comma by (auto simp: row_text_def)
    ultimately show ?thesis by blast
  qed
  moreover have "join CHR '','' names \<noteq> []" using names ne[of "hd names" _ "tl names"] by simp
  moreover have "line_end \<notin> set (join CHR '','' names)" using in_join[of line_end "CHR '',''" names] names comma by blast
  ultimately have "getlines line_end (csv_text names rows) = join CHR '','' names # map row_text rows"
    unfolding csv_text_def by (intro getlines_join) auto
  moreover have "getlines CHR '','' (join CHR '','' names) = names" using names by (intro getlines_join) blast
  moreover have "length (takeWhile P r) \<le> length names" if "r \<in> set rows" for P and r :: "nat list"
    using rows that length_takeWhile_le[of P r] by (meson order_trans)
  moreover have "nat (int (takeWhile (\<lambda>n. n < 2 ^ 31) r ! j) mod 2 ^ 64) = takeWhile (\<lambda>n. n < 2 ^ 31) r ! j"
    if "j < length (takeWhile (\<lambda>n. n < 2 ^ 31) r)" for r :: "nat list" and j
    using set_takeWhileD[OF nth_mem[OF that]] by (simp add: zmod_int[symmetric] nat_mod_distrib)
  ultimately show ?thesis
    by (auto simp: read_csv_def add_rows_columns row_ints_text comp_def filter_map intro!: map_cong)
qed

section \<open>The model that is read\<close>

definition new_Layer :: "nat \<times> nat \<times> nat \<Rightarrow> Layer" where
  "new_Layer l = (case l of (n, f, b) \<Rightarrow>
     \<lparr>ly_numel = n, ly_forward_pass_ns = f, ly_backward_pass_ns = b, ly_allreduce_job = None, ly_data = 0\<rparr>)"

definition layer_row :: "nat \<times> (nat \<times> nat \<times> nat) \<Rightarrow> nat list" where
  "layer_row r = (case r of (i, n, f, b) \<Rightarrow> [i, n, f, b])"

definition model_text :: "string list \<Rightarrow> (nat \<times> nat \<times> nat) list \<Rightarrow> string" where
  "model_text names ls = csv_text names (map layer_row (List.enumerate 0 ls))"

definition layer_fits :: "nat \<times> nat \<times> nat \<Rightarrow> bool" where
  "layer_fits l = (case l of (n, f, b) \<Rightarrow> n < 2 ^ 31 \<and> f < 2 ^ 31 \<and> b < 2 ^ 31)"

definition four_names :: "string list \<Rightarrow> bool" where
  "four_names names \<longleftrightarrow> length names = 4 \<and> (\<forall>x \<in> set names. x \<noteq> [] \<and> CHR '','' \<notin> set x \<and> line_end \<notin> set x)"

lemma build_layers_all:
  assumes "\<forall>k \<in> {1, 2, 3}. k < length cols \<and> n \<le> length (snd (cols ! k))"
  shows "build_layers cols n =
     Inr (map (\<lambda>i. new_Layer (snd (cols ! 1) ! i, snd (cols ! 2) ! i, snd (cols ! 3) ! i)) [0..<n],
          sum_list (take n (snd (cols ! 1))) mod 2 ^ 64)"
  using assms by (induction n) (simp_all add: cell_def bindE_def new_Layer_def take_Suc_conv_app_nth u64_add_def mod_simps)

lemma build_layers_missing:
  assumes "k \<in> {1, 2, 3}" and "length (snd (cols ! k)) < n"
  shows "build_layers cols n = Inl (Crash ''csv_model[]'')"
proof -
  have error: "build_layers cols n = Inl e \<Longrightarrow> e = Crash ''csv_model[]''" for e
    by (induction n) (auto simp: cell_def bindE_def split: sum.splits if_splits prod.splits)
  have present: "build_layers cols n = Inr r \<Longrightarrow> i < n \<Longrightarrow> i < length (snd (cols ! k))" for r i
  proof (induction n arbitrary: r)
    case (Suc n)
    then show ?case using assms(1)
      by (auto simp: cell_def bindE_def less_Suc_eq split: sum.splits if_splits prod.splits)
  qed simp
  show ?thesis
    using error present[OF _ assms(2)] by (cases "build_layers cols n") auto
qed

text \<open>The columns that are read from the text of a model.\<close>

lemma read_model_text:
  assumes names: "four_names names"
  shows "read_csv (Some (model_text names ls)) =
     Inr (map (\<lambda>j. (names ! j, map (\<lambda>r. r ! j) (filter (\<lambda>r. j < length r)
       (map (takeWhile (\<lambda>n. n < 2 ^ 31)) (map layer_row (List.enumerate 0 ls)))))) [0..<4])"
proof -
  have "\<forall>r \<in> set (map layer_row (List.enumerate 0 ls)). r \<noteq> [] \<and> length r \<le> length names"
    using names by (auto simp: four_names_def layer_row_def)
  moreover have "names \<noteq> []" "length names = 4" using names by (auto simp: four_names_def)
  ultimately show ?thesis using names unfolding model_text_def four_names_def by (subst read_csv_text) simp_all
qed

text \<open>C37: A model whose numbers fit \<open>int\<close> is read back from its description, with no layer lost and none shifted.\<close>
lemma model_roundtrip:
  assumes "four_names names" and "length ls \<le> 2 ^ 31" and "\<forall>l \<in> set ls. layer_fits l"
  shows "bindE (read_csv (Some (model_text names ls))) build_model =
     Inr \<lparr>mo_total_numel = sum_list (map fst ls), mo_num_layers = length ls, mo_layers = map new_Layer ls\<rparr>"
proof -
  let ?rows = "map layer_row (List.enumerate 0 ls)"
  have whole: "takeWhile (\<lambda>n. n < 2 ^ 31) r = r \<and> length r = 4" if "r \<in> set ?rows" for r
  proof -
    obtain i where i: "i < length ls" "r = layer_row (i, ls ! i)"
      using \<open>r \<in> set ?rows\<close> by (auto simp: in_set_enumerate_eq)
    obtain n f b where l: "ls ! i = (n, f, b)" by (cases "ls ! i")
    moreover have "layer_fits (ls ! i)" using assms(3) i(1) by simp
    ultimately show ?thesis using assms(2) i by (simp add: layer_row_def layer_fits_def)
  qed
  define cols where "cols = map (\<lambda>j. (names ! j, map (\<lambda>r. r ! j) ?rows)) [0..<4]"
  have "filter (\<lambda>r. j < length r) (map (takeWhile (\<lambda>n. n < 2 ^ 31)) ?rows) = ?rows" if "j < 4" for j
  proof -
    have "map (takeWhile (\<lambda>n. n < 2 ^ 31)) ?rows = ?rows" using whole by (intro map_idI) blast
    moreover have "filter (\<lambda>r. j < length r) ?rows = ?rows" using whole that by (intro filter_True) force
    ultimately show ?thesis by (simp only:)
  qed
  then have cols: "read_csv (Some (model_text names ls)) = Inr cols"
    unfolding read_model_text[OF assms(1)] cols_def by simp
  have col: "snd (cols ! j) = map (\<lambda>r. r ! j) ?rows" "length (snd (cols ! j)) = length ls" if "j < 4" for j
    using that by (simp_all add: cols_def)
  have field: "snd (cols ! j) ! i = layer_row (i, ls ! i) ! j" if "j < 4" "i < length ls" for i j
    using that by (simp add: col nth_enumerate_eq)
  have "new_Layer (snd (cols ! 1) ! i, snd (cols ! 2) ! i, snd (cols ! 3) ! i) = new_Layer (ls ! i)" if "i < length ls" for i
    using that by (simp add: field layer_row_def split: prod.splits)
  then have layers: "map (\<lambda>i. new_Layer (snd (cols ! 1) ! i, snd (cols ! 2) ! i, snd (cols ! 3) ! i)) [0..<length ls] = map new_Layer ls"
    by (intro nth_equalityI) simp_all
  have "snd (cols ! 1) = map fst ls"
    using field[of 1] by (intro nth_equalityI) (simp_all add: col(2) layer_row_def split: prod.splits)
  moreover have "sum_list (map fst ls) < 2 ^ 64"
  proof -
    have "sum_list (map fst ls) \<le> sum_list (map (\<lambda>_. 2 ^ 31) ls)"
      using assms(3) by (intro sum_list_mono) (auto simp: layer_fits_def)
    also have "\<dots> \<le> 2 ^ 31 * 2 ^ 31" using assms(2) by (simp add: sum_list_triv)
    finally show ?thesis by simp
  qed
  ultimately have "build_layers cols (length ls) = Inr (map new_Layer ls, sum_list (map fst ls))"
    unfolding layers[symmetric] by (subst build_layers_all) (simp_all add: col(2), simp add: cols_def)
  then show ?thesis using cols col(2)[of 0] by (simp add: bindE_def build_model_def Let_def) (simp add: cols_def)
qed

lemma model_roundtrip_witness:
  "bindE (read_csv (Some (model_text [''layer_index'', '' numel'', '' forward_pass_ns'', '' backward_pass_ns'']
      [(524288, 5000, 5000), (524289, 5000, 5000), (16777217, 160000, 160000)]))) build_model =
   Inr \<lparr>mo_total_numel = 17825794, mo_num_layers = 3,
     mo_layers = map new_Layer [(524288, 5000, 5000), (524289, 5000, 5000), (16777217, 160000, 160000)]\<rparr>"
  by (subst model_roundtrip) (simp_all add: four_names_def line_end_def layer_fits_def)

text \<open>
  The fields are unsigned numbers of 64 bits, but the file is read into an \<open>int\<close>: one number of \<open>2\<^sup>3\<^sup>1\<close> or more, for instance a pass of
  2.2 seconds in nanoseconds, shortens a column, and a column is then read past its end.
\<close>

lemma large_number_crashes:
  assumes "four_names names" and "length ls \<le> 2 ^ 31" and "l \<in> set ls" and "\<not> layer_fits l"
  shows "bindE (read_csv (Some (model_text names ls))) build_model = Inl (Crash ''csv_model[]'')"
proof -
  let ?rows = "map (takeWhile (\<lambda>n. n < 2 ^ 31)) (map layer_row (List.enumerate 0 ls))"
  define cols where "cols = map (\<lambda>j. (names ! j, map (\<lambda>r. r ! j) (filter (\<lambda>r. j < length r) ?rows))) [0..<4]"
  have cols: "read_csv (Some (model_text names ls)) = Inr cols" unfolding read_model_text[OF assms(1)] cols_def ..
  have "0 < length r" if r: "r \<in> set ?rows" for r
  proof -
    obtain i where i: "i < length ls" "r = takeWhile (\<lambda>n. n < 2 ^ 31) (layer_row (i, ls ! i))"
      using r by (auto simp: in_set_enumerate_eq)
    then show ?thesis using assms(2) by (simp add: layer_row_def split: prod.splits)
  qed
  then have "filter (\<lambda>r. 0 < length r) ?rows = ?rows" by (intro filter_True) blast
  then have len: "length (snd (cols ! 0)) = length ls" by (simp add: cols_def)
  obtain i where i: "i < length ls" "ls ! i = l" using assms(3) by (auto simp: in_set_conv_nth)
  let ?r = "takeWhile (\<lambda>n. n < 2 ^ 31) (layer_row (i, l))"
  have "?r \<in> set ?rows" using i by (force simp: in_set_enumerate_eq)
  moreover have "\<not> 3 < length ?r" using assms(4) by (auto simp: layer_row_def layer_fits_def split: prod.splits)
  ultimately have "length (filter (\<lambda>r. 3 < length r) ?rows) < length ?rows" by (rule length_filter_less)
  then have "length (snd (cols ! 3)) < length ls" by (simp add: cols_def)
  then have "build_layers cols (length ls) = Inl (Crash ''csv_model[]'')" by (intro build_layers_missing[of 3]) simp_all
  moreover have "cols \<noteq> []" by (simp add: cols_def)
  ultimately show ?thesis using cols len by (simp add: bindE_def build_model_def Let_def)
qed

lemma large_number_crashes_witness:
  "bindE (read_csv (Some (model_text [''layer_index'', ''numel'', ''forward'', ''backward''] [(16, 2200000000, 5)]))) build_model =
   Inl (Crash ''csv_model[]'')"
  by (rule large_number_crashes[of _ _ "(16, 2200000000, 5)"]) (simp_all add: four_names_def line_end_def layer_fits_def)

section \<open>The layers in memory\<close>

text \<open>Each layer begins where the one before it ends.\<close>

lemma place_layers_at:
  "offset + sum_list (map ly_numel ls) < 2 ^ 64 \<Longrightarrow>
     place_layers data offset ls =
     map (\<lambda>i. (ls ! i)\<lparr>ly_data := data + 4 * (offset + sum_list (map ly_numel (take i ls)))\<rparr>) [0..<length ls]"
proof (induction ls arbitrary: offset)
  case (Cons l ls)
  have "u64_add offset (ly_numel l) = offset + ly_numel l" using Cons.prems by (simp add: u64_simps)
  then show ?case using Cons.IH[of "offset + ly_numel l"] Cons.prems
    by (simp add: map_upt_Suc add.assoc del: upt_Suc)
qed simp

end
