(* ===== verification/Dnn_Benchmark.thy ===== *)
theory Dnn_Benchmark
  imports Benchmark_Common Csv_Model
begin

text \<open>
  The DNN benchmark (benchmarks/dnn_benchmark/main.cc), built without CUDA: the training of a model of which only the sizes of the
  layers and the durations of the passes are known. In each iteration the forward pass waits, layer by layer, for the job of the
  iteration before; the backward pass submits a new job for each layer, the last layer first. The sleeps that stand for the
  computation have no effect on the state.
\<close>

section \<open>The program\<close>

text \<open>\<open>dn_model\<close> is the content of the file at \<open>model_path\<close>, if it can be opened.\<close>

record DnnConfig =
  dn_model :: "string option"
  dn_device :: string
  dn_num_iters :: nat
  dn_num_warmup :: nat
  dn_verify :: bool
  dn_allowed_error_percentage :: fp
  dn_random :: bool

definition default_DnnConfig :: DnnConfig where
  "default_DnnConfig =
     \<lparr>dn_model = None, dn_device = ''cpu'', dn_num_iters = 10, dn_num_warmup = 5, dn_verify = False,
      dn_allowed_error_percentage = Fin False 1, dn_random = False\<rparr>"

definition dnn_arguments :: "DnnConfig \<Rightarrow> bench_end + unit" where
  "dnn_arguments tc =
     (if dn_device tc \<noteq> ''cpu'' then Inl (Exited 1)
      else if dn_num_iters tc = 0 then Inl (Exited 1)
      else if fp_greater (Fin False 0) (dn_allowed_error_percentage tc) then Inl (Exited 1)
      else Inr ())"

definition wait_layer :: "bench_env \<Rightarrow> JobId \<Rightarrow> bench_state \<Rightarrow> bench_state" where
  "wait_layer env i s = (let (c, m) = be_wait_job env i (bs_ctx s) (bs_mem s) in s\<lparr>bs_ctx := c, bs_mem := m\<rparr>)"

fun forward_pass :: "bench_env \<Rightarrow> Layer list \<Rightarrow> bench_state \<Rightarrow> bench_end + bench_state" where
  "forward_pass env [] s = Inr s"
| "forward_pass env (l # ls) s =
     bindX (case ly_allreduce_job l of None \<Rightarrow> Inr s | Some i \<Rightarrow> read_stop env (wait_layer env i s)) (\<lambda>s1.
     bindX (read_stop env s1) (forward_pass env ls))"

text \<open>The layers are visited from the last to the first.\<close>

fun backward_pass :: "bench_env \<Rightarrow> Layer list \<Rightarrow> bench_state \<Rightarrow> bench_end + Layer list \<times> bench_state" where
  "backward_pass env [] s = Inr ([], s)"
| "backward_pass env (l # ls) s =
     bindX (backward_pass env ls s) (\<lambda>(ls', s1).
     bindX (read_stop env s1) (\<lambda>s2.
     bindX (bench_submit (ly_data l) (ly_data l) (ly_numel l) FLOAT32 s2) (\<lambda>(i, s3).
       Inr (l\<lparr>ly_allreduce_job := Some i\<rparr> # ls', s3))))"

text \<open>The end of an iteration that is not a warm-up.\<close>

definition end_iteration :: "bench_env \<Rightarrow> bench_state \<Rightarrow> bench_state" where
  "end_iteration env s =
     (let (now, s1) = read_clock env s
      in s1\<lparr>bs_durations := bs_durations s1 @ [now - bs_begin s1], bs_begin := now\<rparr>)"

text \<open>\<open>k\<close> iterations from the \<open>i\<close>-th on.\<close>

fun train :: "bench_env \<Rightarrow> nat \<Rightarrow> nat \<Rightarrow> nat \<Rightarrow> Layer list \<Rightarrow> bench_state \<Rightarrow> bench_end + Layer list \<times> bench_state" where
  "train env warmup 0 i ls s = Inr (ls, s)"
| "train env warmup (Suc k) i ls s =
     bindX (forward_pass env ls s) (\<lambda>s1.
     bindX (backward_pass env ls s1) (\<lambda>(ls', s2).
       train env warmup k (i + 1) ls' (if warmup \<le> i then end_iteration env s2 else s2)))"

definition num_iterations :: "DnnConfig \<Rightarrow> nat" where
  "num_iterations tc = u32 (dn_num_iters tc + dn_num_warmup tc)"

definition dnn_errors :: "DnnConfig \<Rightarrow> nat \<Rightarrow> ptr \<Rightarrow> ptr \<Rightarrow> memory \<Rightarrow> nat \<Rightarrow> nat" where
  "dnn_errors tc W data ctrl m j =
     of_bool (fp_greater (float_output_error (fp_convert round32 (pow_double W (num_iterations tc))) (m (ctrl + 4 * j)) (m (data + 4 * j)))
       (dn_allowed_error_percentage tc))"

text \<open>The program with the data of the model at \<open>data\<close> and its copy at \<open>ctrl\<close>. The results are that of the verification, if there is
  one, the statistics and the final state.\<close>

definition dnn_benchmark ::
  "bench_env \<Rightarrow> DnnConfig \<Rightarrow> ptr \<Rightarrow> ptr \<Rightarrow> Context \<Rightarrow> memory \<Rightarrow> bench_end + bool option \<times> bench_report \<times> bench_state"
where
  "dnn_benchmark env tc data ctrl ctx m =
     bindX (dnn_arguments tc) (\<lambda>_.
     bindX (in_program (bindE (read_csv (dn_model tc)) build_model)) (\<lambda>model.
     let n = mo_total_numel model;
         m1 = float_data (dn_random tc) (be_rand env) data n m;
         m2 = copy_elements m1 data ctrl n m1 in
     bindX (in_program (be_start env ctx)) (\<lambda>(_, ctx1).
     let (b, s1) = read_clock env \<lparr>bs_ctx = ctx1, bs_mem = m2, bs_begin = 0, bs_durations = [], bs_clocks = 0, bs_stops = 0\<rparr> in
     bindX (train env (dn_num_warmup tc) (num_iterations tc) 0 (place_layers data 0 (mo_layers model)) (s1\<lparr>bs_begin := b\<rparr>)) (\<lambda>(_, s2).
     bindX (bench_wait env s2) (\<lambda>s3.
     bindX (read_stop env s3) (\<lambda>s4.
     let verdict = (if dn_verify tc
                    then Some (verified (dnn_errors tc (gc_num_workers (general (GetConfig (bs_ctx s4)))) data ctrl (bs_mem s4)) n)
                    else None) in
     bindX (in_program (bench_statistics (bs_durations s4))) (\<lambda>report.
     bindX (in_program (Context_Stop (bs_ctx s4))) (\<lambda>ctx2.
       Inr (verdict, report, s4\<lparr>bs_ctx := ctx2\<rparr>)))))))))"

section \<open>The other threads\<close>

text \<open>
  \<open>e t\<close> is what a job on tensor \<open>t\<close> makes of the memory: it depends on the elements of the tensor only, and changes nothing else. (The
  library scales blocks of elements by a common factor, so the result for an element may depend on the others of its tensor.)
\<close>

definition local_effect :: "(Tensor \<Rightarrow> memory \<Rightarrow> memory) \<Rightarrow> bool" where
  "local_effect e \<longleftrightarrow>
     (\<forall>t m a. (\<forall>k < numel t. a \<noteq> out_ptr t + 4 * k) \<longrightarrow> e t m a = m a) \<and>
     (\<forall>t m m'. (\<forall>k < numel t. m (in_ptr t + 4 * k) = m' (in_ptr t + 4 * k)) \<longrightarrow>
        (\<forall>k < numel t. e t m (out_ptr t + 4 * k) = e t m' (out_ptr t + 4 * k)))"

definition job_effect_on :: "(Tensor \<Rightarrow> memory \<Rightarrow> memory) \<Rightarrow> Context \<Rightarrow> JobId \<Rightarrow> memory \<Rightarrow> memory" where
  "job_effect_on e c i = (case ctx_jobs c i of None \<Rightarrow> (\<lambda>m. m) | Some j \<Rightarrow> e (job_tensor j))"

definition ctx_running :: "Context \<Rightarrow> bool" where
  "ctx_running c \<longleftrightarrow> context_state c = CTX_RUNNING \<and> ctx_scheduler c \<noteq> None"

text \<open>What stays when the other threads run.\<close>

definition ctx_later :: "Context \<Rightarrow> Context \<Rightarrow> bool" where
  "ctx_later c c' \<longleftrightarrow> ctx_running c' \<and> ctx_config c' = ctx_config c \<and> ctx_next_id c' = ctx_next_id c \<and>
     (\<forall>i j. ctx_jobs c i = Some j \<longrightarrow> (\<exists>j'. ctx_jobs c' i = Some j' \<and> job_tensor j' = job_tensor j))"

text \<open>
  Jobs are done in the order of their submission: when a wait for one job returns, it and all jobs queued before it are done, and
  maybe more; when a wait for all jobs returns, the queue is empty. (The workers may have begun a job that is still queued; nobody
  looks at its tensor before it is done.)
\<close>

definition dnn_workers :: "(Tensor \<Rightarrow> memory \<Rightarrow> memory) \<Rightarrow> bench_env \<Rightarrow> bool" where
  "dnn_workers e env \<longleftrightarrow>
     (\<forall>c m. ctx_running c \<longrightarrow> (\<exists>c'. be_wait env c m = (c', fold (job_effect_on e c) (queued_jobs c) m) \<and>
        ctx_later c c' \<and> queued_jobs c' = [])) \<and>
     (\<forall>i c m. ctx_running c \<longrightarrow> (\<exists>c' k. be_wait_job env i c m = (c', fold (job_effect_on e c) (take k (queued_jobs c)) m) \<and>
        ctx_later c c' \<and> queued_jobs c' = drop k (queued_jobs c) \<and> i \<notin> set (queued_jobs c')))"

definition dnn_starts :: "nat \<Rightarrow> bench_env \<Rightarrow> Context \<Rightarrow> bool" where
  "dnn_starts W env ctx \<longleftrightarrow>
     (\<exists>b c. be_start env ctx = Inr (b, c) \<and> ctx_running c \<and> queued_jobs c = [] \<and> ctx_next_id c = 0 \<and>
        gc_num_workers (general (ctx_config c)) = W)"

section \<open>The training\<close>

text \<open>The memory as it will be when the queued jobs are done.\<close>

definition pending :: "(Tensor \<Rightarrow> memory \<Rightarrow> memory) \<Rightarrow> bench_state \<Rightarrow> memory" where
  "pending e s = fold (job_effect_on e (bs_ctx s)) (queued_jobs (bs_ctx s)) (bs_mem s)"

definition dnn_ok :: "bench_state \<Rightarrow> bool" where
  "dnn_ok s \<longleftrightarrow> ctx_running (bs_ctx s) \<and>
     (\<forall>i \<in> set (queued_jobs (bs_ctx s)). i < ctx_next_id (bs_ctx s) \<and> ctx_jobs (bs_ctx s) i \<noteq> None)"

text \<open>What the passes leave alone.\<close>

definition same_clock :: "bench_state \<Rightarrow> bench_state \<Rightarrow> bool" where
  "same_clock s s' \<longleftrightarrow> bs_begin s' = bs_begin s \<and> bs_durations s' = bs_durations s \<and> bs_clocks s' = bs_clocks s \<and>
     ctx_config (bs_ctx s') = ctx_config (bs_ctx s)"

definition layer_tensor :: "Layer \<Rightarrow> Tensor" where
  "layer_tensor l = \<lparr>in_ptr = ly_data l, out_ptr = ly_data l, numel = ly_numel l, data_type = FLOAT32\<rparr>"

lemma fold_job_effect_cong:
  assumes "\<And>i. i \<in> set is \<Longrightarrow> map_option job_tensor (ctx_jobs c' i) = map_option job_tensor (ctx_jobs c i)"
  shows "fold (job_effect_on e c') is = fold (job_effect_on e c) is"
proof (rule ext, rule List.fold_cong[OF refl refl])
  fix i assume "i \<in> set is"
  then show "job_effect_on e c' i = job_effect_on e c i"
    using assms[of i] by (auto simp: job_effect_on_def split: option.splits)
qed

lemma later_tensors:
  assumes "ctx_later c c'" and "ctx_jobs c i \<noteq> None"
  shows "map_option job_tensor (ctx_jobs c' i) = map_option job_tensor (ctx_jobs c i)"
  using assms by (force simp: ctx_later_def)

lemma submit_layer:
  assumes ok: "dnn_ok s" and id: "ctx_next_id (bs_ctx s) + 1 < 2 ^ 64"
  shows "\<exists>s'. bench_submit (ly_data l) (ly_data l) (ly_numel l) FLOAT32 s = Inr (ctx_next_id (bs_ctx s), s') \<and> dnn_ok s' \<and>
     pending e s' = e (layer_tensor l) (pending e s) \<and> same_clock s s' \<and> ctx_next_id (bs_ctx s') = ctx_next_id (bs_ctx s) + 1 \<and>
     queued_jobs (bs_ctx s') = queued_jobs (bs_ctx s) @ [ctx_next_id (bs_ctx s)]"
proof -
  let ?c = "bs_ctx s" and ?i = "ctx_next_id (bs_ctx s)"
  obtain sc where sc: "ctx_scheduler ?c = Some sc" "context_state ?c = CTX_RUNNING"
    and q: "\<And>i. i \<in> set (fs_queue sc) \<Longrightarrow> i < ?i \<and> ctx_jobs ?c i \<noteq> None"
    using ok by (auto simp: dnn_ok_def ctx_running_def queued_jobs_def)
  obtain s' sc' j where s': "bench_submit (ly_data l) (ly_data l) (ly_numel l) FLOAT32 s = Inr (?i, s')"
      "context_state (bs_ctx s') = CTX_RUNNING" "ctx_scheduler (bs_ctx s') = Some sc'" "fs_queue sc' = fs_queue sc @ [?i]"
      "ctx_jobs (bs_ctx s') = (ctx_jobs ?c)(?i \<mapsto> j)" "job_tensor j = layer_tensor l" "bs_mem s' = bs_mem s"
      "ctx_next_id (bs_ctx s') = ?i + 1" "same_clock s s'"
    using sc id
    by (auto simp: bench_submit_def AllReduceAsync_def AllReduceAsync_create_def AllReduceAsync_enqueue_def on_scheduler_def EnqueueJob_def
        set_job_status_def SetJobStatus_def new_Job_def less_JobStatus_def Let_def u64_simps layer_tensor_def same_clock_def)
  have "fold (job_effect_on e (bs_ctx s')) (fs_queue sc) = fold (job_effect_on e ?c) (fs_queue sc)"
    using q by (intro fold_job_effect_cong) (auto simp: s'(5))
  then have "pending e s' = e (layer_tensor l) (pending e s)"
    using sc s' by (simp add: pending_def queued_jobs_def) (simp add: job_effect_on_def s'(5,6))
  moreover have "dnn_ok s'" using s' q by (auto simp: dnn_ok_def ctx_running_def queued_jobs_def less_Suc_eq)
  ultimately show ?thesis using s' sc by (auto simp: queued_jobs_def)
qed

lemma later_ok:
  assumes ok: "dnn_ok s" and c: "ctx_later (bs_ctx s) c" and q: "queued_jobs c = drop k (queued_jobs (bs_ctx s))"
    and s': "s' = s\<lparr>bs_ctx := c, bs_mem := fold (job_effect_on e (bs_ctx s)) (take k (queued_jobs (bs_ctx s))) (bs_mem s)\<rparr>"
  shows "dnn_ok s' \<and> pending e s' = pending e s \<and> same_clock s s' \<and> ctx_next_id (bs_ctx s') = ctx_next_id (bs_ctx s)"
proof -
  let ?q = "queued_jobs (bs_ctx s)"
  have old: "i < ctx_next_id (bs_ctx s) \<and> ctx_jobs (bs_ctx s) i \<noteq> None" if "i \<in> set (drop k ?q)" for i
    using ok in_set_dropD[OF that] by (simp add: dnn_ok_def)
  have "fold (job_effect_on e c) (drop k ?q) = fold (job_effect_on e (bs_ctx s)) (drop k ?q)"
    using old by (intro fold_job_effect_cong later_tensors[OF c]) blast
  then have "pending e s' = fold (job_effect_on e (bs_ctx s)) (take k ?q @ drop k ?q) (bs_mem s)"
    by (simp add: pending_def s' q del: append_take_drop_id)
  then have p: "pending e s' = pending e s" by (simp add: pending_def)
  have "dnn_ok s'"
    using c old by (fastforce simp: dnn_ok_def s' q ctx_later_def)
  then show ?thesis using p c by (simp add: s' same_clock_def ctx_later_def)
qed

lemma wait_layer_ok:
  assumes ok: "dnn_ok s" and env: "dnn_workers e env"
  shows "dnn_ok (wait_layer env i s) \<and> pending e (wait_layer env i s) = pending e s \<and> same_clock s (wait_layer env i s) \<and>
     ctx_next_id (bs_ctx (wait_layer env i s)) = ctx_next_id (bs_ctx s) \<and> i \<notin> set (queued_jobs (bs_ctx (wait_layer env i s))) \<and>
     (\<exists>k. queued_jobs (bs_ctx (wait_layer env i s)) = drop k (queued_jobs (bs_ctx s)))"
proof -
  have "ctx_running (bs_ctx s)" using ok by (simp add: dnn_ok_def)
  then obtain c k where c: "be_wait_job env i (bs_ctx s) (bs_mem s) =
      (c, fold (job_effect_on e (bs_ctx s)) (take k (queued_jobs (bs_ctx s))) (bs_mem s))"
      "ctx_later (bs_ctx s) c" "queued_jobs c = drop k (queued_jobs (bs_ctx s))" "i \<notin> set (queued_jobs c)"
    using env unfolding dnn_workers_def by blast
  then show ?thesis
    using later_ok[OF ok c(2,3) refl, of e] by (auto simp: wait_layer_def)
qed

lemma bench_wait_ok:
  assumes ok: "dnn_ok s" and env: "dnn_workers e env"
  shows "\<exists>s'. bench_wait env s = Inr s' \<and> dnn_ok s' \<and> bs_mem s' = pending e s \<and> same_clock s s' \<and> queued_jobs (bs_ctx s') = []"
proof -
  let ?q = "queued_jobs (bs_ctx s)"
  have run: "ctx_running (bs_ctx s)" using ok by (simp add: dnn_ok_def)
  then obtain c where c: "be_wait env (bs_ctx s) (bs_mem s) = (c, fold (job_effect_on e (bs_ctx s)) ?q (bs_mem s))"
      "ctx_later (bs_ctx s) c" "queued_jobs c = []"
    using env unfolding dnn_workers_def by blast
  define s' where "s' = s\<lparr>bs_ctx := c, bs_mem := fold (job_effect_on e (bs_ctx s)) (take (length ?q) ?q) (bs_mem s)\<rparr>"
  have "dnn_ok s' \<and> pending e s' = pending e s \<and> same_clock s s' \<and> ctx_next_id (bs_ctx s') = ctx_next_id (bs_ctx s)"
    using c(3) by (intro later_ok[OF ok c(2) _ s'_def]) simp
  moreover have "bench_wait env s = Inr s'"
    using run c(1) by (simp add: bench_wait_def WaitForAllJobs_def ctx_running_def s'_def)
  ultimately show ?thesis using c(3) by (auto simp: pending_def s'_def)
qed

lemma stops_irrelevant [simp]:
  "dnn_ok (s\<lparr>bs_stops := x\<rparr>) = dnn_ok s" "pending e (s\<lparr>bs_stops := x\<rparr>) = pending e s"
  "same_clock s (s'\<lparr>bs_stops := x\<rparr>) = same_clock s s'" "same_clock (s\<lparr>bs_stops := x\<rparr>) s' = same_clock s s'"
  by (simp_all add: dnn_ok_def pending_def same_clock_def)

lemma same_clock_trans: "same_clock s s' \<Longrightarrow> same_clock s' s'' \<Longrightarrow> same_clock s s''"
  by (simp add: same_clock_def)

text \<open>After the forward pass no layer has a job in the queue.\<close>

lemma forward_pass_ok:
  assumes env: "dnn_workers e env" "\<forall>k. \<not> be_stop env k"
  shows "dnn_ok s \<Longrightarrow> \<exists>s'. forward_pass env ls s = Inr s' \<and> dnn_ok s' \<and> pending e s' = pending e s \<and> same_clock s s' \<and>
     ctx_next_id (bs_ctx s') = ctx_next_id (bs_ctx s) \<and> (\<exists>k. queued_jobs (bs_ctx s') = drop k (queued_jobs (bs_ctx s))) \<and>
     (\<forall>l \<in> set ls. \<forall>i. ly_allreduce_job l = Some i \<longrightarrow> i \<notin> set (queued_jobs (bs_ctx s')))"
proof (induction ls arbitrary: s)
  case Nil
  then show ?case by (auto simp: same_clock_def intro: exI[of _ "0 :: nat"])
next
  case (Cons l ls)
  define s1 where "s1 = (case ly_allreduce_job l of None \<Rightarrow> s
    | Some i \<Rightarrow> (wait_layer env i s)\<lparr>bs_stops := Suc (bs_stops (wait_layer env i s))\<rparr>)"
  have s1: "dnn_ok s1" "pending e s1 = pending e s" "same_clock s s1" "ctx_next_id (bs_ctx s1) = ctx_next_id (bs_ctx s)"
    "\<exists>k. queued_jobs (bs_ctx s1) = drop k (queued_jobs (bs_ctx s))"
    "\<forall>i. ly_allreduce_job l = Some i \<longrightarrow> i \<notin> set (queued_jobs (bs_ctx s1))"
    using wait_layer_ok[OF Cons.prems env(1)] Cons.prems
    by (cases "ly_allreduce_job l"; auto simp: s1_def same_clock_def intro: exI[of _ "0 :: nat"])+
  let ?s2 = "s1\<lparr>bs_stops := Suc (bs_stops s1)\<rparr>"
  obtain s' where s': "forward_pass env ls ?s2 = Inr s'" "dnn_ok s'" "pending e s' = pending e s1" "same_clock s1 s'"
      "ctx_next_id (bs_ctx s') = ctx_next_id (bs_ctx s1)" "\<exists>k. queued_jobs (bs_ctx s') = drop k (queued_jobs (bs_ctx s1))"
      "\<forall>l \<in> set ls. \<forall>i. ly_allreduce_job l = Some i \<longrightarrow> i \<notin> set (queued_jobs (bs_ctx s'))"
    using Cons.IH[of ?s2] s1(1) by auto
  have "forward_pass env (l # ls) s = Inr s'"
    using s'(1) env(2) by (cases "ly_allreduce_job l") (simp_all add: s1_def read_stop_def)
  moreover have "set (queued_jobs (bs_ctx s')) \<subseteq> set (queued_jobs (bs_ctx s1))" using s'(6) set_drop_subset by metis
  moreover have "\<exists>k. queued_jobs (bs_ctx s') = drop k (queued_jobs (bs_ctx s))" using s1(5) s'(6) by (metis drop_drop)
  ultimately show ?case using s1 s' same_clock_trans[OF s1(3) s'(4)] by auto
qed

text \<open>One pass submits a job for each layer, the first layer's last.\<close>

definition one_pass :: "(Tensor \<Rightarrow> memory \<Rightarrow> memory) \<Rightarrow> Layer list \<Rightarrow> memory \<Rightarrow> memory" where
  "one_pass e ls = fold e (rev (map layer_tensor ls))"

definition same_tensors :: "Layer list \<Rightarrow> Layer list \<Rightarrow> bool" where
  "same_tensors ls ls' \<longleftrightarrow> map layer_tensor ls' = map layer_tensor ls"

lemma backward_pass_ok:
  assumes stop: "\<forall>k. \<not> be_stop env k"
  shows "dnn_ok s \<Longrightarrow> ctx_next_id (bs_ctx s) + length ls < 2 ^ 64 \<Longrightarrow>
     \<exists>ls' s'. backward_pass env ls s = Inr (ls', s') \<and> dnn_ok s' \<and> pending e s' = one_pass e ls (pending e s) \<and> same_clock s s' \<and>
     ctx_next_id (bs_ctx s') = ctx_next_id (bs_ctx s) + length ls \<and> same_tensors ls ls' \<and>
     queued_jobs (bs_ctx s') = queued_jobs (bs_ctx s) @ [ctx_next_id (bs_ctx s)..<ctx_next_id (bs_ctx s')] \<and>
     map ly_allreduce_job ls' = map Some (rev [ctx_next_id (bs_ctx s)..<ctx_next_id (bs_ctx s')])"
proof (induction ls)
  case Nil
  then show ?case by (auto simp: one_pass_def same_clock_def same_tensors_def)
next
  case (Cons l ls)
  then obtain ls1 s1 where s1: "backward_pass env ls s = Inr (ls1, s1)" "dnn_ok s1" "pending e s1 = one_pass e ls (pending e s)" "same_clock s s1"
      "ctx_next_id (bs_ctx s1) = ctx_next_id (bs_ctx s) + length ls" "same_tensors ls ls1"
      "queued_jobs (bs_ctx s1) = queued_jobs (bs_ctx s) @ [ctx_next_id (bs_ctx s)..<ctx_next_id (bs_ctx s1)]"
      "map ly_allreduce_job ls1 = map Some (rev [ctx_next_id (bs_ctx s)..<ctx_next_id (bs_ctx s1)])" by auto
  let ?s2 = "s1\<lparr>bs_stops := Suc (bs_stops s1)\<rparr>" and ?i = "ctx_next_id (bs_ctx s1)"
  obtain s3 where s3: "bench_submit (ly_data l) (ly_data l) (ly_numel l) FLOAT32 ?s2 = Inr (?i, s3)" "dnn_ok s3"
      "pending e s3 = e (layer_tensor l) (pending e s1)" "same_clock s1 s3" "ctx_next_id (bs_ctx s3) = ?i + 1"
      "queued_jobs (bs_ctx s3) = queued_jobs (bs_ctx s1) @ [?i]"
    using submit_layer[of ?s2 l e] s1(2,5) Cons.prems(2) by auto
  have "backward_pass env (l # ls) s = Inr (l\<lparr>ly_allreduce_job := Some ?i\<rparr> # ls1, s3)"
    using s1(1) s3(1) stop by (simp add: read_stop_def)
  moreover have "same_tensors (l # ls) (l\<lparr>ly_allreduce_job := Some ?i\<rparr> # ls1)"
    using s1(6) by (simp add: same_tensors_def layer_tensor_def)
  moreover have "pending e s3 = one_pass e (l # ls) (pending e s)" using s3(3) s1(3) by (simp add: one_pass_def)
  ultimately show ?case using s1(5,7,8) s3(2,5,6) same_clock_trans[OF s1(4) s3(4)] by (auto simp: upt_Suc_append)
qed

text \<open>Iteration \<open>i\<close> is timed unless it is a warm-up; the clock is read once in each timed iteration.\<close>

definition timed :: "nat \<Rightarrow> nat \<Rightarrow> nat \<Rightarrow> nat" where
  "timed warmup i k = (i + k) - max i warmup"

lemma timed_Suc: "timed warmup i (Suc k) = (if warmup \<le> i then Suc (timed warmup (i + 1) k) else timed warmup (i + 1) k)"
  by (auto simp: timed_def max_def)

lemma train_ok:
  assumes stop: "\<forall>k. \<not> be_stop env k" and env: "dnn_workers e env"
  shows "dnn_ok s \<Longrightarrow> ctx_next_id (bs_ctx s) + k * length ls < 2 ^ 64 \<Longrightarrow> bs_clocks s = Suc c \<Longrightarrow> bs_begin s = be_clock env c \<Longrightarrow>
     \<exists>ls' s'. train env warmup k i ls s = Inr (ls', s') \<and> dnn_ok s' \<and> pending e s' = (one_pass e ls ^^ k) (pending e s) \<and>
       ctx_config (bs_ctx s') = ctx_config (bs_ctx s) \<and>
       bs_durations s' = bs_durations s @ map (\<lambda>j. be_clock env (Suc (c + j)) - be_clock env (c + j)) [0..<timed warmup i k]"
proof (induction k arbitrary: i ls s c)
  case 0
  then show ?case by (simp add: timed_def)
next
  case (Suc k)
  obtain s1 where s1: "forward_pass env ls s = Inr s1" "dnn_ok s1" "pending e s1 = pending e s" "same_clock s s1"
      "ctx_next_id (bs_ctx s1) = ctx_next_id (bs_ctx s)"
    using forward_pass_ok[OF env stop Suc.prems(1), of ls] by blast
  have "ctx_next_id (bs_ctx s1) + length ls < 2 ^ 64" using Suc.prems(2) s1(5) by simp
  then obtain ls2 s2 where s2: "backward_pass env ls s1 = Inr (ls2, s2)" "dnn_ok s2" "pending e s2 = one_pass e ls (pending e s1)"
      "same_clock s1 s2" "ctx_next_id (bs_ctx s2) = ctx_next_id (bs_ctx s1) + length ls" "same_tensors ls ls2"
    using backward_pass_ok[OF stop s1(2), of ls e] by blast
  note clock = same_clock_trans[OF s1(4) s2(4), unfolded same_clock_def]
  have same: "one_pass e ls2 = one_pass e ls" "length ls2 = length ls"
    using s2(6) map_eq_imp_length_eq by (auto simp: same_tensors_def one_pass_def)
  define s3 where "s3 = (if warmup \<le> i then end_iteration env s2 else s2)"
  define c3 where "c3 = (if warmup \<le> i then Suc c else c)"
  have s3: "dnn_ok s3" "pending e s3 = pending e s2" "ctx_next_id (bs_ctx s3) + k * length ls2 < 2 ^ 64" "bs_clocks s3 = Suc c3"
    "bs_begin s3 = be_clock env c3" "ctx_config (bs_ctx s3) = ctx_config (bs_ctx s)"
    "bs_durations s3 = bs_durations s @ (if warmup \<le> i then [be_clock env (Suc c) - be_clock env c] else [])"
    using s2(2,5) s1(5) Suc.prems(2-4) clock same(2)
    by (auto simp: s3_def c3_def end_iteration_def read_clock_def Let_def dnn_ok_def pending_def)
  obtain ls' s' where s': "train env warmup k (i + 1) ls2 s3 = Inr (ls', s')" "dnn_ok s'" "pending e s' = (one_pass e ls ^^ k) (pending e s3)"
      "ctx_config (bs_ctx s') = ctx_config (bs_ctx s3)"
      "bs_durations s' = bs_durations s3 @ map (\<lambda>j. be_clock env (Suc (c3 + j)) - be_clock env (c3 + j)) [0..<timed warmup (i + 1) k]"
    using Suc.IH[OF s3(1,3-5), of "i + 1"] unfolding same(1) by blast
  have "train env warmup (Suc k) i ls s = Inr (ls', s')" using s1(1) s2(1) s'(1) by (simp add: s3_def)
  moreover have "bs_durations s' = bs_durations s @ map (\<lambda>j. be_clock env (Suc (c + j)) - be_clock env (c + j)) [0..<timed warmup i (Suc k)]"
    unfolding s'(5) s3(7) timed_Suc by (simp add: c3_def map_upt_Suc del: upt_Suc)
  moreover have "pending e s' = (one_pass e ls ^^ Suc k) (pending e s)" using s'(3) s3(2) s2(3) s1(3) by (simp add: funpow_swap1)
  ultimately show ?case using s'(2,4) s3(6) by auto
qed

section \<open>The layers\<close>

text \<open>The addresses of a layer's elements.\<close>

definition layer_area :: "Layer \<Rightarrow> ptr set" where
  "layer_area l = (\<lambda>k. ly_data l + 4 * k) ` {..<ly_numel l}"

definition layers_apart :: "Layer \<Rightarrow> Layer \<Rightarrow> bool" where
  "layers_apart l l' \<longleftrightarrow> layer_area l \<inter> layer_area l' = {}"

lemma effect_outside: "local_effect e \<Longrightarrow> a \<notin> layer_area l \<Longrightarrow> e (layer_tensor l) m a = m a"
proof -
  assume e: "local_effect e" and a: "a \<notin> layer_area l"
  have "\<forall>k < numel (layer_tensor l). a \<noteq> out_ptr (layer_tensor l) + 4 * k"
    using a by (auto simp: layer_tensor_def layer_area_def)
  then show ?thesis using e unfolding local_effect_def by blast
qed

lemma effect_inside:
  assumes "local_effect e" and "\<And>b. b \<in> layer_area l \<Longrightarrow> m b = m' b" and "a \<in> layer_area l"
  shows "e (layer_tensor l) m a = e (layer_tensor l) m' a"
proof -
  obtain k where k: "a = ly_data l + 4 * k" "k < ly_numel l" using assms(3) by (auto simp: layer_area_def)
  have "\<forall>k < numel (layer_tensor l). m (in_ptr (layer_tensor l) + 4 * k) = m' (in_ptr (layer_tensor l) + 4 * k)"
    using assms(2) by (simp add: layer_tensor_def layer_area_def)
  then have "\<forall>k < numel (layer_tensor l). e (layer_tensor l) m (out_ptr (layer_tensor l) + 4 * k) =
      e (layer_tensor l) m' (out_ptr (layer_tensor l) + 4 * k)"
    using assms(1) unfolding local_effect_def by blast
  then show ?thesis using k by (simp add: layer_tensor_def)
qed

lemma fold_outside:
  assumes "local_effect e"
  shows "a \<notin> (\<Union>l \<in> set ls. layer_area l) \<Longrightarrow> fold e (map layer_tensor ls) m a = m a"
  by (induction ls arbitrary: m) (simp_all add: effect_outside[OF assms])

lemma fold_inside:
  assumes e: "local_effect e"
  shows "sorted_wrt layers_apart ls \<Longrightarrow> l \<in> set ls \<Longrightarrow> a \<in> layer_area l \<Longrightarrow>
     fold e (map layer_tensor ls) m a = e (layer_tensor l) m a"
proof (induction ls arbitrary: m)
  case (Cons x ls)
  show ?case
  proof (cases "l \<in> set ls")
    case True
    then have "layer_area x \<inter> layer_area l = {}" using Cons.prems(1) by (simp add: layers_apart_def)
    then have "e (layer_tensor x) m b = m b" if "b \<in> layer_area l" for b using that by (intro effect_outside[OF e]) blast
    then have "e (layer_tensor l) (e (layer_tensor x) m) a = e (layer_tensor l) m a" by (rule effect_inside[OF e _ Cons.prems(3)])
    then show ?thesis using Cons.IH[of "e (layer_tensor x) m"] Cons.prems True by simp
  next
    case False
    then have x: "l = x" using Cons.prems(2) by simp
    have "a \<notin> (\<Union>l \<in> set ls. layer_area l)" using Cons.prems(1,3) unfolding x by (auto simp: layers_apart_def)
    then show ?thesis using fold_outside[OF e] x by simp
  qed
qed simp

text \<open>Every layer is reduced on its own: what the other jobs do has no effect on it.\<close>

lemma passes_inside:
  assumes e: "local_effect e" and ls: "sorted_wrt layers_apart ls" "l \<in> set ls"
    and m: "\<And>a. a \<in> layer_area l \<Longrightarrow> m a = m' a"
  shows "a \<in> layer_area l \<Longrightarrow> (one_pass e ls ^^ k) m a = (e (layer_tensor l) ^^ k) m' a"
proof (induction k arbitrary: a)
  case (Suc k)
  have "(\<lambda>x y. layers_apart y x) = layers_apart" by (intro ext) (auto simp: layers_apart_def)
  then have "sorted_wrt layers_apart (rev ls)" using ls(1) by (simp add: sorted_wrt_rev)
  then have "one_pass e ls M a = e (layer_tensor l) M a" for M
    using fold_inside[OF e, of "rev ls" l a M] ls(2) Suc.prems by (simp add: one_pass_def rev_map)
  then have "(one_pass e ls ^^ Suc k) m a = e (layer_tensor l) ((one_pass e ls ^^ k) m) a" by simp
  also have "\<dots> = e (layer_tensor l) ((e (layer_tensor l) ^^ k) m') a" by (rule effect_inside[OF e Suc.IH Suc.prems])
  finally show ?case by simp
qed (simp add: m)

lemma passes_outside:
  assumes "local_effect e" and "a \<notin> (\<Union>l \<in> set ls. layer_area l)"
  shows "(one_pass e ls ^^ k) m a = m a"
  using fold_outside[OF assms(1), of a "rev ls"] assms(2) by (induction k) (simp_all add: one_pass_def rev_map)

lemma sum_take_mono: "i \<le> j \<Longrightarrow> sum_list (take i xs) \<le> sum_list (take j xs)"
  for xs :: "nat list"
  using take_add[of i "j - i" xs] by simp

lemma placed_apart:
  assumes "sum_list (map ly_numel ls) < 2 ^ 64"
  shows "sorted_wrt layers_apart (place_layers data 0 ls)"
    and "(\<Union>l \<in> set (place_layers data 0 ls). layer_area l) \<subseteq> (\<lambda>k. data + 4 * k) ` {..<sum_list (map ly_numel ls)}"
proof -
  let ?off = "\<lambda>i. sum_list (take i (map ly_numel ls))"
  have pl: "place_layers data 0 ls = map (\<lambda>i. (ls ! i)\<lparr>ly_data := data + 4 * ?off i\<rparr>) [0..<length ls]"
    using place_layers_at[of 0 ls data] assms by (simp add: take_map)
  have next_off: "?off (Suc i) = ?off i + ly_numel (ls ! i)" if "i < length ls" for i
    using that by (simp add: take_Suc_conv_app_nth)
  have area: "layer_area ((ls ! i)\<lparr>ly_data := data + 4 * ?off i\<rparr>) = (\<lambda>k. data + 4 * k) ` {?off i..<?off (Suc i)}"
    if "i < length ls" for i
  proof -
    have "{?off i..<?off (Suc i)} = (\<lambda>k. ?off i + k) ` {..<ly_numel (ls ! i)}"
      unfolding next_off[OF that] lessThan_atLeast0 by (simp add: add.commute)
    then show ?thesis by (simp add: layer_area_def image_image algebra_simps)
  qed
  have "layers_apart ((ls ! i)\<lparr>ly_data := data + 4 * ?off i\<rparr>) ((ls ! j)\<lparr>ly_data := data + 4 * ?off j\<rparr>)"
    if "i < j" "j < length ls" for i j
    using sum_take_mono[of "Suc i" j "map ly_numel ls"] that
    unfolding layers_apart_def area[OF that(2)] area[OF less_trans[OF that]] by auto
  then show "sorted_wrt layers_apart (place_layers data 0 ls)"
    unfolding pl by (simp add: sorted_wrt_map sorted_wrt_iff_nth_less)
  have "?off (Suc i) \<le> sum_list (map ly_numel ls)" if "i < length ls" for i
    using sum_take_mono[of "Suc i" "length ls" "map ly_numel ls"] that by simp
  then show "(\<Union>l \<in> set (place_layers data 0 ls). layer_area l) \<subseteq> (\<lambda>k. data + 4 * k) ` {..<sum_list (map ly_numel ls)}"
    unfolding pl by (fastforce simp: area)
qed

lemma build_model_total:
  assumes "build_model cols = Inr mo"
  shows "mo_total_numel mo = sum_list (map ly_numel (mo_layers mo)) mod 2 ^ 64" and "mo_num_layers mo = length (mo_layers mo)"
proof -
  have "build_layers cols n = Inr (ls, t) \<Longrightarrow> t = sum_list (map ly_numel ls) mod 2 ^ 64 \<and> length ls = n" for n ls t
  proof (induction n arbitrary: ls t)
    case (Suc n)
    then show ?case by (auto simp: bindE_eq_Inr u64_add_def mod_simps)
  qed simp
  then show "mo_total_numel mo = sum_list (map ly_numel (mo_layers mo)) mod 2 ^ 64" "mo_num_layers mo = length (mo_layers mo)"
    using assms by (auto simp: build_model_def Let_def bindE_eq_Inr split: if_splits)
qed

section \<open>Results\<close>

text \<open>The memory at the end of a training without signals.\<close>

lemma dnn_run:
  assumes args: "dnn_arguments tc = Inr ()" and model: "bindE (read_csv (dn_model tc)) build_model = Inr mo"
    and start: "dnn_starts W env ctx" and env: "\<forall>k. \<not> be_stop env k" "dnn_workers e env"
    and iters: "dn_num_iters tc + dn_num_warmup tc < 2 ^ 32"
      "(dn_num_iters tc + dn_num_warmup tc) * length (place_layers data 0 (mo_layers mo)) < 2 ^ 64"
    and m0: "m0 = float_data (dn_random tc) (be_rand env) data (mo_total_numel mo) m"
  obtains verdict report s where "dnn_benchmark env tc data ctrl ctx m = Inr (verdict, report, s)"
    "bs_mem s = (one_pass e (place_layers data 0 (mo_layers mo)) ^^ (dn_num_iters tc + dn_num_warmup tc))
       (copy_elements m0 data ctrl (mo_total_numel mo) m0)"
    "bs_durations s = map (\<lambda>k. be_clock env (Suc k) - be_clock env k) [0..<dn_num_iters tc]"
proof -
  let ?K = "dn_num_iters tc + dn_num_warmup tc" and ?ls = "place_layers data 0 (mo_layers mo)"
  define m1 where "m1 = copy_elements m0 data ctrl (mo_total_numel mo) m0"
  obtain b c where c: "be_start env ctx = Inr (b, c)" "ctx_running c" "queued_jobs c = []" "ctx_next_id c = 0"
    using start by (auto simp: dnn_starts_def)
  define s1 where "s1 = \<lparr>bs_ctx = c, bs_mem = m1, bs_begin = be_clock env 0, bs_durations = [], bs_clocks = Suc 0, bs_stops = 0\<rparr>"
  have s1: "dnn_ok s1" "pending e s1 = m1" using c by (simp_all add: s1_def dnn_ok_def pending_def)
  have timed: "timed (dn_num_warmup tc) 0 ?K = dn_num_iters tc" by (simp add: timed_def)
  obtain ls' s2 where s2: "train env (dn_num_warmup tc) ?K 0 ?ls s1 = Inr (ls', s2)" "dnn_ok s2" "pending e s2 = (one_pass e ?ls ^^ ?K) m1"
      "bs_durations s2 = map (\<lambda>k. be_clock env (Suc k) - be_clock env k) [0..<dn_num_iters tc]"
    using train_ok[OF env s1(1), of ?K ?ls 0 "dn_num_warmup tc" 0] iters(2) c(4) s1(2) timed by (auto simp: s1_def)
  obtain s3 where s3: "bench_wait env s2 = Inr s3" "dnn_ok s3" "bs_mem s3 = pending e s2" "same_clock s2 s3" "queued_jobs (bs_ctx s3) = []"
    using bench_wait_ok[OF s2(2) env(2)] by blast
  obtain c2 where c2: "Context_Stop (bs_ctx s3) = Inr c2"
    using s3(2,5) by (auto simp: dnn_ok_def ctx_running_def queued_jobs_def Context_Stop_def Context_Stop_begin_def Context_Stop_flag_def
        Scheduler_Stop_def Context_Stop_clear_def on_scheduler_def FifoScheduler_Stop_clear_def)
  have dur: "bs_durations s3 = map (\<lambda>k. be_clock env (Suc k) - be_clock env k) [0..<dn_num_iters tc]"
    using s3(4) s2(4) by (simp add: same_clock_def)
  moreover have "0 < dn_num_iters tc" using args by (auto simp: dnn_arguments_def split: if_splits)
  ultimately obtain report where report: "bench_statistics (bs_durations s3) = Inr report" by (simp add: bench_statistics_def)
  have "num_iterations tc = ?K" using iters(1) by (simp add: num_iterations_def u32_id)
  then have "\<exists>verdict. dnn_benchmark env tc data ctrl ctx m =
      Inr (verdict, report, s3\<lparr>bs_stops := Suc (bs_stops s3), bs_ctx := c2\<rparr>)"
    using args model c(1) s2(1) s3(1) env(1) report c2
    by (simp add: dnn_benchmark_def read_clock_def read_stop_def m0[symmetric] m1_def[symmetric] s1_def[symmetric])
  then show thesis using that dur s3(3) s2(3) unfolding m1_def by auto
qed


text \<open>
  The clock is not read between the warm-up iterations and the first timed one: the first duration that is reported includes all
  warm-ups.
\<close>

lemma passes_keep_clock:
  "forward_pass env ls s = Inr s' \<Longrightarrow> bs_begin s' = bs_begin s \<and> bs_clocks s' = bs_clocks s"
  "backward_pass env ls s = Inr (ls', s') \<Longrightarrow> bs_begin s' = bs_begin s \<and> bs_clocks s' = bs_clocks s"
proof -
  show "forward_pass env ls s = Inr s' \<Longrightarrow> bs_begin s' = bs_begin s \<and> bs_clocks s' = bs_clocks s"
    by (induction env ls s rule: forward_pass.induct)
      (auto simp: bindX_def read_stop_def wait_layer_def split: option.splits if_splits prod.splits sum.splits)
  show "backward_pass env ls s = Inr (ls', s') \<Longrightarrow> bs_begin s' = bs_begin s \<and> bs_clocks s' = bs_clocks s"
    by (induction env ls s arbitrary: ls' s' rule: backward_pass.induct)
      (auto simp: bindX_def read_stop_def bench_submit_def split: if_splits prod.splits sum.splits)
qed

lemma warmup_not_timed:
  "train env warmup k i ls s = Inr (ls', s') \<Longrightarrow> i + k \<le> warmup \<Longrightarrow> bs_begin s' = bs_begin s \<and> bs_clocks s' = bs_clocks s"
proof (induction env warmup k i ls s rule: train.induct)
  case (2 env warmup k i ls s)
  obtain s1 where s1: "forward_pass env ls s = Inr s1" using "2.prems"(1) by (cases "forward_pass env ls s") auto
  obtain ls2 s2 where s2: "backward_pass env ls s1 = Inr (ls2, s2)" using "2.prems"(1) s1 by (cases "backward_pass env ls s1") auto
  have "train env warmup k (i + 1) ls2 (if warmup \<le> i then end_iteration env s2 else s2) = Inr (ls', s')"
    using "2.prems"(1) s1 s2 by simp
  moreover have "i + 1 + k \<le> warmup" using "2.prems"(2) by simp
  ultimately have "bs_begin s' = bs_begin s2 \<and> bs_clocks s' = bs_clocks s2" using "2.IH"[of ls2 s2] by simp
  then show ?case using passes_keep_clock(1)[OF s1] passes_keep_clock(2)[OF s2] by simp
qed simp

text \<open>
  The job of the first layer is the last that is submitted, and the scheduler is first in, first out: the first wait of the forward
  pass lasts until the jobs of all layers are done, and no forward pass overlaps with them.
\<close>

lemma first_wait_drains:
  assumes "dnn_workers e env" and "\<forall>k. \<not> be_stop env k" and "dnn_ok s" and "ctx_next_id (bs_ctx s) + Suc (length ls) < 2 ^ 64"
    and "backward_pass env (l # ls) s = Inr (l' # ls', s')" and "ly_allreduce_job l' = Some i"
  shows "queued_jobs (bs_ctx (wait_layer env i s')) = []"
proof -
  have b: "dnn_ok s'" "ctx_next_id (bs_ctx s') = Suc (ctx_next_id (bs_ctx s) + length ls)"
    "queued_jobs (bs_ctx s') = queued_jobs (bs_ctx s) @ [ctx_next_id (bs_ctx s)..<ctx_next_id (bs_ctx s')]"
    "map ly_allreduce_job (l' # ls') = map Some (rev [ctx_next_id (bs_ctx s)..<ctx_next_id (bs_ctx s')])"
    using backward_pass_ok[OF assms(2,3), of "l # ls" e] assms(4,5) by auto
  then have i: "i = ctx_next_id (bs_ctx s) + length ls" using assms(6) by simp
  obtain k where k: "queued_jobs (bs_ctx (wait_layer env i s')) = drop k (queued_jobs (bs_ctx s'))"
    "i \<notin> set (queued_jobs (bs_ctx (wait_layer env i s')))"
    using wait_layer_ok[OF b(1) assms(1)] by blast
  obtain q where q: "queued_jobs (bs_ctx s') = q @ [i]" using b(2,3) i by (simp add: upt_Suc_append)
  show ?thesis
  proof (rule ccontr)
    assume ne: "\<not> ?thesis"
    then have "\<not> length (q @ [i]) \<le> k" using k(1) q by (metis drop_all)
    then have "k \<le> length q" by simp
    then have "i \<in> set (drop k (q @ [i]))" by simp
    then show False using k q by simp
  qed
qed

section \<open>A concrete run\<close>

definition double_effect :: "Tensor \<Rightarrow> memory \<Rightarrow> memory" where
  "double_effect t m = (\<lambda>a. if \<exists>k < numel t. a = out_ptr t + 4 * k then 2 * m (in_ptr t + (a - out_ptr t)) else m a)"

text \<open>Workers that do all queued jobs during any wait.\<close>

definition all_done :: "Context \<Rightarrow> memory \<Rightarrow> Context \<times> memory" where
  "all_done c m = (c\<lparr>ctx_scheduler := map_option (\<lambda>s. s\<lparr>fs_queue := []\<rparr>) (ctx_scheduler c)\<rparr>,
     fold (job_effect_on double_effect c) (queued_jobs c) m)"

definition dnn_sample_env :: bench_env where
  "dnn_sample_env =
     \<lparr>be_start = (\<lambda>c. Inr (True, c\<lparr>context_state := CTX_RUNNING, ctx_scheduler := Some (new_FifoScheduler 2), ctx_next_id := 0\<rparr>)),
      be_wait = all_done, be_wait_job = (\<lambda>_. all_done), be_clock = (\<lambda>k. 100 * k), be_stop = (\<lambda>_. False), be_rand = (\<lambda>_. 0)\<rparr>"

lemma double_effect_local: "local_effect double_effect"
  by (auto simp: local_effect_def double_effect_def)

lemma dnn_sample_workers: "dnn_workers double_effect dnn_sample_env"
proof -
  have later: "ctx_later c (fst (all_done c m)) \<and> queued_jobs (fst (all_done c m)) = []" if "ctx_running c" for c m
    using that by (auto simp: ctx_later_def ctx_running_def all_done_def queued_jobs_def)
  have "all_done c m = (fst (all_done c m), fold (job_effect_on double_effect c) (take (length (queued_jobs c)) (queued_jobs c)) m)" for c m
    by (simp add: all_done_def)
  then show ?thesis
    using later unfolding dnn_workers_def dnn_sample_env_def
    by (metis bench_env.select_convs(2,3) drop_all empty_iff list.set(1) order_refl take_all)
qed

definition sample_dnn :: DnnConfig where
  "sample_dnn = default_DnnConfig\<lparr>dn_model := Some (model_text [''i'', ''n'', ''f'', ''b''] [(2, 7, 7), (3, 7, 7)]),
     dn_num_iters := 2, dn_num_warmup := 1\<rparr>"

lemma sample_dnn_model:
  "bindE (read_csv (dn_model sample_dnn)) build_model =
     Inr \<lparr>mo_total_numel = 5, mo_num_layers = 2, mo_layers = map new_Layer [(2, 7, 7), (3, 7, 7)]\<rparr>"
  unfolding sample_dnn_def default_DnnConfig_def
  by (simp, subst model_roundtrip) (simp_all add: four_names_def line_end_def layer_fits_def)


end
