(* ===== verification/Hello_World.thy ===== *)
theory Hello_World
  imports Benchmark_Common
begin

text \<open>
  The example program (examples/hello_world/main.cc): eight tensors of \<open>2\<^sup>1\<^sup>5\<close> floats are reduced and the results compared with the expected sums.
  The arrays are contiguous; the program is kept for any number of tensors and elements.
\<close>

section \<open>The program\<close>

definition hello_input :: "nat \<Rightarrow> fp" where
  "hello_input k = fp_of_int round32 (int k)"

text \<open>\<open>rows\<close> tensors of \<open>n\<close> elements.\<close>

fun submit_rows :: "ptr \<Rightarrow> ptr \<Rightarrow> nat \<Rightarrow> nat \<Rightarrow> bench_state \<Rightarrow> bench_end + bench_state" where
  "submit_rows inp outp n 0 s = Inr s"
| "submit_rows inp outp n (Suc i) s =
     bindX (submit_rows inp outp n i s) (\<lambda>s1.
     bindX (bench_submit (inp + 4 * (i * n)) (outp + 4 * (i * n)) n FLOAT32 s1) (\<lambda>(_, s2). Inr s2))"

definition fp_differ :: "fp \<Rightarrow> fp \<Rightarrow> bool" where
  "fp_differ u v \<longleftrightarrow> u = NaN \<or> v = NaN \<or> fp_greater u v \<or> fp_greater v u"

text \<open>Whether the element passes: an error of at most one percent, and the input is as it was.\<close>

definition hello_passes :: "nat \<Rightarrow> ptr \<Rightarrow> ptr \<Rightarrow> memory \<Rightarrow> nat \<Rightarrow> bool" where
  "hello_passes num_workers inp outp m k =
     (let expected = fp_mul round32 (hello_input k) (fp_of_int round32 (int num_workers));
          error = error_percentage (fp_sub round32 expected (decode32 (m (outp + 4 * k)))) (fp_add round32 expected epsilon32)
      in \<not> fp_greater error (fp_of_int round32 1) \<and> \<not> fp_differ (decode32 (m (inp + 4 * k))) (hello_input k))"

definition hello_world :: "bench_env \<Rightarrow> nat \<Rightarrow> nat \<Rightarrow> ptr \<Rightarrow> ptr \<Rightarrow> Context \<Rightarrow> memory \<Rightarrow> bench_end + bench_state" where
  "hello_world env rows n inp outp ctx m =
     bindX (in_program (be_start env ctx)) (\<lambda>(_, ctx1).
     let num_workers = gc_num_workers (general (GetConfig ctx1));
         m1 = fill_with (\<lambda>k. encode32 (hello_input k)) inp (rows * n) m;
         s1 = \<lparr>bs_ctx = ctx1, bs_mem = m1, bs_begin = 0, bs_durations = [], bs_clocks = 0, bs_stops = 0\<rparr> in
     bindX (submit_rows inp outp n rows s1) (\<lambda>s2.
     bindX (bench_wait env s2) (\<lambda>s3.
     bindX (in_program (Context_Stop (bs_ctx s3))) (\<lambda>ctx2.
       if list_all (hello_passes num_workers inp outp (bs_mem s3)) [0..<rows * n]
       then Inr (s3\<lparr>bs_ctx := ctx2\<rparr>) else Inl (Exited 1)))))"

section \<open>Correctness\<close>

text \<open>While the main thread waits, the queued jobs are done in order: every element of the output becomes the product of the input and the
  number of workers. This is the sum if all workers run this program and the sum is exact.\<close>

definition float_reduce :: "nat \<Rightarrow> Tensor \<Rightarrow> memory \<Rightarrow> memory" where
  "float_reduce W t m =
     (\<lambda>a. if \<exists>k < numel t. a = out_ptr t + 4 * k
          then encode32 (fp_mul round32 (decode32 (m (in_ptr t + (a - out_ptr t)))) (fp_of_int round32 (int W))) else m a)"

definition float_job :: "nat \<Rightarrow> Context \<Rightarrow> JobId \<Rightarrow> memory \<Rightarrow> memory" where
  "float_job W c i = (case ctx_jobs c i of None \<Rightarrow> (\<lambda>m. m) | Some j \<Rightarrow> float_reduce W (job_tensor j))"

definition float_workers :: "nat \<Rightarrow> bench_env \<Rightarrow> bool" where
  "float_workers W env \<longleftrightarrow>
     (\<forall>c m s. context_state c = CTX_RUNNING \<and> ctx_scheduler c = Some s \<longrightarrow>
        (\<exists>c' s'. be_wait env c m = (c', fold (float_job W c) (fs_queue s) m) \<and> context_state c' = CTX_RUNNING \<and>
           ctx_scheduler c' = Some s' \<and> fs_queue s' = []))"

definition row_tensor :: "ptr \<Rightarrow> ptr \<Rightarrow> nat \<Rightarrow> nat \<Rightarrow> Tensor" where
  "row_tensor inp outp n i = \<lparr>in_ptr = inp + 4 * (i * n), out_ptr = outp + 4 * (i * n), numel = n, data_type = FLOAT32\<rparr>"

text \<open>After \<open>i\<close> rows the jobs \<open>0, \<dots>, i - 1\<close> are queued.\<close>

definition rows_queued :: "ptr \<Rightarrow> ptr \<Rightarrow> nat \<Rightarrow> nat \<Rightarrow> Context \<Rightarrow> bool" where
  "rows_queued inp outp n i c \<longleftrightarrow> context_state c = CTX_RUNNING \<and> ctx_next_id c = i \<and>
     (\<exists>sc. ctx_scheduler c = Some sc \<and> fs_queue sc = [0..<i]) \<and>
     (\<forall>r < i. \<exists>j. ctx_jobs c r = Some j \<and> job_tensor j = row_tensor inp outp n r)"

lemma submit_rows_ok:
  assumes "rows_queued inp outp n 0 (bs_ctx s)"
  shows "i < 2 ^ 64 \<Longrightarrow> \<exists>s'. submit_rows inp outp n i s = Inr s' \<and> rows_queued inp outp n i (bs_ctx s') \<and> bs_mem s' = bs_mem s"
proof (induction i)
  case (Suc i)
  then obtain s' where s': "submit_rows inp outp n i s = Inr s'" "rows_queued inp outp n i (bs_ctx s')" "bs_mem s' = bs_mem s" by auto
  obtain sc where sc: "ctx_scheduler (bs_ctx s') = Some sc" "fs_queue sc = [0..<i]" "context_state (bs_ctx s') = CTX_RUNNING" "ctx_next_id (bs_ctx s') = i"
    "\<forall>r < i. \<exists>j. ctx_jobs (bs_ctx s') r = Some j \<and> job_tensor j = row_tensor inp outp n r"
    using s'(2) by (auto simp: rows_queued_def)
  have "u64_add i 1 = Suc i" using Suc.prems by (simp add: u64_add_def)
  then show ?case using s'(1,3) sc
    by (auto simp: bench_submit_def AllReduceAsync_def AllReduceAsync_create_def AllReduceAsync_enqueue_def on_scheduler_def EnqueueJob_def
        set_job_status_def SetJobStatus_def new_Job_def less_JobStatus_def Let_def rows_queued_def row_tensor_def less_Suc_eq)
qed (use assms in auto)

lemma decode_round:
  assumes "0 \<le> x" and "x \<le> pow2 100"
  shows "decode32 (encode32 (round32 False x)) = round32 False x"
proof -
  have x: "x < pow2 128" using assms(2) pow2_strict_mono[of 100 128] by simp
  have "round_mag 24 (-149) 128 x \<le> pow2 100"
    using assms(2) x by (intro b32.round_mag_le representableI[of _ 1 100]) simp_all
  then have lt: "round_mag 24 (-149) 128 x < pow2 128" using pow2_strict_mono[of 100 128] by simp
  then have "round32 False x = Fin False (round_mag 24 (-149) 128 x)" by (simp add: round32_def round_fp_def Let_def)
  then show ?thesis using decode_encode[OF b32.round_mag_nonneg[OF assms(1) x] b32.round_mag_representable[OF assms(1) x] lt] by simp
qed

lemma round32_le:
  assumes "0 \<le> x" and "x \<le> pow2 (int k)" and "k \<le> 100"
  shows "\<exists>y. round32 False x = Fin False y \<and> 0 \<le> y \<and> y \<le> pow2 (int k)"
proof -
  have k: "pow2 (int k) < pow2 128" using assms(3) by (intro pow2_strict_mono) simp
  then have x: "x < pow2 128" using assms(2) by linarith
  have "round_mag 24 (-149) 128 x \<le> pow2 (int k)" using assms(2) x by (intro b32.round_mag_le representableI[of _ 1 "int k"]) simp_all
  then show ?thesis using k b32.round_mag_nonneg[OF assms(1) x] by (auto simp: round32_def round_fp_def Let_def)
qed

text \<open>Inputs and products below these bounds are stored exactly as they are computed.\<close>

lemma of_nat_le_pow2: "k \<le> 2 ^ j \<Longrightarrow> (of_nat k :: rat) \<le> pow2 (int j)"
  unfolding pow2_nat by (metis of_nat_le_iff of_nat_numeral of_nat_power)

lemma hello_input_stored:
  assumes "k \<le> 2 ^ 32"
  shows "decode32 (encode32 (hello_input k)) = hello_input k" and "\<exists>y. hello_input k = Fin False y \<and> 0 \<le> y \<and> y \<le> pow2 32"
proof -
  have i: "hello_input k = round32 False (of_nat k)" by (simp add: hello_input_def fp_of_int_def)
  have le: "(of_nat k :: rat) \<le> pow2 32" using of_nat_le_pow2[OF assms] by simp
  then have "(of_nat k :: rat) \<le> pow2 100" using pow2_mono[of 32 100] by simp
  then show "decode32 (encode32 (hello_input k)) = hello_input k" unfolding i by (intro decode_round) simp_all
  show "\<exists>y. hello_input k = Fin False y \<and> 0 \<le> y \<and> y \<le> pow2 32"
    using round32_le[of "of_nat k" 32] le by (simp add: i)
qed

lemma hello_product_stored:
  assumes "k \<le> 2 ^ 32" and "W \<le> 2 ^ 16"
  shows "decode32 (encode32 (fp_mul round32 (hello_input k) (fp_of_int round32 (int W)))) = fp_mul round32 (hello_input k) (fp_of_int round32 (int W))"
proof -
  obtain y where y: "hello_input k = Fin False y" "0 \<le> y" "y \<le> pow2 32" using hello_input_stored(2)[OF assms(1)] by blast
  obtain z where z: "round32 False (of_nat W) = Fin False z" "0 \<le> z" "z \<le> pow2 16"
    using round32_le[of "of_nat W" 16] of_nat_le_pow2[OF assms(2)] by auto
  have "y * z \<le> pow2 32 * pow2 16" using y z by (intro mult_mono) simp_all
  then have "y * z \<le> pow2 100" using pow2_add[of 32 16] pow2_mono[of 48 100] by simp
  then have "decode32 (encode32 (round32 False (y * z))) = round32 False (y * z)" using y z by (intro decode_round) simp_all
  then show ?thesis using y(1) z(1) by (simp add: fp_of_int_def)
qed

lemma passes_exact:
  assumes "decode32 (m (outp + 4 * k)) = fp_mul round32 (hello_input k) (fp_of_int round32 (int W))"
    and "decode32 (m (inp + 4 * k)) = hello_input k" and "k \<le> 2 ^ 32"
  shows "hello_passes W inp outp m k"
proof -
  have "fp_of_int round32 1 = Fin False 1" using round32_of_int[of 1 0 False] by (simp add: fp_of_int_def)
  then have "\<not> fp_greater (Fin False 0) (fp_of_int round32 1)" by simp
  moreover obtain y where "hello_input k = Fin False y" using hello_input_stored(2)[OF assms(3)] by blast
  then have "\<not> fp_differ (hello_input k) (hello_input k)" by (simp add: fp_differ_def)
  ultimately show ?thesis
    unfolding hello_passes_def Let_def assms(1,2) by (simp add: error_percentage_zero fp_sub_self)
qed

definition hello_start :: "nat \<Rightarrow> bench_env \<Rightarrow> Context \<Rightarrow> bool" where
  "hello_start W env c \<longleftrightarrow>
     (\<exists>b c' sc. be_start env c = Inr (b, c') \<and> context_state c' = CTX_RUNNING \<and> ctx_scheduler c' = Some sc \<and> fs_queue sc = [] \<and>
        ctx_next_id c' = 0 \<and> gc_num_workers (general (ctx_config c')) = W)"

definition arrays_apart :: "nat \<Rightarrow> ptr \<Rightarrow> ptr \<Rightarrow> bool" where
  "arrays_apart n p q \<longleftrightarrow> (\<forall>i < n. \<forall>j < n. p + 4 * i \<noteq> q + 4 * j)"

text \<open>The memory after the wait.\<close>

lemma rows_reduced_at:
  assumes "\<forall>r < rows. \<exists>j. ctx_jobs c r = Some j \<and> job_tensor j = row_tensor inp outp n r" and "arrays_apart (rows * n) inp outp"
  shows "i \<le> rows \<Longrightarrow>
     (\<forall>q < i * n. fold (float_job W c) [0..<i] m (outp + 4 * q) =
        encode32 (fp_mul round32 (decode32 (m (inp + 4 * q))) (fp_of_int round32 (int W)))) \<and>
     (\<forall>a. \<not> (\<exists>q < i * n. a = outp + 4 * q) \<longrightarrow> fold (float_job W c) [0..<i] m a = m a)"
proof (induction i)
  case (Suc i)
  let ?F = "fold (float_job W c) [0..<i] m"
  obtain j where "ctx_jobs c i = Some j" "job_tensor j = row_tensor inp outp n i"
    using assms(1) Suc.prems less_eq_Suc_le by blast
  then have step: "fold (float_job W c) [0..<Suc i] m = float_reduce W (row_tensor inp outp n i) ?F" by (simp add: float_job_def)
  have range: "Suc i * n \<le> rows * n" using Suc.prems by (intro mult_le_mono1) simp
  have input: "?F (inp + 4 * q) = m (inp + 4 * q)" if "q < rows * n" for q
    using Suc that assms(2) range by (auto simp: arrays_apart_def)
  have row: "(\<exists>k < n. outp + 4 * q = outp + 4 * (i * n) + 4 * k) \<longleftrightarrow> i * n \<le> q" if "q < Suc i * n" for q
    using that by (auto intro!: exI[of _ "q - i * n"])
  have "float_reduce W (row_tensor inp outp n i) ?F (outp + 4 * q) =
      encode32 (fp_mul round32 (decode32 (m (inp + 4 * q))) (fp_of_int round32 (int W)))" if q: "q < Suc i * n" for q
  proof (cases "i * n \<le> q")
    case True
    then have "inp + 4 * (i * n) + (outp + 4 * q - (outp + 4 * (i * n))) = inp + 4 * q" by simp
    then show ?thesis using row[OF q] True input[of q] q range by (simp add: float_reduce_def row_tensor_def)
  next
    case False
    then show ?thesis using row[OF q] Suc by (simp add: float_reduce_def row_tensor_def)
  qed
  moreover have "float_reduce W (row_tensor inp outp n i) ?F a = m a" if "\<not> (\<exists>q < Suc i * n. a = outp + 4 * q)" for a
  proof -
    have "\<not> (\<exists>q < i * n. a = outp + 4 * q)" using that by (auto dest: trans_less_add2)
    moreover have "\<not> (\<exists>k < n. a = outp + 4 * (i * n) + 4 * k)"
    proof
      assume "\<exists>k < n. a = outp + 4 * (i * n) + 4 * k"
      then obtain k where "i * n + k < Suc i * n" "a = outp + 4 * (i * n + k)" by auto
      then show False using that by blast
    qed
    ultimately show ?thesis using Suc by (auto simp: float_reduce_def row_tensor_def)
  qed
  ultimately show ?case unfolding step by blast
qed simp

lemma rows_reduced:
  assumes rows: "rows_queued inp outp n rows c" and env: "float_workers W env" and apart: "arrays_apart (rows * n) inp outp"
    and input: "\<forall>q < rows * n. m (inp + 4 * q) = encode32 (hello_input q)" and small: "rows * n \<le> 2 ^ 32" "W \<le> 2 ^ 16"
  obtains c' m' where "be_wait env c m = (c', m')" "context_state c' = CTX_RUNNING" "\<exists>sc. ctx_scheduler c' = Some sc \<and> fs_queue sc = []"
    "\<forall>q < rows * n. hello_passes W inp outp m' q"
proof -
  obtain sc where sc: "ctx_scheduler c = Some sc" "fs_queue sc = [0..<rows]" "context_state c = CTX_RUNNING"
    "\<forall>r < rows. \<exists>j. ctx_jobs c r = Some j \<and> job_tensor j = row_tensor inp outp n r"
    using rows by (auto simp: rows_queued_def)
  define m' where "m' = fold (float_job W c) [0..<rows] m"
  obtain c' sc' where w: "be_wait env c m = (c', m')" "context_state c' = CTX_RUNNING" "ctx_scheduler c' = Some sc'" "fs_queue sc' = []"
    using env sc(1-3) unfolding float_workers_def m'_def by metis
  note at = rows_reduced_at[OF sc(4) apart order_refl, of W m, folded m'_def]
  have "hello_passes W inp outp m' q" if q: "q < rows * n" for q
  proof (rule passes_exact)
    have q32: "q \<le> 2 ^ 32" using q small(1) by simp
    then show "q \<le> 2 ^ 32" .
    have "m' (outp + 4 * q) = encode32 (fp_mul round32 (decode32 (encode32 (hello_input q))) (fp_of_int round32 (int W)))"
      using spec[OF conjunct1[OF at], of q] spec[OF input, of q] q by argo
    then show "decode32 (m' (outp + 4 * q)) = fp_mul round32 (hello_input q) (fp_of_int round32 (int W))"
      by (simp only: hello_input_stored(1)[OF q32] hello_product_stored[OF q32 small(2)])
    have "\<not> (\<exists>p < rows * n. inp + 4 * q = outp + 4 * p)" using apart q unfolding arrays_apart_def by blast
    then have "m' (inp + 4 * q) = encode32 (hello_input q)" using conjunct2[OF at] input q by metis
    then show "decode32 (m' (inp + 4 * q)) = hello_input q" by (simp only: hello_input_stored(1)[OF q32])
  qed
  then show thesis using that[OF w(1,2)] w(3,4) by blast
qed

text \<open>The example ends successfully, with the context stopped, when all sums are exact.\<close>
theorem hello_world_succeeds:
  assumes "hello_start W env ctx" and "float_workers W env" and "arrays_apart (rows * n) inp outp"
    and "rows < 2 ^ 64" and "rows * n \<le> 2 ^ 32" and "W \<le> 2 ^ 16"
  shows "\<exists>s. hello_world env rows n inp outp ctx m = Inr s \<and> context_state (bs_ctx s) = STOPPED"
proof -
  obtain b c sc where c: "be_start env ctx = Inr (b, c)" "context_state c = CTX_RUNNING" "ctx_scheduler c = Some sc" "fs_queue sc = []" "ctx_next_id c = 0"
    "gc_num_workers (general (ctx_config c)) = W"
    using assms(1) unfolding hello_start_def by blast
  define m1 where "m1 = fill_with (\<lambda>k. encode32 (hello_input k)) inp (rows * n) m"
  define s1 where "s1 = \<lparr>bs_ctx = c, bs_mem = m1, bs_begin = 0, bs_durations = [], bs_clocks = 0, bs_stops = 0\<rparr>"
  have "rows_queued inp outp n 0 (bs_ctx s1)" using c by (simp add: rows_queued_def s1_def)
  from submit_rows_ok[OF this assms(4)]
  obtain s2 where s2: "submit_rows inp outp n rows s1 = Inr s2" "rows_queued inp outp n rows (bs_ctx s2)" "bs_mem s2 = m1" by (auto simp: s1_def)
  have "\<forall>q < rows * n. m1 (inp + 4 * q) = encode32 (hello_input q)" by (simp add: m1_def fill_with_at)
  then obtain c' m' sc' where w: "be_wait env (bs_ctx s2) m1 = (c', m')" "context_state c' = CTX_RUNNING" "ctx_scheduler c' = Some sc'" "fs_queue sc' = []"
    "\<forall>q < rows * n. hello_passes W inp outp m' q"
    using rows_reduced[OF s2(2) assms(2,3) _ assms(5,6)] by metis
  have "bench_wait env s2 = Inr (s2\<lparr>bs_ctx := c', bs_mem := m'\<rparr>)"
    using s2(2,3) w(1) by (simp add: bench_wait_def WaitForAllJobs_def rows_queued_def)
  moreover have "\<exists>c2. Context_Stop c' = Inr c2 \<and> context_state c2 = STOPPED" using w(2-4)
    by (simp add: Context_Stop_def Context_Stop_begin_def Context_Stop_flag_def Scheduler_Stop_def Context_Stop_clear_def on_scheduler_def
        FifoScheduler_Stop_clear_def Context_Stop_end_def)
  moreover have "list_all (hello_passes W inp outp m') [0..<rows * n]" using w(5) by (simp add: list_all_iff)
  ultimately show ?thesis using c s2(1) by (auto simp: hello_world_def GetConfig_def m1_def[symmetric] s1_def[symmetric] Let_def)
qed

section \<open>A concrete run\<close>

definition hello_env :: "nat \<Rightarrow> bench_env" where
  "hello_env W =
     \<lparr>be_start = (\<lambda>c. Inr (True, c\<lparr>context_state := CTX_RUNNING, ctx_scheduler := Some (new_FifoScheduler 2),
        ctx_config := default_Config\<lparr>general := (general default_Config)\<lparr>gc_num_workers := W\<rparr>\<rparr>\<rparr>)),
      be_wait = (\<lambda>c m. (c\<lparr>ctx_scheduler := map_option (\<lambda>s. s\<lparr>fs_queue := []\<rparr>) (ctx_scheduler c), number_of_current_jobs := 0\<rparr>,
        fold (float_job W c) (case ctx_scheduler c of None \<Rightarrow> [] | Some s \<Rightarrow> fs_queue s) m)),
      be_wait_job = (\<lambda>_ c m. (c, m)), be_clock = (\<lambda>k. 100 * k), be_stop = (\<lambda>_. False), be_rand = (\<lambda>_. 0)\<rparr>"

text \<open>The numbers of the program: eight tensors of \<open>2\<^sup>1\<^sup>5\<close> elements, with three workers.\<close>

theorem hello_world_succeeds_witness:
  "\<exists>s. hello_world (hello_env 3) 8 (2 ^ 15) 0 (2 ^ 20) (new_Context default_Config) (\<lambda>_. 0) = Inr s \<and> context_state (bs_ctx s) = STOPPED"
proof (rule hello_world_succeeds)
  show "hello_start 3 (hello_env 3) (new_Context default_Config)"
    by (auto simp: hello_start_def hello_env_def new_Context_def new_FifoScheduler_def)
  show "float_workers 3 (hello_env 3)" by (auto simp: float_workers_def hello_env_def)
  show "arrays_apart (8 * 2 ^ 15) 0 (2 ^ 20)" by (auto simp: arrays_apart_def)
qed simp_all

end
